(* ===== verification/Andren_Prelude.thy ===== *)
theory Andren_Prelude
  imports Main "HOL-Library.Word" "HOL-Library.Multiset"
begin

text \<open>
  Shared vocabulary of the development: the machine integer types of the C++ sources, the
  faults a C++ statement can end in (reading a null pointer, indexing a vector out of range,
  dividing by zero, dereferencing an end iterator, throwing), the collections of rewrite
  rules the component theories fill, and generic lemmas on lists that several components use
  (exchanging two positions of a vector, reading a ring buffer as a list).
\<close>

unbundle bit_operations_syntax

type_synonym u8 = "8 word"
type_synonym u16 = "16 word"
type_synonym u32 = "32 word"
type_synonym u64 = "64 word"
type_synonym i8 = "8 word"
type_synonym fd = int
type_synonym bytes = "char list"

text \<open>
  A C++ operation that has no defined result returns \<open>Inl\<close> of one of these faults; an
  operation that completes returns \<open>Inr\<close>.
\<close>

datatype fault =
    Null_Deref
  | Out_Of_Range
  | Div_By_Zero
  | Bad_Iterator
  | Bad_Optional
  | Bad_Function_Call
  | Data_Race
  | Use_After_Free
  | Thrown string

type_synonym 'a outcome = "fault + 'a"

fun bind_out :: "'a outcome \<Rightarrow> ('a \<Rightarrow> 'b outcome) \<Rightarrow> 'b outcome" where
  "bind_out (Inl e) f = Inl e"
| "bind_out (Inr x) f = f x"

lemma bind_out_eq_Inr: "bind_out r f = Inr y \<longleftrightarrow> (\<exists>x. r = Inr x \<and> f x = Inr y)"
  by (cases r) simp_all

lemma bind_out_assoc: "bind_out (bind_out r f) g = bind_out r (\<lambda>x. bind_out (f x) g)"
  by (cases r) simp_all

text \<open>A \<open>for\<close> loop whose body may fault: the first fault ends it.\<close>

fun fold_out :: "('x \<Rightarrow> 's \<Rightarrow> 's outcome) \<Rightarrow> 'x list \<Rightarrow> 's \<Rightarrow> 's outcome" where
  "fold_out f [] s = Inr s"
| "fold_out f (x # xs) s = bind_out (f x s) (fold_out f xs)"

lemma fold_out_append: "fold_out f (xs @ ys) s = bind_out (fold_out f xs s) (fold_out f ys)"
proof (induction xs arbitrary: s)
  case (Cons x xs)
  then show ?case by (cases "f x s") simp_all
qed simp

lemma fold_out_Inr: "(\<And>x s. x \<in> set xs \<Longrightarrow> f x s = Inr (g x s)) \<Longrightarrow> fold_out f xs s = Inr (fold g xs s)"
  by (induction xs arbitrary: s) simp_all

named_theorems heap_defs and queue_defs and loop_defs and net_defs

section \<open>Ranges of the machine integers\<close>

lemma unat_u8 [simp]: "unat (x :: u8) < 256"
  using unsigned_less [of x] by simp

lemma unat_u16: "unat (x :: u16) < 65536"
  using unsigned_less [of x] by simp

lemma unat_u32: "unat (x :: u32) < 4294967296"
  using unsigned_less [of x] by simp

lemma unat_u64: "unat (x :: u64) < 18446744073709551616"
  using unsigned_less [of x] by simp

lemma unat_add_u64:
  "unat (x :: u64) + unat y < 2 ^ 64 \<Longrightarrow> unat (x + y) = unat x + unat y"
  by (simp add: unat_word_ariths)

section \<open>Exchanging two positions of a vector\<close>

definition swap_at :: "'a list \<Rightarrow> nat \<Rightarrow> nat \<Rightarrow> 'a list" where
  "swap_at xs i j = xs[i := xs ! j, j := xs ! i]"

lemma length_swap_at [simp]: "length (swap_at xs i j) = length xs"
  by (simp add: swap_at_def)

lemma nth_swap_at:
  assumes "i < length xs" and "j < length xs"
  shows "swap_at xs i j ! k = (if k = i then xs ! j else if k = j then xs ! i else xs ! k)"
  using assms by (auto simp: swap_at_def nth_list_update)

lemma mset_swap_at [simp]:
  assumes "i < length xs" and "j < length xs"
  shows "mset (swap_at xs i j) = mset xs"
  using assms by (simp add: swap_at_def mset_swap)

lemma swap_at_same [simp]: "swap_at xs i i = xs"
  by (simp add: swap_at_def)

section \<open>Replacing the first element by the last one\<close>

lemma hd_tl_butlast:
  assumes "Suc 0 < length xs"
  shows "add_mset (xs ! 0) (mset ((butlast xs)[0 := last xs])) = mset xs"
proof -
  obtain x ys where xs: "xs = x # ys" and ys: "ys \<noteq> []"
    using assms by (cases xs) auto
  have "mset ys = add_mset (last ys) (mset (butlast ys))"
    using ys by (metis add_mset_add_single append_butlast_last_id mset.simps(1) mset.simps(2) mset_append)
  then show ?thesis
    using xs ys by simp
qed

section \<open>Reading a ring buffer as a list\<close>

text \<open>
  The elements at positions \<open>h, h + 1, \<dots>\<close> (\<open>n\<close> of them), wrapping at the end of the
  vector.
\<close>

definition ring_list :: "'a list \<Rightarrow> nat \<Rightarrow> nat \<Rightarrow> 'a list" where
  "ring_list v h n = map (\<lambda>k. v ! ((h + k) mod length v)) [0..<n]"

lemma length_ring_list [simp]: "length (ring_list v h n) = n"
  by (simp add: ring_list_def)

lemma ring_list_0 [simp]: "ring_list v h 0 = []"
  by (simp add: ring_list_def)

lemma nth_ring_list [simp]: "k < n \<Longrightarrow> ring_list v h n ! k = v ! ((h + k) mod length v)"
  by (simp add: ring_list_def)

lemma ring_list_Suc: "ring_list v h (Suc n) = ring_list v h n @ [v ! ((h + n) mod length v)]"
  by (simp add: ring_list_def)

lemma ring_list_Cons:
  assumes "0 < n"
  shows "ring_list v h n = v ! (h mod length v) # ring_list v ((h + 1) mod length v) (n - 1)"
proof (rule nth_equalityI)
  fix k assume k: "k < length (ring_list v h n)"
  show "ring_list v h n ! k =
    (v ! (h mod length v) # ring_list v ((h + 1) mod length v) (n - 1)) ! k"
  proof (cases k)
    case 0 then show ?thesis using assms by simp
  next
    case (Suc m)
    have "((h + 1) mod length v + m) mod length v = (h + Suc m) mod length v"
      by (simp add: mod_add_left_eq)
    then show ?thesis using Suc k by simp
  qed
qed (use assms in simp)

lemma ring_list_update_other:
  assumes "\<And>k. k < n \<Longrightarrow> (h + k) mod length v \<noteq> i"
  shows "ring_list (v[i := x]) h n = ring_list v h n"
  using assms by (fastforce simp: ring_list_def nth_list_update_neq)

lemma mod_add_once: "h < c \<Longrightarrow> k \<le> c \<Longrightarrow> (h + k) mod c = (if h + k < c then h + k else h + k - c)" for h k c :: nat
  by (auto simp: mod_if)

section \<open>Characters of numbers\<close>

text \<open>\<open>isspace\<close>, \<open>isdigit\<close> and the value of a row of decimal digits, for the conversions of text to numbers.\<close>

definition is_space :: "char \<Rightarrow> bool" where
  "is_space c \<longleftrightarrow> of_char c = (32 :: nat) \<or> (9 \<le> (of_char c :: nat) \<and> (of_char c :: nat) \<le> 13)"

definition is_digit :: "char \<Rightarrow> bool" where
  "is_digit c \<longleftrightarrow> 48 \<le> (of_char c :: nat) \<and> (of_char c :: nat) \<le> 57"

definition digits_value :: "string \<Rightarrow> int" where
  "digits_value ds = foldl (\<lambda>a c. 10 * a + (int (of_char c) - 48)) 0 ds"

end
