(* ===== verification/KV_Pair.thy ===== *)
theory KV_Pair
  imports Andren_Prelude
begin

text \<open>
  \<open>include/base/kvpair.hpp\<close>: the key-value pair that the heaps, the timer manager and the
  socket readers pass around. Its six comparison operators look at the key only.
\<close>

record ('k, 'v) KVPair =
  m_key :: 'k
  m_val :: 'v

definition KVPair_ctor :: "'k \<Rightarrow> 'v \<Rightarrow> ('k, 'v) KVPair" where
  "KVPair_ctor k v = \<lparr>m_key = k, m_val = v\<rparr>"

definition KVPair_swap ::
  "('k, 'v) KVPair \<Rightarrow> ('k, 'v) KVPair \<Rightarrow> ('k, 'v) KVPair \<times> ('k, 'v) KVPair" where
  "KVPair_swap a b =
     (a\<lparr>m_key := m_key b, m_val := m_val b\<rparr>, b\<lparr>m_key := m_key a, m_val := m_val a\<rparr>)"

definition KVPair_key :: "('k, 'v) KVPair \<Rightarrow> 'k" where
  "KVPair_key p = m_key p"

definition KVPair_value :: "('k, 'v) KVPair \<Rightarrow> 'v" where
  "KVPair_value p = m_val p"

definition KVPair_value_from_copy :: "('k, 'v) KVPair \<Rightarrow> 'v" where
  "KVPair_value_from_copy p = m_val p"

definition KVPair_gt :: "('k::linorder, 'v) KVPair \<Rightarrow> ('k, 'v) KVPair \<Rightarrow> bool" where
  "KVPair_gt a b \<longleftrightarrow> m_key a > m_key b"

definition KVPair_lt :: "('k::linorder, 'v) KVPair \<Rightarrow> ('k, 'v) KVPair \<Rightarrow> bool" where
  "KVPair_lt a b \<longleftrightarrow> m_key a < m_key b"

definition KVPair_eq :: "('k::linorder, 'v) KVPair \<Rightarrow> ('k, 'v) KVPair \<Rightarrow> bool" where
  "KVPair_eq a b \<longleftrightarrow> m_key a = m_key b"

definition KVPair_ne :: "('k::linorder, 'v) KVPair \<Rightarrow> ('k, 'v) KVPair \<Rightarrow> bool" where
  "KVPair_ne a b \<longleftrightarrow> m_key a \<noteq> m_key b"

definition KVPair_ge :: "('k::linorder, 'v) KVPair \<Rightarrow> ('k, 'v) KVPair \<Rightarrow> bool" where
  "KVPair_ge a b \<longleftrightarrow> m_key a \<ge> m_key b"

definition KVPair_le :: "('k::linorder, 'v) KVPair \<Rightarrow> ('k, 'v) KVPair \<Rightarrow> bool" where
  "KVPair_le a b \<longleftrightarrow> m_key a \<le> m_key b"

lemmas KVPair_cmp_defs [heap_defs] =
  KVPair_gt_def KVPair_lt_def KVPair_eq_def KVPair_ne_def KVPair_ge_def KVPair_le_def

lemmas KVPair_access_defs [heap_defs] =
  KVPair_ctor_def KVPair_key_def KVPair_value_def KVPair_value_from_copy_def

text \<open>
  The operators form a total preorder on pairs: exactly one of \<open><\<close>, \<open>==\<close> and \<open>>\<close> holds,
  and the other three are the complements C++ users expect. Pairs with one key and different
  values are \<open>==\<close>, so the operators are no order on pairs.
\<close>

lemma KVPair_trichotomy:
  "(KVPair_lt a b \<and> \<not> KVPair_eq a b \<and> \<not> KVPair_gt a b) \<or>
   (\<not> KVPair_lt a b \<and> KVPair_eq a b \<and> \<not> KVPair_gt a b) \<or>
   (\<not> KVPair_lt a b \<and> \<not> KVPair_eq a b \<and> KVPair_gt a b)"
  by (auto simp: heap_defs)

lemma KVPair_complements:
  "KVPair_ge a b = (\<not> KVPair_lt a b)" "KVPair_le a b = (\<not> KVPair_gt a b)"
  "KVPair_ne a b = (\<not> KVPair_eq a b)"
  by (auto simp: heap_defs)

lemma KVPair_swap_swap: "case KVPair_swap a b of (a', b') \<Rightarrow> KVPair_swap a' b' = (a, b)"
  by (simp add: KVPair_swap_def)

section \<open>Copies and moves\<close>

text \<open>
  A move leaves in the source whatever the moves of key and value leave there (\<open>kleft\<close>, \<open>vleft\<close>); moving an object onto
  itself is tested for and does nothing. The last component is what the source holds afterwards.
\<close>

definition KVPair_copy_ctor :: "('k, 'v) KVPair \<Rightarrow> ('k, 'v) KVPair" where
  "KVPair_copy_ctor another = \<lparr>m_key = m_key another, m_val = m_val another\<rparr>"

definition KVPair_move_ctor :: "('k \<Rightarrow> 'k) \<Rightarrow> ('v \<Rightarrow> 'v) \<Rightarrow> ('k, 'v) KVPair \<Rightarrow> ('k, 'v) KVPair \<times> ('k, 'v) KVPair" where
  "KVPair_move_ctor kleft vleft another =
     (\<lparr>m_key = m_key another, m_val = m_val another\<rparr>, \<lparr>m_key = kleft (m_key another), m_val = vleft (m_val another)\<rparr>)"

definition KVPair_copy_assign :: "('k, 'v) KVPair \<Rightarrow> ('k, 'v) KVPair \<Rightarrow> ('k, 'v) KVPair" where
  "KVPair_copy_assign this another = this\<lparr>m_key := m_key another, m_val := m_val another\<rparr>"

definition KVPair_move_assign ::
  "('k \<Rightarrow> 'k) \<Rightarrow> ('v \<Rightarrow> 'v) \<Rightarrow> bool \<Rightarrow> ('k, 'v) KVPair \<Rightarrow> ('k, 'v) KVPair \<Rightarrow> ('k, 'v) KVPair \<times> ('k, 'v) KVPair" where
  "KVPair_move_assign kleft vleft same this another =
     (if same then (this, this)
      else (this\<lparr>m_key := m_key another, m_val := m_val another\<rparr>,
            another\<lparr>m_key := kleft (m_key another), m_val := vleft (m_val another)\<rparr>))"

lemma KVPair_transfers:
  "KVPair_copy_ctor p = p" "fst (KVPair_move_ctor kl vl p) = p" "KVPair_copy_assign q p = p"
  "fst (KVPair_move_assign kl vl False q p) = p" "KVPair_move_assign kl vl True p p = (p, p)"
  by (simp_all add: KVPair_copy_ctor_def KVPair_move_ctor_def KVPair_copy_assign_def KVPair_move_assign_def)

end
