(* ===== verification/Heap_Shape.thy ===== *)
theory Heap_Shape
  imports KV_Pair
begin

text \<open>
  What \<open>BinaryHeap\<close> and \<open>FourWayHeap\<close> share. Both keep a complete tree in a vector and
  differ only in the arithmetic of parent and child positions. The locale \<open>heap_shape\<close> has
  the parent function as its parameter and one law, that a parent stands before its child;
  in it are proved the facts about one round of \<open>sift_up\<close> and of \<open>sift_down\<close>. The locale
  \<open>min_heap\<close> is the contract of a heap as its clients see it: the operations that the
  template parameter \<open>HeapTy\<close> of \<open>MinHeap\<close> and \<open>TimerManger\<close> provides, an invariant, and
  the multiset of stored pairs.
\<close>

section \<open>The heap order on a vector\<close>

definition heap_ordered :: "(nat \<Rightarrow> nat) \<Rightarrow> ('k::linorder, 'v) KVPair list \<Rightarrow> bool" where
  "heap_ordered par xs \<longleftrightarrow> (\<forall>j < length xs. 0 < j \<longrightarrow> m_key (xs ! par j) \<le> m_key (xs ! j))"

text \<open>The order holds everywhere but possibly between \<open>i\<close> and its parent.\<close>

definition heap_but_up :: "(nat \<Rightarrow> nat) \<Rightarrow> ('k::linorder, 'v) KVPair list \<Rightarrow> nat \<Rightarrow> bool" where
  "heap_but_up par xs i \<longleftrightarrow>
     (\<forall>j < length xs. 0 < j \<longrightarrow> j \<noteq> i \<longrightarrow> m_key (xs ! par j) \<le> m_key (xs ! j)) \<and>
     (\<forall>j < length xs. 0 < j \<longrightarrow> par j = i \<longrightarrow> 0 < i \<longrightarrow> m_key (xs ! par i) \<le> m_key (xs ! j))"

text \<open>The order holds everywhere but possibly between \<open>i\<close> and its children.\<close>

definition heap_but_down :: "(nat \<Rightarrow> nat) \<Rightarrow> ('k::linorder, 'v) KVPair list \<Rightarrow> nat \<Rightarrow> bool" where
  "heap_but_down par xs i \<longleftrightarrow>
     (\<forall>j < length xs. 0 < j \<longrightarrow> par j \<noteq> i \<longrightarrow> m_key (xs ! par j) \<le> m_key (xs ! j)) \<and>
     (\<forall>j < length xs. 0 < j \<longrightarrow> par j = i \<longrightarrow> 0 < i \<longrightarrow> m_key (xs ! par i) \<le> m_key (xs ! j))"

locale heap_shape =
  fixes par :: "nat \<Rightarrow> nat"
  assumes par_less: "0 < i \<Longrightarrow> par i < i"
begin

lemma root_minimal:
  assumes "heap_ordered par xs" and "j < length xs"
  shows "m_key (xs ! 0) \<le> m_key (xs ! j)"
  using assms(2)
proof (induction j rule: less_induct)
  case (less j)
  show ?case
  proof (cases "j = 0")
    case False
    then have "par j < j" by (simp add: par_less)
    with less have "m_key (xs ! 0) \<le> m_key (xs ! par j)" by simp
    also have "\<dots> \<le> m_key (xs ! j)"
      using assms(1) less.prems False by (auto simp: heap_ordered_def)
    finally show ?thesis .
  qed simp
qed

lemma append_but_up:
  assumes "heap_ordered par xs"
  shows "heap_but_up par (xs @ [x]) (length xs)"
proof -
  have "par j < length xs" if "j < length xs" "0 < j" for j
    using par_less[OF that(2)] that(1) by simp
  then show ?thesis
    using assms by (auto simp: heap_but_up_def heap_ordered_def nth_append less_Suc_eq
        dest: par_less)
qed

lemma but_up_done:
  assumes "heap_but_up par xs i" and "0 < i \<Longrightarrow> m_key (xs ! par i) \<le> m_key (xs ! i)"
  shows "heap_ordered par xs"
  using assms by (auto simp: heap_but_up_def heap_ordered_def)

lemma up_step:
  assumes "heap_but_up par xs i" and "i < length xs" and "0 < i"
    and "m_key (xs ! i) < m_key (xs ! par i)"
  shows "heap_but_up par (swap_at xs i (par i)) (par i)"
proof -
  have p: "par i < i" "par i < length xs" using assms(2,3) par_less[of i] by simp_all
  note sw = nth_swap_at[OF assms(2) p(2)]
  have ord: "m_key (xs ! par j) \<le> m_key (xs ! j)" if "j < length xs" "0 < j" "j \<noteq> i" for j
    using assms(1) that by (simp add: heap_but_up_def)
  have gp: "m_key (xs ! par i) \<le> m_key (xs ! j)" if "j < length xs" "0 < j" "par j = i" for j
    using assms(1,3) that by (simp add: heap_but_up_def)
  have par_ne: "par j \<noteq> j" if "0 < j" for j using par_less[OF that] by simp
  have 1: "m_key (swap_at xs i (par i) ! par j) \<le> m_key (swap_at xs i (par i) ! j)"
    if "j < length xs" "0 < j" "j \<noteq> par i" for j
    using that ord[of j] gp[of j] par_ne[of j] assms(4) p by (auto simp: sw)
  have 2: "m_key (swap_at xs i (par i) ! par (par i)) \<le> m_key (swap_at xs i (par i) ! j)"
    if "j < length xs" "0 < j" "par j = par i" "0 < par i" for j
  proof -
    have "m_key (xs ! par (par i)) \<le> m_key (xs ! par i)"
      using ord[of "par i"] p that(4) by simp
    moreover have "m_key (xs ! par i) \<le> m_key (xs ! j)" if "j \<noteq> i"
      using ord[of j] that \<open>j < length xs\<close> \<open>0 < j\<close> \<open>par j = par i\<close> by simp
    moreover have "par (par i) \<noteq> i" "par (par i) \<noteq> par i" "j \<noteq> par i"
      using par_less[of "par i"] par_less[of j] that p by auto
    ultimately show ?thesis by (auto simp: sw)
  qed
  show ?thesis using 1 2 by (auto simp: heap_but_up_def)
qed

lemma but_down_done:
  assumes "heap_but_down par xs i"
    and "\<And>j. j < length xs \<Longrightarrow> 0 < j \<Longrightarrow> par j = i \<Longrightarrow> m_key (xs ! i) \<le> m_key (xs ! j)"
  shows "heap_ordered par xs"
  using assms by (auto simp: heap_but_down_def heap_ordered_def)

lemma down_step:
  assumes "heap_but_down par xs i" and "m < length xs" and "0 < m" and "par m = i"
    and "m_key (xs ! m) < m_key (xs ! i)"
    and least: "\<And>j. j < length xs \<Longrightarrow> 0 < j \<Longrightarrow> par j = i \<Longrightarrow> m_key (xs ! m) \<le> m_key (xs ! j)"
  shows "heap_but_down par (swap_at xs i m) m"
proof -
  have i: "i < m" "i < length xs" using assms(2,3,4) par_less[of m] by simp_all
  note sw = nth_swap_at[OF i(2) assms(2)]
  have ord: "m_key (xs ! par j) \<le> m_key (xs ! j)" if "j < length xs" "0 < j" "par j \<noteq> i" for j
    using assms(1) that by (simp add: heap_but_down_def)
  have gp: "m_key (xs ! par i) \<le> m_key (xs ! j)" if "j < length xs" "0 < j" "par j = i" "0 < i" for j
    using assms(1) that by (simp add: heap_but_down_def)
  have par_ne: "par j \<noteq> j" if "0 < j" for j using par_less[OF that] by simp
  have 1: "m_key (swap_at xs i m ! par j) \<le> m_key (swap_at xs i m ! j)"
    if "j < length xs" "0 < j" "par j \<noteq> m" for j
    using that ord[of j] gp[of m] least[of j] par_ne[of j] par_ne[of i] assms(2,3,4,5) i
    by (auto simp: sw)
  have 2: "m_key (swap_at xs i m ! par m) \<le> m_key (swap_at xs i m ! j)"
    if "j < length xs" "0 < j" "par j = m" for j
    using that ord[of j] par_less[of j] i assms(4) by (auto simp: sw)
  show ?thesis using 1 2 by (auto simp: heap_but_down_def)
qed

lemma replace_root_but_down:
  assumes "heap_ordered par xs"
  shows "heap_but_down par ((butlast xs)[0 := x]) 0"
proof -
  have "m_key ((butlast xs)[0 := x] ! par j) \<le> m_key ((butlast xs)[0 := x] ! j)"
    if "j < length xs - 1" "0 < j" "par j \<noteq> 0" for j
  proof -
    have "par j < j" using that(2) by (rule par_less)
    then show ?thesis
      using assms that by (auto simp: heap_ordered_def nth_butlast nth_list_update)
  qed
  then show ?thesis by (auto simp: heap_but_down_def)
qed

end

section \<open>The contract of a heap\<close>

text \<open>The operations of the template parameter \<open>HeapTy\<close>, as one dictionary.\<close>

record ('h, 'k, 'v) HeapTy =
  ht_empty :: 'h
  ht_push :: "'h \<Rightarrow> ('k, 'v) KVPair \<Rightarrow> 'h"
  ht_min_pair :: "'h \<Rightarrow> ('k, 'v) KVPair option"
  ht_extract_min_pair :: "'h \<Rightarrow> ('k, 'v) KVPair option \<times> 'h"
  ht_clear :: "'h \<Rightarrow> 'h"
  ht_size :: "'h \<Rightarrow> nat"

locale min_heap =
  fixes ops :: "('h, 'k::linorder, 'v) HeapTy"
    and invar :: "'h \<Rightarrow> bool"
    and pairs :: "'h \<Rightarrow> ('k, 'v) KVPair multiset"
  assumes invar_empty: "invar (ht_empty ops)"
    and pairs_empty: "pairs (ht_empty ops) = {#}"
    and invar_push: "invar h \<Longrightarrow> invar (ht_push ops h p)"
    and pairs_push: "invar h \<Longrightarrow> pairs (ht_push ops h p) = add_mset p (pairs h)"
    and size_pairs: "ht_size ops h = size (pairs h)"
    and min_None: "ht_min_pair ops h = None \<longleftrightarrow> pairs h = {#}"
    and min_Some: "invar h \<Longrightarrow> ht_min_pair ops h = Some p \<Longrightarrow>
      p \<in># pairs h \<and> (\<forall>q \<in># pairs h. m_key p \<le> m_key q)"
    and extract_min: "fst (ht_extract_min_pair ops h) = ht_min_pair ops h"
    and pairs_extract: "invar h \<Longrightarrow> ht_min_pair ops h = Some p \<Longrightarrow>
      add_mset p (pairs (snd (ht_extract_min_pair ops h))) = pairs h"
    and invar_extract: "invar h \<Longrightarrow> invar (snd (ht_extract_min_pair ops h))"
    and invar_clear: "invar (ht_clear ops h)"
    and pairs_clear: "pairs (ht_clear ops h) = {#}"
begin

lemma size_0_iff: "ht_size ops h = 0 \<longleftrightarrow> ht_min_pair ops h = None"
  by (simp add: size_pairs min_None)

lemma size_extract:
  assumes "invar h" and "0 < ht_size ops h"
  shows "Suc (ht_size ops (snd (ht_extract_min_pair ops h))) = ht_size ops h"
proof -
  obtain p where "ht_min_pair ops h = Some p"
    using assms(2) size_0_iff[of h] by (cases "ht_min_pair ops h") auto
  from pairs_extract[OF assms(1) this] show ?thesis
    by (metis size_add_mset size_pairs)
qed

end

end
