(* ===== verification/Binary_Heap.thy ===== *)
theory Binary_Heap
  imports Heap_Shape
begin

text \<open>
  \<open>include/base/binaryheap.hpp\<close>: the minimum heap on an array binary tree. The vector
  \<open>m_data\<close> is a list; positions are natural numbers, and \<open>BinaryHeap_index_no_wrap\<close> shows
  that the 64-bit index arithmetic of the source gives the same positions for every heap that
  fits in memory. The loops of \<open>sift_up\<close> and \<open>sift_down\<close> are recursive functions with their
  termination proofs.
\<close>

record ('k, 'v) BinaryHeap =
  m_data :: "('k, 'v) KVPair list"

definition BinaryHeap_ctor :: "('k, 'v) BinaryHeap" where
  "BinaryHeap_ctor = \<lparr>m_data = []\<rparr>"

definition BinaryHeap_copy :: "('k, 'v) BinaryHeap \<Rightarrow> ('k, 'v) BinaryHeap" where
  "BinaryHeap_copy another = \<lparr>m_data = m_data another\<rparr>"

text \<open>Moving leaves the source's vector empty. The results are the new object and the source.\<close>

definition BinaryHeap_move ::
  "('k, 'v) BinaryHeap \<Rightarrow> ('k, 'v) BinaryHeap \<times> ('k, 'v) BinaryHeap" where
  "BinaryHeap_move another = (\<lparr>m_data = m_data another\<rparr>, another\<lparr>m_data := []\<rparr>)"

definition BinaryHeap_size :: "('k, 'v) BinaryHeap \<Rightarrow> nat" where
  "BinaryHeap_size h = length (m_data h)"

definition BinaryHeap_clear :: "('k, 'v) BinaryHeap \<Rightarrow> ('k, 'v) BinaryHeap" where
  "BinaryHeap_clear h = h\<lparr>m_data := []\<rparr>"

definition BinaryHeap_parent :: "nat \<Rightarrow> nat" where
  "BinaryHeap_parent i = (i - 1) div 2"

definition BinaryHeap_left :: "nat \<Rightarrow> nat" where
  "BinaryHeap_left i = i * 2 + 1"

definition BinaryHeap_right :: "nat \<Rightarrow> nat" where
  "BinaryHeap_right i = i * 2 + 2"

text \<open>The same three functions at the width the source declares, \<open>uint64_t\<close>.\<close>

definition BinaryHeap_parent_u64 :: "u64 \<Rightarrow> u64" where
  "BinaryHeap_parent_u64 i = (i - 1) div 2"

definition BinaryHeap_left_u64 :: "u64 \<Rightarrow> u64" where
  "BinaryHeap_left_u64 i = i * 2 + 1"

definition BinaryHeap_right_u64 :: "u64 \<Rightarrow> u64" where
  "BinaryHeap_right_u64 i = i * 2 + 2"

lemmas BinaryHeap_index_defs [heap_defs] =
  BinaryHeap_parent_def BinaryHeap_left_def BinaryHeap_right_def

lemma BinaryHeap_parent_less [simp, intro]: "0 < i \<Longrightarrow> BinaryHeap_parent i < i"
  by (simp add: BinaryHeap_parent_def)

function BinaryHeap_sift_up ::
  "('k::linorder, 'v) KVPair list \<Rightarrow> nat \<Rightarrow> ('k, 'v) KVPair list" where
  "BinaryHeap_sift_up d i =
     (if 0 < i \<and> KVPair_lt (d ! i) (d ! BinaryHeap_parent i)
      then BinaryHeap_sift_up (swap_at d i (BinaryHeap_parent i)) (BinaryHeap_parent i)
      else d)"
  by pat_completeness auto
termination
  by (relation "measure snd") auto

text \<open>The position that one round of the \<open>sift_down\<close> loop selects.\<close>

definition BinaryHeap_least :: "('k::linorder, 'v) KVPair list \<Rightarrow> nat \<Rightarrow> nat" where
  "BinaryHeap_least d i =
     (let li = BinaryHeap_left i;
          ri = BinaryHeap_right i;
          mi = (if li < length d \<and> KVPair_lt (d ! li) (d ! i) then li else i)
      in if ri < length d \<and> KVPair_lt (d ! ri) (d ! mi) then ri else mi)"

lemma BinaryHeap_least_cases:
  "BinaryHeap_least d i = i \<or>
   (BinaryHeap_least d i < length d \<and> i < BinaryHeap_least d i \<and>
    BinaryHeap_parent (BinaryHeap_least d i) = i)"
  by (auto simp: BinaryHeap_least_def Let_def heap_defs)

function BinaryHeap_sift_down ::
  "('k::linorder, 'v) KVPair list \<Rightarrow> nat \<Rightarrow> ('k, 'v) KVPair list" where
  "BinaryHeap_sift_down d i =
     (let mi = BinaryHeap_least d i
      in if i \<noteq> mi then BinaryHeap_sift_down (swap_at d i mi) mi else d)"
  by pat_completeness auto
termination
proof (relation "measure (\<lambda>(d, i). length d - i)")
  fix d :: "('k::linorder, 'v) KVPair list" and i x
  assume "x = BinaryHeap_least d i" and "i \<noteq> x"
  then show "((swap_at d i x, x), d, i) \<in> measure (\<lambda>(d, i). length d - i)"
    using BinaryHeap_least_cases[of d i] by auto
qed simp

definition BinaryHeap_push ::
  "('k::linorder, 'v) BinaryHeap \<Rightarrow> ('k, 'v) KVPair \<Rightarrow> ('k, 'v) BinaryHeap" where
  "BinaryHeap_push h kv =
     (let d = m_data h @ [kv]
      in h\<lparr>m_data := BinaryHeap_sift_up d (length d - 1)\<rparr>)"

definition BinaryHeap_push_key ::
  "('k::linorder, 'v) BinaryHeap \<Rightarrow> 'k \<Rightarrow> 'v \<Rightarrow> ('k, 'v) BinaryHeap" where
  "BinaryHeap_push_key h key val = BinaryHeap_push h (KVPair_ctor key val)"

definition BinaryHeap_min_pair :: "('k, 'v) BinaryHeap \<Rightarrow> ('k, 'v) KVPair option" where
  "BinaryHeap_min_pair h = (if 0 < BinaryHeap_size h then Some (m_data h ! 0) else None)"

definition BinaryHeap_extract_min_pair ::
  "('k::linorder, 'v) BinaryHeap \<Rightarrow> ('k, 'v) KVPair option \<times> ('k, 'v) BinaryHeap" where
  "BinaryHeap_extract_min_pair h =
     (if BinaryHeap_size h \<le> 0 then (None, h)
      else let ret = Some (m_data h ! 0);
               lst = m_data h ! (BinaryHeap_size h - 1);
               d = butlast (m_data h)
           in if 0 < length d then (ret, h\<lparr>m_data := BinaryHeap_sift_down (d[0 := lst]) 0\<rparr>)
              else (ret, h\<lparr>m_data := d\<rparr>))"

text \<open>
  \<open>foreach_pair\<close> hands each stored pair by reference to the callback, which may write it; an
  empty callback ends the call. The callback threads the caller's own state.
\<close>

fun foreach_ref :: "('a \<Rightarrow> 's \<Rightarrow> 'a \<times> 's) \<Rightarrow> 'a list \<Rightarrow> 's \<Rightarrow> 'a list \<times> 's" where
  "foreach_ref cb [] s = ([], s)"
| "foreach_ref cb (x # xs) s =
     (let (x', s') = cb x s; (xs', s'') = foreach_ref cb xs s' in (x' # xs', s''))"

definition BinaryHeap_foreach_pair ::
  "('k, 'v) BinaryHeap \<Rightarrow> (('k, 'v) KVPair \<Rightarrow> 's \<Rightarrow> ('k, 'v) KVPair \<times> 's) option \<Rightarrow> 's
     \<Rightarrow> ('k, 'v) BinaryHeap \<times> 's" where
  "BinaryHeap_foreach_pair h cb s =
     (case cb of None \<Rightarrow> (h, s)
      | Some f \<Rightarrow> (let (d, s') = foreach_ref f (m_data h) s in (h\<lparr>m_data := d\<rparr>, s')))"

definition BinaryHeap_foreach_pair_const ::
  "('k, 'v) BinaryHeap \<Rightarrow> (('k, 'v) KVPair \<Rightarrow> 's \<Rightarrow> 's) option \<Rightarrow> 's \<Rightarrow> 's" where
  "BinaryHeap_foreach_pair_const h cb s =
     (case cb of None \<Rightarrow> s | Some f \<Rightarrow> fold f (m_data h) s)"

definition BinaryHeap_ops :: "(('k::linorder, 'v) BinaryHeap, 'k, 'v) HeapTy" where
  "BinaryHeap_ops = \<lparr>ht_empty = BinaryHeap_ctor, ht_push = BinaryHeap_push,
     ht_min_pair = BinaryHeap_min_pair, ht_extract_min_pair = BinaryHeap_extract_min_pair,
     ht_clear = BinaryHeap_clear, ht_size = BinaryHeap_size\<rparr>"

definition BinaryHeap_inv :: "('k::linorder, 'v) BinaryHeap \<Rightarrow> bool" where
  "BinaryHeap_inv h \<longleftrightarrow> heap_ordered BinaryHeap_parent (m_data h)"

declare BinaryHeap_sift_up.simps [simp del] BinaryHeap_sift_down.simps [simp del]

interpretation bin_shape: heap_shape BinaryHeap_parent
  by unfold_locales (rule BinaryHeap_parent_less)

lemma BinaryHeap_children: "0 < j \<Longrightarrow> BinaryHeap_parent j = i \<longleftrightarrow> j = 2 * i + 1 \<or> j = 2 * i + 2"
  by (auto simp: BinaryHeap_parent_def)

section \<open>Both sifting loops keep the pairs and restore the order\<close>

lemma length_sift_up [simp]: "length (BinaryHeap_sift_up d i) = length d"
proof (induction d i rule: BinaryHeap_sift_up.induct)
  case (1 d i)
  then show ?case by (simp add: BinaryHeap_sift_up.simps[of d i])
qed

lemma mset_sift_up: "i < length d \<Longrightarrow> mset (BinaryHeap_sift_up d i) = mset d"
proof (induction d i rule: BinaryHeap_sift_up.induct)
  case (1 d i)
  show ?case
  proof (cases "0 < i \<and> KVPair_lt (d ! i) (d ! BinaryHeap_parent i)")
    case True
    then have "BinaryHeap_parent i < length d"
      using 1(2) BinaryHeap_parent_less[of i] by linarith
    with 1 True show ?thesis by (simp add: BinaryHeap_sift_up.simps[of d i])
  qed (auto simp: BinaryHeap_sift_up.simps[of d i])
qed

lemma sift_up_ordered:
  "i < length d \<Longrightarrow> heap_but_up BinaryHeap_parent d i \<Longrightarrow>
   heap_ordered BinaryHeap_parent (BinaryHeap_sift_up d i)"
proof (induction d i rule: BinaryHeap_sift_up.induct)
  case (1 d i)
  show ?case
  proof (cases "0 < i \<and> KVPair_lt (d ! i) (d ! BinaryHeap_parent i)")
    case True
    then have "BinaryHeap_parent i < length d"
      using 1(2) BinaryHeap_parent_less[of i] by linarith
    with 1 True show ?thesis
      using bin_shape.up_step[of d i]
      by (simp add: BinaryHeap_sift_up.simps[of d i] KVPair_lt_def)
  next
    case False
    then show ?thesis
      using bin_shape.but_up_done[OF 1(3)]
      by (auto simp: BinaryHeap_sift_up.simps[of d i] KVPair_lt_def not_less)
  qed
qed

lemma BinaryHeap_least_is_least:
  assumes "j < length d" and "0 < j" and "BinaryHeap_parent j = i"
  shows "m_key (d ! BinaryHeap_least d i) \<le> m_key (d ! j)"
  using assms unfolding BinaryHeap_children[OF assms(2)]
  by (auto simp: BinaryHeap_least_def Let_def heap_defs mult.commute)

lemma BinaryHeap_least_less:
  "BinaryHeap_least d i \<noteq> i \<Longrightarrow> m_key (d ! BinaryHeap_least d i) < m_key (d ! i)"
  by (auto simp: BinaryHeap_least_def Let_def heap_defs split: if_splits)

lemma length_sift_down [simp]: "length (BinaryHeap_sift_down d i) = length d"
proof (induction d i rule: BinaryHeap_sift_down.induct)
  case (1 d i)
  then show ?case by (simp add: BinaryHeap_sift_down.simps[of d i] Let_def)
qed

lemma mset_sift_down: "i < length d \<Longrightarrow> mset (BinaryHeap_sift_down d i) = mset d"
proof (induction d i rule: BinaryHeap_sift_down.induct)
  case (1 d i)
  show ?case
  proof (cases "i = BinaryHeap_least d i")
    case False
    then have "BinaryHeap_least d i < length d" using BinaryHeap_least_cases[of d i] by auto
    with 1 False show ?thesis by (simp add: BinaryHeap_sift_down.simps[of d i] Let_def)
  qed (simp add: BinaryHeap_sift_down.simps[of d i] Let_def)
qed

lemma sift_down_ordered:
  "heap_but_down BinaryHeap_parent d i \<Longrightarrow>
   heap_ordered BinaryHeap_parent (BinaryHeap_sift_down d i)"
proof (induction d i rule: BinaryHeap_sift_down.induct)
  case (1 d i)
  show ?case
  proof (cases "i = BinaryHeap_least d i")
    case True
    then show ?thesis
      using bin_shape.but_down_done[OF 1(2)] BinaryHeap_least_is_least[of _ d i]
      by (simp add: BinaryHeap_sift_down.simps[of d i] Let_def)
  next
    case False
    have "heap_but_down BinaryHeap_parent (swap_at d i (BinaryHeap_least d i)) (BinaryHeap_least d i)"
      using False BinaryHeap_least_cases[of d i] BinaryHeap_least_less[of d i]
      by (intro bin_shape.down_step[OF 1(2)] BinaryHeap_least_is_least) auto
    with 1(1)[OF refl False] False show ?thesis
      by (simp add: BinaryHeap_sift_down.simps[of d i] Let_def)
  qed
qed

section \<open>The operations meet the heap contract\<close>

lemma BinaryHeap_push_inv: "BinaryHeap_inv h \<Longrightarrow> BinaryHeap_inv (BinaryHeap_push h p)"
  by (simp add: BinaryHeap_inv_def BinaryHeap_push_def sift_up_ordered bin_shape.append_but_up)

lemma BinaryHeap_push_mset: "mset (m_data (BinaryHeap_push h p)) = add_mset p (mset (m_data h))"
  by (simp add: BinaryHeap_push_def mset_sift_up)

lemma BinaryHeap_min_is_least:
  assumes "BinaryHeap_inv h" and "BinaryHeap_min_pair h = Some p"
  shows "p \<in># mset (m_data h) \<and> (\<forall>q \<in># mset (m_data h). m_key p \<le> m_key q)"
  using assms bin_shape.root_minimal[of "m_data h"]
  by (auto simp: BinaryHeap_min_pair_def BinaryHeap_size_def BinaryHeap_inv_def in_set_conv_nth
      split: if_splits)

lemma BinaryHeap_min_None: "BinaryHeap_min_pair h = None \<longleftrightarrow> m_data h = []"
  by (simp add: BinaryHeap_min_pair_def BinaryHeap_size_def)

lemma BinaryHeap_inv_empty: "m_data h = [] \<Longrightarrow> BinaryHeap_inv h"
  by (simp add: BinaryHeap_inv_def heap_ordered_def)

lemma last_is_nth: "xs \<noteq> [] \<Longrightarrow> xs ! (length xs - Suc 0) = last xs"
  by (simp add: last_conv_nth)

lemma BinaryHeap_extract_inv:
  "BinaryHeap_inv h \<Longrightarrow> BinaryHeap_inv (snd (BinaryHeap_extract_min_pair h))"
proof -
  assume h: "BinaryHeap_inv h"
  have "heap_ordered BinaryHeap_parent (butlast (m_data h))" if "length (m_data h) = 1"
    using that by (simp add: heap_ordered_def)
  then show ?thesis
    using h by (auto simp: BinaryHeap_extract_min_pair_def BinaryHeap_inv_def BinaryHeap_size_def
        Let_def heap_ordered_def[of _ "[]"]
        intro!: sift_down_ordered bin_shape.replace_root_but_down)
qed

lemma BinaryHeap_extract_fst: "fst (BinaryHeap_extract_min_pair h) = BinaryHeap_min_pair h"
  by (simp add: BinaryHeap_extract_min_pair_def BinaryHeap_min_pair_def Let_def)

lemma BinaryHeap_extract_mset:
  assumes "BinaryHeap_min_pair h = Some p"
  shows "add_mset p (mset (m_data (snd (BinaryHeap_extract_min_pair h)))) = mset (m_data h)"
proof (cases "length (m_data h) = 1")
  case True
  then obtain x where "m_data h = [x]" by (auto simp: length_Suc_conv)
  then show ?thesis
    using assms by (simp add: BinaryHeap_extract_min_pair_def BinaryHeap_min_pair_def
        BinaryHeap_size_def Let_def)
next
  case False
  have "0 < length (m_data h)"
    using assms by (auto simp: BinaryHeap_min_pair_def BinaryHeap_size_def split: if_splits)
  with False have "Suc 0 < length (m_data h)" by linarith
  moreover from this have "m_data h \<noteq> []" by auto
  ultimately show ?thesis
    using assms hd_tl_butlast[of "m_data h"]
    by (auto simp: BinaryHeap_extract_min_pair_def BinaryHeap_min_pair_def BinaryHeap_size_def
        Let_def mset_sift_down last_is_nth)
qed

interpretation bin_heap: min_heap BinaryHeap_ops BinaryHeap_inv "\<lambda>h. mset (m_data h)"
  by unfold_locales (auto simp: BinaryHeap_ops_def BinaryHeap_push_inv BinaryHeap_push_mset BinaryHeap_extract_inv
    BinaryHeap_extract_fst BinaryHeap_extract_mset BinaryHeap_size_def BinaryHeap_clear_def
    BinaryHeap_ctor_def BinaryHeap_inv_empty BinaryHeap_min_None
    dest: BinaryHeap_min_is_least)

section \<open>Properties\<close>

text \<open>
  The 64-bit index arithmetic of the source agrees with the positions of the
  model: for every position below \<open>2 ^ 62\<close> the children do not wrap, and for every position
  above 0 the parent is the one the model uses.
\<close>

theorem BinaryHeap_index_no_wrap:
  assumes "0 < unat i" and "unat i < 2 ^ 62"
  shows "unat (BinaryHeap_parent_u64 i) = BinaryHeap_parent (unat i) \<and>
     unat (BinaryHeap_left_u64 i) = BinaryHeap_left (unat i) \<and>
     unat (BinaryHeap_right_u64 i) = BinaryHeap_right (unat i)"
proof -
  have "i \<noteq> 0" using assms(1) by auto
  then have "unat (i - 1) = unat i - 1" by (simp add: unat_minus_one)
  moreover have "unat (i * 2) = unat i * 2"
    using assms(2) by (simp add: unat_word_ariths)
  moreover from this have "unat (i * 2 + 1) = unat i * 2 + 1" "unat (i * 2 + 2) = unat i * 2 + 2"
    using assms(2) by (simp_all add: unat_word_ariths)
  ultimately show ?thesis
    by (simp add: BinaryHeap_parent_u64_def BinaryHeap_left_u64_def BinaryHeap_right_u64_def
        heap_defs unat_div)
qed

theorem BinaryHeap_index_no_wrap_witness:
  "0 < unat (5 :: u64) \<and> unat (5 :: u64) < 2 ^ 62 \<and>
   unat (BinaryHeap_parent_u64 5) = BinaryHeap_parent (unat (5 :: u64)) \<and>
   unat (BinaryHeap_left_u64 5) = BinaryHeap_left (unat (5 :: u64)) \<and>
   unat (BinaryHeap_right_u64 5) = BinaryHeap_right (unat (5 :: u64))"
  using BinaryHeap_index_no_wrap [of 5] by simp

text \<open>
  Property C35. Every operation of the binary heap keeps the heap order, and after each of them
  the pairs stored are exactly the ones the operation's contract says: one more after a push,
  the returned minimum less after an extraction, none after \<open>clear\<close>.
\<close>

theorem BinaryHeap_operations_keep_order:
  assumes "BinaryHeap_inv h"
  shows "BinaryHeap_inv (BinaryHeap_push h p) \<and>
     mset (m_data (BinaryHeap_push h p)) = add_mset p (mset (m_data h)) \<and>
     BinaryHeap_inv (snd (BinaryHeap_extract_min_pair h)) \<and>
     (case BinaryHeap_extract_min_pair h of
        (None, h') \<Rightarrow> m_data h = [] \<and> h' = h
      | (Some q, h') \<Rightarrow> mset (m_data h) = add_mset q (mset (m_data h')) \<and>
          (\<forall>r \<in> set (m_data h). m_key q \<le> m_key r)) \<and>
     BinaryHeap_inv (BinaryHeap_clear h) \<and> m_data (BinaryHeap_clear h) = []"
proof -
  have "case BinaryHeap_extract_min_pair h of
        (None, h') \<Rightarrow> m_data h = [] \<and> h' = h
      | (Some q, h') \<Rightarrow> mset (m_data h) = add_mset q (mset (m_data h')) \<and>
          (\<forall>r \<in> set (m_data h). m_key q \<le> m_key r)"
  proof (cases "BinaryHeap_min_pair h")
    case None
    then show ?thesis
      by (simp add: BinaryHeap_extract_min_pair_def BinaryHeap_min_None BinaryHeap_size_def)
  next
    case (Some q)
    then obtain h' where "BinaryHeap_extract_min_pair h = (Some q, h')"
      using BinaryHeap_extract_fst[of h] by (cases "BinaryHeap_extract_min_pair h") auto
    then show ?thesis
      using BinaryHeap_extract_mset[OF Some] BinaryHeap_min_is_least[OF assms Some] by simp
  qed
  then show ?thesis
    using BinaryHeap_push_inv[OF assms] BinaryHeap_extract_inv[OF assms]
    by (simp add: BinaryHeap_push_mset BinaryHeap_inv_empty BinaryHeap_clear_def)
qed

theorem BinaryHeap_operations_keep_order_witness:
  "let h = (\<lparr>m_data = [\<lparr>m_key = 1, m_val = ''a''\<rparr>, \<lparr>m_key = 3, m_val = ''b''\<rparr>]\<rparr> :: (nat, string) BinaryHeap)
   in BinaryHeap_inv h \<and> BinaryHeap_inv (snd (BinaryHeap_extract_min_pair h))"
proof -
  have "BinaryHeap_inv (\<lparr>m_data = [\<lparr>m_key = 1, m_val = ''a''\<rparr>, \<lparr>m_key = 3, m_val = ''b''\<rparr>]\<rparr>
      :: (nat, string) BinaryHeap)"
    by (simp add: BinaryHeap_inv_def heap_ordered_def BinaryHeap_parent_def less_Suc_eq)
  from BinaryHeap_operations_keep_order [OF this] this show ?thesis by (simp add: Let_def)
qed

end
