(* ===== verification/Four_Way_Heap.thy ===== *)
theory Four_Way_Heap
  imports Binary_Heap
begin

text \<open>
  \<open>include/base/fourwayheap.hpp\<close>: the same heap on a tree with four children per node. Only
  the index arithmetic and the search for the least child differ from the binary heap; the
  source writes the search as a loop over the four children, which is a fold here.
\<close>

record ('k, 'v) FourWayHeap =
  fw_data :: "('k, 'v) KVPair list"

definition FourWayHeap_ctor :: "('k, 'v) FourWayHeap" where
  "FourWayHeap_ctor = \<lparr>fw_data = []\<rparr>"

definition FourWayHeap_copy :: "('k, 'v) FourWayHeap \<Rightarrow> ('k, 'v) FourWayHeap" where
  "FourWayHeap_copy another = \<lparr>fw_data = fw_data another\<rparr>"

text \<open>Moving leaves the source's vector empty. The results are the new object and the source.\<close>

definition FourWayHeap_move ::
  "('k, 'v) FourWayHeap \<Rightarrow> ('k, 'v) FourWayHeap \<times> ('k, 'v) FourWayHeap" where
  "FourWayHeap_move another = (\<lparr>fw_data = fw_data another\<rparr>, another\<lparr>fw_data := []\<rparr>)"

definition FourWayHeap_size :: "('k, 'v) FourWayHeap \<Rightarrow> nat" where
  "FourWayHeap_size h = length (fw_data h)"

definition FourWayHeap_clear :: "('k, 'v) FourWayHeap \<Rightarrow> ('k, 'v) FourWayHeap" where
  "FourWayHeap_clear h = h\<lparr>fw_data := []\<rparr>"

definition FourWayHeap_parent :: "nat \<Rightarrow> nat" where
  "FourWayHeap_parent i = (i - 1) div 4"

definition FourWayHeap_child :: "nat \<Rightarrow> nat \<Rightarrow> nat" where
  "FourWayHeap_child i k = i * 4 + k"

definition FourWayHeap_parent_u64 :: "u64 \<Rightarrow> u64" where
  "FourWayHeap_parent_u64 i = (i - 1) div 4"

definition FourWayHeap_child_u64 :: "u64 \<Rightarrow> u64 \<Rightarrow> u64" where
  "FourWayHeap_child_u64 i k = i * 4 + k"

lemmas FourWayHeap_index_defs [heap_defs] =
  FourWayHeap_parent_def FourWayHeap_child_def

lemma FourWayHeap_parent_less [simp, intro]: "0 < i \<Longrightarrow> FourWayHeap_parent i < i"
  by (simp add: FourWayHeap_parent_def)

function FourWayHeap_sift_up ::
  "('k::linorder, 'v) KVPair list \<Rightarrow> nat \<Rightarrow> ('k, 'v) KVPair list" where
  "FourWayHeap_sift_up d i =
     (if 0 < i \<and> KVPair_lt (d ! i) (d ! FourWayHeap_parent i)
      then FourWayHeap_sift_up (swap_at d i (FourWayHeap_parent i)) (FourWayHeap_parent i)
      else d)"
  by pat_completeness auto
termination
  by (relation "measure snd") auto

text \<open>
  One comparison of the search for the least child, and the search, which one round of the
  \<open>sift_down\<close> loop makes.
\<close>

definition FourWayHeap_pick :: "('k::linorder, 'v) KVPair list \<Rightarrow> nat \<Rightarrow> nat \<Rightarrow> nat" where
  "FourWayHeap_pick d ci mi = (if ci < length d \<and> KVPair_lt (d ! ci) (d ! mi) then ci else mi)"

definition FourWayHeap_least :: "('k::linorder, 'v) KVPair list \<Rightarrow> nat \<Rightarrow> nat" where
  "FourWayHeap_least d i =
     fold (\<lambda>k mi. FourWayHeap_pick d (FourWayHeap_child i k) mi) [1, 2, 3, 4] i"

lemma fold_pick_le:
  "m_key (d ! fold (\<lambda>k. FourWayHeap_pick d (f k)) ks mi) \<le> m_key (d ! mi)"
  by (induction ks arbitrary: mi)
    (auto simp: FourWayHeap_pick_def KVPair_lt_def split: if_splits
      intro: order.trans less_imp_le)

lemma fold_pick_le_member:
  "k \<in> set ks \<Longrightarrow> f k < length d \<Longrightarrow>
   m_key (d ! fold (\<lambda>k. FourWayHeap_pick d (f k)) ks mi) \<le> m_key (d ! f k)"
proof (induction ks arbitrary: mi)
  case (Cons a ks)
  have "m_key (d ! FourWayHeap_pick d (f k) mi) \<le> m_key (d ! f k)"
    using Cons.prems(2) by (auto simp: FourWayHeap_pick_def KVPair_lt_def)
  then show ?case
    using Cons by (auto intro: order.trans[OF fold_pick_le])
qed simp

lemma fold_pick_cases:
  "fold (\<lambda>k. FourWayHeap_pick d (f k)) ks mi = mi \<or>
   (\<exists>k \<in> set ks. fold (\<lambda>k. FourWayHeap_pick d (f k)) ks mi = f k \<and> f k < length d \<and>
      m_key (d ! f k) < m_key (d ! mi))"
proof (induction ks arbitrary: mi)
  case (Cons a ks)
  show ?case
  proof (cases "f a < length d \<and> KVPair_lt (d ! f a) (d ! mi)")
    case True
    then have p: "FourWayHeap_pick d (f a) mi = f a" by (simp add: FourWayHeap_pick_def)
    show ?thesis
      using Cons[of "f a"] True by (auto simp: p KVPair_lt_def intro: less_trans)
  next
    case False
    then have p: "FourWayHeap_pick d (f a) mi = mi" by (auto simp: FourWayHeap_pick_def)
    show ?thesis using Cons[of mi] by (auto simp: p)
  qed
qed simp

lemma FourWayHeap_is_child:
  assumes "0 < j"
  shows "\<exists>k \<in> set [1, 2, 3, 4]. j = FourWayHeap_child (FourWayHeap_parent j) k"
proof -
  have small: "r < 4 \<Longrightarrow> r + 1 \<in> set [1, 2, 3, 4]" for r :: nat
    by (cases r rule: nat.exhaust) auto
  have "(j - 1) mod 4 + 1 \<in> set [1, 2, 3, 4]"
    by (rule small) simp
  moreover have "j = FourWayHeap_child (FourWayHeap_parent j) ((j - 1) mod 4 + 1)"
    using assms div_mult_mod_eq[of "j - 1" 4]
    by (simp add: FourWayHeap_child_def FourWayHeap_parent_def)
  ultimately show ?thesis by blast
qed

lemma FourWayHeap_least_cases:
  "FourWayHeap_least d i = i \<or>
   (FourWayHeap_least d i < length d \<and> i < FourWayHeap_least d i \<and>
    FourWayHeap_parent (FourWayHeap_least d i) = i)"
  using fold_pick_cases[of d "FourWayHeap_child i" "[1, 2, 3, 4]" i]
  by (auto simp: FourWayHeap_least_def heap_defs)

function FourWayHeap_sift_down ::
  "('k::linorder, 'v) KVPair list \<Rightarrow> nat \<Rightarrow> ('k, 'v) KVPair list" where
  "FourWayHeap_sift_down d i =
     (let mi = FourWayHeap_least d i
      in if i \<noteq> mi then FourWayHeap_sift_down (swap_at d i mi) mi else d)"
  by pat_completeness auto
termination
proof (relation "measure (\<lambda>(d, i). length d - i)")
  fix d :: "('k::linorder, 'v) KVPair list" and i x
  assume "x = FourWayHeap_least d i" and "i \<noteq> x"
  then show "((swap_at d i x, x), d, i) \<in> measure (\<lambda>(d, i). length d - i)"
    using FourWayHeap_least_cases[of d i] by auto
qed simp

definition FourWayHeap_push ::
  "('k::linorder, 'v) FourWayHeap \<Rightarrow> ('k, 'v) KVPair \<Rightarrow> ('k, 'v) FourWayHeap" where
  "FourWayHeap_push h kv =
     (let d = fw_data h @ [kv]
      in h\<lparr>fw_data := FourWayHeap_sift_up d (length d - 1)\<rparr>)"

definition FourWayHeap_push_key ::
  "('k::linorder, 'v) FourWayHeap \<Rightarrow> 'k \<Rightarrow> 'v \<Rightarrow> ('k, 'v) FourWayHeap" where
  "FourWayHeap_push_key h key val = FourWayHeap_push h (KVPair_ctor key val)"

definition FourWayHeap_min_pair :: "('k, 'v) FourWayHeap \<Rightarrow> ('k, 'v) KVPair option" where
  "FourWayHeap_min_pair h = (if 0 < FourWayHeap_size h then Some (fw_data h ! 0) else None)"

definition FourWayHeap_extract_min_pair ::
  "('k::linorder, 'v) FourWayHeap \<Rightarrow> ('k, 'v) KVPair option \<times> ('k, 'v) FourWayHeap" where
  "FourWayHeap_extract_min_pair h =
     (if FourWayHeap_size h \<le> 0 then (None, h)
      else let ret = Some (fw_data h ! 0);
               lst = fw_data h ! (FourWayHeap_size h - 1);
               d = butlast (fw_data h)
           in if 0 < length d then (ret, h\<lparr>fw_data := FourWayHeap_sift_down (d[0 := lst]) 0\<rparr>)
              else (ret, h\<lparr>fw_data := d\<rparr>))"

definition FourWayHeap_foreach_pair ::
  "('k, 'v) FourWayHeap \<Rightarrow> (('k, 'v) KVPair \<Rightarrow> 's \<Rightarrow> ('k, 'v) KVPair \<times> 's) option \<Rightarrow> 's
     \<Rightarrow> ('k, 'v) FourWayHeap \<times> 's" where
  "FourWayHeap_foreach_pair h cb s =
     (case cb of None \<Rightarrow> (h, s)
      | Some f \<Rightarrow> (let (d, s') = foreach_ref f (fw_data h) s in (h\<lparr>fw_data := d\<rparr>, s')))"

definition FourWayHeap_foreach_pair_const ::
  "('k, 'v) FourWayHeap \<Rightarrow> (('k, 'v) KVPair \<Rightarrow> 's \<Rightarrow> 's) option \<Rightarrow> 's \<Rightarrow> 's" where
  "FourWayHeap_foreach_pair_const h cb s =
     (case cb of None \<Rightarrow> s | Some f \<Rightarrow> fold f (fw_data h) s)"

definition FourWayHeap_ops :: "(('k::linorder, 'v) FourWayHeap, 'k, 'v) HeapTy" where
  "FourWayHeap_ops = \<lparr>ht_empty = FourWayHeap_ctor, ht_push = FourWayHeap_push,
     ht_min_pair = FourWayHeap_min_pair, ht_extract_min_pair = FourWayHeap_extract_min_pair,
     ht_clear = FourWayHeap_clear, ht_size = FourWayHeap_size\<rparr>"

definition FourWayHeap_inv :: "('k::linorder, 'v) FourWayHeap \<Rightarrow> bool" where
  "FourWayHeap_inv h \<longleftrightarrow> heap_ordered FourWayHeap_parent (fw_data h)"

declare FourWayHeap_sift_up.simps [simp del] FourWayHeap_sift_down.simps [simp del]

interpretation four_shape: heap_shape FourWayHeap_parent
  by unfold_locales (rule FourWayHeap_parent_less)

section \<open>Both sifting loops keep the pairs and restore the order\<close>

lemma fw_length_sift_up [simp]: "length (FourWayHeap_sift_up d i) = length d"
proof (induction d i rule: FourWayHeap_sift_up.induct)
  case (1 d i)
  then show ?case by (simp add: FourWayHeap_sift_up.simps[of d i])
qed

lemma fw_mset_sift_up: "i < length d \<Longrightarrow> mset (FourWayHeap_sift_up d i) = mset d"
proof (induction d i rule: FourWayHeap_sift_up.induct)
  case (1 d i)
  show ?case
  proof (cases "0 < i \<and> KVPair_lt (d ! i) (d ! FourWayHeap_parent i)")
    case True
    then have "FourWayHeap_parent i < length d"
      using 1(2) FourWayHeap_parent_less[of i] by linarith
    with 1 True show ?thesis by (simp add: FourWayHeap_sift_up.simps[of d i])
  qed (auto simp: FourWayHeap_sift_up.simps[of d i])
qed

lemma fw_sift_up_ordered:
  "i < length d \<Longrightarrow> heap_but_up FourWayHeap_parent d i \<Longrightarrow>
   heap_ordered FourWayHeap_parent (FourWayHeap_sift_up d i)"
proof (induction d i rule: FourWayHeap_sift_up.induct)
  case (1 d i)
  show ?case
  proof (cases "0 < i \<and> KVPair_lt (d ! i) (d ! FourWayHeap_parent i)")
    case True
    then have "FourWayHeap_parent i < length d"
      using 1(2) FourWayHeap_parent_less[of i] by linarith
    with 1 True show ?thesis
      using four_shape.up_step[of d i]
      by (simp add: FourWayHeap_sift_up.simps[of d i] KVPair_lt_def)
  next
    case False
    then show ?thesis
      using four_shape.but_up_done[OF 1(3)]
      by (auto simp: FourWayHeap_sift_up.simps[of d i] KVPair_lt_def not_less)
  qed
qed

lemma FourWayHeap_least_is_least:
  assumes "j < length d" and "0 < j" and "FourWayHeap_parent j = i"
  shows "m_key (d ! FourWayHeap_least d i) \<le> m_key (d ! j)"
proof -
  obtain k where "k \<in> set [1, 2, 3, 4]" and "j = FourWayHeap_child i k"
    using FourWayHeap_is_child[OF assms(2)] assms(3) by blast
  then show ?thesis
    using fold_pick_le_member[of k "[1, 2, 3, 4]" "FourWayHeap_child i" d] assms(1)
    by (simp add: FourWayHeap_least_def)
qed

lemma FourWayHeap_least_less:
  "FourWayHeap_least d i \<noteq> i \<Longrightarrow> m_key (d ! FourWayHeap_least d i) < m_key (d ! i)"
  using fold_pick_cases[of d "FourWayHeap_child i" "[1, 2, 3, 4]" i]
  by (auto simp: FourWayHeap_least_def)

lemma fw_length_sift_down [simp]: "length (FourWayHeap_sift_down d i) = length d"
proof (induction d i rule: FourWayHeap_sift_down.induct)
  case (1 d i)
  then show ?case by (simp add: FourWayHeap_sift_down.simps[of d i] Let_def)
qed

lemma fw_mset_sift_down: "i < length d \<Longrightarrow> mset (FourWayHeap_sift_down d i) = mset d"
proof (induction d i rule: FourWayHeap_sift_down.induct)
  case (1 d i)
  show ?case
  proof (cases "i = FourWayHeap_least d i")
    case False
    then have "FourWayHeap_least d i < length d" using FourWayHeap_least_cases[of d i] by auto
    with 1 False show ?thesis by (simp add: FourWayHeap_sift_down.simps[of d i] Let_def)
  qed (simp add: FourWayHeap_sift_down.simps[of d i] Let_def)
qed

lemma fw_sift_down_ordered:
  "heap_but_down FourWayHeap_parent d i \<Longrightarrow>
   heap_ordered FourWayHeap_parent (FourWayHeap_sift_down d i)"
proof (induction d i rule: FourWayHeap_sift_down.induct)
  case (1 d i)
  show ?case
  proof (cases "i = FourWayHeap_least d i")
    case True
    then show ?thesis
      using four_shape.but_down_done[OF 1(2)] FourWayHeap_least_is_least[of _ d i]
      by (simp add: FourWayHeap_sift_down.simps[of d i] Let_def)
  next
    case False
    have "heap_but_down FourWayHeap_parent (swap_at d i (FourWayHeap_least d i)) (FourWayHeap_least d i)"
      using False FourWayHeap_least_cases[of d i] FourWayHeap_least_less[of d i]
      by (intro four_shape.down_step[OF 1(2)] FourWayHeap_least_is_least) auto
    with 1(1)[OF refl False] False show ?thesis
      by (simp add: FourWayHeap_sift_down.simps[of d i] Let_def)
  qed
qed

section \<open>The operations meet the heap contract\<close>

lemma FourWayHeap_push_inv: "FourWayHeap_inv h \<Longrightarrow> FourWayHeap_inv (FourWayHeap_push h p)"
  by (simp add: FourWayHeap_inv_def FourWayHeap_push_def fw_sift_up_ordered four_shape.append_but_up)

lemma FourWayHeap_push_mset: "mset (fw_data (FourWayHeap_push h p)) = add_mset p (mset (fw_data h))"
  by (simp add: FourWayHeap_push_def fw_mset_sift_up)

lemma FourWayHeap_min_is_least:
  assumes "FourWayHeap_inv h" and "FourWayHeap_min_pair h = Some p"
  shows "p \<in># mset (fw_data h) \<and> (\<forall>q \<in># mset (fw_data h). m_key p \<le> m_key q)"
  using assms four_shape.root_minimal[of "fw_data h"]
  by (auto simp: FourWayHeap_min_pair_def FourWayHeap_size_def FourWayHeap_inv_def in_set_conv_nth
      split: if_splits)

lemma FourWayHeap_min_None: "FourWayHeap_min_pair h = None \<longleftrightarrow> fw_data h = []"
  by (simp add: FourWayHeap_min_pair_def FourWayHeap_size_def)

lemma FourWayHeap_inv_empty: "fw_data h = [] \<Longrightarrow> FourWayHeap_inv h"
  by (simp add: FourWayHeap_inv_def heap_ordered_def)

lemma FourWayHeap_extract_inv:
  "FourWayHeap_inv h \<Longrightarrow> FourWayHeap_inv (snd (FourWayHeap_extract_min_pair h))"
proof -
  assume h: "FourWayHeap_inv h"
  have "heap_ordered FourWayHeap_parent (butlast (fw_data h))" if "length (fw_data h) = 1"
    using that by (simp add: heap_ordered_def)
  then show ?thesis
    using h by (auto simp: FourWayHeap_extract_min_pair_def FourWayHeap_inv_def FourWayHeap_size_def
        Let_def heap_ordered_def[of _ "[]"]
        intro!: fw_sift_down_ordered four_shape.replace_root_but_down)
qed

lemma FourWayHeap_extract_fst: "fst (FourWayHeap_extract_min_pair h) = FourWayHeap_min_pair h"
  by (simp add: FourWayHeap_extract_min_pair_def FourWayHeap_min_pair_def Let_def)

lemma FourWayHeap_extract_mset:
  assumes "FourWayHeap_min_pair h = Some p"
  shows "add_mset p (mset (fw_data (snd (FourWayHeap_extract_min_pair h)))) = mset (fw_data h)"
proof (cases "length (fw_data h) = 1")
  case True
  then obtain x where "fw_data h = [x]" by (auto simp: length_Suc_conv)
  then show ?thesis
    using assms by (simp add: FourWayHeap_extract_min_pair_def FourWayHeap_min_pair_def
        FourWayHeap_size_def Let_def)
next
  case False
  have "0 < length (fw_data h)"
    using assms by (auto simp: FourWayHeap_min_pair_def FourWayHeap_size_def split: if_splits)
  with False have "Suc 0 < length (fw_data h)" by linarith
  moreover from this have "fw_data h \<noteq> []" by auto
  ultimately show ?thesis
    using assms hd_tl_butlast[of "fw_data h"]
    by (auto simp: FourWayHeap_extract_min_pair_def FourWayHeap_min_pair_def FourWayHeap_size_def
        Let_def fw_mset_sift_down last_is_nth)
qed

interpretation four_heap: min_heap FourWayHeap_ops FourWayHeap_inv "\<lambda>h. mset (fw_data h)"
  by unfold_locales (auto simp: FourWayHeap_ops_def FourWayHeap_push_inv FourWayHeap_push_mset FourWayHeap_extract_inv
    FourWayHeap_extract_fst FourWayHeap_extract_mset FourWayHeap_size_def FourWayHeap_clear_def
    FourWayHeap_ctor_def FourWayHeap_inv_empty FourWayHeap_min_None
    dest: FourWayHeap_min_is_least)

end
