(* ===== verification/Min_Heap.thy ===== *)
theory Min_Heap
  imports Four_Way_Heap
begin

text \<open>
  \<open>include/base/minheap.hpp\<close>: \<open>MinHeap<HeapTy>\<close>, the class template that clients use. It
  owns one heap and forwards each call to it. The template parameter is the dictionary
  \<open>HeapTy\<close> of the heap's operations.
\<close>

record 'h MinHeap =
  m_heap :: 'h

definition MinHeap_ctor :: "('h, 'k, 'v) HeapTy \<Rightarrow> 'h MinHeap" where
  "MinHeap_ctor ops = \<lparr>m_heap = ht_empty ops\<rparr>"

definition MinHeap_copy :: "'h MinHeap \<Rightarrow> 'h MinHeap" where
  "MinHeap_copy h = \<lparr>m_heap = m_heap h\<rparr>"

definition MinHeap_push ::
  "('h, 'k, 'v) HeapTy \<Rightarrow> 'h MinHeap \<Rightarrow> ('k, 'v) KVPair \<Rightarrow> 'h MinHeap" where
  "MinHeap_push ops h kv = h\<lparr>m_heap := ht_push ops (m_heap h) kv\<rparr>"

definition MinHeap_push_key ::
  "('h, 'k, 'v) HeapTy \<Rightarrow> 'h MinHeap \<Rightarrow> 'k \<Rightarrow> 'v \<Rightarrow> 'h MinHeap" where
  "MinHeap_push_key ops h key val = h\<lparr>m_heap := ht_push ops (m_heap h) (KVPair_ctor key val)\<rparr>"

definition MinHeap_min_pair :: "('h, 'k, 'v) HeapTy \<Rightarrow> 'h MinHeap \<Rightarrow> ('k, 'v) KVPair option" where
  "MinHeap_min_pair ops h = ht_min_pair ops (m_heap h)"

definition MinHeap_extract_min_pair ::
  "('h, 'k, 'v) HeapTy \<Rightarrow> 'h MinHeap \<Rightarrow> ('k, 'v) KVPair option \<times> 'h MinHeap" where
  "MinHeap_extract_min_pair ops h =
     (let (r, h') = ht_extract_min_pair ops (m_heap h) in (r, h\<lparr>m_heap := h'\<rparr>))"

definition MinHeap_clear :: "('h, 'k, 'v) HeapTy \<Rightarrow> 'h MinHeap \<Rightarrow> 'h MinHeap" where
  "MinHeap_clear ops h = h\<lparr>m_heap := ht_clear ops (m_heap h)\<rparr>"

definition MinHeap_size :: "('h, 'k, 'v) HeapTy \<Rightarrow> 'h MinHeap \<Rightarrow> nat" where
  "MinHeap_size ops h = ht_size ops (m_heap h)"

lemmas MinHeap_defs [heap_defs] =
  MinHeap_ctor_def MinHeap_push_def MinHeap_push_key_def MinHeap_min_pair_def
  MinHeap_extract_min_pair_def MinHeap_clear_def MinHeap_size_def

text \<open>
  Forwarding keeps the contract: the wrapper over any heap that meets \<open>min_heap\<close> meets it
  again, with its own operations as the dictionary.
\<close>

definition MinHeap_ops :: "('h, 'k, 'v) HeapTy \<Rightarrow> ('h MinHeap, 'k, 'v) HeapTy" where
  "MinHeap_ops ops = \<lparr>ht_empty = MinHeap_ctor ops, ht_push = MinHeap_push ops,
     ht_min_pair = MinHeap_min_pair ops, ht_extract_min_pair = MinHeap_extract_min_pair ops,
     ht_clear = MinHeap_clear ops, ht_size = MinHeap_size ops\<rparr>"

context min_heap
begin

lemma wrapper_contract:
  "min_heap (MinHeap_ops ops) (\<lambda>h. invar (m_heap h)) (\<lambda>h. pairs (m_heap h))"
  by unfold_locales
    (auto simp: MinHeap_ops_def MinHeap_defs Let_def split_beta invar_empty pairs_empty invar_push
      pairs_push size_pairs min_None extract_min pairs_extract invar_extract invar_clear pairs_clear
      dest: min_Some)

end

interpretation bin_min_heap: min_heap "MinHeap_ops BinaryHeap_ops"
  "\<lambda>h. BinaryHeap_inv (m_heap h)" "\<lambda>h. mset (m_data (m_heap h))"
  by (rule bin_heap.wrapper_contract)

interpretation four_min_heap: min_heap "MinHeap_ops FourWayHeap_ops"
  "\<lambda>h. FourWayHeap_inv (m_heap h)" "\<lambda>h. mset (fw_data (m_heap h))"
  by (rule four_heap.wrapper_contract)

section \<open>Draining a heap\<close>

text \<open>
  Calling \<open>extract_min_pair\<close> until the heap is empty, the way \<open>example_2xHeap.cpp\<close> and
  \<open>example_4xHeap.cpp\<close> do. The first argument bounds the number of calls.
\<close>

fun drain :: "('h, 'k, 'v) HeapTy \<Rightarrow> nat \<Rightarrow> 'h \<Rightarrow> ('k, 'v) KVPair list" where
  "drain ops 0 h = []"
| "drain ops (Suc n) h =
     (case ht_extract_min_pair ops h of
        (None, h') \<Rightarrow> []
      | (Some p, h') \<Rightarrow> p # drain ops n h')"

definition push_all :: "('h, 'k, 'v) HeapTy \<Rightarrow> ('k, 'v) KVPair list \<Rightarrow> 'h \<Rightarrow> 'h" where
  "push_all ops ps h = fold (\<lambda>p h. ht_push ops h p) ps h"

context min_heap
begin

lemma push_all_contract:
  "invar h \<Longrightarrow> invar (push_all ops ps h) \<and> pairs (push_all ops ps h) = mset ps + pairs h"
  by (induction ps arbitrary: h) (auto simp: push_all_def invar_push pairs_push)

lemma drain_mset: "invar h \<Longrightarrow> mset (drain ops (ht_size ops h) h) = pairs h"
proof (induction "ht_size ops h" arbitrary: h)
  case 0
  then show ?case by (simp add: size_pairs)
next
  case (Suc n)
  obtain p where p: "ht_min_pair ops h = Some p"
    using Suc(2) size_0_iff[of h] by (cases "ht_min_pair ops h") auto
  obtain h' where e: "ht_extract_min_pair ops h = (Some p, h')"
    using extract_min[of h] p by (cases "ht_extract_min_pair ops h") auto
  have "ht_size ops h' = n"
    using size_extract[OF Suc(3)] Suc(2) e by simp
  moreover have "invar h'" using invar_extract[OF Suc(3)] e by simp
  ultimately show ?case
    using Suc(1)[of h'] Suc(2) pairs_extract[OF Suc(3) p] e by (simp flip: Suc(2))
qed

lemma drain_subset: "invar h \<Longrightarrow> set (drain ops n h) \<subseteq> set_mset (pairs h)"
proof (induction n arbitrary: h)
  case (Suc n)
  show ?case
  proof (cases "ht_min_pair ops h")
    case None
    then show ?thesis using extract_min[of h] by (cases "ht_extract_min_pair ops h") simp
  next
    case (Some p)
    obtain h' where e: "ht_extract_min_pair ops h = (Some p, h')"
      using extract_min[of h] Some by (cases "ht_extract_min_pair ops h") auto
    have "invar h'" using invar_extract[OF Suc.prems] e by simp
    moreover have "add_mset p (pairs h') = pairs h" using pairs_extract[OF Suc.prems Some] e by simp
    ultimately show ?thesis using Suc.IH[of h'] e by (auto simp flip: \<open>add_mset p (pairs h') = pairs h\<close>)
  qed
qed simp

lemma drain_sorted: "invar h \<Longrightarrow> sorted (map m_key (drain ops n h))"
proof (induction n arbitrary: h)
  case (Suc n)
  show ?case
  proof (cases "ht_min_pair ops h")
    case None
    then show ?thesis using extract_min[of h] by (cases "ht_extract_min_pair ops h") simp
  next
    case (Some p)
    obtain h' where e: "ht_extract_min_pair ops h = (Some p, h')"
      using extract_min[of h] Some by (cases "ht_extract_min_pair ops h") auto
    have h': "invar h'" using invar_extract[OF Suc.prems] e by simp
    have "set_mset (pairs h') \<subseteq> set_mset (pairs h)"
      using pairs_extract[OF Suc.prems Some] e by (metis set_mset_add_mset_insert snd_conv subset_insertI)
    then have "\<forall>q \<in> set (drain ops n h'). m_key p \<le> m_key q"
      using drain_subset[OF h'] min_Some[OF Suc.prems Some] by auto
    then show ?thesis using Suc.IH[OF h'] e by simp
  qed
qed simp

theorem heap_sort:
  fixes ps
  defines "h \<equiv> push_all ops ps (ht_empty ops)"
  shows "mset (drain ops (length ps) h) = mset ps \<and> sorted (map m_key (drain ops (length ps) h))"
proof -
  have h: "invar h" "pairs h = mset ps"
    using push_all_contract[OF invar_empty, of ps] by (simp_all add: h_def pairs_empty)
  then have "ht_size ops h = length ps" by (simp add: size_pairs)
  then show ?thesis using drain_mset[OF h(1)] drain_sorted[OF h(1)] h(2) by simp
qed

end

section \<open>Properties\<close>

text \<open>
  Property C17. Pushing any list of pairs into an empty binary heap and extracting until it is
  empty returns the same pairs, each as often as it was pushed, in ascending order of keys.
\<close>

theorem BinaryHeap_heap_sort:
  fixes ps :: "('k::linorder, 'v) KVPair list"
  defines "out \<equiv> drain BinaryHeap_ops (length ps) (push_all BinaryHeap_ops ps BinaryHeap_ctor)"
  shows "mset out = mset ps \<and> sorted (map m_key out)"
  using bin_heap.heap_sort[of ps] by (simp add: out_def BinaryHeap_ops_def)

text \<open>
  Property C32. The four-way heap is interchangeable with the binary heap: drained after the same
  pushes, both give the same sequence of keys, and the four-way heap too returns exactly the
  pairs pushed.
\<close>

theorem FourWayHeap_equals_BinaryHeap:
  fixes ps :: "('k::linorder, 'v) KVPair list"
  defines "four \<equiv> drain FourWayHeap_ops (length ps) (push_all FourWayHeap_ops ps FourWayHeap_ctor)"
    and "bin \<equiv> drain BinaryHeap_ops (length ps) (push_all BinaryHeap_ops ps BinaryHeap_ctor)"
  shows "map m_key four = map m_key bin \<and> mset four = mset ps"
proof -
  have four: "mset four = mset ps" "sorted (map m_key four)"
    using four_heap.heap_sort[of ps] by (simp_all add: four_def FourWayHeap_ops_def)
  have bin: "mset bin = mset ps" "sorted (map m_key bin)"
    using bin_heap.heap_sort[of ps] by (simp_all add: bin_def BinaryHeap_ops_def)
  have "mset (map m_key four) = mset (map m_key bin)" using four(1) bin(1) by simp
  then show ?thesis using four bin by (metis properties_for_sort)
qed

end
