(* ===== verification/Timer_Manager.thy ===== *)
theory Timer_Manager
  imports Min_Heap
begin

text \<open>
  \<open>include/base/timermanager.hpp\<close>: \<open>TimerManger<MinHeapTy>\<close>, a client of the heap contract.
  A timer is stored under its absolute deadline and carries its interval and its task. The
  clock (\<open>m_msecFunc\<close>) and the tasks are callbacks over the caller's world \<open>'w\<close>; an empty
  \<open>std::function\<close> is \<open>None\<close>. Deadlines are 64-bit words, so the addition in
  \<open>create_task\<close> wraps as the source's does. The loop of \<open>check\<close> runs on any dictionary of heap
  operations, hence it is a partial function: \<open>None\<close> is a loop that does not end, and the
  theorems show that over a heap that meets the contract it ends.
\<close>

type_synonym 'w task = "('w \<Rightarrow> bool \<times> 'w) option"
type_synonym 'w timer = "(u64, (u64, 'w task) KVPair) KVPair"

record ('h, 'w) TimerManger =
  m_minHeap :: "'h MinHeap"
  m_msecFunc :: "('w \<Rightarrow> u64) option"

definition TimerManger_ctor :: "('h, u64, (u64, 'w task) KVPair) HeapTy \<Rightarrow> ('h, 'w) TimerManger" where
  "TimerManger_ctor ops = \<lparr>m_minHeap = MinHeap_ctor ops, m_msecFunc = None\<rparr>"

text \<open>
  The move constructor takes the heap only: the clock of the new object is empty, and the
  source keeps its clock and a moved-from, hence empty, heap.
\<close>

definition TimerManger_move ::
  "('h, u64, (u64, 'w task) KVPair) HeapTy \<Rightarrow> ('h, 'w) TimerManger
     \<Rightarrow> ('h, 'w) TimerManger \<times> ('h, 'w) TimerManger" where
  "TimerManger_move ops tm =
     (\<lparr>m_minHeap = m_minHeap tm, m_msecFunc = None\<rparr>,
      tm\<lparr>m_minHeap := MinHeap_clear ops (m_minHeap tm)\<rparr>)"

definition TimerManger_swap ::
  "('h, 'w) TimerManger \<Rightarrow> ('h, 'w) TimerManger
     \<Rightarrow> ('h, 'w) TimerManger \<times> ('h, 'w) TimerManger" where
  "TimerManger_swap a b =
     (a\<lparr>m_minHeap := m_minHeap b\<rparr>, b\<lparr>m_minHeap := m_minHeap a\<rparr>)"

definition TimerManger_setTimeGetter ::
  "('h, 'w) TimerManger \<Rightarrow> ('w \<Rightarrow> u64) option \<Rightarrow> ('h, 'w) TimerManger" where
  "TimerManger_setTimeGetter tm func = tm\<lparr>m_msecFunc := func\<rparr>"

definition TimerManger_create_task ::
  "('h, u64, (u64, 'w task) KVPair) HeapTy \<Rightarrow> ('h, 'w) TimerManger \<Rightarrow> u64 \<Rightarrow> 'w task \<Rightarrow> 'w
     \<Rightarrow> ('h, 'w) TimerManger outcome" where
  "TimerManger_create_task ops tm msec task w =
     (case m_msecFunc tm of
        None \<Rightarrow> Inl Bad_Function_Call
      | Some f \<Rightarrow>
          Inr (tm\<lparr>m_minHeap :=
            MinHeap_push_key ops (m_minHeap tm) (msec + f w) (KVPair_ctor msec task)\<rparr>))"

partial_function (option) check_loop ::
  "('h, 'k::linorder, 'v) HeapTy \<Rightarrow> 'h MinHeap \<Rightarrow> 'k \<Rightarrow> ('k, 'v) KVPair list
     \<Rightarrow> (('k, 'v) KVPair list \<times> 'h MinHeap) outcome option" where
  "check_loop ops h crrt waitList =
     (if 0 < MinHeap_size ops h then
        (case MinHeap_min_pair ops h of
           None \<Rightarrow> Some (Inl Bad_Optional)
         | Some p \<Rightarrow>
             if KVPair_key p \<le> crrt then
               (case MinHeap_extract_min_pair ops h of
                  (None, h') \<Rightarrow> Some (Inl Bad_Optional)
                | (Some q, h') \<Rightarrow> check_loop ops h' crrt (waitList @ [q]))
             else Some (Inr (waitList, h)))
      else Some (Inr (waitList, h)))"

definition TimerManger_check ::
  "('h, u64, (u64, 'w task) KVPair) HeapTy \<Rightarrow> ('h, 'w) TimerManger \<Rightarrow> 'w
     \<Rightarrow> ('w timer list \<times> ('h, 'w) TimerManger) outcome option" where
  "TimerManger_check ops tm w =
     (case m_msecFunc tm of
        None \<Rightarrow> Some (Inl Bad_Function_Call)
      | Some f \<Rightarrow>
          map_option (map_sum id (\<lambda>(ws, h). (ws, tm\<lparr>m_minHeap := h\<rparr>)))
            (check_loop ops (m_minHeap tm) (f w) []))"

definition TimerManger_proxy_exec ::
  "('h, u64, (u64, 'w task) KVPair) HeapTy \<Rightarrow> ('h, 'w) TimerManger \<Rightarrow> 'w timer \<Rightarrow> 'w
     \<Rightarrow> (('h, 'w) TimerManger \<times> 'w) outcome" where
  "TimerManger_proxy_exec ops tm task_pair w =
     (case KVPair_value (KVPair_value task_pair) of
        None \<Rightarrow> Inl (Thrown ''Cannot Exec!!'')
      | Some task \<Rightarrow>
          (let (again, w') = task w in
           if again then
             map_sum id (\<lambda>tm'. (tm', w'))
               (TimerManger_create_task ops tm (KVPair_key (KVPair_value task_pair))
                  (KVPair_value (KVPair_value task_pair)) w')
           else Inr (tm, w')))"

definition TimerManger_clear ::
  "('h, u64, (u64, 'w task) KVPair) HeapTy \<Rightarrow> ('h, 'w) TimerManger \<Rightarrow> ('h, 'w) TimerManger" where
  "TimerManger_clear ops tm = tm\<lparr>m_minHeap := MinHeap_clear ops (m_minHeap tm)\<rparr>"

section \<open>The check loop over any heap that meets the contract\<close>

definition due :: "'k::linorder \<Rightarrow> ('k, 'v) KVPair multiset \<Rightarrow> ('k, 'v) KVPair multiset" where
  "due crrt ps = filter_mset (\<lambda>p. m_key p \<le> crrt) ps"

definition pending :: "'k::linorder \<Rightarrow> ('k, 'v) KVPair multiset \<Rightarrow> ('k, 'v) KVPair multiset" where
  "pending crrt ps = filter_mset (\<lambda>p. crrt < m_key p) ps"

lemma due_all_pending: "\<forall>p \<in># ps. crrt < m_key p \<Longrightarrow> due crrt ps = {#} \<and> pending crrt ps = ps"
  using filter_mset_cong[of ps ps "\<lambda>p. crrt < m_key p" "\<lambda>_. True"]
    filter_mset_cong[of ps ps "\<lambda>p. m_key p \<le> crrt" "\<lambda>_. False"]
  by (simp add: due_def pending_def not_le)

context min_heap
begin

lemma check_loop_spec:
  assumes "invar (m_heap h)"
  shows "\<exists>ws h'. check_loop ops h crrt acc = Some (Inr (acc @ ws, h')) \<and>
     mset ws = due crrt (pairs (m_heap h)) \<and> sorted (map m_key ws) \<and>
     pairs (m_heap h') = pending crrt (pairs (m_heap h)) \<and> invar (m_heap h')"
  using assms
proof (induction "ht_size ops (m_heap h)" arbitrary: h acc)
  case 0
  then have "pairs (m_heap h) = {#}" by (simp add: size_pairs)
  then show ?case
    using 0 by (simp add: check_loop.simps[of ops h] MinHeap_defs due_def pending_def)
next
  case (Suc n)
  obtain p where p: "ht_min_pair ops (m_heap h) = Some p"
    using Suc(2) size_0_iff[of "m_heap h"] by (cases "ht_min_pair ops (m_heap h)") auto
  obtain g where e: "ht_extract_min_pair ops (m_heap h) = (Some p, g)"
    using extract_min[of "m_heap h"] p by (cases "ht_extract_min_pair ops (m_heap h)") auto
  have least: "p \<in># pairs (m_heap h)" "\<forall>q \<in># pairs (m_heap h). m_key p \<le> m_key q"
    using min_Some[OF Suc(3) p] by blast+
  have pos: "0 < ht_size ops (m_heap h)" using Suc(2) by simp
  show ?case
  proof (cases "m_key p \<le> crrt")
    case False
    then have "\<forall>q \<in># pairs (m_heap h). crrt < m_key q" using least by force
    then show ?thesis
      using False pos p Suc(3) due_all_pending[of "pairs (m_heap h)" crrt]
      by (simp add: check_loop.simps[of ops h] MinHeap_defs KVPair_key_def)
  next
    case True
    have g: "add_mset p (pairs g) = pairs (m_heap h)" "invar g" "ht_size ops g = n"
      using pairs_extract[OF Suc(3) p] invar_extract[OF Suc(3)] size_extract[OF Suc(3) pos] Suc(2) e
      by simp_all
    obtain ws h' where IH: "check_loop ops (h\<lparr>m_heap := g\<rparr>) crrt (acc @ [p]) =
         Some (Inr ((acc @ [p]) @ ws, h'))" "mset ws = due crrt (pairs g)"
       "sorted (map m_key ws)" "pairs (m_heap h') = pending crrt (pairs g)" "invar (m_heap h')"
      using Suc(1)[of "h\<lparr>m_heap := g\<rparr>" "acc @ [p]"] g by auto
    have "set ws = set_mset (due crrt (pairs g))" using IH(2) by (metis set_mset_mset)
    then have "set ws \<subseteq> set_mset (pairs (m_heap h))" by (auto simp: due_def simp flip: g(1))
    then have "\<forall>q \<in> set ws. m_key p \<le> m_key q" using least(2) by auto
    then have "sorted (map m_key (p # ws))" using IH(3) by simp
    moreover have "mset (p # ws) = due crrt (pairs (m_heap h))"
      using True IH(2) by (simp add: due_def flip: g(1))
    moreover have "pairs (m_heap h') = pending crrt (pairs (m_heap h))"
      using True IH(4) by (simp add: pending_def not_less flip: g(1))
    ultimately show ?thesis
      using IH(1,5) True pos p e
      by (intro exI[of _ "p # ws"] exI[of _ h'])
        (simp add: check_loop.simps[of ops h] MinHeap_defs KVPair_key_def)
  qed
qed

end

section \<open>Properties\<close>

text \<open>
  Property C20. With a clock set and a well-formed heap, \<open>check\<close> always returns. It returns exactly
  the timers whose deadline is not after the clock's reading, in order of deadline; the timers
  left are exactly the others, and the heap stays well-formed.
\<close>

theorem TimerManger_check_spec:
  fixes tm :: "((u64, (u64, 'w task) KVPair) BinaryHeap, 'w) TimerManger"
  assumes "m_msecFunc tm = Some clock" and "BinaryHeap_inv (m_heap (m_minHeap tm))"
  shows "\<exists>ws tm'. TimerManger_check BinaryHeap_ops tm w = Some (Inr (ws, tm')) \<and>
     mset ws = filter_mset (\<lambda>p. m_key p \<le> clock w) (mset (m_data (m_heap (m_minHeap tm)))) \<and>
     sorted (map m_key ws) \<and>
     mset (m_data (m_heap (m_minHeap tm'))) =
       filter_mset (\<lambda>p. clock w < m_key p) (mset (m_data (m_heap (m_minHeap tm)))) \<and>
     BinaryHeap_inv (m_heap (m_minHeap tm')) \<and> m_msecFunc tm' = Some clock"
proof -
  from bin_heap.check_loop_spec[OF assms(2), of "clock w" "[]"] obtain ws h where
    "check_loop BinaryHeap_ops (m_minHeap tm) (clock w) [] = Some (Inr (ws, h))"
    "mset ws = due (clock w) (mset (m_data (m_heap (m_minHeap tm))))" "sorted (map m_key ws)"
    "mset (m_data (m_heap h)) = pending (clock w) (mset (m_data (m_heap (m_minHeap tm))))"
    "BinaryHeap_inv (m_heap h)" by auto
  then show ?thesis
    using assms(1)
    by (intro exI[of _ ws] exI[of _ "tm\<lparr>m_minHeap := h\<rparr>"])
      (simp add: TimerManger_check_def due_def pending_def)
qed

theorem TimerManger_check_spec_witness:
  "let tm = (\<lparr>m_minHeap = \<lparr>m_heap = \<lparr>m_data = [\<lparr>m_key = 7, m_val = \<lparr>m_key = 7, m_val = None\<rparr>\<rparr>]\<rparr>\<rparr>,
        m_msecFunc = Some (\<lambda>w. w)\<rparr> :: ((u64, (u64, u64 task) KVPair) BinaryHeap, u64) TimerManger)
   in m_msecFunc tm = Some (\<lambda>w. w) \<and> BinaryHeap_inv (m_heap (m_minHeap tm)) \<and>
      (\<exists>ws tm'. TimerManger_check BinaryHeap_ops tm 9 = Some (Inr (ws, tm')) \<and> length ws = 1)"
proof -
  let ?p = "\<lparr>m_key = 7, m_val = \<lparr>m_key = 7, m_val = None\<rparr>\<rparr> :: u64 timer"
  let ?tm = "\<lparr>m_minHeap = \<lparr>m_heap = \<lparr>m_data = [?p]\<rparr>\<rparr>, m_msecFunc = Some (\<lambda>w. w)\<rparr>
    :: ((u64, (u64, u64 task) KVPair) BinaryHeap, u64) TimerManger"
  have inv: "BinaryHeap_inv (m_heap (m_minHeap ?tm))"
    by (simp add: BinaryHeap_inv_def heap_ordered_def)
  have clk: "m_msecFunc ?tm = Some (\<lambda>w. w)" by simp
  from TimerManger_check_spec [OF clk inv, of 9] obtain ws tm' where
    r: "TimerManger_check BinaryHeap_ops ?tm 9 = Some (Inr (ws, tm'))"
    and m: "mset ws = filter_mset (\<lambda>p. m_key p \<le> 9) (mset [?p])" by auto
  from m have "mset ws = {#?p#}" by simp
  then have "length ws = 1" by (metis size_mset size_single)
  with r inv clk show ?thesis unfolding Let_def by blast
qed

text \<open>
  Property C33. A timer created with an interval that does not overflow the 64-bit deadline is
  returned by the next \<open>check\<close> exactly when the whole interval has passed on the clock.
\<close>

theorem TimerManger_fires_when_due:
  fixes tm :: "((u64, (u64, 'w task) KVPair) BinaryHeap, 'w) TimerManger"
  assumes "m_msecFunc tm = Some clock" and "BinaryHeap_inv (m_heap (m_minHeap tm))"
    and "unat msec + unat (clock w) < 2 ^ 64"
    and "TimerManger_create_task BinaryHeap_ops tm msec task w = Inr tm1"
    and "TimerManger_check BinaryHeap_ops tm1 w' = Some (Inr (ws, tm2))"
    and "KVPair_ctor (msec + clock w) (KVPair_ctor msec task) \<notin> set (m_data (m_heap (m_minHeap tm)))"
  shows "KVPair_ctor (msec + clock w) (KVPair_ctor msec task) \<in> set ws \<longleftrightarrow>
     unat (clock w) + unat msec \<le> unat (clock w')"
proof -
  let ?p = "KVPair_ctor (msec + clock w) (KVPair_ctor msec task)"
  have tm1: "m_minHeap tm1 = MinHeap_push BinaryHeap_ops (m_minHeap tm) ?p"
    "m_msecFunc tm1 = Some clock"
    using assms(1,4) by (auto simp: TimerManger_create_task_def MinHeap_defs)
  have pairs: "mset (m_data (m_heap (m_minHeap tm1))) =
      add_mset ?p (mset (m_data (m_heap (m_minHeap tm))))"
    by (simp add: tm1 MinHeap_defs BinaryHeap_ops_def BinaryHeap_push_mset)
  have "BinaryHeap_inv (m_heap (m_minHeap tm1))"
    using assms(2) by (simp add: tm1 MinHeap_defs BinaryHeap_ops_def BinaryHeap_push_inv)
  from bin_heap.check_loop_spec[OF this, of "clock w'" "[]"]
  have "mset ws = due (clock w') (mset (m_data (m_heap (m_minHeap tm1))))"
    using assms(5) by (auto simp: TimerManger_check_def tm1(2))
  then have "?p \<in> set ws \<longleftrightarrow> m_key ?p \<le> clock w'"
    unfolding set_mset_mset[symmetric] by (simp add: due_def pairs)
  also have "\<dots> \<longleftrightarrow> unat (clock w) + unat msec \<le> unat (clock w')"
    using unat_add_u64[OF assms(3)] by (simp add: KVPair_ctor_def word_le_nat_alt add.commute)
  finally show ?thesis .
qed

theorem TimerManger_fires_when_due_witness:
  "let tm = (\<lparr>m_minHeap = MinHeap_ctor BinaryHeap_ops, m_msecFunc = Some (\<lambda>w. w)\<rparr>
      :: ((u64, (u64, u64 task) KVPair) BinaryHeap, u64) TimerManger)
   in \<exists>tm1 ws tm2. TimerManger_create_task BinaryHeap_ops tm 5 None 10 = Inr tm1 \<and>
        TimerManger_check BinaryHeap_ops tm1 20 = Some (Inr (ws, tm2)) \<and>
        KVPair_ctor (5 + 10) (KVPair_ctor 5 None) \<in> set ws"
proof -
  let ?tm = "\<lparr>m_minHeap = MinHeap_ctor BinaryHeap_ops, m_msecFunc = Some (\<lambda>w. w)\<rparr>
      :: ((u64, (u64, u64 task) KVPair) BinaryHeap, u64) TimerManger"
  let ?p = "KVPair_ctor (5 + 10) (KVPair_ctor 5 None) :: u64 timer"
  have inv: "BinaryHeap_inv (m_heap (m_minHeap ?tm))"
    using bin_heap.invar_empty by (simp add: MinHeap_ctor_def)
  let ?tm1 = "?tm\<lparr>m_minHeap := MinHeap_push BinaryHeap_ops (m_minHeap ?tm) ?p\<rparr>"
  have c: "TimerManger_create_task BinaryHeap_ops ?tm 5 None 10 = Inr ?tm1"
    by (simp add: TimerManger_create_task_def MinHeap_defs)
  have "BinaryHeap_inv (m_heap (m_minHeap ?tm1))"
    using inv by (simp add: MinHeap_defs BinaryHeap_ops_def BinaryHeap_push_inv)
  from bin_heap.check_loop_spec[OF this, of 20 "[]"] obtain ws tm2 where
    k: "TimerManger_check BinaryHeap_ops ?tm1 20 = Some (Inr (ws, tm2))"
    by (auto simp: TimerManger_check_def)
  have "?p \<in> set ws"
    using TimerManger_fires_when_due [of ?tm "\<lambda>w. w" 5 10 None ?tm1 20 ws tm2] inv c k
    by (simp add: MinHeap_ctor_def BinaryHeap_ops_def BinaryHeap_ctor_def)
  with c k show ?thesis unfolding Let_def by blast
qed

text \<open>
  The deadline is a 64-bit sum: when interval and clock together exceed the type,
  the new deadline lies before the current time, so the timer is due at once although its
  interval has not passed.
\<close>

theorem TimerManger_deadline_wraps:
  assumes "m_msecFunc tm = Some clock"
    and "2 ^ 64 \<le> unat msec + unat (clock w)"
    and "TimerManger_create_task BinaryHeap_ops tm msec task w = Inr tm1"
  shows "\<exists>p. m_minHeap tm1 = MinHeap_push BinaryHeap_ops (m_minHeap tm) p \<and>
     m_key p = msec + clock w \<and> m_key p < clock w"
proof -
  have "unat (msec + clock w) < unat (clock w)"
    using assms(2) unat_u64[of msec] unat_u64[of "clock w"]
    by (simp add: unat_word_ariths mod_if) linarith
  then show ?thesis
    using assms(1,3)
    by (auto simp: TimerManger_create_task_def MinHeap_defs KVPair_ctor_def word_less_nat_alt)
qed

theorem TimerManger_deadline_wraps_witness:
  "let tm = (\<lparr>m_minHeap = MinHeap_ctor BinaryHeap_ops, m_msecFunc = Some (\<lambda>w. 10)\<rparr>
      :: ((u64, (u64, unit task) KVPair) BinaryHeap, unit) TimerManger)
   in \<exists>tm1 p. TimerManger_create_task BinaryHeap_ops tm 18446744073709551615 None () = Inr tm1 \<and>
        m_minHeap tm1 = MinHeap_push BinaryHeap_ops (m_minHeap tm) p \<and> m_key p < 10"
proof -
  let ?tm = "\<lparr>m_minHeap = MinHeap_ctor BinaryHeap_ops, m_msecFunc = Some (\<lambda>w. 10)\<rparr>
      :: ((u64, (u64, unit task) KVPair) BinaryHeap, unit) TimerManger"
  let ?tm1 = "?tm\<lparr>m_minHeap := MinHeap_push BinaryHeap_ops (m_minHeap ?tm)
      (KVPair_ctor (18446744073709551615 + 10) (KVPair_ctor 18446744073709551615 None))\<rparr>"
  have c: "TimerManger_create_task BinaryHeap_ops ?tm 18446744073709551615 None () = Inr ?tm1"
    by (simp add: TimerManger_create_task_def MinHeap_defs)
  show ?thesis
    using TimerManger_deadline_wraps [OF _ _ c, of "\<lambda>w. 10"] c
    by auto
qed

text \<open>
  \<open>proxy_exec\<close> on each branch: an empty task is the exception the source throws; a
  task that returns false runs once and leaves the timers alone; a task that returns true is
  stored again with its interval counted from the clock as it reads after the task ran.
\<close>

theorem TimerManger_proxy_exec_spec:
  "TimerManger_proxy_exec ops tm (KVPair_ctor d (KVPair_ctor msec None)) w =
     Inl (Thrown ''Cannot Exec!!'') \<and>
   (task w = (False, w') \<longrightarrow>
     TimerManger_proxy_exec ops tm (KVPair_ctor d (KVPair_ctor msec (Some task))) w = Inr (tm, w')) \<and>
   (task w = (True, w') \<longrightarrow> m_msecFunc tm = Some clock \<longrightarrow>
     TimerManger_proxy_exec ops tm (KVPair_ctor d (KVPair_ctor msec (Some task))) w =
       Inr (tm\<lparr>m_minHeap := MinHeap_push ops (m_minHeap tm)
              (KVPair_ctor (msec + clock w') (KVPair_ctor msec (Some task)))\<rparr>, w'))"
  by (simp add: TimerManger_proxy_exec_def TimerManger_create_task_def heap_defs)

theorem TimerManger_proxy_exec_spec_witness:
  "let tm = (\<lparr>m_minHeap = MinHeap_ctor BinaryHeap_ops, m_msecFunc = Some (\<lambda>w. w)\<rparr>
      :: ((u64, (u64, u64 task) KVPair) BinaryHeap, u64) TimerManger);
       task = (\<lambda>w. (True, w + 1))
   in TimerManger_proxy_exec BinaryHeap_ops tm (KVPair_ctor 9 (KVPair_ctor 5 (Some task))) 10 =
        Inr (tm\<lparr>m_minHeap := MinHeap_push BinaryHeap_ops (m_minHeap tm)
              (KVPair_ctor (5 + 11) (KVPair_ctor 5 (Some task)))\<rparr>, 11)"
  using TimerManger_proxy_exec_spec [where w = "10 :: u64" and w' = 11 and d = 9 and msec = 5
      and task = "\<lambda>w. (True, w + 1)" and clock = "\<lambda>w. w" and ops = BinaryHeap_ops
      and tm = "\<lparr>m_minHeap = MinHeap_ctor BinaryHeap_ops, m_msecFunc = Some (\<lambda>w. w)\<rparr>"]
  by (simp add: Let_def)

end
