(* ===== verification/Schedule.thy ===== *)
theory Schedule
  imports Andren_Prelude
begin

text \<open>
  \<open>source/extention/schedule.cpp\<close>: the choice of a thread from a key. The three overloads of
  \<open>doSchedule\<close> take the remainder in unsigned 64-bit arithmetic, to which \<open>m_threadSize\<close>, a signed
  \<open>int\<close>, is converted by sign extension, and return it as \<open>int32_t\<close>. \<open>std::hash<std::string>\<close> is
  the parameter \<open>hasher\<close>. \<open>std::abs\<close> of the least 64-bit integer, which has no defined result, is
  that integer itself, as on two's complement machines.
\<close>

record Schedule =
  m_threadSize :: "32 word"

definition Schedule_ctor0 :: Schedule where
  "Schedule_ctor0 = \<lparr>m_threadSize = 1\<rparr>"

definition Schedule_ctor :: "32 word \<Rightarrow> Schedule" where
  "Schedule_ctor threadSize = \<lparr>m_threadSize = threadSize\<rparr>"

definition Schedule_rem :: "Schedule \<Rightarrow> u64 \<Rightarrow> u32 outcome" where
  "Schedule_rem s v =
     (if m_threadSize s = 0 then Inl Div_By_Zero
      else Inr (ucast (v mod (scast (m_threadSize s) :: u64))))"

definition Schedule_doSchedule_string :: "(string \<Rightarrow> u64) \<Rightarrow> Schedule \<Rightarrow> string \<Rightarrow> u32 outcome" where
  "Schedule_doSchedule_string hasher s key = Schedule_rem s (hasher key)"

definition Schedule_doSchedule_i64 :: "Schedule \<Rightarrow> u64 \<Rightarrow> u32 outcome" where
  "Schedule_doSchedule_i64 s key = Schedule_rem s (if sint key < 0 then - key else key)"

definition Schedule_doSchedule_u64 :: "Schedule \<Rightarrow> u64 \<Rightarrow> u32 outcome" where
  "Schedule_doSchedule_u64 s key = Schedule_rem s key"

definition Schedule_threads :: "Schedule \<Rightarrow> u32" where
  "Schedule_threads s = m_threadSize s"

lemmas Schedule_defs [loop_defs] =
  Schedule_ctor0_def Schedule_ctor_def Schedule_doSchedule_string_def Schedule_doSchedule_i64_def
  Schedule_doSchedule_u64_def Schedule_threads_def

section \<open>Range of the result\<close>

lemma sint_pos_unat:
  assumes "0 < sint (n :: 32 word)"
  shows "unat (scast n :: 64 word) = unat n" and "unat n < 2 ^ 31" and "n \<noteq> 0"
proof -
  have s: "sint n < 2 ^ 31" using sint_lt[of n] by simp
  have u: "sint n = uint n"
    using assms s by (simp add: uint_sint[of n] take_bit_int_eq_self)
  have "int (unat n) < int (2 ^ 31)" using s u by simp
  then show "unat n < 2 ^ 31" by (simp only: of_nat_less_iff)
  show "n \<noteq> 0" using assms by auto
  have "uint (scast n :: 64 word) = sint n mod 2 ^ 64"
    unfolding scast_eq[of n] unsigned_of_int take_bit_eq_mod by simp
  then have "uint (scast n :: 64 word) = sint n" using s assms by simp
  then have "int (unat (scast n :: 64 word)) = int (unat n)" using u by simp
  then show "unat (scast n :: 64 word) = unat n" by (simp only: of_nat_eq_iff)
qed

lemma Schedule_rem_spec:
  assumes "0 < sint (m_threadSize s)"
  shows "\<exists>i. Schedule_rem s v = Inr i \<and> unat i = unat v mod unat (m_threadSize s)
    \<and> unat i < unat (m_threadSize s)"
proof -
  let ?n = "m_threadSize s"
  note n = sint_pos_unat[OF assms]
  have pos: "0 < unat ?n" using n(3) unat_gt_0 by blast
  have m: "unat (v mod (scast ?n :: u64)) = unat v mod unat ?n"
    using n(1) by (simp add: unat_mod)
  moreover have lt: "unat v mod unat ?n < unat ?n" using pos by simp
  ultimately have "unat (ucast (v mod (scast ?n :: u64)) :: u32) = unat v mod unat ?n"
    using n(2) by (simp add: unsigned_ucast_eq take_bit_nat_eq_self_iff)
  then show ?thesis using n(3) lt by (simp add: Schedule_rem_def)
qed

section \<open>Properties\<close>

text \<open>
  With a positive number of threads every overload of \<open>doSchedule\<close> returns a thread
  index below that number, whatever the key and whatever the hash; with zero threads every one
  of them divides by zero.
\<close>

theorem Schedule_in_range:
  assumes "0 < sint n"
  shows "\<exists>i j k. Schedule_doSchedule_u64 (Schedule_ctor n) key = Inr i \<and> unat i < unat n
      \<and> Schedule_doSchedule_i64 (Schedule_ctor n) key = Inr j \<and> unat j < unat n
      \<and> Schedule_doSchedule_string hasher (Schedule_ctor n) str = Inr k \<and> unat k < unat n
      \<and> Schedule_doSchedule_u64 (Schedule_ctor 0) key = Inl Div_By_Zero"
  using Schedule_rem_spec[of "Schedule_ctor n"] assms
  by (fastforce simp: loop_defs Schedule_rem_def)

theorem Schedule_in_range_witness:
  "\<exists>i. Schedule_doSchedule_i64 (Schedule_ctor 3) (- 1) = Inr i \<and> unat i < 3"
  using Schedule_in_range[of 3 "- 1"] by auto

end
