(* ===== verification/Circular_Queue.thy ===== *)
theory Circular_Queue
  imports Andren_Prelude
begin

text \<open>
  \<open>include/base/circleque.hpp\<close>: \<open>CircularQueue<T>\<close>, a ring buffer over a vector that grows.
  \<open>m_current\<close> is the next free position and \<open>m_head\<close> the oldest element; the queue is empty
  when they are equal. The parameter \<open>d\<close> of the operations that resize the vector is the
  value-initialised element \<open>T{}\<close>. A moved-from element stays in its slot as an unspecified
  value; no operation reads such a slot before writing it, so the model leaves the slot as it
  was. Positions and sizes are natural numbers (a \<open>size_t\<close> that counts elements of a vector
  cannot reach \<open>2 ^ 64\<close>), except in \<open>size() - 1\<close>, which wraps on an empty vector; there the
  source's comparison with \<open>m_current\<close> fails and the store that follows is out of range.
\<close>

record 'a CircularQueue =
  m_vec :: "'a list"
  m_current :: nat
  m_head :: nat

definition resize :: "'a \<Rightarrow> nat \<Rightarrow> 'a list \<Rightarrow> 'a list" where
  "resize d n v = (if n \<le> length v then take n v else v @ replicate (n - length v) d)"

definition CircularQueue_ctor :: "'a \<Rightarrow> 'a CircularQueue" where
  "CircularQueue_ctor d = \<lparr>m_vec = resize d 16 [], m_current = 0, m_head = 0\<rparr>"

definition CircularQueue_ctor_presize :: "'a \<Rightarrow> nat \<Rightarrow> 'a CircularQueue" where
  "CircularQueue_ctor_presize d presize =
     \<lparr>m_vec = resize d (max presize 16) [], m_current = 0, m_head = 0\<rparr>"

text \<open>The move constructor empties the source's vector and leaves its two positions.\<close>

definition CircularQueue_move_ctor :: "'a CircularQueue \<Rightarrow> 'a CircularQueue \<times> 'a CircularQueue" where
  "CircularQueue_move_ctor q =
     (\<lparr>m_vec = m_vec q, m_current = m_current q, m_head = m_head q\<rparr>, q\<lparr>m_vec := []\<rparr>)"

definition CircularQueue_copy_assign :: "'a CircularQueue \<Rightarrow> 'a CircularQueue \<Rightarrow> 'a CircularQueue" where
  "CircularQueue_copy_assign self other = self\<lparr>m_vec := m_vec other, m_current := m_current other, m_head := m_head other\<rparr>"

definition CircularQueue_copy :: "'a CircularQueue \<Rightarrow> 'a CircularQueue" where
  "CircularQueue_copy q = \<lparr>m_vec = m_vec q, m_current = m_current q, m_head = m_head q\<rparr>"

definition CircularQueue_move_assign :: "'a CircularQueue \<Rightarrow> 'a CircularQueue \<times> 'a CircularQueue" where
  "CircularQueue_move_assign q =
     (\<lparr>m_vec = m_vec q, m_current = m_current q, m_head = m_head q\<rparr>,
      q\<lparr>m_vec := [], m_current := 0, m_head := 0\<rparr>)"

definition CircularQueue_empty :: "'a CircularQueue \<Rightarrow> bool" where
  "CircularQueue_empty q \<longleftrightarrow> m_head q = m_current q"

definition CircularQueue_capacity :: "'a CircularQueue \<Rightarrow> nat" where
  "CircularQueue_capacity q = length (m_vec q)"

definition CircularQueue_size :: "'a CircularQueue \<Rightarrow> nat" where
  "CircularQueue_size q =
     (if m_current q \<ge> m_head q then m_current q - m_head q
      else CircularQueue_capacity q - (m_head q - m_current q))"

definition CircularQueue_front :: "'a CircularQueue \<Rightarrow> 'a outcome" where
  "CircularQueue_front q =
     (if m_head q < length (m_vec q) then Inr (m_vec q ! m_head q) else Inl Out_Of_Range)"

definition CircularQueue_swap ::
  "'a CircularQueue \<Rightarrow> 'a CircularQueue \<Rightarrow> 'a CircularQueue \<times> 'a CircularQueue" where
  "CircularQueue_swap a b =
     (a\<lparr>m_vec := m_vec b, m_current := m_current b, m_head := m_head b\<rparr>,
      b\<lparr>m_vec := m_vec a, m_current := m_current a, m_head := m_head a\<rparr>)"

definition CircularQueue_clear :: "'a \<Rightarrow> 'a CircularQueue \<Rightarrow> 'a CircularQueue" where
  "CircularQueue_clear d q =
     q\<lparr>m_current := 0, m_head := 0, m_vec := resize d (length (m_vec q)) []\<rparr>"

text \<open>\<open>m_current == m_vec.size() - 1\<close>, with the wrap of the unsigned subtraction.\<close>

definition at_last :: "'a CircularQueue \<Rightarrow> bool" where
  "at_last q \<longleftrightarrow> 0 < length (m_vec q) \<and> m_current q = length (m_vec q) - 1"

definition CircularQueue_add :: "'a \<Rightarrow> 'a CircularQueue \<Rightarrow> 'a \<Rightarrow> 'a CircularQueue outcome" where
  "CircularQueue_add d q v =
     (if length (m_vec q) \<le> m_current q then Inl Out_Of_Range
      else let q1 = q\<lparr>m_vec := (m_vec q)[m_current q := v]\<rparr> in
        if m_head q < m_current q then
          (if at_last q then
             if m_head q = 0
             then Inr (q1\<lparr>m_current := m_current q + 1,
                          m_vec := resize d (length (m_vec q1) * 2) (m_vec q1)\<rparr>)
             else Inr (q1\<lparr>m_current := 0\<rparr>)
           else Inr (q1\<lparr>m_current := m_current q + 1\<rparr>))
        else if m_head q = m_current q then
          (if at_last q then Inr (q1\<lparr>m_current := 0\<rparr>)
           else Inr (q1\<lparr>m_current := m_current q + 1\<rparr>))
        else
          (if m_current q = m_head q - 1 then
             (let tmp = drop (m_head q) (m_vec q1) @ take (m_head q) (m_vec q1)
              in Inr (q1\<lparr>m_head := 0, m_current := length (m_vec q1),
                         m_vec := resize d (max (length tmp * 2) 1) tmp\<rparr>))
           else Inr (q1\<lparr>m_current := m_current q + 1\<rparr>)))"

definition CircularQueue_pop :: "'a CircularQueue \<Rightarrow> ('a option \<times> 'a CircularQueue) outcome" where
  "CircularQueue_pop q =
     (if m_head q < m_current q then
        (if m_head q < length (m_vec q)
         then Inr (Some (m_vec q ! m_head q), q\<lparr>m_head := m_head q + 1\<rparr>)
         else Inl Out_Of_Range)
      else if m_head q = m_current q then Inr (None, q)
      else
        (if m_head q < length (m_vec q)
         then Inr (Some (m_vec q ! m_head q),
           q\<lparr>m_head := (if m_head q = length (m_vec q) - 1 then 0 else m_head q + 1)\<rparr>)
         else Inl Out_Of_Range))"

definition CircularQueue_emplace_back :: "'a \<Rightarrow> 'a CircularQueue \<Rightarrow> 'a \<Rightarrow> 'a CircularQueue outcome" where
  "CircularQueue_emplace_back d q v = CircularQueue_add d q v"

definition CircularQueue_push_back :: "'a \<Rightarrow> 'a CircularQueue \<Rightarrow> 'a \<Rightarrow> 'a CircularQueue outcome" where
  "CircularQueue_push_back d q v = CircularQueue_emplace_back d q v"

definition CircularQueue_take :: "'a CircularQueue \<Rightarrow> ('a option \<times> 'a CircularQueue) outcome" where
  "CircularQueue_take q = CircularQueue_pop q"

definition CircularQueue_pop_front :: "'a CircularQueue \<Rightarrow> ('a option \<times> 'a CircularQueue) outcome" where
  "CircularQueue_pop_front q = CircularQueue_pop q"

lemmas CircularQueue_defs [queue_defs] =
  CircularQueue_empty_def CircularQueue_capacity_def CircularQueue_size_def CircularQueue_front_def
  CircularQueue_swap_def CircularQueue_emplace_back_def CircularQueue_push_back_def
  CircularQueue_take_def CircularQueue_pop_front_def

section \<open>Invariant and the list a ring holds\<close>

text \<open>
  The vector has room for two elements or more (the constructors give it at least 16): on a
  vector of one slot an insertion into the empty queue would set \<open>m_current\<close> back to \<open>m_head\<close>
  and lose the element.
\<close>

definition CircularQueue_inv :: "'a CircularQueue \<Rightarrow> bool" where
  "CircularQueue_inv q \<longleftrightarrow>
     1 < length (m_vec q) \<and> m_head q < length (m_vec q) \<and> m_current q < length (m_vec q)"

definition CircularQueue_list :: "'a CircularQueue \<Rightarrow> 'a list" where
  "CircularQueue_list q = ring_list (m_vec q) (m_head q) (CircularQueue_size q)"

lemma length_resize [simp]: "length (resize d n v) = n"
  by (simp add: resize_def)

lemma nth_resize: "k < length v \<Longrightarrow> k < n \<Longrightarrow> resize d n v ! k = v ! k"
  by (simp add: resize_def nth_append)

lemma CircularQueue_size_mod:
  assumes "CircularQueue_inv q"
  shows "(m_head q + CircularQueue_size q) mod length (m_vec q) = m_current q"
    and "CircularQueue_size q < length (m_vec q)"
  using assms by (auto simp: CircularQueue_inv_def CircularQueue_size_def CircularQueue_capacity_def)

text \<open>
  Writing the free slot and advancing over it appends to the list; this covers every branch
  that does not grow the vector.
\<close>

lemma ring_append:
  assumes "h < length v" and "n < length v"
  shows "ring_list (v[(h + n) mod length v := x]) h (Suc n) = ring_list v h n @ [x]"
proof -
  have "(h + k) mod length v \<noteq> (h + n) mod length v" if "k < n" for k
    using that assms by (auto simp: mod_add_once split: if_splits)
  then have "ring_list (v[(h + n) mod length v := x]) h n = ring_list v h n"
    by (rule ring_list_update_other)
  moreover have "(h + n) mod length v < length v" using assms(1) by (intro mod_less_divisor) linarith
  ultimately show ?thesis by (simp add: ring_list_Suc)
qed

lemma CircularQueue_list_write:
  assumes "CircularQueue_inv q"
  shows "ring_list ((m_vec q)[m_current q := x]) (m_head q) (Suc (CircularQueue_size q)) =
    CircularQueue_list q @ [x]"
  using ring_append[of "m_head q" "m_vec q" "CircularQueue_size q" x] assms CircularQueue_size_mod[OF assms]
  by (simp add: CircularQueue_list_def CircularQueue_inv_def)

text \<open>The two branches that grow: the list is laid out from position 0.\<close>

lemma ring_list_at_0:
  assumes "n \<le> length v"
  shows "ring_list v 0 n = take n v"
  using assms by (intro nth_equalityI) auto

lemma ring_list_full:
  assumes "h < length v"
  shows "ring_list v h (length v) = drop h v @ take h v"
proof (rule nth_equalityI)
  fix k assume k: "k < length (ring_list v h (length v))"
  show "ring_list v h (length v) ! k = (drop h v @ take h v) ! k"
  proof (cases "h + k < length v")
    case True
    then show ?thesis using k assms by (simp add: nth_append less_diff_conv)
  next
    case False
    then have "(h + k) mod length v = h + k - length v"
      using k assms by (simp add: mod_add_once)
    moreover have "k - (length v - h) = h + k - length v" using False assms by linarith
    ultimately show ?thesis using False k assms by (simp add: nth_append less_diff_conv)
  qed
qed (use assms in simp)

lemma take_resize: "n \<le> length v \<Longrightarrow> n \<le> m \<Longrightarrow> take n (resize d m v) = take n v"
  by (simp add: resize_def min_def)

lemma CircularQueue_add_refines:
  assumes inv: "CircularQueue_inv q"
  shows "\<exists>q'. CircularQueue_add d q v = Inr q' \<and> CircularQueue_inv q' \<and>
     CircularQueue_list q' = CircularQueue_list q @ [v]"
proof -
  let ?v = "(m_vec q)[m_current q := v]"
  let ?n = "CircularQueue_size q"
  have b: "m_head q < length (m_vec q)" "m_current q < length (m_vec q)" "1 < length (m_vec q)"
    using inv by (simp_all add: CircularQueue_inv_def)
  note app = CircularQueue_list_write[OF inv, of v]
  consider (grow0) "m_head q < m_current q" "at_last q" "m_head q = 0"
    | (rot) "m_head q > m_current q" "m_current q = m_head q - 1"
    | (plain) "\<not> (m_head q < m_current q \<and> at_last q \<and> m_head q = 0)"
        "\<not> (m_head q > m_current q \<and> m_current q = m_head q - 1)"
    by metis
  then show ?thesis
  proof cases
    case grow0
    let ?q = "q\<lparr>m_vec := resize d (length ?v * 2) ?v, m_current := m_current q + 1\<rparr>"
    have "CircularQueue_add d q v = Inr ?q"
      using grow0 b by (simp add: CircularQueue_add_def Let_def)
    moreover have "Suc (m_current q) = length (m_vec q)" "?n = m_current q"
      using grow0 by (auto simp: at_last_def CircularQueue_size_def)
    moreover from this have "CircularQueue_list ?q = CircularQueue_list q @ [v]"
      using app grow0 b
      by (simp add: CircularQueue_list_def CircularQueue_size_def ring_list_at_0 take_resize)
    ultimately show ?thesis using grow0 b by (intro exI[of _ ?q]) (simp add: CircularQueue_inv_def)
  next
    case rot
    let ?tmp = "drop (m_head q) ?v @ take (m_head q) ?v"
    let ?q = "q\<lparr>m_vec := resize d (max (length ?tmp * 2) 1) ?tmp, m_current := length ?v, m_head := 0\<rparr>"
    have "(length (m_vec q) - m_head q) * 2 + m_head q * 2 = length (m_vec q) * 2"
      using b by simp
    then have "CircularQueue_add d q v = Inr ?q"
      using rot b by (simp add: CircularQueue_add_def Let_def)
    moreover have "Suc ?n = length (m_vec q)"
      using rot b by (simp add: CircularQueue_size_def CircularQueue_capacity_def)
    moreover from this have "CircularQueue_list ?q = CircularQueue_list q @ [v]"
      using app rot b ring_list_full[of "m_head q" ?v]
      by (simp add: CircularQueue_list_def CircularQueue_size_def ring_list_at_0 take_resize)
    moreover have "length ?tmp = length (m_vec q)" using b by simp
    ultimately show ?thesis using b by (intro exI[of _ ?q]) (auto simp: CircularQueue_inv_def)
  next
    case plain
    let ?q = "q\<lparr>m_vec := ?v, m_current := (if at_last q then 0 else m_current q + 1)\<rparr>"
    have "CircularQueue_add d q v = Inr ?q"
      using plain b by (auto simp: CircularQueue_add_def Let_def at_last_def)
    moreover have "CircularQueue_inv ?q"
      using b by (auto simp: CircularQueue_inv_def at_last_def)
    moreover have "CircularQueue_size ?q = Suc ?n"
      using plain b by (auto simp: CircularQueue_size_def CircularQueue_capacity_def at_last_def)
    moreover from this have "CircularQueue_list ?q = CircularQueue_list q @ [v]"
      using app by (simp add: CircularQueue_list_def)
    ultimately show ?thesis by blast
  qed
qed

lemma CircularQueue_pop_refines:
  assumes inv: "CircularQueue_inv q"
  shows "\<exists>r q'. CircularQueue_pop q = Inr (r, q') \<and> CircularQueue_inv q' \<and>
     (case CircularQueue_list q of
        [] \<Rightarrow> r = None \<and> q' = q
      | x # xs \<Rightarrow> r = Some x \<and> CircularQueue_list q' = xs)"
proof (cases "m_head q = m_current q")
  case True
  then have "CircularQueue_list q = []" by (simp add: CircularQueue_list_def CircularQueue_size_def)
  then show ?thesis using True inv by (simp add: CircularQueue_pop_def)
next
  case False
  have b: "m_head q < length (m_vec q)" "m_current q < length (m_vec q)" "1 < length (m_vec q)"
    using inv by (simp_all add: CircularQueue_inv_def)
  let ?q = "q\<lparr>m_head := (m_head q + 1) mod length (m_vec q)\<rparr>"
  have pos: "0 < CircularQueue_size q"
    using False b by (auto simp: CircularQueue_size_def CircularQueue_capacity_def)
  have nxt: "(m_head q + 1) mod length (m_vec q) =
      (if m_head q = length (m_vec q) - 1 then 0 else m_head q + 1)"
    using b by (auto simp: mod_if)
  have "CircularQueue_pop q = Inr (Some (m_vec q ! m_head q), ?q)"
    using False b unfolding nxt by (auto simp: CircularQueue_pop_def)
  moreover have "CircularQueue_inv ?q" using b nxt by (auto simp: CircularQueue_inv_def)
  moreover have "CircularQueue_size ?q = CircularQueue_size q - 1"
    using False b unfolding CircularQueue_size_def CircularQueue_capacity_def nxt by auto
  moreover from this have "CircularQueue_list q = m_vec q ! m_head q # CircularQueue_list ?q"
    using ring_list_Cons[OF pos, of "m_vec q" "m_head q"] b by (simp add: CircularQueue_list_def)
  ultimately show ?thesis by auto
qed

section \<open>Properties\<close>

text \<open>
  Property C18. The ring buffer implements an unbounded first-in first-out queue: on a well-formed
  queue an insertion never fails, whatever branch it takes (plain, wrapping, doubling in place,
  rotating into a doubled vector), and appends to the list the ring holds; a removal never
  fails, takes the head of that list, and reports an empty queue exactly when the list is empty.
\<close>

theorem CircularQueue_refines_list:
  assumes "CircularQueue_inv q"
  shows "(\<exists>q'. CircularQueue_push_back d q v = Inr q' \<and> CircularQueue_inv q' \<and>
            CircularQueue_list q' = CircularQueue_list q @ [v]) \<and>
     (\<exists>r q'. CircularQueue_pop_front q = Inr (r, q') \<and> CircularQueue_inv q' \<and>
            (case CircularQueue_list q of
               [] \<Rightarrow> r = None \<and> q' = q
             | x # xs \<Rightarrow> r = Some x \<and> CircularQueue_list q' = xs)) \<and>
     CircularQueue_size q = length (CircularQueue_list q) \<and>
     (CircularQueue_empty q \<longleftrightarrow> CircularQueue_list q = [])"
proof -
  have "CircularQueue_empty q \<longleftrightarrow> CircularQueue_list q = []"
    using assms by (auto simp: CircularQueue_empty_def CircularQueue_list_def CircularQueue_size_def
        CircularQueue_capacity_def CircularQueue_inv_def ring_list_def split: if_splits)
  then show ?thesis
    using CircularQueue_add_refines[OF assms, of d v] CircularQueue_pop_refines[OF assms]
    by (simp add: CircularQueue_push_back_def CircularQueue_emplace_back_def
        CircularQueue_pop_front_def) (simp add: CircularQueue_list_def)
qed

theorem CircularQueue_refines_list_witness:
  "let q = (\<lparr>m_vec = [1, 2], m_current = 0, m_head = 1\<rparr> :: nat CircularQueue)
   in CircularQueue_inv q \<and> CircularQueue_list q = [2] \<and>
      (\<exists>q'. CircularQueue_push_back 0 q 7 = Inr q' \<and> CircularQueue_list q' = [2, 7] \<and>
         CircularQueue_capacity q' = 4)"
proof -
  let ?q = "\<lparr>m_vec = [1, 2], m_current = 0, m_head = 1\<rparr> :: nat CircularQueue"
  have inv: "CircularQueue_inv ?q" by (simp add: CircularQueue_inv_def)
  have l: "CircularQueue_list ?q = [2]"
    by (simp add: CircularQueue_list_def CircularQueue_size_def CircularQueue_capacity_def ring_list_def)
  obtain q' where q': "CircularQueue_push_back 0 ?q 7 = Inr q'" "CircularQueue_list q' = [2, 7]"
    using CircularQueue_refines_list [OF inv, of 0 7] l by auto
  moreover have "CircularQueue_capacity q' = 4"
    using q'(1) by (auto simp: CircularQueue_push_back_def CircularQueue_emplace_back_def
        CircularQueue_add_def CircularQueue_capacity_def Let_def)
  ultimately show ?thesis using inv l by (auto simp: Let_def)
qed

text \<open>
  The move constructor leaves its source unusable: the source keeps its two
  positions over an empty vector, so whatever it held, the next insertion writes outside the
  vector, and so does the next removal when the queue held elements.
\<close>

theorem CircularQueue_moved_from_faults:
  assumes "CircularQueue_inv q" and "CircularQueue_move_ctor q = (new, old)"
  shows "CircularQueue_list new = CircularQueue_list q \<and>
     CircularQueue_push_back d old v = Inl Out_Of_Range \<and>
     (CircularQueue_list q \<noteq> [] \<longrightarrow> CircularQueue_pop_front old = Inl Out_Of_Range)"
  using assms
  by (auto simp: CircularQueue_move_ctor_def queue_defs CircularQueue_add_def CircularQueue_pop_def
      CircularQueue_list_def)

theorem CircularQueue_moved_from_faults_witness:
  "CircularQueue_push_back 0 (snd (CircularQueue_move_ctor (CircularQueue_ctor (0 :: nat)))) 5 =
     Inl Out_Of_Range"
  using CircularQueue_moved_from_faults [of "CircularQueue_ctor 0"
      "fst (CircularQueue_move_ctor (CircularQueue_ctor (0 :: nat)))"
      "snd (CircularQueue_move_ctor (CircularQueue_ctor 0))" 0 5]
  by (simp add: CircularQueue_inv_def CircularQueue_ctor_def)

end
