(* ===== verification/Mutex_Que.thy ===== *)
theory Mutex_Que
  imports Circular_Queue
begin

text \<open>
  \<open>include/base/mutex_que.hpp\<close>: the double-buffered queues with many producers and one
  consumer. Producers append to \<open>m_tail\<close> under the mutex; the consumer owns \<open>m_front\<close> and,
  when it is empty, exchanges the two buffers under the mutex. \<open>MutexQue\<close> is a list
  per deque; \<open>MutexQueAlloc\<close>, the same queue over deques with an allocator, is in \<open>Mutex_Que_Alloc\<close>;
  \<open>MutexQueCircle\<close> is built on \<open>CircularQueue<int>\<close>. The locale \<open>mpsc_queue\<close> is what their
  clients rely on. A second model splits the consumer's calls at the mutex, so that a producer
  may run between the emptiness test, the exchange and the removal.
\<close>

section \<open>The contract of a queue with one consumer\<close>

locale mpsc_queue =
  fixes push :: "'q \<Rightarrow> 'a \<Rightarrow> 'q outcome"
    and take_one :: "'q \<Rightarrow> ('a option \<times> 'q) outcome"
    and contents :: "'q \<Rightarrow> 'a list"
    and invar :: "'q \<Rightarrow> bool"
  assumes push_ok: "invar q \<Longrightarrow>
      \<exists>q'. push q x = Inr q' \<and> invar q' \<and> contents q' = contents q @ [x]"
    and take_ok: "invar q \<Longrightarrow>
      \<exists>r q'. take_one q = Inr (r, q') \<and> invar q' \<and>
        (case contents q of [] \<Rightarrow> r = None \<and> contents q' = []
         | x # xs \<Rightarrow> r = Some x \<and> contents q' = xs)"

text \<open>A run of producer and consumer calls in one total order; it collects what was taken.\<close>

datatype 'a queue_call = Push 'a | Take

fun queue_run ::
  "('q \<Rightarrow> 'a \<Rightarrow> 'q outcome) \<Rightarrow> ('q \<Rightarrow> ('a option \<times> 'q) outcome) \<Rightarrow> 'a queue_call list \<Rightarrow> 'q
     \<Rightarrow> ('a list \<times> 'q) outcome" where
  "queue_run push take_one [] q = Inr ([], q)"
| "queue_run push take_one (Push x # cs) q =
     (case push q x of Inl e \<Rightarrow> Inl e | Inr q' \<Rightarrow> queue_run push take_one cs q')"
| "queue_run push take_one (Take # cs) q =
     (case take_one q of Inl e \<Rightarrow> Inl e
      | Inr (r, q') \<Rightarrow>
          (case queue_run push take_one cs q' of Inl e \<Rightarrow> Inl e
           | Inr (out, q'') \<Rightarrow> Inr (case r of None \<Rightarrow> out | Some x \<Rightarrow> x # out, q'')))"

fun pushed :: "'a queue_call list \<Rightarrow> 'a list" where
  "pushed [] = []"
| "pushed (Push x # cs) = x # pushed cs"
| "pushed (Take # cs) = pushed cs"

context mpsc_queue
begin

theorem run_fifo:
  "invar q \<Longrightarrow> \<exists>out q'. queue_run push take_one cs q = Inr (out, q') \<and> invar q' \<and>
     out @ contents q' = contents q @ pushed cs"
proof (induction cs arbitrary: q)
  case (Cons c cs)
  show ?case
  proof (cases c)
    case (Push x)
    obtain q1 where "push q x = Inr q1" "invar q1" "contents q1 = contents q @ [x]"
      using push_ok[OF Cons.prems] by blast
    with Cons.IH[of q1] Push show ?thesis by auto
  next
    case Take
    obtain r q1 where q1: "take_one q = Inr (r, q1)" "invar q1"
      "case contents q of [] \<Rightarrow> r = None \<and> contents q1 = []
         | x # xs \<Rightarrow> r = Some x \<and> contents q1 = xs"
      using take_ok[OF Cons.prems] by blast
    with Cons.IH[of q1] Take show ?thesis by (cases "contents q") auto
  qed
qed simp

end

section \<open>MutexQue\<close>

record 'a MutexQue =
  m_front :: "'a list"
  m_tail :: "'a list"

definition MutexQue_ctor :: "'a MutexQue" where
  "MutexQue_ctor = \<lparr>m_front = [], m_tail = []\<rparr>"

definition MutexQue_appendFromDeque :: "'a MutexQue \<Rightarrow> 'a list \<Rightarrow> 'a MutexQue" where
  "MutexQue_appendFromDeque q deq = q\<lparr>m_tail := deq @ m_tail q\<rparr>"

definition MutexQue_pushBack :: "'a MutexQue \<Rightarrow> 'a \<Rightarrow> 'a MutexQue" where
  "MutexQue_pushBack q t = q\<lparr>m_tail := m_tail q @ [t]\<rparr>"

text \<open>The block both taking calls begin with: \<open>if (m_front.empty()) { lock; m_front.swap(m_tail); }\<close>.\<close>

definition MutexQue_refill :: "'a MutexQue \<Rightarrow> 'a MutexQue" where
  "MutexQue_refill q =
     (if m_front q = [] then q\<lparr>m_front := m_tail q, m_tail := m_front q\<rparr> else q)"

definition MutexQue_takeOne :: "'a MutexQue \<Rightarrow> 'a option \<times> 'a MutexQue" where
  "MutexQue_takeOne q =
     (let q1 = MutexQue_refill q in
      case m_front q1 of [] \<Rightarrow> (None, q1) | x # xs \<Rightarrow> (Some x, q1\<lparr>m_front := xs\<rparr>))"

text \<open>
  \<open>takeMulti(res)\<close> overwrites \<open>res\<close> with the front buffer, and leaves \<open>res\<close> alone when there is
  nothing to take. Move assignment from a deque leaves it empty.
\<close>

definition MutexQue_takeMulti :: "'a MutexQue \<Rightarrow> 'a list \<Rightarrow> 'a list \<times> 'a MutexQue" where
  "MutexQue_takeMulti q res =
     (let q1 = MutexQue_refill q in
      if m_front q1 = [] then (res, q1) else (m_front q1, q1\<lparr>m_front := []\<rparr>))"

definition MutexQue_contents :: "'a MutexQue \<Rightarrow> 'a list" where
  "MutexQue_contents q = m_front q @ m_tail q"

lemmas MutexQue_defs [queue_defs] =
  MutexQue_ctor_def MutexQue_appendFromDeque_def MutexQue_pushBack_def MutexQue_refill_def
  MutexQue_takeOne_def MutexQue_takeMulti_def MutexQue_contents_def

lemma MutexQue_takeOne_contents:
  "case MutexQue_contents q of
     [] \<Rightarrow> fst (MutexQue_takeOne q) = None \<and> MutexQue_contents (snd (MutexQue_takeOne q)) = []
   | x # xs \<Rightarrow> fst (MutexQue_takeOne q) = Some x \<and> MutexQue_contents (snd (MutexQue_takeOne q)) = xs"
  by (cases "m_front q"; cases "m_tail q") (simp_all add: queue_defs)

lemma MutexQue_takeMulti_contents:
  "fst (MutexQue_takeMulti q []) @ MutexQue_contents (snd (MutexQue_takeMulti q [])) =
     MutexQue_contents q"
  by (simp add: queue_defs Let_def)

lemma MutexQue_takeMulti_progress:
  "fst (MutexQue_takeMulti q []) = [] \<longleftrightarrow> MutexQue_contents q = []"
  by (simp add: queue_defs Let_def)

interpretation mq: mpsc_queue "\<lambda>q x. Inr (MutexQue_pushBack q x)" "\<lambda>q. Inr (MutexQue_takeOne q)"
  MutexQue_contents "\<lambda>_. True"
proof unfold_locales
  fix q :: "'a MutexQue" and x
  show "\<exists>q'. Inr (MutexQue_pushBack q x) = (Inr q' :: 'a MutexQue outcome) \<and> True \<and>
      MutexQue_contents q' = MutexQue_contents q @ [x]"
    by (simp add: queue_defs)
next
  fix q :: "'a MutexQue"
  show "\<exists>r q'. Inr (MutexQue_takeOne q) = (Inr (r, q') :: ('a option \<times> 'a MutexQue) outcome) \<and> True \<and>
      (case MutexQue_contents q of [] \<Rightarrow> r = None \<and> MutexQue_contents q' = []
       | x # xs \<Rightarrow> r = Some x \<and> MutexQue_contents q' = xs)"
    using MutexQue_takeOne_contents[of q] by (cases "MutexQue_takeOne q") (simp split: list.splits)
qed

section \<open>MutexQueCircle\<close>

text \<open>
  The class template has an element type parameter \<open>T\<close>, but its two buffers are
  \<open>CircularQueue<int>\<close>; the model is the only instance that stores what it is given, \<open>T = int\<close>.
\<close>

record MutexQueCircle =
  mc_front :: "int CircularQueue"
  mc_tail :: "int CircularQueue"

definition MutexQueCircle_ctor :: MutexQueCircle where
  "MutexQueCircle_ctor =
     \<lparr>mc_front = CircularQueue_ctor_presize 0 128, mc_tail = CircularQueue_ctor_presize 0 128\<rparr>"

definition MutexQueCircle_pushBack :: "MutexQueCircle \<Rightarrow> int \<Rightarrow> MutexQueCircle outcome" where
  "MutexQueCircle_pushBack q t =
     (case CircularQueue_push_back 0 (mc_tail q) t of
        Inl e \<Rightarrow> Inl e | Inr t' \<Rightarrow> Inr (q\<lparr>mc_tail := t'\<rparr>))"

definition MutexQueCircle_takeOne :: "MutexQueCircle \<Rightarrow> (int option \<times> MutexQueCircle) outcome" where
  "MutexQueCircle_takeOne q =
     (let q1 = (if CircularQueue_empty (mc_front q)
                then (let (f, t) = CircularQueue_swap (mc_front q) (mc_tail q)
                      in q\<lparr>mc_front := f, mc_tail := t\<rparr>)
                else q)
      in if CircularQueue_empty (mc_front q1) then Inr (None, q1)
         else (case CircularQueue_front (mc_front q1) of
                 Inl e \<Rightarrow> Inl e
               | Inr res \<Rightarrow>
                   (case CircularQueue_pop_front (mc_front q1) of
                      Inl e \<Rightarrow> Inl e
                    | Inr (ignored, f) \<Rightarrow> Inr (Some res, q1\<lparr>mc_front := f\<rparr>))))"

definition MutexQueCircle_inv :: "MutexQueCircle \<Rightarrow> bool" where
  "MutexQueCircle_inv q \<longleftrightarrow> CircularQueue_inv (mc_front q) \<and> CircularQueue_inv (mc_tail q)"

definition MutexQueCircle_contents :: "MutexQueCircle \<Rightarrow> int list" where
  "MutexQueCircle_contents q = CircularQueue_list (mc_front q) @ CircularQueue_list (mc_tail q)"

lemma CircularQueue_empty_list:
  "CircularQueue_inv q \<Longrightarrow> CircularQueue_empty q \<longleftrightarrow> CircularQueue_list q = []"
  by (auto simp: CircularQueue_empty_def CircularQueue_list_def CircularQueue_size_def
      CircularQueue_capacity_def CircularQueue_inv_def ring_list_def split: if_splits)

lemma CircularQueue_front_hd:
  assumes "CircularQueue_inv q" and "CircularQueue_list q = x # xs"
  shows "CircularQueue_front q = Inr x"
proof -
  have "0 < CircularQueue_size q" using assms(2) by (metis CircularQueue_list_def length_ring_list
        length_greater_0_conv list.distinct(1))
  from ring_list_Cons[OF this, of "m_vec q" "m_head q"] show ?thesis
    using assms by (simp add: CircularQueue_list_def CircularQueue_front_def CircularQueue_inv_def)
qed

lemma CircularQueue_swap_eq: "CircularQueue_swap a b = (b, a)"
  by (simp add: CircularQueue_swap_def)

interpretation mqc: mpsc_queue MutexQueCircle_pushBack MutexQueCircle_takeOne
  MutexQueCircle_contents MutexQueCircle_inv
proof unfold_locales
  fix q x assume q: "MutexQueCircle_inv q"
  then obtain t where "CircularQueue_add 0 (mc_tail q) x = Inr t" "CircularQueue_inv t"
    "CircularQueue_list t = CircularQueue_list (mc_tail q) @ [x]"
    using CircularQueue_add_refines[of "mc_tail q" 0 x] by (auto simp: MutexQueCircle_inv_def)
  with q show "\<exists>q'. MutexQueCircle_pushBack q x = Inr q' \<and> MutexQueCircle_inv q' \<and>
      MutexQueCircle_contents q' = MutexQueCircle_contents q @ [x]"
    by (simp add: MutexQueCircle_pushBack_def CircularQueue_push_back_def
        CircularQueue_emplace_back_def MutexQueCircle_inv_def MutexQueCircle_contents_def)
next
  fix q assume q: "MutexQueCircle_inv q"
  define q1 where "q1 = (if CircularQueue_empty (mc_front q)
    then q\<lparr>mc_front := mc_tail q, mc_tail := mc_front q\<rparr> else q)"
  have q1: "MutexQueCircle_inv q1" "MutexQueCircle_contents q1 = MutexQueCircle_contents q"
    "CircularQueue_list (mc_front q1) = [] \<longrightarrow> CircularQueue_list (mc_tail q1) = []"
    using q CircularQueue_empty_list[of "mc_front q"]
    by (auto simp: q1_def MutexQueCircle_inv_def MutexQueCircle_contents_def)
  have f: "CircularQueue_inv (mc_front q1)" using q1(1) by (simp add: MutexQueCircle_inv_def)
  show "\<exists>r q'. MutexQueCircle_takeOne q = Inr (r, q') \<and> MutexQueCircle_inv q' \<and>
      (case MutexQueCircle_contents q of [] \<Rightarrow> r = None \<and> MutexQueCircle_contents q' = []
       | x # xs \<Rightarrow> r = Some x \<and> MutexQueCircle_contents q' = xs)"
  proof (cases "CircularQueue_list (mc_front q1)")
    case Nil
    then have "MutexQueCircle_takeOne q = Inr (None, q1)"
      using CircularQueue_empty_list[OF f]
      by (simp add: MutexQueCircle_takeOne_def CircularQueue_swap_eq q1_def[symmetric] Let_def
          cong: if_cong)
    then show ?thesis using Nil q1 by (simp add: MutexQueCircle_contents_def)
  next
    case (Cons x xs)
    obtain g where g: "CircularQueue_pop (mc_front q1) = Inr (Some x, g)" "CircularQueue_inv g"
      "CircularQueue_list g = xs"
      using CircularQueue_pop_refines[OF f] Cons by auto
    have "MutexQueCircle_takeOne q = Inr (Some x, q1\<lparr>mc_front := g\<rparr>)"
      using CircularQueue_empty_list[OF f] Cons g CircularQueue_front_hd[OF f Cons]
      by (simp add: MutexQueCircle_takeOne_def CircularQueue_swap_eq q1_def[symmetric] Let_def
          CircularQueue_pop_front_def cong: if_cong)
    then show ?thesis
      using Cons g q1(1) unfolding q1(2)[symmetric]
      by (auto simp: MutexQueCircle_inv_def MutexQueCircle_contents_def)
  qed
qed

section \<open>Interleaving at the mutex\<close>

text \<open>
  The consumer's call is not atomic: between its test of \<open>m_front\<close>, the exchange under the
  lock, and the removal, any number of producers may push. \<open>Testing\<close> is the consumer outside a
  call, \<open>Swapped\<close> the consumer after the exchange. The ghost lists record every element
  pushed and every element returned, in order.
\<close>

datatype consumer_pc = Testing | Swapped

record 'a mq_state =
  mq :: "'a MutexQue"
  pc :: consumer_pc
  given :: "'a list"
  taken :: "'a list"

definition mq_init :: "'a mq_state" where
  "mq_init = \<lparr>mq = MutexQue_ctor, pc = Testing, given = [], taken = []\<rparr>"

inductive mq_step :: "'a mq_state \<Rightarrow> 'a mq_state \<Rightarrow> bool" where
  produce: "mq_step s (s\<lparr>mq := MutexQue_pushBack (mq s) x, given := given s @ [x]\<rparr>)"
| exchange: "pc s = Testing \<Longrightarrow> m_front (mq s) = [] \<Longrightarrow>
     mq_step s (s\<lparr>mq := (mq s)\<lparr>m_front := m_tail (mq s), m_tail := m_front (mq s)\<rparr>, pc := Swapped\<rparr>)"
| nothing: "pc s = Swapped \<Longrightarrow> m_front (mq s) = [] \<Longrightarrow> mq_step s (s\<lparr>pc := Testing\<rparr>)"
| remove: "m_front (mq s) = x # xs \<Longrightarrow>
     mq_step s (s\<lparr>mq := (mq s)\<lparr>m_front := xs\<rparr>, pc := Testing, taken := taken s @ [x]\<rparr>)"
| remove_all: "m_front (mq s) \<noteq> [] \<Longrightarrow>
     mq_step s (s\<lparr>mq := (mq s)\<lparr>m_front := []\<rparr>, pc := Testing, taken := taken s @ m_front (mq s)\<rparr>)"

inductive mq_reachable :: "'a mq_state \<Rightarrow> bool" where
  mq_start: "mq_reachable mq_init"
| mq_next: "mq_reachable s \<Longrightarrow> mq_step s t \<Longrightarrow> mq_reachable t"

inductive_cases mq_stepE: "mq_step s t"

lemma mq_step_order:
  "mq_step s t \<Longrightarrow> taken s @ MutexQue_contents (mq s) = given s \<Longrightarrow>
   taken t @ MutexQue_contents (mq t) = given t"
  by (erule mq_stepE) (auto simp: queue_defs)

lemma mq_reachable_order: "mq_reachable s \<Longrightarrow> taken s @ MutexQue_contents (mq s) = given s"
proof (induction rule: mq_reachable.induct)
  case mq_start
  show ?case by (simp add: mq_init_def queue_defs)
next
  case (mq_next s t)
  then show ?case by (blast intro: mq_step_order)
qed

section \<open>Properties\<close>

text \<open>
  \<open>MutexQue\<close> is first-in first-out over any sequence of \<open>pushBack\<close> and \<open>takeOne\<close>
  calls: what was taken, followed by what is left in the two buffers, is what was there
  followed by what was pushed. Nothing is lost, repeated or reordered.
\<close>

theorem MutexQue_fifo:
  "\<exists>out q'. queue_run (\<lambda>q x. Inr (MutexQue_pushBack q x)) (\<lambda>q. Inr (MutexQue_takeOne q)) cs q
       = Inr (out, q') \<and>
     out @ MutexQue_contents q' = MutexQue_contents q @ pushed cs"
  using mq.run_fifo[where q = q and cs = cs] by simp

text \<open>
  The ring-buffered \<open>MutexQueCircle\<close>, from its constructor on, never faults and is
  first-in first-out over any sequence of calls.
\<close>

theorem MutexQueCircle_fifo:
  "\<exists>out q'. queue_run MutexQueCircle_pushBack MutexQueCircle_takeOne cs MutexQueCircle_ctor
       = Inr (out, q') \<and>
     out @ MutexQueCircle_contents q' = pushed cs"
proof -
  have "MutexQueCircle_inv MutexQueCircle_ctor" "MutexQueCircle_contents MutexQueCircle_ctor = []"
    by (simp_all add: MutexQueCircle_inv_def MutexQueCircle_contents_def MutexQueCircle_ctor_def
        CircularQueue_ctor_presize_def CircularQueue_inv_def CircularQueue_list_def
        CircularQueue_size_def)
  with mqc.run_fifo[where q = MutexQueCircle_ctor and cs = cs] show ?thesis by auto
qed

text \<open>
  Property C31. Order survives every interleaving of producers with a consumer that is between
  its test, its exchange and its removal: in each reachable state the elements returned,
  followed by the front and the tail buffer, are the elements pushed in the order of their
  pushes.
\<close>

theorem MutexQue_interleaved_order:
  assumes "mq_reachable s"
  shows "taken s @ m_front (mq s) @ m_tail (mq s) = given s"
  using mq_reachable_order[OF assms] by (simp add: MutexQue_contents_def)

theorem MutexQue_interleaved_order_witness:
  "let s = (mq_init :: nat mq_state)\<lparr>mq := MutexQue_pushBack (mq mq_init) 4, given := [4]\<rparr>
   in mq_reachable s \<and> taken s @ m_front (mq s) @ m_tail (mq s) = given s"
proof -
  let ?s = "(mq_init :: nat mq_state)\<lparr>mq := MutexQue_pushBack (mq mq_init) 4, given := [4]\<rparr>"
  have "mq_reachable ?s"
    using mq_reachable.mq_next[OF mq_reachable.mq_start mq_step.produce[of mq_init "4 :: nat"]]
    by (simp add: mq_init_def)
  from MutexQue_interleaved_order [OF this] this show ?thesis by (simp add: Let_def)
qed

text \<open>
  \<open>appendFromDeque\<close> does not append: the returned elements go in front of everything
  still in the tail buffer, and behind the elements the consumer has already claimed.
\<close>

theorem MutexQue_appendFromDeque_order:
  "MutexQue_contents (MutexQue_appendFromDeque q deq) = m_front q @ deq @ m_tail q \<and>
   fst (MutexQue_takeMulti (MutexQue_appendFromDeque \<lparr>m_front = [], m_tail = ys\<rparr> deq) []) = deq @ ys"
  by (simp add: queue_defs Let_def)

end
