(* ===== verification/Task_Sink.thy ===== *)
theory Task_Sink
  imports Andren_Prelude
begin

text \<open>
  The interface between the components that run tasks and those that submit them: a submission
  under an accepted key appends the task to the queue of the one worker the key routes to. A
  sequence of such submissions therefore keeps, on every worker, the order in which its tasks were
  submitted. The distributor and the executor accept every key, the thread pools only the indices
  of their threads.
\<close>

locale task_sink =
  fixes invar :: "'e \<Rightarrow> bool"
    and queue :: "'e \<Rightarrow> nat \<Rightarrow> 'q list"
    and accepts :: "'e \<Rightarrow> 'k \<Rightarrow> bool"
    and route :: "'e \<Rightarrow> 'k \<Rightarrow> nat"
    and wrap :: "'t \<Rightarrow> 'q"
    and submit :: "'e \<Rightarrow> 'k \<Rightarrow> 't \<Rightarrow> (bool \<times> 'e) outcome"
  assumes submit_ok: "invar e \<Longrightarrow> accepts e k \<Longrightarrow>
    \<exists>e'. submit e k t = Inr (True, e') \<and> invar e' \<and> accepts e' = accepts e \<and> route e' = route e \<and>
         (\<forall>j. queue e' j = (if j = route e k then queue e j @ [wrap t] else queue e j))"
begin

definition submit_all :: "('k \<times> 't) list \<Rightarrow> 'e \<Rightarrow> 'e outcome" where
  "submit_all = fold_out (\<lambda>(k, t) e. bind_out (submit e k t) (\<lambda>(_, e'). Inr e'))"

lemma submit_all_order:
  "invar e \<Longrightarrow> \<forall>kt \<in> set kts. accepts e (fst kt) \<Longrightarrow> \<exists>e'. submit_all kts e = Inr e' \<and> invar e' \<and>
     (\<forall>j. queue e' j = queue e j @ map (wrap \<circ> snd) (filter (\<lambda>kt. route e (fst kt) = j) kts))"
proof (induction kts arbitrary: e)
  case Nil
  then show ?case by (simp add: submit_all_def)
next
  case (Cons kt kts)
  obtain k t where kt: "kt = (k, t)" by (cases kt)
  obtain e1 where e1: "submit e k t = Inr (True, e1)" "invar e1" "accepts e1 = accepts e" "route e1 = route e"
    "\<forall>j. queue e1 j = (if j = route e k then queue e j @ [wrap t] else queue e j)"
    using submit_ok[OF Cons.prems(1), of k t] Cons.prems(2) kt by auto
  obtain e2 where e2: "submit_all kts e1 = Inr e2" "invar e2"
    "\<forall>j. queue e2 j = queue e1 j @ map (wrap \<circ> snd) (filter (\<lambda>kt. route e1 (fst kt) = j) kts)"
    using Cons.IH[OF e1(2)] Cons.prems(2) e1(3) by auto
  have "submit_all (kt # kts) e = Inr e2" using e1(1) e2(1) kt by (simp add: submit_all_def)
  then show ?case using e1 e2 kt by auto
qed

end

end
