(* ===== verification/Task_Distributor.thy ===== *)
theory Task_Distributor
  imports Mutex_Que Task_Sink
begin

text \<open>
  \<open>source/extention/task_distributor.cpp\<close>: one queue of tasks per worker thread. A task is a
  \<open>std::function<void()>\<close>, empty (\<open>None\<close>) or a closure \<open>'t\<close>; what a closure does when called is the
  parameter \<open>run\<close>, which acts on the whole state, the distributor and, through the record's
  extension, whatever else the program keeps, so that a task run by a worker may submit tasks. A thread
  pool that was never created is \<open>None\<close>; a joined \<open>std::thread\<close> has the id \<open>no_thread\<close>. The
  wall clock read for a \<open>FURTURE_TASK\<close> is an argument.
\<close>

type_synonym thread_id = nat

definition no_thread :: thread_id where
  "no_thread = 0"

datatype TaskDistributorTaskType = SHCEDULE_TASK | IO_TASK | FURTURE_TASK

record 't TaskDistributor =
  td_size :: nat
  td_tpool :: "thread_id list option"
  td_bqueForTask :: "'t option MutexQue list"
  td_exit :: bool

definition TaskDistributor_ctor :: "nat \<Rightarrow> 't TaskDistributor" where
  "TaskDistributor_ctor sz =
     \<lparr>td_size = max sz 1, td_tpool = None,
      td_bqueForTask = replicate (max sz 1) MutexQue_ctor, td_exit = False\<rparr>"

definition clamp_index :: "('t, 'w) TaskDistributor_scheme \<Rightarrow> nat \<Rightarrow> nat" where
  "clamp_index td index = (if index \<ge> td_size td then td_size td - 1 else index)"

definition push_task ::
  "nat \<Rightarrow> 't option \<Rightarrow> ('t, 'w) TaskDistributor_scheme \<Rightarrow> ('t, 'w) TaskDistributor_scheme" where
  "push_task i task td =
     td\<lparr>td_bqueForTask := (td_bqueForTask td)[i := MutexQue_pushBack (td_bqueForTask td ! i) task]\<rparr>"

definition TaskDistributor_addTask ::
  "('t, 'w) TaskDistributor_scheme \<Rightarrow> 't option \<Rightarrow> nat \<Rightarrow> bool \<times> ('t, 'w) TaskDistributor_scheme" where
  "TaskDistributor_addTask td task index =
     (if td_tpool td = None \<or> task = None then (False, td)
      else (True, push_task (clamp_index td index) task td))"

definition TaskDistributor_addTask_type ::
  "('t, 'w) TaskDistributor_scheme \<Rightarrow> 't option \<Rightarrow> TaskDistributorTaskType \<Rightarrow> u64
     \<Rightarrow> bool \<times> ('t, 'w) TaskDistributor_scheme" where
  "TaskDistributor_addTask_type td task type randmsec =
     (case type of
        IO_TASK \<Rightarrow> TaskDistributor_addTask td task 0
      | SHCEDULE_TASK \<Rightarrow> TaskDistributor_addTask td task (if td_size td > 1 then 1 else 0)
      | FURTURE_TASK \<Rightarrow>
          TaskDistributor_addTask td task
            (if td_size td > 1 then unat randmsec mod (td_size td - 1) else 0))"

definition TaskDistributor_threadId :: "('t, 'w) TaskDistributor_scheme \<Rightarrow> nat \<Rightarrow> thread_id outcome" where
  "TaskDistributor_threadId td index =
     (case td_tpool td of
        None \<Rightarrow> Inl Null_Deref
      | Some ths \<Rightarrow> if index < length ths then Inr (ths ! index) else Inl Out_Of_Range)"

text \<open>
  \<open>addTask_ASAP\<close> calls the task itself when the caller is the worker it is meant for, as its last
  act before returning true. The model returns that closure instead of calling it (second
  component), and the caller runs it on the whole state.
\<close>

definition TaskDistributor_addTask_ASAP ::
  "thread_id \<Rightarrow> ('t, 'w) TaskDistributor_scheme \<Rightarrow> 't option \<Rightarrow> nat
     \<Rightarrow> (bool \<times> 't option \<times> ('t, 'w) TaskDistributor_scheme) outcome" where
  "TaskDistributor_addTask_ASAP self td task index =
     (if td_tpool td = None \<or> task = None then Inr (False, None, td)
      else let i = clamp_index td index in
        (case TaskDistributor_threadId td i of
           Inl e \<Rightarrow> Inl e
         | Inr tid \<Rightarrow>
             if tid = self then Inr (True, task, td)
             else Inr (True, None, push_task i task td)))"

text \<open>\<open>start\<close> creates the threads; \<open>ids\<close> are the ids the system gives them.\<close>

definition TaskDistributor_start ::
  "(nat \<Rightarrow> thread_id) \<Rightarrow> ('t, 'w) TaskDistributor_scheme \<Rightarrow> bool \<times> ('t, 'w) TaskDistributor_scheme" where
  "TaskDistributor_start ids td =
     (True, td\<lparr>td_exit := False, td_tpool := Some (map ids [0..<td_size td])\<rparr>)"

definition TaskDistributor_shutdown ::
  "('t, 'w) TaskDistributor_scheme \<Rightarrow> ('t, 'w) TaskDistributor_scheme" where
  "TaskDistributor_shutdown td =
     td\<lparr>td_exit := True, td_tpool := map_option (map (\<lambda>_. no_thread)) (td_tpool td)\<rparr>"

definition TaskDistributor_isShutdown :: "('t, 'w) TaskDistributor_scheme \<Rightarrow> bool" where
  "TaskDistributor_isShutdown td = td_exit td"

text \<open>
  The two halves of \<open>work\<close>: taking the batch, and calling each non-empty task of it in order.
  An empty batch makes the worker wait for at most 100 microseconds and return.
\<close>

definition work_take ::
  "nat \<Rightarrow> ('t, 'w) TaskDistributor_scheme \<Rightarrow> 't option list \<times> ('t, 'w) TaskDistributor_scheme" where
  "work_take i td =
     (let (result, q) = MutexQue_takeMulti (td_bqueForTask td ! i) []
      in (result, td\<lparr>td_bqueForTask := (td_bqueForTask td)[i := q]\<rparr>))"

fun work_run ::
  "('t \<Rightarrow> ('t, 'w) TaskDistributor_scheme \<Rightarrow> ('t, 'w) TaskDistributor_scheme)
     \<Rightarrow> 't option list \<Rightarrow> ('t, 'w) TaskDistributor_scheme \<Rightarrow> ('t, 'w) TaskDistributor_scheme" where
  "work_run run [] td = td"
| "work_run run (None # ts) td = work_run run ts td"
| "work_run run (Some t # ts) td = work_run run ts (run t td)"

definition TaskDistributor_work ::
  "('t \<Rightarrow> ('t, 'w) TaskDistributor_scheme \<Rightarrow> ('t, 'w) TaskDistributor_scheme)
     \<Rightarrow> nat \<Rightarrow> ('t, 'w) TaskDistributor_scheme \<Rightarrow> ('t, 'w) TaskDistributor_scheme" where
  "TaskDistributor_work run i td = (let (batch, td') = work_take i td in work_run run batch td')"

text \<open>
  \<open>startNextLoop\<close> is \<open>while (!m_exit) work(index)\<close>: rounds of \<open>work\<close> until the exit flag is
  seen. The first argument bounds the rounds, since the loop has no bound of its own.
\<close>

fun TaskDistributor_startNextLoop ::
  "nat \<Rightarrow> ('t \<Rightarrow> ('t, 'w) TaskDistributor_scheme \<Rightarrow> ('t, 'w) TaskDistributor_scheme)
     \<Rightarrow> nat \<Rightarrow> ('t, 'w) TaskDistributor_scheme \<Rightarrow> ('t, 'w) TaskDistributor_scheme" where
  "TaskDistributor_startNextLoop 0 run i td = td"
| "TaskDistributor_startNextLoop (Suc n) run i td =
     (if td_exit td then td
      else TaskDistributor_startNextLoop n run i (TaskDistributor_work run i td))"

lemmas TaskDistributor_defs [loop_defs] =
  TaskDistributor_ctor_def clamp_index_def push_task_def TaskDistributor_addTask_def
  TaskDistributor_addTask_type_def TaskDistributor_threadId_def TaskDistributor_addTask_ASAP_def
  TaskDistributor_start_def TaskDistributor_shutdown_def TaskDistributor_isShutdown_def

section \<open>Well-formedness\<close>

definition TaskDistributor_inv :: "('t, 'w) TaskDistributor_scheme \<Rightarrow> bool" where
  "TaskDistributor_inv td \<longleftrightarrow>
     0 < td_size td \<and> length (td_bqueForTask td) = td_size td \<and>
     (case td_tpool td of None \<Rightarrow> True | Some ths \<Rightarrow> length ths = td_size td) \<and>
     (\<forall>q \<in> set (td_bqueForTask td). None \<notin> set (MutexQue_contents q))"

lemma clamp_index_less: "TaskDistributor_inv td \<Longrightarrow> clamp_index td i < td_size td"
  by (auto simp: TaskDistributor_inv_def clamp_index_def)

lemma push_task_inv:
  assumes "TaskDistributor_inv td" and "i < td_size td" and "task \<noteq> None"
  shows "TaskDistributor_inv (push_task i task td)"
proof -
  have "td_bqueForTask td ! i \<in> set (td_bqueForTask td)"
    using assms by (simp add: TaskDistributor_inv_def)
  then have "None \<notin> set (MutexQue_contents (MutexQue_pushBack (td_bqueForTask td ! i) task))"
    using assms by (auto simp: TaskDistributor_inv_def queue_defs)
  then show ?thesis
    using assms set_update_subset_insert[of "td_bqueForTask td" i]
    by (auto simp: TaskDistributor_inv_def push_task_def split: option.splits)
qed

lemma addTask_inv:
  "TaskDistributor_inv td \<Longrightarrow> TaskDistributor_inv (snd (TaskDistributor_addTask td task index))"
  by (simp add: TaskDistributor_addTask_def push_task_inv clamp_index_less)

lemma addTask_type_inv:
  "TaskDistributor_inv td \<Longrightarrow> TaskDistributor_inv (snd (TaskDistributor_addTask_type td task ty ms))"
  by (cases ty) (simp_all add: TaskDistributor_addTask_type_def addTask_inv)

lemma start_inv:
  "TaskDistributor_inv td \<Longrightarrow> TaskDistributor_inv (snd (TaskDistributor_start ids td))"
  by (simp add: TaskDistributor_inv_def TaskDistributor_start_def)

lemma shutdown_inv: "TaskDistributor_inv td \<Longrightarrow> TaskDistributor_inv (TaskDistributor_shutdown td)"
  by (auto simp: TaskDistributor_inv_def TaskDistributor_shutdown_def split: option.splits)

lemma work_take_inv:
  assumes "TaskDistributor_inv td" and "i < td_size td"
  shows "TaskDistributor_inv (snd (work_take i td)) \<and> None \<notin> set (fst (work_take i td))"
proof -
  let ?q = "td_bqueForTask td ! i"
  have "?q \<in> set (td_bqueForTask td)" using assms by (simp add: TaskDistributor_inv_def)
  then have n: "None \<notin> set (MutexQue_contents ?q)" using assms by (simp add: TaskDistributor_inv_def)
  have "set (fst (MutexQue_takeMulti ?q [])) \<union> set (MutexQue_contents (snd (MutexQue_takeMulti ?q [])))
      = set (MutexQue_contents ?q)"
    using MutexQue_takeMulti_contents[of ?q] by (metis set_append)
  then have r: "None \<notin> set (fst (MutexQue_takeMulti ?q []))"
    "None \<notin> set (MutexQue_contents (snd (MutexQue_takeMulti ?q [])))"
    using n by blast+
  have "\<forall>q \<in> set ((td_bqueForTask td)[i := snd (MutexQue_takeMulti ?q [])]).
          None \<notin> set (MutexQue_contents q)"
    using assms(1) r(2) set_update_subset_insert[of "td_bqueForTask td" i]
    unfolding TaskDistributor_inv_def by blast
  then show ?thesis
    using assms r(1)
    by (simp add: TaskDistributor_inv_def work_take_def split_beta Let_def split: option.splits)
qed

section \<open>Workers and producers interleaved\<close>

text \<open>
  The distributor with its worker threads: \<open>batch i\<close> is what worker \<open>i\<close> has taken and not yet
  called. Any thread may submit, each worker takes a batch when its last one is done and the
  exit flag is not set, and calls its tasks one by one. The ghost sequences record, per
  worker, the tasks submitted to it and the tasks it has called.
\<close>

record 't td_sys =
  dist :: "'t TaskDistributor"
  batch :: "nat \<Rightarrow> 't option list"
  submitted :: "nat \<Rightarrow> 't option list"
  called :: "nat \<Rightarrow> 't option list"

definition td_init :: "nat \<Rightarrow> (nat \<Rightarrow> thread_id) \<Rightarrow> 't td_sys" where
  "td_init n ids =
     \<lparr>dist = snd (TaskDistributor_start ids (TaskDistributor_ctor n)), batch = (\<lambda>_. []),
      submitted = (\<lambda>_. []), called = (\<lambda>_. [])\<rparr>"

inductive td_step :: "'t td_sys \<Rightarrow> 't td_sys \<Rightarrow> bool" where
  submit: "TaskDistributor_addTask (dist s) (Some t) index = (True, d) \<Longrightarrow>
     i = clamp_index (dist s) index \<Longrightarrow>
     td_step s (s\<lparr>dist := d, submitted := (submitted s)(i := submitted s i @ [Some t])\<rparr>)"
| fetch: "i < td_size (dist s) \<Longrightarrow> \<not> td_exit (dist s) \<Longrightarrow> batch s i = [] \<Longrightarrow>
     work_take i (dist s) = (b, d) \<Longrightarrow>
     td_step s (s\<lparr>dist := d, batch := (batch s)(i := b)\<rparr>)"
| call: "batch s i = t # ts \<Longrightarrow>
     td_step s (s\<lparr>batch := (batch s)(i := ts), called := (called s)(i := called s i @ [t])\<rparr>)"
| stop: "td_step s (s\<lparr>dist := TaskDistributor_shutdown (dist s)\<rparr>)"

inductive td_reachable :: "nat \<Rightarrow> 't td_sys \<Rightarrow> bool" for n where
  td_start: "td_reachable n (td_init n ids)"
| td_next: "td_reachable n s \<Longrightarrow> td_step s t \<Longrightarrow> td_reachable n t"

inductive_cases td_stepE: "td_step s t"

definition td_sys_inv :: "'t td_sys \<Rightarrow> bool" where
  "td_sys_inv s \<longleftrightarrow> TaskDistributor_inv (dist s) \<and>
     (\<forall>i < td_size (dist s).
        called s i @ batch s i @ MutexQue_contents (td_bqueForTask (dist s) ! i) = submitted s i)"

lemma td_size_frames [simp]:
  "td_size (push_task i t td) = td_size td" "td_size (TaskDistributor_shutdown td) = td_size td"
  "td_size (snd (work_take i td)) = td_size td"
  "td_bqueForTask (TaskDistributor_shutdown td) = td_bqueForTask td"
  by (simp_all add: push_task_def TaskDistributor_shutdown_def work_take_def split_beta Let_def)

lemma td_sys_inv_init: "td_sys_inv (td_init n ids)"
  by (auto simp: td_sys_inv_def td_init_def TaskDistributor_inv_def loop_defs queue_defs)

lemma td_step_inv: "td_step s t \<Longrightarrow> td_sys_inv s \<Longrightarrow> td_sys_inv t"
proof (induction rule: td_step.induct)
  case (submit s t index d i)
  have inv: "TaskDistributor_inv (dist s)" using submit.prems by (simp add: td_sys_inv_def)
  have d: "d = push_task i (Some t) (dist s)" "i < td_size (dist s)"
    using submit clamp_index_less[OF inv] by (auto simp: TaskDistributor_addTask_def split: if_splits)
  moreover have "i < length (td_bqueForTask (dist s))" using inv d by (simp add: TaskDistributor_inv_def)
  ultimately show ?case
    using submit.prems push_task_inv[OF inv d(2), of "Some t"]
    by (auto simp: td_sys_inv_def push_task_def nth_list_update queue_defs)
next
  case (fetch i s b d)
  have inv: "TaskDistributor_inv (dist s)" using fetch.prems by (simp add: td_sys_inv_def)
  have "i < length (td_bqueForTask (dist s))" using inv fetch(1) by (simp add: TaskDistributor_inv_def)
  moreover have "TaskDistributor_inv d" "td_size d = td_size (dist s)"
    using work_take_inv[OF inv fetch(1)] fetch(4) by (auto simp flip: td_size_frames(3)[of i "dist s"])
  ultimately show ?case
    using fetch MutexQue_takeMulti_contents[of "td_bqueForTask (dist s) ! i"]
    by (auto simp: td_sys_inv_def work_take_def nth_list_update split_beta Let_def)
next
  case (call s i t ts)
  then show ?case by (auto simp: td_sys_inv_def)
next
  case (stop s)
  then show ?case by (simp add: td_sys_inv_def shutdown_inv)
qed

lemma td_reachable_inv: "td_reachable n s \<Longrightarrow> td_sys_inv s"
proof (induction rule: td_reachable.induct)
  case (td_start ids)
  show ?case by (rule td_sys_inv_init)
next
  case (td_next s t)
  then show ?case by (blast intro: td_step_inv)
qed

lemma td_reachable_size: "td_reachable n s \<Longrightarrow> td_size (dist s) = max n 1"
proof (induction rule: td_reachable.induct)
  case (td_start ids)
  show ?case by (simp add: td_init_def loop_defs)
next
  case (td_next s t)
  from td_next(2) show ?case
  proof cases
    case (fetch i b d)
    then show ?thesis using td_next.IH td_size_frames(3)[of i "dist s"] by simp
  qed (use td_next.IH in \<open>auto simp: TaskDistributor_addTask_def split: if_splits\<close>)
qed

section \<open>Progress of a worker\<close>

text \<open>A distributor in a program that logs each call, used to say which tasks a worker calls.\<close>

record 't td_logged = "'t TaskDistributor" +
  calls :: "'t list"

definition log_call :: "'t \<Rightarrow> 't td_logged \<Rightarrow> 't td_logged" where
  "log_call t td = td\<lparr>calls := calls td @ [t]\<rparr>"

lemma work_run_log:
  "work_run log_call ts td = td\<lparr>calls := calls td @ map the (filter (\<lambda>t. t \<noteq> None) ts)\<rparr>"
proof (induction ts arbitrary: td)
  case (Cons t ts)
  then show ?case by (cases t) (simp_all add: log_call_def)
qed simp

lemma work_log:
  assumes "i < length (td_bqueForTask td)"
  shows "td_exit (TaskDistributor_work log_call i td) = td_exit td"
    and "length (td_bqueForTask (TaskDistributor_work log_call i td)) = length (td_bqueForTask td)"
    and "td_bqueForTask (TaskDistributor_work log_call i td) ! i
           = snd (MutexQue_takeMulti (td_bqueForTask td ! i) [])"
    and "calls (TaskDistributor_work log_call i td)
           = calls td @ map the (filter (\<lambda>t. t \<noteq> None) (fst (MutexQue_takeMulti (td_bqueForTask td ! i) [])))"
  using assms by (simp_all add: TaskDistributor_work_def work_take_def work_run_log split_beta Let_def)

lemma startNextLoop_add:
  "TaskDistributor_startNextLoop (m + n) run i td
     = TaskDistributor_startNextLoop n run i (TaskDistributor_startNextLoop m run i td)"
proof (induction m arbitrary: td)
  case (Suc m)
  show ?case
  proof (cases "td_exit td")
    case True
    then show ?thesis by (cases n) simp_all
  next
    case False
    then show ?thesis by (simp add: Suc.IH)
  qed
qed simp

lemma startNextLoop_idle:
  assumes "i < length (td_bqueForTask td)" and "MutexQue_contents (td_bqueForTask td ! i) = []"
  shows "calls (TaskDistributor_startNextLoop n log_call i td) = calls td \<and>
         MutexQue_contents (td_bqueForTask (TaskDistributor_startNextLoop n log_call i td) ! i) = []"
  using assms
proof (induction n arbitrary: td)
  case (Suc n)
  have "fst (MutexQue_takeMulti (td_bqueForTask td ! i) []) = []"
    "MutexQue_contents (snd (MutexQue_takeMulti (td_bqueForTask td ! i) [])) = []"
    using MutexQue_takeMulti_contents[of "td_bqueForTask td ! i"] Suc.prems by simp_all
  then show ?case
    using Suc.prems Suc.IH[of "TaskDistributor_work log_call i td"] work_log[OF Suc.prems(1)] by simp
qed simp

lemma startNextLoop_two:
  assumes "i < length (td_bqueForTask td)" and "\<not> td_exit td"
  shows "calls (TaskDistributor_startNextLoop 2 log_call i td)
           = calls td @ map the (filter (\<lambda>t. t \<noteq> None) (MutexQue_contents (td_bqueForTask td ! i)))"
    and "MutexQue_contents (td_bqueForTask (TaskDistributor_startNextLoop 2 log_call i td) ! i) = []"
    and "length (td_bqueForTask (TaskDistributor_startNextLoop 2 log_call i td)) = length (td_bqueForTask td)"
proof -
  let ?w = "TaskDistributor_work log_call i td"
  have l: "i < length (td_bqueForTask ?w)" using assms work_log(2)[OF assms(1)] by simp
  have two: "TaskDistributor_startNextLoop 2 log_call i td = TaskDistributor_work log_call i ?w"
    using assms work_log(1)[OF assms(1)] by (simp add: numeral_2_eq_2)
  show "calls (TaskDistributor_startNextLoop 2 log_call i td)
          = calls td @ map the (filter (\<lambda>t. t \<noteq> None) (MutexQue_contents (td_bqueForTask td ! i)))"
    "MutexQue_contents (td_bqueForTask (TaskDistributor_startNextLoop 2 log_call i td) ! i) = []"
    "length (td_bqueForTask (TaskDistributor_startNextLoop 2 log_call i td)) = length (td_bqueForTask td)"
    using two work_log[OF l] work_log[OF assms(1)]
    by (auto simp: queue_defs Let_def split: if_splits)
qed

lemma addTask_accepts:
  assumes "TaskDistributor_inv td" and "td_tpool td \<noteq> None"
  shows "TaskDistributor_addTask td (Some t) index = (True, push_task (clamp_index td index) (Some t) td)"
    and "MutexQue_contents (td_bqueForTask (push_task i (Some t) td) ! j) =
           (if j = i \<and> i < td_size td then MutexQue_contents (td_bqueForTask td ! j) @ [Some t]
            else MutexQue_contents (td_bqueForTask td ! j))"
  using assms
  by (auto simp: TaskDistributor_addTask_def push_task_def TaskDistributor_inv_def queue_defs nth_list_update
      list_update_beyond)

definition addTask_out ::
  "('t, 'w) TaskDistributor_scheme \<Rightarrow> nat \<Rightarrow> 't \<Rightarrow> (bool \<times> ('t, 'w) TaskDistributor_scheme) outcome" where
  "addTask_out td index t = Inr (TaskDistributor_addTask td (Some t) index)"

interpretation td_sink: task_sink
  "\<lambda>td. TaskDistributor_inv td \<and> td_tpool td \<noteq> None"
  "\<lambda>td j. MutexQue_contents (td_bqueForTask td ! j)" "\<lambda>_ _. True" clamp_index Some addTask_out
proof (unfold_locales, goal_cases)
  case (1 td index t)
  then have inv: "TaskDistributor_inv td" "td_tpool td \<noteq> None" by simp_all
  let ?td = "push_task (clamp_index td index) (Some t) td"
  have "addTask_out td index t = Inr (True, ?td)"
    using addTask_accepts(1)[OF inv] by (simp add: addTask_out_def)
  moreover have "TaskDistributor_inv ?td \<and> td_tpool ?td \<noteq> None"
    using inv(2) push_task_inv[OF inv(1) clamp_index_less[OF inv(1)]] by (simp add: push_task_def)
  moreover have "clamp_index ?td = clamp_index td" by (rule ext) (simp add: clamp_index_def)
  moreover have "\<forall>j. MutexQue_contents (td_bqueForTask ?td ! j) =
      (if j = clamp_index td index then MutexQue_contents (td_bqueForTask td ! j) @ [Some t]
       else MutexQue_contents (td_bqueForTask td ! j))"
    using addTask_accepts(2)[OF inv] clamp_index_less[OF inv(1)] by simp
  ultimately show ?case by blast
qed

text \<open>
  A submission to the IO worker through a locked weak pointer, as the components that run their
  closures there make it; \<open>None\<close> is a distributor that is gone.
\<close>

definition add_io :: "'t \<Rightarrow> 't TaskDistributor \<Rightarrow> bool \<times> 't TaskDistributor option" where
  "add_io t ev = (let (b, ev') = TaskDistributor_addTask_type ev (Some t) IO_TASK 0 in (b, Some ev'))"

lemma add_io_queue:
  assumes "TaskDistributor_inv ev" and "td_tpool ev \<noteq> None"
  obtains ev' where "add_io t ev = (True, Some ev')" and "TaskDistributor_inv ev'" and "td_tpool ev' \<noteq> None"
    and "\<And>j. MutexQue_contents (td_bqueForTask ev' ! j) =
           (if j = 0 then MutexQue_contents (td_bqueForTask ev ! j) @ [Some t] else MutexQue_contents (td_bqueForTask ev ! j))"
proof -
  let ?ev = "push_task 0 (Some t) ev"
  have z: "clamp_index ev 0 = 0" "0 < td_size ev" using assms(1) by (auto simp: TaskDistributor_inv_def clamp_index_def)
  have "add_io t ev = (True, Some ?ev)"
    using addTask_accepts(1)[OF assms, of t 0] z by (simp add: add_io_def TaskDistributor_addTask_type_def)
  moreover have "td_tpool ?ev \<noteq> None" using assms(2) by (simp add: push_task_def)
  ultimately show thesis
    using that push_task_inv[OF assms(1) z(2), of "Some t"] addTask_accepts(2)[OF assms, of 0 t] z(2) by simp
qed

lemma startNextLoop_exit:
  "td_exit td \<Longrightarrow> TaskDistributor_startNextLoop n run i td = td"
  by (cases n) simp_all

section \<open>Properties\<close>

text \<open>
  Property C5. However the worker threads and any number of submitting threads interleave, and
  whether or not the distributor is shut down, for every worker the tasks it has called, the
  batch in its hands and its queue, in that order, are exactly the tasks submitted to it in
  submission order: every accepted task is called at most once, none is lost, reordered or
  moved to another worker, and once queue and batch are empty each has been called exactly
  once.
\<close>

theorem TaskDistributor_exactly_once_in_order:
  "td_reachable n s \<Longrightarrow> i < max n 1 \<Longrightarrow>
     called s i @ batch s i @ MutexQue_contents (td_bqueForTask (dist s) ! i) = submitted s i
     \<and> (MutexQue_contents (td_bqueForTask (dist s) ! i) = [] \<and> batch s i = [] \<longrightarrow> called s i = submitted s i)"
  using td_reachable_inv[of n s] td_reachable_size[of n s]
  by (auto simp: td_sys_inv_def queue_defs)


theorem TaskDistributor_exactly_once_in_order_witness:
  "\<exists>s :: nat td_sys. td_reachable 2 s \<and> submitted s 1 = [Some 5]
     \<and> called s 1 @ batch s 1 @ MutexQue_contents (td_bqueForTask (dist s) ! 1) = [Some 5]"
proof -
  let ?s = "td_init 2 Suc :: nat td_sys"
  let ?d = "snd (TaskDistributor_addTask (dist ?s) (Some 5) 1)"
  let ?t = "?s\<lparr>dist := ?d, submitted := (submitted ?s)(1 := submitted ?s 1 @ [Some 5])\<rparr>"
  have "td_step ?s ?t"
    by (rule td_step.submit[of _ _ 1]) (simp_all add: td_init_def loop_defs)
  then have r: "td_reachable 2 ?t" by (rule td_next[OF td_start])
  show ?thesis
    using r TaskDistributor_exactly_once_in_order[OF r, of 1] by (intro exI[of _ ?t]) (simp add: td_init_def)
qed

text \<open>
  Property C6. A worker that is not told to exit calls everything in its queue, once each and
  in order, within two rounds of \<open>work\<close> (one for each buffer of its queue), and further rounds
  call nothing more; no other worker's queue is involved. Two is a bound on the rounds of the
  loop, so accepted work is always reached.
\<close>

theorem TaskDistributor_worker_progress:
  "i < length (td_bqueForTask td) \<Longrightarrow> \<not> td_exit td \<Longrightarrow>
     calls (TaskDistributor_startNextLoop (2 + n) log_call i td)
       = calls td @ map the (filter (\<lambda>t. t \<noteq> None) (MutexQue_contents (td_bqueForTask td ! i)))
     \<and> MutexQue_contents (td_bqueForTask (TaskDistributor_startNextLoop (2 + n) log_call i td) ! i) = []"
  unfolding startNextLoop_add
  using startNextLoop_two[of i td]
    startNextLoop_idle[of i "TaskDistributor_startNextLoop 2 log_call i td" n] by simp

theorem TaskDistributor_worker_progress_witness:
  "calls (TaskDistributor_startNextLoop (2 + 5) log_call 0
      \<lparr>td_size = 1, td_tpool = Some [7], td_bqueForTask = [\<lparr>m_front = [Some ''a''], m_tail = [None, Some ''b'']\<rparr>],
       td_exit = False, calls = []\<rparr>) = [''a'', ''b'']"
  using TaskDistributor_worker_progress[of 0
      "\<lparr>td_size = 1, td_tpool = Some [7], td_bqueForTask = [\<lparr>m_front = [Some ''a''], m_tail = [None, Some ''b'']\<rparr>],
        td_exit = False, calls = []\<rparr>" 5]
  by (simp add: queue_defs)

text \<open>
  Routing. On a started distributor a non-empty task is accepted whatever its
  type, it is appended to exactly one worker's queue and every other queue keeps its contents:
  worker 0 for IO, worker 1 (0 if alone) for scheduled tasks, and for \<open>FURTURE_TASK\<close> a worker
  below the last one whenever there is more than one, although the header promises threads
  1 to n. An empty task is refused and nothing changes.
\<close>

theorem TaskDistributor_routing:
  assumes "TaskDistributor_inv td" and "td_tpool td \<noteq> None"
  shows "\<exists>k td'. TaskDistributor_addTask_type td (Some t) ty ms = (True, td') \<and> TaskDistributor_inv td'
       \<and> (\<forall>j. MutexQue_contents (td_bqueForTask td' ! j) =
             (if j = k then MutexQue_contents (td_bqueForTask td ! j) @ [Some t]
              else MutexQue_contents (td_bqueForTask td ! j)))
       \<and> (case ty of
            IO_TASK \<Rightarrow> k = 0
          | SHCEDULE_TASK \<Rightarrow> k = (if td_size td > 1 then 1 else 0)
          | FURTURE_TASK \<Rightarrow> k < (if td_size td > 1 then td_size td - 1 else 1))
       \<and> TaskDistributor_addTask_type td None ty ms = (False, td)"
proof -
  define idx where "idx = (case ty of IO_TASK \<Rightarrow> 0 | SHCEDULE_TASK \<Rightarrow> if td_size td > 1 then 1 else 0
      | FURTURE_TASK \<Rightarrow> if td_size td > 1 then unat ms mod (td_size td - 1) else 0)"
  have sz: "0 < td_size td" using assms by (simp add: TaskDistributor_inv_def)
  have "idx < td_size td"
    using sz mod_less_divisor[of "td_size td - 1" "unat ms"]
    by (auto simp: idx_def less_diff_conv split: TaskDistributorTaskType.splits)
  then have idx: "clamp_index td idx = idx" "idx < td_size td" by (simp_all add: clamp_index_def)
  have add: "TaskDistributor_addTask_type td (Some t) ty ms = (True, push_task idx (Some t) td)"
    using addTask_accepts(1)[OF assms, of t idx] idx(1)
    by (cases ty) (simp_all add: TaskDistributor_addTask_type_def idx_def)
  have "case ty of IO_TASK \<Rightarrow> idx = 0 | SHCEDULE_TASK \<Rightarrow> idx = (if td_size td > 1 then 1 else 0)
      | FURTURE_TASK \<Rightarrow> idx < (if td_size td > 1 then td_size td - 1 else 1)"
    by (auto simp: idx_def split: TaskDistributorTaskType.splits)
  moreover have "TaskDistributor_addTask_type td None ty ms = (False, td)"
    by (cases ty) (simp_all add: TaskDistributor_addTask_type_def TaskDistributor_addTask_def)
  ultimately show ?thesis
    using add addTask_accepts(2)[OF assms, of idx t] idx(2)
      push_task_inv[OF assms(1) idx(2), of "Some t"]
    by (intro exI[of _ idx] exI[of _ "push_task idx (Some t) td"] conjI allI) simp_all
qed

theorem TaskDistributor_routing_witness:
  "\<exists>k td'. TaskDistributor_addTask_type (snd (TaskDistributor_start Suc (TaskDistributor_ctor 3))) (Some ''t'')
      FURTURE_TASK 17 = (True, td') \<and> k < 2 \<and> MutexQue_contents (td_bqueForTask td' ! k) = [Some ''t'']"
proof -
  have i: "TaskDistributor_inv (snd (TaskDistributor_start Suc (TaskDistributor_ctor 3 :: string TaskDistributor)))"
    by (auto simp: TaskDistributor_inv_def loop_defs queue_defs)
  show ?thesis
    using TaskDistributor_routing[OF i, of "''t''" FURTURE_TASK 17]
    by (auto simp: TaskDistributor_start_def TaskDistributor_ctor_def queue_defs eval_nat_numeral less_Suc_eq)
qed

text \<open>
  After \<open>shutdown\<close> the distributor still accepts tasks (the pool pointer is never
  reset, so \<open>addTask\<close> answers true and the queue grows), but no round of any worker's loop
  runs any more: a task accepted then is never called, whatever tasks do.
\<close>

theorem TaskDistributor_shutdown_strands_tasks:
  assumes "TaskDistributor_inv td" and "td_tpool td \<noteq> None"
  shows "\<exists>td'. TaskDistributor_addTask (TaskDistributor_shutdown td) (Some t) index = (True, td')
       \<and> TaskDistributor_isShutdown td'
       \<and> Some t \<in> set (MutexQue_contents (td_bqueForTask td' ! clamp_index td index))
       \<and> (\<forall>n run i. TaskDistributor_startNextLoop n run i td' = td')"
proof -
  have i: "TaskDistributor_inv (TaskDistributor_shutdown td)" "td_tpool (TaskDistributor_shutdown td) \<noteq> None"
    using assms shutdown_inv by (auto simp: TaskDistributor_shutdown_def)
  let ?td = "push_task (clamp_index td index) (Some t) (TaskDistributor_shutdown td)"
  have c: "clamp_index (TaskDistributor_shutdown td) index = clamp_index td index"
    by (simp add: clamp_index_def)
  have e: "td_exit ?td" by (simp add: push_task_def TaskDistributor_shutdown_def)
  have "Some t \<in> set (MutexQue_contents (td_bqueForTask ?td ! clamp_index td index))"
    using addTask_accepts(2)[OF i] clamp_index_less[OF assms(1), of index] by simp
  with addTask_accepts(1)[OF i, of t index] c e startNextLoop_exit[OF e] show ?thesis
    by (auto simp: TaskDistributor_isShutdown_def)
qed

theorem TaskDistributor_shutdown_strands_tasks_witness:
  "\<exists>td'. TaskDistributor_addTask (TaskDistributor_shutdown
       (snd (TaskDistributor_start Suc (TaskDistributor_ctor 1)))) (Some ''t'') 0 = (True, td')
     \<and> TaskDistributor_isShutdown td'"
proof -
  have i: "TaskDistributor_inv (snd (TaskDistributor_start Suc (TaskDistributor_ctor 1 :: string TaskDistributor)))"
    by (auto simp: TaskDistributor_inv_def loop_defs queue_defs)
  show ?thesis
    using TaskDistributor_shutdown_strands_tasks[OF i, of "''t''" 0]
    by (auto simp: TaskDistributor_start_def)
qed

section \<open>Every operation keeps the shape\<close>

lemma work_run_inv:
  assumes "\<forall>t td. TaskDistributor_inv td \<longrightarrow> TaskDistributor_inv (run t td) \<and> td_size (run t td) = td_size td"
  shows "TaskDistributor_inv td \<Longrightarrow> TaskDistributor_inv (work_run run ts td) \<and> td_size (work_run run ts td) = td_size td"
proof (induction ts arbitrary: td)
  case (Cons t ts)
  then show ?case using assms by (cases t) auto
qed simp

lemma work_inv:
  assumes "\<forall>t td. TaskDistributor_inv td \<longrightarrow> TaskDistributor_inv (run t td) \<and> td_size (run t td) = td_size td"
    and "TaskDistributor_inv td" and "i < td_size td"
  shows "TaskDistributor_inv (TaskDistributor_work run i td) \<and> td_size (TaskDistributor_work run i td) = td_size td"
  using work_run_inv[OF assms(1), of "snd (work_take i td)" "fst (work_take i td)"] work_take_inv[OF assms(2,3)]
  by (simp add: TaskDistributor_work_def work_take_def split_beta Let_def)

lemma startNextLoop_inv:
  assumes "\<forall>t td. TaskDistributor_inv td \<longrightarrow> TaskDistributor_inv (run t td) \<and> td_size (run t td) = td_size td"
  shows "TaskDistributor_inv td \<Longrightarrow> i < td_size td \<Longrightarrow> TaskDistributor_inv (TaskDistributor_startNextLoop n run i td)"
  by (induction n arbitrary: td) (use work_inv[OF assms] in auto)

text \<open>
  Property C28. Well-formedness of the distributor: one queue per worker, one thread per worker once
  started, at least one worker, and no empty task in a queue. The constructor establishes it for every
  size asked for, and every operation keeps it: starting, shutting down, the three ways to submit for
  any index and any task, and any number of rounds of a worker's loop whose tasks keep it. Submitting
  never reads outside the pool of threads, and a worker never takes an empty task.
\<close>

theorem TaskDistributor_well_formed:
  fixes td :: "('t, 'w) TaskDistributor_scheme"
  assumes "TaskDistributor_inv td" and "i < td_size td"
    and "\<forall>t td. TaskDistributor_inv td \<longrightarrow> TaskDistributor_inv (run t td) \<and> td_size (run t td) = td_size td"
  shows "TaskDistributor_inv (TaskDistributor_ctor sz :: 't TaskDistributor)
     \<and> TaskDistributor_inv (snd (TaskDistributor_start ids td))
     \<and> TaskDistributor_inv (TaskDistributor_shutdown td)
     \<and> TaskDistributor_inv (snd (TaskDistributor_addTask td task index))
     \<and> TaskDistributor_inv (snd (TaskDistributor_addTask_type td task ty ms))
     \<and> (\<exists>b c td'. TaskDistributor_addTask_ASAP self td task index = Inr (b, c, td') \<and> TaskDistributor_inv td')
     \<and> None \<notin> set (fst (work_take i td))
     \<and> TaskDistributor_inv (TaskDistributor_startNextLoop n run i td)"
proof (intro conjI)
  show "TaskDistributor_inv (TaskDistributor_ctor sz :: 't TaskDistributor)"
    by (auto simp: TaskDistributor_inv_def TaskDistributor_ctor_def queue_defs)
  have "clamp_index td index < td_size td" by (rule clamp_index_less[OF assms(1)])
  then show "\<exists>b c td'. TaskDistributor_addTask_ASAP self td task index = Inr (b, c, td') \<and> TaskDistributor_inv td'"
    using assms(1) push_task_inv[OF assms(1)]
    by (auto simp: TaskDistributor_addTask_ASAP_def TaskDistributor_threadId_def TaskDistributor_inv_def Let_def
        split: option.splits)
qed (simp_all add: assms(1,2) start_inv shutdown_inv addTask_inv addTask_type_inv work_take_inv startNextLoop_inv[OF assms(3)])

theorem TaskDistributor_well_formed_witness:
  "TaskDistributor_inv (TaskDistributor_startNextLoop 3 log_call 0
     (snd (TaskDistributor_addTask (snd (TaskDistributor_start Suc \<lparr>td_size = 2, td_tpool = None,
        td_bqueForTask = [MutexQue_ctor, MutexQue_ctor], td_exit = False, calls = []\<rparr>)) (Some ''t'') 0)))"
proof -
  let ?td = "snd (TaskDistributor_addTask (snd (TaskDistributor_start Suc \<lparr>td_size = 2, td_tpool = None,
        td_bqueForTask = [MutexQue_ctor, MutexQue_ctor], td_exit = False, calls = []\<rparr>)) (Some ''t'') 0)"
  have a: "TaskDistributor_inv ?td" "0 < td_size ?td"
    by (auto simp: TaskDistributor_inv_def loop_defs queue_defs)
  have c: "\<forall>(t :: string) (td :: string td_logged). TaskDistributor_inv td \<longrightarrow>
      TaskDistributor_inv (log_call t td) \<and> td_size (log_call t td) = td_size td"
    by (auto simp: log_call_def TaskDistributor_inv_def split: option.splits)
  show ?thesis
    by (intro TaskDistributor_well_formed[OF a c, THEN conjunct2, THEN conjunct2, THEN conjunct2, THEN conjunct2,
        THEN conjunct2, THEN conjunct2, THEN conjunct2])
qed

end
