(* ===== verification/Executor.thy ===== *)
theory Executor
  imports Schedule Task_Distributor
begin

text \<open>
  \<open>source/extention/executor.cpp\<close>: a \<open>Schedule\<close> in front of a \<open>TaskDistributor\<close>. What the executor
  submits is never an empty \<open>std::function\<close>: it is a lambda around the caller's closure, which may
  itself be empty (\<open>None\<close>); \<open>exec_task\<close> names the two lambdas. The distributor is a
  \<open>shared_ptr\<close> only the executor holds, so it is a value here. The assignment operator runs the
  destructor on the target and then move-assigns its members: over a live distributor that
  releases the same control block twice, a \<open>Use_After_Free\<close>.
\<close>

datatype 't exec_task =
    With_Executor "'t option"
  | With_Index u32 "'t option"

record 't Executor =
  ex_schedule :: Schedule
  ex_distributor :: "'t exec_task TaskDistributor option"

definition Executor_ctor0 :: "'t Executor" where
  "Executor_ctor0 = \<lparr>ex_schedule = Schedule_ctor 0, ex_distributor = None\<rparr>"

definition Executor_ctor :: "(nat \<Rightarrow> thread_id) \<Rightarrow> u32 \<Rightarrow> 't Executor" where
  "Executor_ctor ids nthreads =
     \<lparr>ex_schedule = Schedule_ctor nthreads,
      ex_distributor = Some (snd (TaskDistributor_start ids (TaskDistributor_ctor (unat nthreads))))\<rparr>"

definition Executor_move_ctor :: "'t Executor \<Rightarrow> 't Executor \<times> 't Executor" where
  "Executor_move_ctor e = (e, e\<lparr>ex_distributor := None\<rparr>)"

definition Executor_shutdown_all :: "'t Executor \<Rightarrow> 't Executor" where
  "Executor_shutdown_all ex = ex\<lparr>ex_distributor := map_option TaskDistributor_shutdown (ex_distributor ex)\<rparr>"

definition Executor_move_assign :: "'t Executor \<Rightarrow> 't Executor \<Rightarrow> ('t Executor \<times> 't Executor) outcome" where
  "Executor_move_assign this e =
     (case ex_distributor (Executor_shutdown_all this) of
        Some _ \<Rightarrow> Inl Use_After_Free
      | None \<Rightarrow> Inr (e, e\<lparr>ex_distributor := None\<rparr>))"

definition Executor_valid :: "'t Executor \<Rightarrow> bool" where
  "Executor_valid ex =
     (case ex_distributor ex of None \<Rightarrow> False | Some d \<Rightarrow> \<not> TaskDistributor_isShutdown d)"

definition Executor_threadCount :: "'t Executor \<Rightarrow> u32" where
  "Executor_threadCount ex = Schedule_threads (ex_schedule ex)"

definition Executor_threadId :: "'t Executor \<Rightarrow> u32 \<Rightarrow> thread_id outcome" where
  "Executor_threadId ex index =
     (case ex_distributor ex of
        None \<Rightarrow> Inl Null_Deref
      | Some d \<Rightarrow> TaskDistributor_threadId d (unat index))"

text \<open>What every submission shares: \<open>m_distributor && m_distributor->addTask(lambda, index)\<close>.\<close>

definition submit_to ::
  "'t Executor \<Rightarrow> 't exec_task \<Rightarrow> u32 outcome \<Rightarrow> (bool \<times> 't Executor) outcome" where
  "submit_to ex task index =
     (case ex_distributor ex of
        None \<Rightarrow> Inr (False, ex)
      | Some d \<Rightarrow> bind_out index (\<lambda>i.
          let (b, d') = TaskDistributor_addTask d (Some task) (unat i)
          in Inr (b, ex\<lparr>ex_distributor := Some d'\<rparr>)))"

definition submit_ASAP_to ::
  "thread_id \<Rightarrow> 't Executor \<Rightarrow> 't exec_task \<Rightarrow> u32 outcome
     \<Rightarrow> (bool \<times> 't exec_task option \<times> 't Executor) outcome" where
  "submit_ASAP_to self ex task index =
     (case ex_distributor ex of
        None \<Rightarrow> Inr (False, None, ex)
      | Some d \<Rightarrow> bind_out index (\<lambda>i.
          bind_out (TaskDistributor_addTask_ASAP self d (Some task) (unat i)) (\<lambda>(b, now, d').
            Inr (b, now, ex\<lparr>ex_distributor := Some d'\<rparr>))))"

text \<open>\<open>0UL + key\<close> is the sign extension of the \<open>int\<close> key to 64 bits.\<close>

definition Executor_addTask_key :: "'t Executor \<Rightarrow> 32 word \<Rightarrow> 't option \<Rightarrow> (bool \<times> 't Executor) outcome" where
  "Executor_addTask_key ex key task =
     submit_to ex (With_Executor task) (Schedule_doSchedule_u64 (ex_schedule ex) (scast key))"

definition Executor_addTask_index :: "'t Executor \<Rightarrow> u32 \<Rightarrow> 't option \<Rightarrow> (bool \<times> 't Executor) outcome" where
  "Executor_addTask_index ex threadindex task =
     submit_to ex (With_Index threadindex task) (Inr threadindex)"

definition Executor_addTask_ASAP_key ::
  "thread_id \<Rightarrow> 't Executor \<Rightarrow> 32 word \<Rightarrow> 't option
     \<Rightarrow> (bool \<times> 't exec_task option \<times> 't Executor) outcome" where
  "Executor_addTask_ASAP_key self ex key task =
     submit_ASAP_to self ex (With_Executor task) (Schedule_doSchedule_u64 (ex_schedule ex) (scast key))"

definition Executor_addTask_ASAP_index ::
  "thread_id \<Rightarrow> 't Executor \<Rightarrow> u32 \<Rightarrow> 't option
     \<Rightarrow> (bool \<times> 't exec_task option \<times> 't Executor) outcome" where
  "Executor_addTask_ASAP_index self ex threadindex task =
     submit_ASAP_to self ex (With_Index threadindex task) (Inr threadindex)"

text \<open>The random variants take the address of the parameter \<open>task\<close> as their key: \<open>addr\<close>.\<close>

definition Executor_addTaskRandom :: "u64 \<Rightarrow> 't Executor \<Rightarrow> 't option \<Rightarrow> (bool \<times> 't Executor) outcome" where
  "Executor_addTaskRandom addr ex task =
     submit_to ex (With_Executor task) (Schedule_doSchedule_u64 (ex_schedule ex) addr)"

definition Executor_addTaskRandom_ASAP ::
  "u64 \<Rightarrow> thread_id \<Rightarrow> 't Executor \<Rightarrow> 't option
     \<Rightarrow> (bool \<times> 't exec_task option \<times> 't Executor) outcome" where
  "Executor_addTaskRandom_ASAP addr self ex task =
     submit_ASAP_to self ex (With_Executor task) (Schedule_doSchedule_u64 (ex_schedule ex) addr)"

lemmas Executor_defs [loop_defs] =
  Executor_ctor0_def Executor_ctor_def Executor_move_ctor_def Executor_shutdown_all_def
  Executor_valid_def Executor_threadCount_def submit_to_def submit_ASAP_to_def
  Executor_addTask_index_def Executor_addTask_ASAP_index_def

section \<open>Well-formedness\<close>

text \<open>
  An executor made with a positive number of threads: the schedule's thread count is the
  number of workers, which is what makes the scheduled index a worker.
\<close>

definition Executor_inv :: "'t Executor \<Rightarrow> bool" where
  "Executor_inv ex \<longleftrightarrow> 0 < sint (m_threadSize (ex_schedule ex)) \<and>
     (case ex_distributor ex of None \<Rightarrow> True
      | Some d \<Rightarrow> TaskDistributor_inv d \<and> td_tpool d \<noteq> None
                  \<and> td_size d = unat (m_threadSize (ex_schedule ex)))"

lemma Executor_ctor_inv: "0 < sint n \<Longrightarrow> Executor_inv (Executor_ctor ids n)"
  using sint_pos_unat(3)[of n] unat_gt_0[of n]
  by (auto simp: Executor_inv_def Executor_ctor_def Schedule_ctor_def TaskDistributor_start_def
      TaskDistributor_ctor_def TaskDistributor_inv_def queue_defs)

lemma Executor_shutdown_inv: "Executor_inv ex \<Longrightarrow> Executor_inv (Executor_shutdown_all ex)"
  using shutdown_inv
  by (auto simp: Executor_inv_def Executor_shutdown_all_def TaskDistributor_shutdown_def
      split: option.splits)

text \<open>The queue of worker \<open>i\<close>, which is where a submission shows.\<close>

definition worker_queue :: "'t Executor \<Rightarrow> nat \<Rightarrow> 't exec_task option list" where
  "worker_queue ex i =
     (case ex_distributor ex of None \<Rightarrow> [] | Some d \<Rightarrow> MutexQue_contents (td_bqueForTask d ! i))"

definition worker_front :: "'t Executor \<Rightarrow> nat \<Rightarrow> 't exec_task option list" where
  "worker_front ex i = (case ex_distributor ex of None \<Rightarrow> [] | Some d \<Rightarrow> m_front (td_bqueForTask d ! i))"

lemma worker_front_empty: "worker_queue ex i = [] \<Longrightarrow> worker_front ex i = []"
  by (auto simp: worker_queue_def worker_front_def queue_defs split: option.splits)

definition key_route :: "'t Executor \<Rightarrow> 32 word \<Rightarrow> nat" where
  "key_route ex key = unat (scast key :: u64) mod unat (Executor_threadCount ex)"

lemma submit_to_spec:
  assumes "Executor_inv ex" and "ex_distributor ex \<noteq> None"
    and "unat i < unat (m_threadSize (ex_schedule ex))"
  shows "\<exists>ex'. submit_to ex task (Inr i) = Inr (True, ex') \<and> Executor_inv ex'
     \<and> ex_distributor ex' \<noteq> None \<and> ex_schedule ex' = ex_schedule ex
     \<and> Executor_valid ex' = Executor_valid ex \<and> worker_front ex' = worker_front ex
     \<and> (\<forall>j. worker_queue ex' j = (if j = unat i then worker_queue ex j @ [Some task] else worker_queue ex j))"
proof -
  obtain d where d: "ex_distributor ex = Some d" using assms(2) by blast
  have inv: "TaskDistributor_inv d" "td_tpool d \<noteq> None" "td_size d = unat (m_threadSize (ex_schedule ex))"
    using assms(1) d by (auto simp: Executor_inv_def)
  let ?d = "push_task (unat i) (Some task) d"
  have c: "clamp_index d (unat i) = unat i" using assms(3) inv(3) by (simp add: clamp_index_def)
  have i: "TaskDistributor_inv ?d" using push_task_inv[OF inv(1)] assms(3) inv(3) by simp
  have t: "td_tpool ?d = td_tpool d" "td_exit ?d = td_exit d" by (simp_all add: push_task_def)
  have "submit_to ex task (Inr i) = Inr (True, ex\<lparr>ex_distributor := Some ?d\<rparr>)"
    using addTask_accepts(1)[OF inv(1,2), of task "unat i"] d c by (simp add: submit_to_def)
  moreover have "Executor_inv (ex\<lparr>ex_distributor := Some ?d\<rparr>)"
    using assms(1) d inv i t by (simp add: Executor_inv_def)
  moreover have "worker_front (ex\<lparr>ex_distributor := Some ?d\<rparr>) = worker_front ex"
    using d inv(1,3) assms(3)
    by (auto simp: worker_front_def push_task_def MutexQue_pushBack_def TaskDistributor_inv_def nth_list_update)
  ultimately show ?thesis
    using addTask_accepts(2)[OF inv(1,2), of "unat i" task] assms(3) inv(3) d t
    by (auto simp: worker_queue_def Executor_valid_def TaskDistributor_isShutdown_def)
qed

text \<open>
  A submission made from a thread that is not one of the workers is a submission to the queue:
  \<open>addTask_ASAP\<close> then does what \<open>addTask\<close> does and calls nothing itself.
\<close>

definition outside_thread :: "thread_id \<Rightarrow> 't Executor \<Rightarrow> bool" where
  "outside_thread self ex \<longleftrightarrow>
     (case ex_distributor ex of None \<Rightarrow> True | Some d \<Rightarrow>
        (case td_tpool d of None \<Rightarrow> True | Some ths \<Rightarrow> self \<notin> set ths))"

lemma submit_ASAP_outside:
  assumes "Executor_inv ex" and "outside_thread self ex"
    and "unat i < unat (m_threadSize (ex_schedule ex))"
  shows "submit_ASAP_to self ex task (Inr i) =
           bind_out (submit_to ex task (Inr i)) (\<lambda>(b, ex'). Inr (b, None, ex'))"
    and "submit_to ex task (Inr i) = Inr (b, ex') \<Longrightarrow> outside_thread self ex'"
proof -
  show "submit_ASAP_to self ex task (Inr i) =
      bind_out (submit_to ex task (Inr i)) (\<lambda>(b, ex'). Inr (b, None, ex'))"
  proof (cases "ex_distributor ex")
    case None
    then show ?thesis by (simp add: submit_ASAP_to_def submit_to_def)
  next
    case (Some d)
    then obtain ths where ths: "td_tpool d = Some ths" using assms(1) by (auto simp: Executor_inv_def)
    have "unat i < length ths" "clamp_index d (unat i) = unat i"
      using assms(1,3) Some ths by (auto simp: Executor_inv_def TaskDistributor_inv_def clamp_index_def)
    moreover from this have "ths ! unat i \<noteq> self"
      using assms(2) Some ths by (auto simp: outside_thread_def)
    ultimately show ?thesis
      using Some ths
      by (simp add: submit_ASAP_to_def submit_to_def TaskDistributor_addTask_ASAP_def
          TaskDistributor_addTask_def TaskDistributor_threadId_def)
  qed
  show "submit_to ex task (Inr i) = Inr (b, ex') \<Longrightarrow> outside_thread self ex'"
    using assms(2)
    by (auto simp: submit_to_def outside_thread_def TaskDistributor_addTask_def push_task_def
        split: option.splits if_splits)
qed

lemma addTask_key_ok:
  assumes "Executor_inv ex" and "ex_distributor ex \<noteq> None"
  shows "\<exists>ex'. Executor_addTask_key ex key task = Inr (True, ex') \<and> Executor_inv ex'
     \<and> ex_distributor ex' \<noteq> None \<and> ex_schedule ex' = ex_schedule ex
     \<and> (\<forall>j. worker_queue ex' j =
            (if j = key_route ex key then worker_queue ex j @ [Some (With_Executor task)] else worker_queue ex j))"
proof -
  have pos: "0 < sint (m_threadSize (ex_schedule ex))" using assms by (simp add: Executor_inv_def)
  obtain i where i: "Schedule_rem (ex_schedule ex) (scast key) = Inr i"
    "unat i = key_route ex key" "unat i < unat (m_threadSize (ex_schedule ex))"
    using Schedule_rem_spec[OF pos]
    unfolding key_route_def Executor_threadCount_def Schedule_threads_def by blast
  from submit_to_spec[OF assms i(3), of "With_Executor task"] show ?thesis
    using i(1,2) unfolding Executor_addTask_key_def Schedule_doSchedule_u64_def by auto
qed

interpretation ex_sink: task_sink
  "\<lambda>ex. Executor_inv ex \<and> ex_distributor ex \<noteq> None" worker_queue "\<lambda>_ _. True" key_route
  "\<lambda>t. Some (With_Executor t)" Executor_addTask_key
proof (unfold_locales, goal_cases)
  case (1 ex key t)
  then obtain ex' where "Executor_addTask_key ex key t = Inr (True, ex')" "Executor_inv ex'"
    "ex_distributor ex' \<noteq> None" "ex_schedule ex' = ex_schedule ex"
    "\<forall>j. worker_queue ex' j =
       (if j = key_route ex key then worker_queue ex j @ [Some (With_Executor t)] else worker_queue ex j)"
    using addTask_key_ok by blast
  moreover from this have "key_route ex' = key_route ex"
    by (auto simp: key_route_def Executor_threadCount_def)
  ultimately show ?case by blast
qed

section \<open>Properties\<close>

text \<open>
  Property C30. On an executor made with a positive number of threads and not moved from, any
  sequence of tasks submitted under \<open>int\<close> keys is accepted, and each worker's queue grows by
  exactly the tasks whose key (sign-extended to 64 bits) is congruent to its index modulo the
  number of threads, in submission order: tasks with equal keys share a worker and never
  overtake each other.
\<close>

theorem Executor_keyed_order:
  assumes "Executor_inv ex" and "ex_distributor ex \<noteq> None"
  shows "\<exists>ex'. fold_out (\<lambda>(k, t) e. bind_out (Executor_addTask_key e k t) (\<lambda>(_, e'). Inr e')) kts ex = Inr ex'
     \<and> Executor_inv ex'
     \<and> (\<forall>j. worker_queue ex' j = worker_queue ex j @
            map (\<lambda>kt. Some (With_Executor (snd kt)))
              (filter (\<lambda>kt. unat (scast (fst kt) :: u64) mod unat (Executor_threadCount ex) = j) kts))"
  using ex_sink.submit_all_order[of ex kts] assms
  by (auto simp: ex_sink.submit_all_def key_route_def comp_def)

theorem Executor_keyed_order_witness:
  "\<exists>ex'. fold_out (\<lambda>(k, t) e. bind_out (Executor_addTask_key e k t) (\<lambda>(_, e'). Inr e'))
      [(1, Some ''a''), (2, Some ''b''), (4, Some ''c'')] (Executor_ctor Suc 3) = Inr ex'
     \<and> worker_queue ex' 1 = [Some (With_Executor (Some ''a'')), Some (With_Executor (Some ''c''))]"
proof -
  have inv: "Executor_inv (Executor_ctor Suc 3 :: string Executor)" by (rule Executor_ctor_inv) simp
  have d: "ex_distributor (Executor_ctor Suc 3 :: string Executor) \<noteq> None" by (simp add: Executor_ctor_def)
  have q: "worker_queue (Executor_ctor Suc 3 :: string Executor) 1 = []"
    by (simp add: worker_queue_def loop_defs queue_defs)
  have n: "Executor_threadCount (Executor_ctor Suc 3 :: string Executor) = 3"
    by (simp add: Executor_threadCount_def Executor_ctor_def Schedule_defs)
  define kts :: "(32 word \<times> string option) list"
    where "kts = [(1, Some ''a''), (2, Some ''b''), (4, Some ''c'')]"
  obtain ex' where ex': "fold_out (\<lambda>(k, t) e. bind_out (Executor_addTask_key e k t) (\<lambda>(_, e'). Inr e'))
      kts (Executor_ctor Suc 3) = Inr ex'"
    and w: "worker_queue ex' 1 = worker_queue (Executor_ctor Suc 3) 1 @
         map (\<lambda>kt. Some (With_Executor (snd kt)))
           (filter (\<lambda>kt. unat (scast (fst kt) :: u64) mod
              unat (Executor_threadCount (Executor_ctor Suc 3 :: string Executor)) = 1) kts)"
    using Executor_keyed_order[OF inv d, of kts] by blast
  from w have "worker_queue ex' 1 = [Some (With_Executor (Some ''a'')), Some (With_Executor (Some ''c''))]"
    unfolding n q kts_def by simp
  with ex' show ?thesis unfolding kts_def by blast
qed

text \<open>
  The faults of the executor: one constructed with zero threads has a worker all
  the same, but every submission by key divides by zero; and assigning to an executor that has
  a distributor releases that distributor twice.
\<close>

theorem Executor_faults:
  "Executor_valid (Executor_ctor ids 0) \<and>
   Executor_addTask_key (Executor_ctor ids 0) key task = Inl Div_By_Zero \<and>
   Executor_move_assign (Executor_ctor ids n) e = Inl Use_After_Free \<and>
   (ex_distributor this = None \<longrightarrow> Executor_move_assign this e = Inr (Executor_move_ctor e))"
  by (simp add: Executor_addTask_key_def Executor_move_assign_def Schedule_rem_def loop_defs)

theorem Executor_faults_witness:
  "Executor_move_assign (Executor_ctor0 :: nat Executor) (Executor_ctor Suc 2)
     = Inr (Executor_move_ctor (Executor_ctor Suc 2))"
  using Executor_faults[where this = "Executor_ctor0 :: nat Executor" and e = "Executor_ctor Suc 2"]
  by (auto simp: Executor_ctor0_def)

end
