(* ===== verification/Events_Service.thy ===== *)
theory Events_Service
  imports KV_Pair
begin

text \<open>
  \<open>source/extention/events_service.cpp\<close>: an event source with a key, a notifier that fills a
  vector of (key, events) pairs and a handler called for each pair. The two \<open>std::function\<close> members
  are closures \<open>'p\<close> and \<open>'h\<close>, or empty; what calling them does to the state \<open>'s\<close> of the program is
  given by the parameters \<open>notify\<close> and \<open>handle\<close>. The derived services differ only in the
  closures they install.
\<close>

record ('p, 'h) EventsService =
  es_key :: u64
  es_processor :: "'p option"
  es_handler :: "'h option"

definition EventsService_ctor :: "u64 \<Rightarrow> ('p, 'h) EventsService" where
  "EventsService_ctor key = \<lparr>es_key = key, es_processor = None, es_handler = None\<rparr>"

definition EventsService_move ::
  "('p, 'h) EventsService \<Rightarrow> ('p, 'h) EventsService \<times> ('p, 'h) EventsService" where
  "EventsService_move es = (es, es\<lparr>es_processor := None, es_handler := None\<rparr>)"

definition EventsService_setNotifier :: "('p, 'h) EventsService \<Rightarrow> 'p option \<Rightarrow> ('p, 'h) EventsService" where
  "EventsService_setNotifier es notifier = es\<lparr>es_processor := notifier\<rparr>"

definition EventsService_setEventsHandler :: "('p, 'h) EventsService \<Rightarrow> 'h option \<Rightarrow> ('p, 'h) EventsService" where
  "EventsService_setEventsHandler es handler = es\<lparr>es_handler := handler\<rparr>"

definition EventsService_getKey :: "('p, 'h) EventsService \<Rightarrow> u64" where
  "EventsService_getKey es = es_key es"

definition EventsService_processEvents ::
  "('p \<Rightarrow> 's \<Rightarrow> (u64, 32 word) KVPair list \<times> 's) \<Rightarrow> ('h \<Rightarrow> u64 \<Rightarrow> 32 word \<Rightarrow> 's \<Rightarrow> 's)
     \<Rightarrow> ('p, 'h) EventsService \<Rightarrow> 's \<Rightarrow> 's" where
  "EventsService_processEvents notify handle es s =
     (case es_processor es of
        None \<Rightarrow> s
      | Some p \<Rightarrow>
          let (result, s1) = notify p s in
          (case es_handler es of
             None \<Rightarrow> s1
           | Some h \<Rightarrow> fold (\<lambda>kv. handle h (KVPair_key kv) (KVPair_value kv)) result s1))"

end
