(* ===== verification/Event_Loop.thy ===== *)
theory Event_Loop
  imports Executor Events_Service "HOL-Library.RBT"
begin

text \<open>
  \<open>source/extention/event_loop.cpp\<close>: one table of services per worker thread, and a task per
  worker that runs its services and submits itself again. The tables are \<open>std::map<int64_t, ...>\<close>,
  red-black trees ordered by the signed key. The closures the loop submits are the constructors
  of \<open>el_task\<close>; a service is a pointer. What lies outside the loop is the record \<open>el_program\<close>:
  the service objects, what their closures do, and what the callbacks passed to \<open>delService\<close> and
  \<open>findService\<close> do. These act on the rest \<open>'s\<close> of the program, not on the tables themselves.
\<close>

type_synonym svc_ptr = nat

datatype 'c el_task =
    Process_Events
  | Add_Service svc_ptr
  | Del_Service u64 "'c option"
  | Mod_Service svc_ptr u64
  | Find_Service u64 "'c option"

record 'c EventLoop_data =
  el_pdata :: "(int, svc_ptr) rbt list"
  el_exec :: "'c el_task Executor"

type_synonym 'c EventLoop = "'c EventLoop_data option"

record ('p, 'h, 'c, 's) el_program =
  services :: "svc_ptr \<Rightarrow> ('p, 'h) EventsService"
  notify :: "'p \<Rightarrow> 's \<Rightarrow> (u64, 32 word) KVPair list \<times> 's"
  handle :: "'h \<Rightarrow> u64 \<Rightarrow> 32 word \<Rightarrow> 's \<Rightarrow> 's"
  callback :: "'c \<Rightarrow> svc_ptr option \<Rightarrow> 's \<Rightarrow> 's"

definition EventLoop_ctor0 :: "'c EventLoop" where
  "EventLoop_ctor0 = None"

definition EventLoop_ctor_exec :: "'c el_task Executor \<Rightarrow> 'c EventLoop outcome" where
  "EventLoop_ctor_exec e =
     bind_out (Executor_move_assign Executor_ctor0 e) (\<lambda>(exec, _).
       Inr (Some \<lparr>el_pdata = replicate (unat (Executor_threadCount exec)) RBT.empty, el_exec = exec\<rparr>))"

definition EventLoop_ctor :: "(nat \<Rightarrow> thread_id) \<Rightarrow> u32 \<Rightarrow> 'c EventLoop outcome" where
  "EventLoop_ctor ids nthread =
     bind_out (Executor_move_assign Executor_ctor0 (Executor_ctor ids nthread)) (\<lambda>(exec, _).
       Inr (Some \<lparr>el_pdata = replicate (unat nthread) RBT.empty, el_exec = exec\<rparr>))"

definition EventLoop_move_ctor :: "'c EventLoop \<Rightarrow> 'c EventLoop \<times> 'c EventLoop" where
  "EventLoop_move_ctor oth = (oth, None)"

text \<open>
  The destructor shuts the executor down and releases \<open>data\<close>; the destructor of \<open>_private_data\<close>
  then assigns a fresh \<open>Executor\<close> to \<open>m_exec\<close>.
\<close>

definition EventLoop_dtor :: "'c EventLoop \<Rightarrow> unit outcome" where
  "EventLoop_dtor el =
     (case el of
        None \<Rightarrow> Inr ()
      | Some d \<Rightarrow> bind_out (Executor_move_assign (Executor_shutdown_all (el_exec d)) Executor_ctor0)
                    (\<lambda>_. Inr ()))"

definition EventLoop_move_assign :: "'c EventLoop \<Rightarrow> 'c EventLoop \<Rightarrow> ('c EventLoop \<times> 'c EventLoop) outcome" where
  "EventLoop_move_assign this oth =
     bind_out (EventLoop_dtor this) (\<lambda>_.
       if this = None then Inr (oth, None) else Inl Use_After_Free)"

definition EventLoop_threadCount :: "'c EventLoop \<Rightarrow> u32 outcome" where
  "EventLoop_threadCount el =
     (case el of None \<Rightarrow> Inl Null_Deref | Some d \<Rightarrow> Inr (Executor_threadCount (el_exec d)))"

definition EventLoop_shutdown :: "'c EventLoop \<Rightarrow> bool" where
  "EventLoop_shutdown el = True"

definition EventLoop_startNextStep :: "u32 \<Rightarrow> 'c EventLoop \<Rightarrow> (bool \<times> 'c EventLoop) outcome" where
  "EventLoop_startNextStep index el =
     (case el of
        None \<Rightarrow> Inr (False, el)
      | Some d \<Rightarrow> bind_out (Executor_addTask_index (el_exec d) index (Some Process_Events)) (\<lambda>(b, ex).
                    Inr (b, Some (d\<lparr>el_exec := ex\<rparr>))))"

definition EventLoop_usable :: "'c EventLoop_data \<Rightarrow> bool" where
  "EventLoop_usable d \<longleftrightarrow> Executor_valid (el_exec d) \<and> el_pdata d \<noteq> []"

definition EventLoop_start :: "'c EventLoop \<Rightarrow> (bool \<times> 'c EventLoop) outcome" where
  "EventLoop_start el =
     (case el of
        None \<Rightarrow> Inr (False, el)
      | Some d \<Rightarrow>
          if \<not> EventLoop_usable d then Inr (False, el)
          else fold_out (\<lambda>index (bret, el). bind_out (EventLoop_startNextStep (word_of_nat index) el)
                            (\<lambda>(b, el'). Inr (bret \<and> b, el')))
                 [0..<unat (Executor_threadCount (el_exec d))] (True, el))"

definition EventLoop_processEvents ::
  "('p, 'h, 'c, 's) el_program \<Rightarrow> u32 \<Rightarrow> 'c EventLoop \<times> 's \<Rightarrow> ('c EventLoop \<times> 's) outcome" where
  "EventLoop_processEvents prog index st =
     (case fst st of
        None \<Rightarrow> Inl Null_Deref
      | Some d \<Rightarrow>
          if length (el_pdata d) \<le> unat index then Inl Out_Of_Range
          else let s' = fold (\<lambda>kp. EventsService_processEvents (notify prog) (handle prog) (services prog (snd kp)))
                          (RBT.entries (el_pdata d ! unat index)) (snd st)
               in bind_out (EventLoop_startNextStep index (fst st)) (\<lambda>(_, el). Inr (el, s')))"

text \<open>What the submitted closures do, run for worker \<open>index\<close>.\<close>

definition put_table :: "nat \<Rightarrow> int \<Rightarrow> svc_ptr \<Rightarrow> 'c EventLoop_data \<Rightarrow> 'c EventLoop_data" where
  "put_table i key p d = d\<lparr>el_pdata := (el_pdata d)[i := RBT.insert key p (el_pdata d ! i)]\<rparr>"

definition erase_table :: "nat \<Rightarrow> int \<Rightarrow> 'c EventLoop_data \<Rightarrow> 'c EventLoop_data" where
  "erase_table i key d = d\<lparr>el_pdata := (el_pdata d)[i := RBT.delete key (el_pdata d ! i)]\<rparr>"

definition EventLoop_run_config ::
  "('p, 'h, 'c, 's) el_program \<Rightarrow> nat \<Rightarrow> 'c el_task \<Rightarrow> 'c EventLoop_data \<times> 's
     \<Rightarrow> ('c EventLoop_data \<times> 's) outcome" where
  "EventLoop_run_config prog i t ds =
     (case ds of (d, s) \<Rightarrow>
        case t of
          Process_Events \<Rightarrow> Inr (d, s)
        | Add_Service p \<Rightarrow> Inr (put_table i (sint (EventsService_getKey (services prog p))) p d, s)
        | Mod_Service p key \<Rightarrow> Inr (put_table i (sint key) p d, s)
        | Del_Service key before \<Rightarrow>
            (case RBT.lookup (el_pdata d ! i) (sint key) of
               None \<Rightarrow> Inl Bad_Iterator
             | Some p \<Rightarrow>
                 Inr (erase_table i (sint key) d,
                      case before of None \<Rightarrow> s | Some c \<Rightarrow> callback prog c (Some p) s))
        | Find_Service key after \<Rightarrow>
            (case after of
               None \<Rightarrow> Inl Bad_Function_Call
             | Some c \<Rightarrow> Inr (d, callback prog c (RBT.lookup (el_pdata d ! i) (sint key)) s)))"

definition EventLoop_run ::
  "('p, 'h, 'c, 's) el_program \<Rightarrow> u32 \<Rightarrow> 'c el_task \<Rightarrow> 'c EventLoop \<times> 's \<Rightarrow> ('c EventLoop \<times> 's) outcome" where
  "EventLoop_run prog index t st =
     (if t = Process_Events then EventLoop_processEvents prog index st
      else case fst st of
        None \<Rightarrow> Inl Null_Deref
      | Some d \<Rightarrow>
          if length (el_pdata d) \<le> unat index then Inl Out_Of_Range
          else bind_out (EventLoop_run_config prog (unat index) t (d, snd st)) (\<lambda>(d', s'). Inr (Some d', s')))"

text \<open>
  A task of the executor's queue. Tasks submitted with an \<open>Executor *\<close> only are not the loop's.
\<close>

definition EventLoop_run_task ::
  "('p, 'h, 'c, 's) el_program \<Rightarrow> 'c el_task exec_task option \<Rightarrow> 'c EventLoop \<times> 's
     \<Rightarrow> ('c EventLoop \<times> 's) outcome" where
  "EventLoop_run_task prog task st =
     (case task of
        None \<Rightarrow> Inr st
      | Some (With_Executor _) \<Rightarrow> Inr st
      | Some (With_Index index None) \<Rightarrow> Inl Bad_Function_Call
      | Some (With_Index index (Some t)) \<Rightarrow> EventLoop_run prog index t st)"

definition EventLoop_addServiceConfigTask ::
  "('p, 'h, 'c, 's) el_program \<Rightarrow> thread_id \<Rightarrow> u32 \<Rightarrow> 'c el_task \<Rightarrow> bool \<Rightarrow> 'c EventLoop \<times> 's
     \<Rightarrow> ('c EventLoop \<times> 's) outcome" where
  "EventLoop_addServiceConfigTask prog self threadindex task asap st =
     (case fst st of
        None \<Rightarrow> Inl Null_Deref
      | Some d \<Rightarrow>
          if asap
          then bind_out (Executor_addTask_ASAP_index self (el_exec d) threadindex (Some task)) (\<lambda>(_, now, ex).
                 EventLoop_run_task prog now (Some (d\<lparr>el_exec := ex\<rparr>), snd st))
          else bind_out (Executor_addTask_index (el_exec d) threadindex (Some task)) (\<lambda>(_, ex).
                 Inr (Some (d\<lparr>el_exec := ex\<rparr>), snd st)))"

definition config_via ::
  "('p, 'h, 'c, 's) el_program \<Rightarrow> thread_id \<Rightarrow> (Schedule \<Rightarrow> u32 outcome) \<Rightarrow> 'c el_task \<Rightarrow> 'c EventLoop \<times> 's
     \<Rightarrow> (bool \<times> 'c EventLoop \<times> 's) outcome" where
  "config_via prog self sched task st =
     (case fst st of
        None \<Rightarrow> Inr (False, st)
      | Some d \<Rightarrow>
          if \<not> EventLoop_usable d then Inr (False, st)
          else bind_out (sched (Schedule_ctor (Executor_threadCount (el_exec d)))) (\<lambda>index.
                 bind_out (EventLoop_addServiceConfigTask prog self index task True st) (\<lambda>st'. Inr (True, st'))))"

definition EventLoop_addService ::
  "('p, 'h, 'c, 's) el_program \<Rightarrow> thread_id \<Rightarrow> svc_ptr option \<Rightarrow> 'c EventLoop \<times> 's
     \<Rightarrow> (bool \<times> 'c EventLoop \<times> 's) outcome" where
  "EventLoop_addService prog self service st =
     (case service of
        None \<Rightarrow> Inr (False, st)
      | Some p \<Rightarrow> config_via prog self
          (\<lambda>sch. Schedule_doSchedule_u64 sch (EventsService_getKey (services prog p))) (Add_Service p) st)"

definition EventLoop_delService ::
  "('p, 'h, 'c, 's) el_program \<Rightarrow> thread_id \<Rightarrow> u64 \<Rightarrow> 'c option \<Rightarrow> 'c EventLoop \<times> 's
     \<Rightarrow> (bool \<times> 'c EventLoop \<times> 's) outcome" where
  "EventLoop_delService prog self service_key before st =
     config_via prog self (\<lambda>sch. Schedule_doSchedule_i64 sch service_key) (Del_Service service_key before) st"

definition EventLoop_modService ::
  "('p, 'h, 'c, 's) el_program \<Rightarrow> thread_id \<Rightarrow> svc_ptr option \<Rightarrow> 'c EventLoop \<times> 's
     \<Rightarrow> (bool \<times> 'c EventLoop \<times> 's) outcome" where
  "EventLoop_modService prog self service st =
     (case service of
        None \<Rightarrow> Inr (False, st)
      | Some p \<Rightarrow> let service_key = EventsService_getKey (services prog p) in
          config_via prog self (\<lambda>sch. Schedule_doSchedule_i64 sch service_key) (Mod_Service p service_key) st)"

definition EventLoop_findService ::
  "('p, 'h, 'c, 's) el_program \<Rightarrow> thread_id \<Rightarrow> u64 \<Rightarrow> 'c option \<Rightarrow> 'c EventLoop \<times> 's
     \<Rightarrow> (bool \<times> 'c EventLoop \<times> 's) outcome" where
  "EventLoop_findService prog self service_key after st =
     config_via prog self (\<lambda>sch. Schedule_doSchedule_i64 sch service_key) (Find_Service service_key after) st"

text \<open>
  A round of worker \<open>i\<close> of the loop's executor: it takes a batch from its queue, unless told to
  exit, and runs it.
\<close>

definition EventLoop_work ::
  "('p, 'h, 'c, 's) el_program \<Rightarrow> nat \<Rightarrow> 'c EventLoop \<times> 's \<Rightarrow> ('c EventLoop \<times> 's) outcome" where
  "EventLoop_work prog i st =
     (case fst st of
        None \<Rightarrow> Inr st
      | Some d \<Rightarrow>
          (case ex_distributor (el_exec d) of
             None \<Rightarrow> Inr st
           | Some td \<Rightarrow>
               if td_exit td then Inr st
               else let (taken, td') = work_take i td
                    in fold_out (EventLoop_run_task prog) taken
                         (Some (d\<lparr>el_exec := el_exec d\<lparr>ex_distributor := Some td'\<rparr>\<rparr>), snd st)))"

section \<open>Submissions and rounds\<close>

text \<open>A loop whose executor runs, seen from a thread \<open>self\<close> that is not a worker.\<close>

definition el_ready :: "thread_id \<Rightarrow> 'c EventLoop_data \<Rightarrow> bool" where
  "el_ready self d \<longleftrightarrow> Executor_inv (el_exec d) \<and> Executor_valid (el_exec d) \<and>
     outside_thread self (el_exec d) \<and>
     length (el_pdata d) = unat (Executor_threadCount (el_exec d))"

lemma el_ready_usable:
  assumes "el_ready self d"
  shows "EventLoop_usable d"
proof -
  have "m_threadSize (ex_schedule (el_exec d)) \<noteq> 0"
    using assms sint_pos_unat(3) by (simp add: el_ready_def Executor_inv_def)
  then have "0 < unat (Executor_threadCount (el_exec d))"
    by (simp add: Executor_threadCount_def Schedule_threads_def unat_gt_0)
  then show ?thesis using assms by (auto simp: el_ready_def EventLoop_usable_def)
qed

lemma Executor_valid_distributor: "Executor_valid ex \<Longrightarrow> ex_distributor ex \<noteq> None"
  by (auto simp: Executor_valid_def split: option.splits)

lemma el_submit:
  assumes "el_ready self d" and "unat i < unat (Executor_threadCount (el_exec d))"
  obtains ex where "Executor_addTask_index (el_exec d) i (Some t) = Inr (True, ex)"
    and "Executor_addTask_ASAP_index self (el_exec d) i (Some t) = Inr (True, None, ex)"
    and "el_ready self (d\<lparr>el_exec := ex\<rparr>)" and "Executor_threadCount ex = Executor_threadCount (el_exec d)"
    and "worker_front ex = worker_front (el_exec d)"
    and "\<And>j. worker_queue ex j = (if j = unat i then worker_queue (el_exec d) j @ [Some (With_Index i (Some t))]
                                   else worker_queue (el_exec d) j)"
proof -
  let ?e = "el_exec d"
  have e: "Executor_inv ?e" "ex_distributor ?e \<noteq> None" "outside_thread self ?e"
    "unat i < unat (m_threadSize (ex_schedule ?e))"
    using assms Executor_valid_distributor
    by (auto simp: el_ready_def Executor_threadCount_def Schedule_threads_def)
  obtain ex where ex: "submit_to ?e (With_Index i (Some t)) (Inr i) = Inr (True, ex)" "Executor_inv ex"
    "ex_schedule ex = ex_schedule ?e" "Executor_valid ex = Executor_valid ?e"
    "worker_front ex = worker_front ?e"
    "\<forall>j. worker_queue ex j = (if j = unat i then worker_queue ?e j @ [Some (With_Index i (Some t))]
                              else worker_queue ?e j)"
    using submit_to_spec[OF e(1,2,4), of "With_Index i (Some t)"] by blast
  note out = submit_ASAP_outside[OF e(1,3,4), of "With_Index i (Some t)"]
  show thesis
  proof (rule that[of ex])
    show "el_ready self (d\<lparr>el_exec := ex\<rparr>)"
      using assms ex out(2)[OF ex(1)] by (simp add: el_ready_def Executor_threadCount_def)
  qed (use ex out(1) in \<open>simp_all add: Executor_addTask_index_def Executor_addTask_ASAP_index_def
        Executor_threadCount_def\<close>)
qed

lemma config_via_queue:
  assumes "el_ready self d" and "sched (Schedule_ctor (Executor_threadCount (el_exec d))) = Inr i"
    and "unat i < unat (Executor_threadCount (el_exec d))"
  obtains ex where "config_via prog self sched t (Some d, s) = Inr (True, Some (d\<lparr>el_exec := ex\<rparr>), s)"
    and "el_ready self (d\<lparr>el_exec := ex\<rparr>)" and "Executor_threadCount ex = Executor_threadCount (el_exec d)"
    and "worker_front ex = worker_front (el_exec d)"
    and "\<And>j. worker_queue ex j = (if j = unat i then worker_queue (el_exec d) j @ [Some (With_Index i (Some t))]
                                   else worker_queue (el_exec d) j)"
proof -
  obtain ex where ex: "Executor_addTask_ASAP_index self (el_exec d) i (Some t) = Inr (True, None, ex)"
    "el_ready self (d\<lparr>el_exec := ex\<rparr>)" "Executor_threadCount ex = Executor_threadCount (el_exec d)"
    "worker_front ex = worker_front (el_exec d)"
    "\<And>j. worker_queue ex j = (if j = unat i then worker_queue (el_exec d) j @ [Some (With_Index i (Some t))]
                              else worker_queue (el_exec d) j)"
    by (rule el_submit[OF assms(1,3), of t]) (rule that; assumption)
  have "config_via prog self sched t (Some d, s) = Inr (True, Some (d\<lparr>el_exec := ex\<rparr>), s)"
    using ex(1) assms(2) el_ready_usable[OF assms(1)]
    by (simp add: config_via_def EventLoop_addServiceConfigTask_def EventLoop_run_task_def)
  then show thesis using that ex by blast
qed

lemma config_via_step:
  assumes "el_ready self (d\<lparr>el_exec := e\<rparr>)" and "sched (Schedule_ctor n) = Inr i"
    and "unat i < unat n" and "Executor_threadCount e = n"
  shows "\<exists>ex. config_via prog self sched t (Some (d\<lparr>el_exec := e\<rparr>), s) = Inr (True, Some (d\<lparr>el_exec := ex\<rparr>), s)
     \<and> el_ready self (d\<lparr>el_exec := ex\<rparr>) \<and> Executor_threadCount ex = n
     \<and> worker_front ex = worker_front e
     \<and> worker_queue ex (unat i) = worker_queue e (unat i) @ [Some (With_Index i (Some t))]"
  by (rule config_via_queue[OF assms(1), of sched i prog t s]) (use assms in auto)

text \<open>A round of a worker whose front buffer is empty takes its whole queue.\<close>

lemma EventLoop_work_takes_all:
  assumes "el_ready self d" and "i < unat (Executor_threadCount (el_exec d))"
    and "worker_front (el_exec d) i = []"
  obtains ex where "EventLoop_work prog i (Some d, s) =
       fold_out (EventLoop_run_task prog) (worker_queue (el_exec d) i) (Some (d\<lparr>el_exec := ex\<rparr>), s)"
    and "el_ready self (d\<lparr>el_exec := ex\<rparr>)" and "Executor_threadCount ex = Executor_threadCount (el_exec d)"
    and "worker_queue ex i = []" and "worker_front ex i = []"
proof -
  let ?e = "el_exec d"
  obtain td where td: "ex_distributor ?e = Some td" "\<not> td_exit td"
    using assms(1) by (auto simp: el_ready_def Executor_valid_def TaskDistributor_isShutdown_def split: option.splits)
  have inv: "TaskDistributor_inv td" "i < td_size td" "i < length (td_bqueForTask td)"
    using assms(1,2) td by (auto simp: el_ready_def Executor_inv_def TaskDistributor_inv_def
        Executor_threadCount_def Schedule_threads_def)
  obtain b td' where t: "work_take i td = (b, td')" by fastforce
  let ?ex = "?e\<lparr>ex_distributor := Some td'\<rparr>"
  have td': "b = MutexQue_contents (td_bqueForTask td ! i)" "MutexQue_contents (td_bqueForTask td' ! i) = []"
    "m_front (td_bqueForTask td' ! i) = []"
    "td_tpool td' = td_tpool td" "td_exit td' = td_exit td" "td_size td' = td_size td"
    using t assms(3) td inv
    by (auto simp: work_take_def worker_front_def queue_defs Let_def split_beta split: if_splits)
  have "el_ready self (d\<lparr>el_exec := ?ex\<rparr>)"
    using assms(1) td td' t work_take_inv[OF inv(1,2)]
    by (simp add: el_ready_def Executor_inv_def Executor_valid_def TaskDistributor_isShutdown_def
        outside_thread_def Executor_threadCount_def)
  then show thesis
    using that[of ?ex] td td' t
    by (simp add: EventLoop_work_def worker_queue_def worker_front_def Executor_threadCount_def)
qed

text \<open>For keys below \<open>2 ^ 63\<close> the two overloads of \<open>doSchedule\<close> choose the same worker.\<close>

lemma doSchedule_agree: "0 \<le> sint key \<Longrightarrow> Schedule_doSchedule_i64 sch key = Schedule_doSchedule_u64 sch key"
  by (simp add: Schedule_doSchedule_i64_def Schedule_doSchedule_u64_def)

lemma doSchedule_u64_ready:
  assumes "el_ready self d"
  obtains i where "Schedule_doSchedule_u64 (Schedule_ctor (Executor_threadCount (el_exec d))) key = Inr i"
    and "unat i < unat (Executor_threadCount (el_exec d))"
  using Schedule_rem_spec[of "Schedule_ctor (Executor_threadCount (el_exec d))" key] assms that
  by (auto simp: el_ready_def Executor_inv_def Schedule_doSchedule_u64_def Executor_threadCount_def
      Schedule_threads_def Schedule_ctor_def)

section \<open>The processing loop\<close>

definition process_task :: "u32 \<Rightarrow> 'c el_task exec_task option" where
  "process_task i = Some (With_Index i (Some Process_Events))"

definition armed :: "thread_id \<Rightarrow> u32 \<Rightarrow> 'c EventLoop_data \<Rightarrow> bool" where
  "armed self i d \<longleftrightarrow> el_ready self d \<and> unat i < unat (Executor_threadCount (el_exec d)) \<and>
     worker_front (el_exec d) (unat i) = [] \<and> worker_queue (el_exec d) (unat i) = [process_task i]"

definition serve_all ::
  "('p, 'h, 'c, 's) el_program \<Rightarrow> (int, svc_ptr) rbt \<Rightarrow> 's \<Rightarrow> 's" where
  "serve_all prog t =
     fold (\<lambda>kp. EventsService_processEvents (notify prog) (handle prog) (services prog (snd kp))) (RBT.entries t)"

lemma armed_round:
  assumes "armed self i d"
  shows "\<exists>ex. EventLoop_work prog (unat i) (Some d, s)
           = Inr (Some (d\<lparr>el_exec := ex\<rparr>), serve_all prog (el_pdata d ! unat i) s)
         \<and> armed self i (d\<lparr>el_exec := ex\<rparr>)"
proof -
  have r: "el_ready self d" "unat i < unat (Executor_threadCount (el_exec d))"
    "worker_front (el_exec d) (unat i) = []" "worker_queue (el_exec d) (unat i) = [process_task i]"
    using assms by (auto simp: armed_def)
  obtain e1 where e1: "EventLoop_work prog (unat i) (Some d, s) =
       fold_out (EventLoop_run_task prog) (worker_queue (el_exec d) (unat i)) (Some (d\<lparr>el_exec := e1\<rparr>), s)"
    "el_ready self (d\<lparr>el_exec := e1\<rparr>)" "Executor_threadCount e1 = Executor_threadCount (el_exec d)"
    "worker_queue e1 (unat i) = []" "worker_front e1 (unat i) = []"
    by (rule EventLoop_work_takes_all[OF r(1-3), of prog s]) (rule that; assumption)
  have i1: "unat i < unat (Executor_threadCount (el_exec (d\<lparr>el_exec := e1\<rparr>)))" using r(2) e1(3) by simp
  obtain e2 where e2: "Executor_addTask_index e1 i (Some Process_Events) = Inr (True, e2)"
    "el_ready self (d\<lparr>el_exec := e2\<rparr>)" "Executor_threadCount e2 = Executor_threadCount e1"
    "worker_front e2 = worker_front e1" "worker_queue e2 (unat i) = [process_task i]"
    by (rule el_submit[OF e1(2) i1, of Process_Events]) (use that e1(4) in \<open>auto simp: process_task_def\<close>)
  have "unat i < length (el_pdata d)" using r(1,2) by (simp add: el_ready_def)
  then have "EventLoop_work prog (unat i) (Some d, s)
      = Inr (Some (d\<lparr>el_exec := e2\<rparr>), serve_all prog (el_pdata d ! unat i) s)"
    using e2(1) unfolding e1(1) r(4)
    by (simp add: process_task_def EventLoop_run_task_def EventLoop_run_def EventLoop_processEvents_def
        EventLoop_startNextStep_def serve_all_def)
  then show ?thesis using e1 e2 r(2) by (auto simp: armed_def)
qed

lemma armed_rounds:
  assumes "armed self i d"
  shows "\<exists>ex. fold_out (\<lambda>_. EventLoop_work prog (unat i)) [0..<k] (Some d, s)
           = Inr (Some (d\<lparr>el_exec := ex\<rparr>), (serve_all prog (el_pdata d ! unat i) ^^ k) s)
         \<and> armed self i (d\<lparr>el_exec := ex\<rparr>)"
proof (induction k)
  case 0
  then show ?case using assms by (intro exI[of _ "el_exec d"]) simp
next
  case (Suc k)
  then obtain e where e: "fold_out (\<lambda>_. EventLoop_work prog (unat i)) [0..<k] (Some d, s)
      = Inr (Some (d\<lparr>el_exec := e\<rparr>), (serve_all prog (el_pdata d ! unat i) ^^ k) s)"
    "armed self i (d\<lparr>el_exec := e\<rparr>)" by blast
  from armed_round[OF e(2), of prog "(serve_all prog (el_pdata d ! unat i) ^^ k) s"] e(1)
  show ?case by (auto simp: fold_out_append)
qed

lemma start_steps:
  assumes "el_ready self d" and "m \<le> unat (Executor_threadCount (el_exec d))"
  shows "\<exists>ex. fold_out (\<lambda>index (bret, el). bind_out (EventLoop_startNextStep (word_of_nat index) el)
                (\<lambda>(b, el'). Inr (bret \<and> b, el'))) [0..<m] (True, Some d)
           = Inr (True, Some (d\<lparr>el_exec := ex\<rparr>))
     \<and> el_ready self (d\<lparr>el_exec := ex\<rparr>) \<and> Executor_threadCount ex = Executor_threadCount (el_exec d)
     \<and> worker_front ex = worker_front (el_exec d)
     \<and> (\<forall>j. worker_queue ex j = (if j < m then worker_queue (el_exec d) j @ [process_task (word_of_nat j)]
                                else worker_queue (el_exec d) j))"
  using assms(2)
proof (induction m)
  case 0
  then show ?case using assms(1) by (intro exI[of _ "el_exec d"]) simp
next
  case (Suc m)
  let ?f = "\<lambda>index (bret, el). bind_out (EventLoop_startNextStep (word_of_nat index) el)
                (\<lambda>(b, el'). Inr (bret \<and> b, el'))"
  obtain e where e: "fold_out ?f [0..<m] (True, Some d) = Inr (True, Some (d\<lparr>el_exec := e\<rparr>))"
    "el_ready self (d\<lparr>el_exec := e\<rparr>)" "Executor_threadCount e = Executor_threadCount (el_exec d)"
    "worker_front e = worker_front (el_exec d)"
    "\<forall>j. worker_queue e j = (if j < m then worker_queue (el_exec d) j @ [process_task (word_of_nat j)]
                                else worker_queue (el_exec d) j)"
    using Suc.IH Suc.prems by auto
  have "m < 2 ^ 32" using Suc.prems unat_u32[of "Executor_threadCount (el_exec d)"] by simp
  then have m: "unat (word_of_nat m :: u32) = m" by (simp add: unat_of_nat take_bit_nat_eq_self)
  have i: "unat (word_of_nat m :: u32) < unat (Executor_threadCount (el_exec (d\<lparr>el_exec := e\<rparr>)))"
    using m e(3) Suc.prems by simp
  obtain e2 where e2: "Executor_addTask_index e (word_of_nat m) (Some Process_Events) = Inr (True, e2)"
    "el_ready self (d\<lparr>el_exec := e2\<rparr>)" "Executor_threadCount e2 = Executor_threadCount e"
    "worker_front e2 = worker_front e"
    "\<forall>j. worker_queue e2 j = (if j = m then worker_queue e j @ [process_task (word_of_nat m)] else worker_queue e j)"
    by (rule el_submit[OF e(2) i, of Process_Events]) (use that m in \<open>auto simp: process_task_def\<close>)
  have "fold_out ?f [0..<Suc m] (True, Some d) = Inr (True, Some (d\<lparr>el_exec := e2\<rparr>))"
    using e(1) e2(1) by (simp add: fold_out_append EventLoop_startNextStep_def)
  then show ?case using e(3-5) e2(2-5) by (intro exI[of _ e2]) (auto simp: less_Suc_eq)
qed

section \<open>Properties\<close>

text \<open>
  Property C21. The service table end to end, from the submitting thread through the schedule,
  the executor's queue and a round of the worker. For a service whose key is below \<open>2 ^ 63\<close>, on a
  running loop with nothing queued: \<open>addService\<close>, \<open>findService\<close>, \<open>delService\<close> and \<open>findService\<close>
  again are all accepted, they all reach one worker, and its next round hands the service to
  the first finder and to the delete callback, null to the second finder, in that order.
\<close>

theorem EventLoop_add_find_del_find:
  assumes "el_ready self d" and "\<forall>i < unat (Executor_threadCount (el_exec d)). worker_queue (el_exec d) i = []"
    and "key = EventsService_getKey (services prog p)" and "0 \<le> sint key"
  shows "\<exists>st1 st2 st3 st4 w d'.
      EventLoop_addService prog self (Some p) (Some d, s) = Inr (True, st1) \<and>
      EventLoop_findService prog self key (Some c1) st1 = Inr (True, st2) \<and>
      EventLoop_delService prog self key (Some c2) st2 = Inr (True, st3) \<and>
      EventLoop_findService prog self key (Some c3) st3 = Inr (True, st4) \<and>
      w < unat (Executor_threadCount (el_exec d)) \<and>
      EventLoop_work prog w st4 =
        Inr (Some d', callback prog c3 None (callback prog c2 (Some p) (callback prog c1 (Some p) s)))"
proof -
  let ?n = "Executor_threadCount (el_exec d)" and ?sch = "\<lambda>sch. Schedule_doSchedule_u64 sch key"
  obtain i where i: "?sch (Schedule_ctor ?n) = Inr i" "unat i < unat ?n"
    using doSchedule_u64_ready[OF assms(1)] by metis
  have q: "worker_queue (el_exec d) (unat i) = []" using assms(2) i(2) by simp
  have r: "el_ready self (d\<lparr>el_exec := el_exec d\<rparr>)" using assms(1) by simp
  obtain e1 where e1: "config_via prog self ?sch (Add_Service p) (Some (d\<lparr>el_exec := el_exec d\<rparr>), s)
      = Inr (True, Some (d\<lparr>el_exec := e1\<rparr>), s)"
    "el_ready self (d\<lparr>el_exec := e1\<rparr>)" "Executor_threadCount e1 = ?n" "worker_front e1 = worker_front (el_exec d)"
    "worker_queue e1 (unat i) = worker_queue (el_exec d) (unat i) @ [Some (With_Index i (Some (Add_Service p)))]"
    using config_via_step[where sched = ?sch and prog = prog and t = "Add_Service p" and s = s, OF r i refl]
    by (elim exE conjE) (rule that; assumption)
  obtain e2 where e2: "config_via prog self ?sch (Find_Service key (Some c1)) (Some (d\<lparr>el_exec := e1\<rparr>), s)
      = Inr (True, Some (d\<lparr>el_exec := e2\<rparr>), s)"
    "el_ready self (d\<lparr>el_exec := e2\<rparr>)" "Executor_threadCount e2 = ?n" "worker_front e2 = worker_front e1"
    "worker_queue e2 (unat i) = worker_queue e1 (unat i) @ [Some (With_Index i (Some (Find_Service key (Some c1))))]"
    using config_via_step[where sched = ?sch and prog = prog and t = "Find_Service key (Some c1)" and s = s,
        OF e1(2) i e1(3)]
    by (elim exE conjE) (rule that; assumption)
  obtain e3 where e3: "config_via prog self ?sch (Del_Service key (Some c2)) (Some (d\<lparr>el_exec := e2\<rparr>), s)
      = Inr (True, Some (d\<lparr>el_exec := e3\<rparr>), s)"
    "el_ready self (d\<lparr>el_exec := e3\<rparr>)" "Executor_threadCount e3 = ?n" "worker_front e3 = worker_front e2"
    "worker_queue e3 (unat i) = worker_queue e2 (unat i) @ [Some (With_Index i (Some (Del_Service key (Some c2))))]"
    using config_via_step[where sched = ?sch and prog = prog and t = "Del_Service key (Some c2)" and s = s,
        OF e2(2) i e2(3)]
    by (elim exE conjE) (rule that; assumption)
  obtain e4 where e4: "config_via prog self ?sch (Find_Service key (Some c3)) (Some (d\<lparr>el_exec := e3\<rparr>), s)
      = Inr (True, Some (d\<lparr>el_exec := e4\<rparr>), s)"
    "el_ready self (d\<lparr>el_exec := e4\<rparr>)" "Executor_threadCount e4 = ?n" "worker_front e4 = worker_front e3"
    "worker_queue e4 (unat i) = worker_queue e3 (unat i) @ [Some (With_Index i (Some (Find_Service key (Some c3))))]"
    using config_via_step[where sched = ?sch and prog = prog and t = "Find_Service key (Some c3)" and s = s,
        OF e3(2) i e3(3)]
    by (elim exE conjE) (rule that; assumption)
  have f: "worker_front e4 (unat i) = []" using e4(4) e3(4) e2(4) e1(4) worker_front_empty[OF q] by simp
  obtain e5 where e5: "EventLoop_work prog (unat i) (Some (d\<lparr>el_exec := e4\<rparr>), s) =
      fold_out (EventLoop_run_task prog) (worker_queue e4 (unat i)) (Some (d\<lparr>el_exec := e5\<rparr>), s)"
    by (rule EventLoop_work_takes_all[OF e4(2), of "unat i" prog s]) (use i e4(3) f in auto)
  have len: "unat i < length (el_pdata d)" using assms(1) i(2) by (simp add: el_ready_def)
  have "\<exists>d'. EventLoop_work prog (unat i) (Some (d\<lparr>el_exec := e4\<rparr>), s) =
      Inr (Some d', callback prog c3 None (callback prog c2 (Some p) (callback prog c1 (Some p) s)))"
    using len assms(3) unfolding e5 e4(5) e3(5) e2(5) e1(5) q
    by (simp add: EventLoop_run_task_def EventLoop_run_def EventLoop_run_config_def put_table_def erase_table_def)
  moreover have "EventLoop_addService prog self (Some p) (Some d, s) = Inr (True, Some (d\<lparr>el_exec := e1\<rparr>), s)"
    using e1(1) assms(3) by (simp add: EventLoop_addService_def)
  ultimately show ?thesis
    using e2(1) e3(1) e4(1) i(2) doSchedule_agree[OF assms(4)]
    by (fastforce simp: EventLoop_findService_def EventLoop_delService_def)
qed

text \<open>A running loop of three workers, for the concrete instances.\<close>

definition demo_loop :: "nat EventLoop_data" where
  "demo_loop = \<lparr>el_pdata = replicate 3 RBT.empty, el_exec = Executor_ctor Suc 3\<rparr>"

definition demo_program :: "(svc_ptr \<Rightarrow> u64) \<Rightarrow> (nat, nat, nat, (nat \<times> svc_ptr option) list) el_program" where
  "demo_program key =
     \<lparr>services = (\<lambda>p. EventsService_ctor (key p)), notify = (\<lambda>_ s. ([], s)), handle = (\<lambda>_ _ _ s. s),
      callback = (\<lambda>c r s. s @ [(c, r)])\<rparr>"

lemma demo_loop_ready:
  "el_ready 0 demo_loop" "Executor_threadCount (el_exec demo_loop) = 3"
  "\<forall>i < unat (Executor_threadCount (el_exec demo_loop)). worker_queue (el_exec demo_loop) i = []"
proof -
  have "Executor_inv (Executor_ctor Suc 3 :: nat el_task Executor)" by (rule Executor_ctor_inv) simp
  then show "el_ready 0 demo_loop"
    by (auto simp: el_ready_def demo_loop_def Executor_valid_def outside_thread_def TaskDistributor_isShutdown_def
        Executor_threadCount_def Executor_ctor_def Schedule_defs TaskDistributor_start_def TaskDistributor_ctor_def)
  show n: "Executor_threadCount (el_exec demo_loop) = 3"
    by (simp add: demo_loop_def Executor_threadCount_def Executor_ctor_def Schedule_defs)
  show "\<forall>i < unat (Executor_threadCount (el_exec demo_loop)). worker_queue (el_exec demo_loop) i = []"
    unfolding n
    by (simp add: worker_queue_def demo_loop_def Executor_ctor_def TaskDistributor_start_def
        TaskDistributor_ctor_def MutexQue_ctor_def MutexQue_contents_def)
qed

theorem EventLoop_add_find_del_find_witness:
  "\<exists>st1 st2 st3 st4 w d'.
      EventLoop_addService (demo_program (\<lambda>_. 7)) 0 (Some 5) (Some demo_loop, []) = Inr (True, st1) \<and>
      EventLoop_findService (demo_program (\<lambda>_. 7)) 0 7 (Some 1) st1 = Inr (True, st2) \<and>
      EventLoop_delService (demo_program (\<lambda>_. 7)) 0 7 (Some 2) st2 = Inr (True, st3) \<and>
      EventLoop_findService (demo_program (\<lambda>_. 7)) 0 7 (Some 3) st3 = Inr (True, st4) \<and>
      EventLoop_work (demo_program (\<lambda>_. 7)) w st4 = Inr (Some d', [(1, Some 5), (2, Some 5), (3, None)])"
proof -
  have k: "7 = EventsService_getKey (services (demo_program (\<lambda>_. 7)) 5)"
    by (simp add: demo_program_def EventsService_getKey_def EventsService_ctor_def)
  have c: "callback (demo_program (\<lambda>_. 7)) = (\<lambda>c r s. s @ [(c, r)])" by (simp add: demo_program_def)
  show ?thesis
    using EventLoop_add_find_del_find[OF demo_loop_ready(1,3) k, of "[]" 1 2 3] unfolding c by simp blast
qed

text \<open>
  A key with its top bit set breaks this: with three workers, a service whose key is
  \<open>2 ^ 64 - 1\<close> is put on worker 0 (the unsigned overload of \<open>doSchedule\<close>) and looked up on worker 1
  (the signed one), so \<open>findService\<close> right after \<open>addService\<close> answers null once both workers
  have run, and \<open>delService\<close> of it makes its worker use an end iterator.
\<close>

theorem EventLoop_high_key_lost:
  "let prog = demo_program (\<lambda>_. - 1);
       looked_up = bind_out (EventLoop_addService prog 0 (Some 5) (Some demo_loop, [])) (\<lambda>(a, st1).
         bind_out (EventLoop_findService prog 0 (- 1) (Some 1) st1) (\<lambda>(b, st2).
         bind_out (EventLoop_work prog 0 st2) (\<lambda>st3.
         bind_out (EventLoop_work prog 1 st3) (\<lambda>st4. Inr (a, b, st4)))))
   in bind_out looked_up (\<lambda>(a, b, st4). Inr (a, b, snd st4)) = Inr (True, True, [(1, None)])
    \<and> bind_out looked_up (\<lambda>(a, b, st4).
        bind_out (EventLoop_delService prog 0 (- 1) None st4) (\<lambda>(c, st5).
        bind_out (EventLoop_work prog 1 st5) (\<lambda>st6. Inr c))) = Inl Bad_Iterator"
  by code_simp

text \<open>
  Property C9. Liveness of the loop. On a running loop with nothing queued \<open>start\<close> succeeds, and
  from then on every worker, for any number \<open>k\<close> of rounds, processes all services of its table
  exactly once per round, in ascending order of their signed keys, and re-submits itself: after
  \<open>k\<close> rounds the effect is the \<open>k\<close>-fold iteration of one pass, the tables are unchanged and the
  worker's queue holds the next round's task.
\<close>

theorem EventLoop_start_rounds:
  assumes "el_ready self d" and "\<forall>i < unat (Executor_threadCount (el_exec d)). worker_queue (el_exec d) i = []"
    and "unat i < unat (Executor_threadCount (el_exec d))"
  shows "\<exists>st d'. EventLoop_start (Some d) = Inr (True, st)
     \<and> fold_out (\<lambda>_. EventLoop_work prog (unat i)) [0..<k] (st, s)
         = Inr (Some d', (serve_all prog (el_pdata d ! unat i) ^^ k) s)
     \<and> el_pdata d' = el_pdata d
     \<and> worker_queue (el_exec d') (unat i) = [process_task i]
     \<and> sorted (map fst (RBT.entries (el_pdata d ! unat i)))
     \<and> distinct (map fst (RBT.entries (el_pdata d ! unat i)))"
proof -
  obtain ex where ex: "EventLoop_start (Some d) = Inr (True, Some (d\<lparr>el_exec := ex\<rparr>))"
    "el_ready self (d\<lparr>el_exec := ex\<rparr>)" "Executor_threadCount ex = Executor_threadCount (el_exec d)"
    "worker_front ex = worker_front (el_exec d)" "worker_queue ex (unat i) = [process_task i]"
    using start_steps[OF assms(1) order_refl] assms(2,3) el_ready_usable[OF assms(1)]
    by (auto simp: EventLoop_start_def)
  have "armed self i (d\<lparr>el_exec := ex\<rparr>)"
    using ex assms(2,3) by (simp add: armed_def worker_front_empty)
  from armed_rounds[OF this, of prog k s] ex(1) show ?thesis
    by (auto simp: armed_def RBT.sorted_entries RBT.distinct_entries)
qed

theorem EventLoop_start_rounds_witness:
  "\<exists>st d'. EventLoop_start (Some demo_loop) = Inr (True, st)
     \<and> fold_out (\<lambda>_. EventLoop_work (demo_program (\<lambda>_. 7)) 2) [0..<4] (st, []) = Inr (Some d', [])
     \<and> worker_queue (el_exec d') 2 = [process_task 2]"
proof -
  have e: "(serve_all (demo_program (\<lambda>_. 7)) (el_pdata demo_loop ! 2) ^^ 4) [] = []"
    by code_simp
  have i: "unat (2 :: u32) < unat (Executor_threadCount (el_exec demo_loop))"
    by (simp add: demo_loop_ready(2))
  show ?thesis
    using EventLoop_start_rounds[OF demo_loop_ready(1,3) i, of "demo_program (\<lambda>_. 7)" 4 "[]"] e by auto
qed

text \<open>
  Destroying an event loop that was given a positive number of threads, or assigning
  to it, releases the executor's distributor twice: the destructor of its private data assigns
  over the live executor. An empty loop is destroyed cleanly.
\<close>

theorem EventLoop_dtor_double_release:
  "bind_out (EventLoop_ctor ids n) EventLoop_dtor = Inl Use_After_Free
   \<and> bind_out (EventLoop_ctor ids n) (\<lambda>el. EventLoop_move_assign el oth) = Inl Use_After_Free
   \<and> EventLoop_dtor EventLoop_ctor0 = Inr ()
   \<and> EventLoop_move_assign EventLoop_ctor0 oth = Inr (EventLoop_move_ctor oth)"
  by (simp add: EventLoop_ctor_def EventLoop_dtor_def EventLoop_move_assign_def EventLoop_ctor0_def
      EventLoop_move_ctor_def Executor_move_assign_def Executor_shutdown_all_def Executor_ctor0_def
      Executor_ctor_def)

end
