(* ===== verification/Shared_Mem.thy ===== *)
theory Shared_Mem
  imports Andren_Prelude
begin

text \<open>
  \<open>include/base/smem.hh\<close>: a typed POSIX shared memory mapping. The results of the system calls are
  arguments (\<open>shm_sys\<close>: what each call answers if it is made); a mapping is the address of the
  shared object, and a null \<open>m_pdata\<close> is \<open>None\<close>.
\<close>

type_synonym address = nat

record shm_sys =
  open_existing :: fd
  open_errno_ENOENT :: bool
  open_create :: fd
  ftruncate_result :: int
  mmap_result :: "address option"
  munmap_result :: int
  shm_unlink_result :: int

record SharedMem =
  m_pdata :: "address option"
  m_path :: string
  m_owner :: bool

definition SharedMem_ctor0 :: SharedMem where
  "SharedMem_ctor0 = \<lparr>m_pdata = None, m_path = [], m_owner = False\<rparr>"

definition SharedMem_map :: "shm_sys \<Rightarrow> string \<Rightarrow> bool \<Rightarrow> SharedMem" where
  "SharedMem_map sys path owner =
     (case mmap_result sys of
        None \<Rightarrow> SharedMem_ctor0
      | Some p \<Rightarrow> \<lparr>m_pdata = Some p, m_path = path, m_owner = owner\<rparr>)"

definition SharedMem_ctor :: "shm_sys \<Rightarrow> string \<Rightarrow> bool \<Rightarrow> SharedMem" where
  "SharedMem_ctor sys path owner =
     (let missing = open_existing sys = -1 \<and> open_errno_ENOENT sys in
      if owner
      then if missing \<and> open_create sys = -1 then SharedMem_ctor0
           else if ftruncate_result sys = -1 then SharedMem_ctor0
           else SharedMem_map sys path owner
      else if missing then SharedMem_ctor0 else SharedMem_map sys path owner)"

definition SharedMem_close :: "shm_sys \<Rightarrow> SharedMem \<Rightarrow> SharedMem" where
  "SharedMem_close sys m =
     (if m_pdata m = None then m
      else if munmap_result sys = -1 then m
      else if m_owner m \<and> shm_unlink_result sys = -1 then m
      else m\<lparr>m_pdata := None, m_owner := False\<rparr>)"

definition SharedMem_move_ctor :: "SharedMem \<Rightarrow> SharedMem \<times> SharedMem" where
  "SharedMem_move_ctor m = (m, m\<lparr>m_path := [], m_pdata := None, m_owner := False\<rparr>)"

definition SharedMem_move_assign :: "shm_sys \<Rightarrow> SharedMem \<Rightarrow> SharedMem \<Rightarrow> SharedMem \<times> SharedMem" where
  "SharedMem_move_assign sys this oth =
     ((SharedMem_close sys this)\<lparr>m_pdata := m_pdata oth, m_path := m_path oth, m_owner := m_owner oth\<rparr>,
      oth\<lparr>m_path := [], m_pdata := None, m_owner := False\<rparr>)"

definition SharedMem_valid :: "SharedMem \<Rightarrow> bool" where
  "SharedMem_valid m \<longleftrightarrow> m_pdata m \<noteq> None"

definition SharedMem_owner :: "SharedMem \<Rightarrow> bool" where
  "SharedMem_owner m = m_owner m"

lemmas SharedMem_defs =
  SharedMem_ctor0_def SharedMem_map_def SharedMem_ctor_def SharedMem_close_def
  SharedMem_move_ctor_def SharedMem_move_assign_def SharedMem_valid_def SharedMem_owner_def

lemma SharedMem_moved_from_invalid:
  "\<not> SharedMem_valid (snd (SharedMem_move_ctor m))" "\<not> SharedMem_valid (snd (SharedMem_move_assign sys this m))"
  by (simp_all add: SharedMem_defs)

lemma SharedMem_ctor_valid:
  "SharedMem_valid (SharedMem_ctor sys path owner) \<Longrightarrow>
     m_pdata (SharedMem_ctor sys path owner) = mmap_result sys \<and>
     m_path (SharedMem_ctor sys path owner) = path \<and> m_owner (SharedMem_ctor sys path owner) = owner"
  by (auto simp: SharedMem_defs Let_def split: if_splits option.splits)

end
