(* ===== verification/Freelock_Smem.thy ===== *)
theory Freelock_Smem
  imports Shared_Mem
begin

text \<open>
  \<open>source/extention/freelock_smem.cpp\<close>: a one-slot channel in shared memory for one writer and one
  reader, without a lock. The slot carries two 8-bit counters: \<open>current_uid\<close>, advanced by the
  writer, and \<open>already_uid\<close>, copied from it by the reader. Both ends see the region at the address
  their \<open>SharedMem\<close> maps; operations on a null mapping fault. The interleaving semantics below is
  sequentially consistent; the relaxed loads of \<open>readable\<close> are not weakened further.
\<close>

definition SHMEM_SIZE_DEFAULT :: nat where
  "SHMEM_SIZE_DEFAULT = 4096"

record ShDataPrivate_Real =
  current_uid :: i8
  already_uid :: i8
  sh_size :: u16
  sh_data :: bytes

definition reset_region :: "ShDataPrivate_Real \<Rightarrow> ShDataPrivate_Real" where
  "reset_region r = r\<lparr>already_uid := - 1, current_uid := - 1, sh_size := 0\<rparr>"

text \<open>The store of regions, and access through a mapping.\<close>

type_synonym shm_store = "address \<Rightarrow> ShDataPrivate_Real"

definition deref :: "SharedMem \<Rightarrow> address outcome" where
  "deref m = (case m_pdata m of None \<Rightarrow> Inl Null_Deref | Some p \<Rightarrow> Inr p)"

definition Writer_ctor :: "shm_sys \<Rightarrow> string \<Rightarrow> bool \<Rightarrow> shm_store \<Rightarrow> (SharedMem \<times> shm_store) outcome" where
  "Writer_ctor sys path owner st =
     (let m = SharedMem_ctor sys path owner in
      if owner then bind_out (deref m) (\<lambda>p. Inr (m, st(p := reset_region (st p)))) else Inr (m, st))"

definition Writer_dtor :: "SharedMem \<Rightarrow> shm_store \<Rightarrow> shm_store outcome" where
  "Writer_dtor m st = bind_out (deref m) (\<lambda>p. Inr (st(p := (st p)\<lparr>current_uid := - 1\<rparr>)))"

text \<open>The move constructor runs the destructor on the object under construction, whose mapping is still null.\<close>

definition Writer_move_ctor :: "shm_sys \<Rightarrow> SharedMem \<Rightarrow> shm_store \<Rightarrow> (SharedMem \<times> SharedMem \<times> shm_store) outcome" where
  "Writer_move_ctor sys oth st =
     bind_out (Writer_dtor SharedMem_ctor0 st) (\<lambda>st'.
       let (this, oth') = SharedMem_move_assign sys SharedMem_ctor0 oth in Inr (this, oth', st'))"

definition Writer_writable :: "ShDataPrivate_Real \<Rightarrow> bool" where
  "Writer_writable r \<longleftrightarrow> current_uid r = already_uid r"

definition write_copy :: "bytes \<Rightarrow> ShDataPrivate_Real \<Rightarrow> ShDataPrivate_Real" where
  "write_copy msg r =
     (let size = word_of_nat (min SHMEM_SIZE_DEFAULT (length msg)) :: u16
      in r\<lparr>sh_data := take (unat size) msg @ drop (unat size) (sh_data r), sh_size := size\<rparr>)"

definition write_publish :: "ShDataPrivate_Real \<Rightarrow> ShDataPrivate_Real" where
  "write_publish r = r\<lparr>current_uid := (if current_uid r = 127 then 1 else current_uid r + 1)\<rparr>"

definition Writer_write_some :: "bytes \<Rightarrow> ShDataPrivate_Real \<Rightarrow> int \<times> ShDataPrivate_Real" where
  "Writer_write_some msg r =
     (int (min SHMEM_SIZE_DEFAULT (length msg)), write_publish (write_copy msg r))"

definition Writer_readend_closed :: "ShDataPrivate_Real \<Rightarrow> bool" where
  "Writer_readend_closed r \<longleftrightarrow> already_uid r = - 1"

definition Reader_ctor :: "shm_sys \<Rightarrow> string \<Rightarrow> bool \<Rightarrow> shm_store \<Rightarrow> (SharedMem \<times> shm_store) outcome" where
  "Reader_ctor sys path owner st =
     (let m = SharedMem_ctor sys path owner in
      if owner then bind_out (deref m) (\<lambda>p. Inr (m, st(p := reset_region (st p)))) else Inr (m, st))"

definition Reader_dtor :: "SharedMem \<Rightarrow> shm_store \<Rightarrow> shm_store outcome" where
  "Reader_dtor m st = bind_out (deref m) (\<lambda>p. Inr (st(p := (st p)\<lparr>already_uid := - 1\<rparr>)))"

definition Reader_move_ctor :: "shm_sys \<Rightarrow> SharedMem \<Rightarrow> shm_store \<Rightarrow> (SharedMem \<times> SharedMem \<times> shm_store) outcome" where
  "Reader_move_ctor sys oth st =
     bind_out (Reader_dtor SharedMem_ctor0 st) (\<lambda>st'.
       let (this, oth') = SharedMem_move_assign sys SharedMem_ctor0 oth in Inr (this, oth', st'))"

definition Reader_readable :: "ShDataPrivate_Real \<Rightarrow> bool" where
  "Reader_readable r \<longleftrightarrow>
     sint (current_uid r) > sint (already_uid r) \<or> (already_uid r = 127 \<and> current_uid r = 1)"

definition read_copy :: "ShDataPrivate_Real \<Rightarrow> bytes" where
  "read_copy r = take (unat (sh_size r)) (sh_data r)"

definition read_ack :: "ShDataPrivate_Real \<Rightarrow> ShDataPrivate_Real" where
  "read_ack r = r\<lparr>already_uid := current_uid r\<rparr>"

definition Reader_read_some :: "ShDataPrivate_Real \<Rightarrow> int \<times> bytes \<times> ShDataPrivate_Real" where
  "Reader_read_some r = (int (length (read_copy r)), read_copy r, read_ack r)"

definition Reader_writend_closed :: "ShDataPrivate_Real \<Rightarrow> bool" where
  "Reader_writend_closed r \<longleftrightarrow> current_uid r = - 1"

lemmas freelock_defs [queue_defs] =
  reset_region_def Writer_writable_def write_copy_def write_publish_def Writer_write_some_def
  Writer_readend_closed_def Reader_readable_def read_copy_def read_ack_def Reader_read_some_def
  Reader_writend_closed_def

section \<open>The counters\<close>

text \<open>The successor of a counter, and the counters that occur: from \<open>-1\<close> to 127.\<close>

definition next_uid :: "i8 \<Rightarrow> i8" where
  "next_uid u = (if u = 127 then 1 else u + 1)"

definition uid_ok :: "i8 \<Rightarrow> bool" where
  "uid_ok u \<longleftrightarrow> - 1 \<le> sint u"

lemma sint_succ_u8: "sint (u + 1 :: i8) = (if u = 127 then - 128 else sint u + 1)"
proof -
  have r: "- 128 \<le> sint u" "sint u < 128" using sint_ge[of u] sint_lt[of u] by simp_all
  have e: "u = 127 \<longleftrightarrow> sint u = 127" using signed_word_eqI[of u 127] by auto
  have "sint (u + 1) = signed_take_bit 7 (sint u + 1)" using sint_word_add[of u 1] by simp
  then show ?thesis using r e by (auto simp: signed_take_bit_int_eq_self)
qed

lemma uid_ok_next: "uid_ok u \<Longrightarrow> uid_ok (next_uid u)"
  by (simp add: uid_ok_def next_uid_def sint_succ_u8)

lemma next_uid_neq: "next_uid u \<noteq> u"
  by (auto simp: next_uid_def)

text \<open>The test of \<open>readable\<close> decides exactly whether the counters differ by one step, wrap included.\<close>

lemma readable_iff_pending:
  assumes "uid_ok (already_uid r)" and "current_uid r = already_uid r \<or> current_uid r = next_uid (already_uid r)"
  shows "Reader_readable r \<longleftrightarrow> current_uid r \<noteq> already_uid r"
  using assms by (auto simp: Reader_readable_def next_uid_def sint_succ_u8 split: if_splits)

lemma write_publish_uid: "current_uid (write_publish r) = next_uid (current_uid r)"
  by (simp add: write_publish_def next_uid_def)

lemma read_copy_write_copy: "read_copy (write_copy msg r) = take SHMEM_SIZE_DEFAULT msg"
proof -
  have "unat (word_of_nat (min SHMEM_SIZE_DEFAULT (length msg)) :: u16) = min SHMEM_SIZE_DEFAULT (length msg)"
    by (simp add: SHMEM_SIZE_DEFAULT_def unat_of_nat take_bit_nat_eq_self)
  then show ?thesis by (simp add: read_copy_def write_copy_def Let_def min_def)
qed

section \<open>Writer and reader interleaved\<close>

text \<open>
  Each end tests before it acts. A write is the copy into the slot followed by the publication of
  the counter, a read is the copy out of the slot followed by the acknowledgement, and the other
  end may run between any two of these. The ghost sequences record what was published and what
  was acknowledged.
\<close>

datatype writer_pc = W_Idle | W_Ready | W_Copied bytes
datatype reader_pc = R_Idle | R_Ready | R_Copied bytes

record fl_sys =
  region :: ShDataPrivate_Real
  wpc :: writer_pc
  rpc :: reader_pc
  sent :: "bytes list"
  received :: "bytes list"

inductive fl_step :: "fl_sys \<Rightarrow> fl_sys \<Rightarrow> bool" where
  w_test: "wpc s = W_Idle \<Longrightarrow> Writer_writable (region s) \<Longrightarrow> fl_step s (s\<lparr>wpc := W_Ready\<rparr>)"
| w_copy: "wpc s = W_Ready \<Longrightarrow>
     fl_step s (s\<lparr>region := write_copy msg (region s), wpc := W_Copied (take SHMEM_SIZE_DEFAULT msg)\<rparr>)"
| w_publish: "wpc s = W_Copied m \<Longrightarrow>
     fl_step s (s\<lparr>region := write_publish (region s), wpc := W_Idle, sent := sent s @ [m]\<rparr>)"
| r_test: "rpc s = R_Idle \<Longrightarrow> Reader_readable (region s) \<Longrightarrow> fl_step s (s\<lparr>rpc := R_Ready\<rparr>)"
| r_copy: "rpc s = R_Ready \<Longrightarrow> fl_step s (s\<lparr>rpc := R_Copied (read_copy (region s))\<rparr>)"
| r_ack: "rpc s = R_Copied m \<Longrightarrow>
     fl_step s (s\<lparr>region := read_ack (region s), rpc := R_Idle, received := received s @ [m]\<rparr>)"

definition fl_init :: "ShDataPrivate_Real \<Rightarrow> fl_sys" where
  "fl_init r = \<lparr>region = reset_region r, wpc = W_Idle, rpc = R_Idle, sent = [], received = []\<rparr>"

inductive fl_reachable :: "fl_sys \<Rightarrow> bool" where
  fl_start: "fl_reachable (fl_init r)"
| fl_next: "fl_reachable s \<Longrightarrow> fl_step s t \<Longrightarrow> fl_reachable t"

definition fl_inv :: "fl_sys \<Rightarrow> bool" where
  "fl_inv s \<longleftrightarrow> uid_ok (already_uid (region s)) \<and>
     (if current_uid (region s) = already_uid (region s)
      then rpc s = R_Idle \<and> received s = sent s \<and> (\<forall>m. wpc s = W_Copied m \<longrightarrow> m = read_copy (region s))
      else current_uid (region s) = next_uid (already_uid (region s)) \<and> wpc s = W_Idle
           \<and> sent s = received s @ [read_copy (region s)]
           \<and> (\<forall>m. rpc s = R_Copied m \<longrightarrow> m = read_copy (region s)))"

lemma fl_inv_uids:
  "fl_inv s \<Longrightarrow> uid_ok (already_uid (region s)) \<and>
     (current_uid (region s) = already_uid (region s) \<or> current_uid (region s) = next_uid (already_uid (region s)))"
  by (auto simp: fl_inv_def split: if_splits)

lemma fl_step_inv: "fl_step s t \<Longrightarrow> fl_inv s \<Longrightarrow> fl_inv t"
proof (induction rule: fl_step.induct)
  case (w_test s)
  then show ?case by (simp add: fl_inv_def Writer_writable_def)
next
  case (w_copy s msg)
  have "current_uid (write_copy msg (region s)) = current_uid (region s)"
    "already_uid (write_copy msg (region s)) = already_uid (region s)"
    by (simp_all add: write_copy_def Let_def)
  with w_copy show ?case by (auto simp: fl_inv_def read_copy_write_copy split: if_splits)
next
  case (w_publish s m)
  have "read_copy (write_publish (region s)) = read_copy (region s)"
    "already_uid (write_publish (region s)) = already_uid (region s)"
    by (simp_all add: write_publish_def read_copy_def)
  with w_publish show ?case
    by (auto simp: fl_inv_def write_publish_uid next_uid_neq split: if_splits)
next
  case (r_test s)
  from r_test(3) r_test(2) show ?case
    using readable_iff_pending[of "region s"] fl_inv_uids[of s] by (auto simp: fl_inv_def split: if_splits)
next
  case (r_copy s)
  then show ?case by (auto simp: fl_inv_def split: if_splits)
next
  case (r_ack s m)
  then show ?case
    by (auto simp: fl_inv_def read_ack_def read_copy_def uid_ok_next split: if_splits)
qed

lemma fl_reachable_inv: "fl_reachable s \<Longrightarrow> fl_inv s"
proof (induction rule: fl_reachable.induct)
  case (fl_start r)
  show ?case by (simp add: fl_inv_def fl_init_def reset_region_def uid_ok_def)
next
  case (fl_next s t)
  then show ?case by (blast intro: fl_step_inv)
qed

lemma fl_demo:
  "\<exists>s. fl_reachable s \<and> sent s = [''hi''] \<and> received s = []"
proof -
  define z where "z = \<lparr>current_uid = 0, already_uid = 0, sh_size = 0, sh_data = replicate 4096 CHR ''x''\<rparr>"
  define s1 where "s1 = (fl_init z)\<lparr>wpc := W_Ready\<rparr>"
  define s2 where "s2 = s1\<lparr>region := write_copy ''hi'' (region s1), wpc := W_Copied (take SHMEM_SIZE_DEFAULT ''hi'')\<rparr>"
  define s3 where "s3 = s2\<lparr>region := write_publish (region s2), wpc := W_Idle,
                         sent := sent s2 @ [take SHMEM_SIZE_DEFAULT ''hi'']\<rparr>"
  have "fl_step (fl_init z) s1"
    unfolding s1_def by (rule w_test) (simp_all add: fl_init_def reset_region_def Writer_writable_def)
  moreover have "fl_step s1 s2" unfolding s2_def by (rule w_copy) (simp add: s1_def)
  moreover have "fl_step s2 s3" unfolding s3_def by (rule w_publish) (simp add: s2_def)
  ultimately have r: "fl_reachable s3" by (blast intro: fl_start fl_next)
  have "sent s3 = [''hi'']" "received s3 = []"
    by (simp_all add: s3_def s2_def s1_def fl_init_def SHMEM_SIZE_DEFAULT_def)
  with r show ?thesis by blast
qed

section \<open>Properties\<close>

text \<open>
  Property C7. Lock-free delivery. In every interleaving of the two ends, each testing before it
  acts, the reader receives exactly the published messages (cut to 4096 bytes), each once and
  in order, at most one behind the writer, through any number of wraps of the 8-bit counters;
  and the channel never blocks both ends: in each reachable state the writer may write or the
  reader may read, never both.
\<close>

theorem freelock_exactly_once:
  assumes "fl_reachable s"
  shows "(received s = sent s \<or> sent s = received s @ [read_copy (region s)])
     \<and> (Writer_writable (region s) \<longleftrightarrow> received s = sent s)
     \<and> (Reader_readable (region s) \<longleftrightarrow> \<not> Writer_writable (region s))"
  using fl_reachable_inv[OF assms] readable_iff_pending[of "region s"] fl_inv_uids[of s]
  by (auto simp: fl_inv_def Writer_writable_def split: if_splits)

theorem freelock_exactly_once_witness:
  "\<exists>s. fl_reachable s \<and> sent s = [''hi''] \<and> received s = [] \<and> \<not> Writer_writable (region s)
     \<and> read_copy (region s) = ''hi''"
proof -
  obtain s where s: "fl_reachable s" "sent s = [''hi'']" "received s = []" using fl_demo by blast
  with freelock_exactly_once[OF s(1)] show ?thesis by auto
qed

text \<open>
  A message written and not yet read is lost when the writer is destroyed: its
  destructor sets the counter to \<open>-1\<close>, after which \<open>readable\<close> answers no. The same \<open>-1\<close> is
  the initial value, so a fresh channel reports both ends closed before anyone has closed it.
\<close>

theorem freelock_writer_close_loses_message:
  assumes "fl_reachable s" and "Reader_readable (region s)" and "m_pdata m = Some p" and "st p = region s"
  shows "\<exists>st'. Writer_dtor m st = Inr st' \<and> \<not> Reader_readable (st' p) \<and> received s \<noteq> sent s
     \<and> Writer_readend_closed (reset_region r) \<and> Reader_writend_closed (reset_region r)"
proof -
  have u: "uid_ok (already_uid (region s))" using fl_inv_uids[OF fl_reachable_inv[OF assms(1)]] by simp
  have "received s \<noteq> sent s"
    using fl_reachable_inv[OF assms(1)] assms(2) readable_iff_pending[of "region s"] fl_inv_uids[of s]
    by (auto simp: fl_inv_def split: if_splits)
  moreover have "\<not> Reader_readable ((region s)\<lparr>current_uid := - 1\<rparr>)"
    using u by (simp add: Reader_readable_def uid_ok_def)
  ultimately show ?thesis
    using assms(3,4) by (simp add: Writer_dtor_def deref_def Writer_readend_closed_def
        Reader_writend_closed_def reset_region_def)
qed

theorem freelock_writer_close_loses_message_witness:
  "\<exists>(s :: fl_sys) st'. sent s = [''hi''] \<and> received s = [] \<and>
     Writer_dtor \<lparr>m_pdata = Some 0, m_path = ''/x'', m_owner = True\<rparr> (\<lambda>_. region s) = Inr st'
     \<and> \<not> Reader_readable (st' 0)"
proof -
  obtain s where s: "fl_reachable s" "sent s = [''hi'']" "received s = []" using fl_demo by blast
  have "Reader_readable (region s)"
    using fl_reachable_inv[OF s(1)] s(2,3) readable_iff_pending[of "region s"] fl_inv_uids[of s]
    by (auto simp: fl_inv_def split: if_splits)
  then have "\<exists>st'. Writer_dtor \<lparr>m_pdata = Some 0, m_path = ''/x'', m_owner = True\<rparr> (\<lambda>_. region s) = Inr st'
      \<and> \<not> Reader_readable (st' 0)"
    using freelock_writer_close_loses_message[OF s(1), of "\<lparr>m_pdata = Some 0, m_path = ''/x'', m_owner = True\<rparr>" 0
        "\<lambda>_. region s" "region s"] by auto
  with s(2,3) show ?thesis by blast
qed

text \<open>
  Moving an end of the channel always faults, whatever is moved: the move constructor
  first runs the destructor on the new object, whose mapping is still null. So does creating an
  owner whose mapping failed.
\<close>

theorem freelock_move_faults:
  "Writer_move_ctor sys w st = Inl Null_Deref \<and> Reader_move_ctor sys w st = Inl Null_Deref
   \<and> (mmap_result sys = None \<longrightarrow> Writer_ctor sys path True st = Inl Null_Deref)"
  by (auto simp: Writer_move_ctor_def Writer_dtor_def Reader_move_ctor_def Reader_dtor_def Writer_ctor_def
      deref_def SharedMem_defs Let_def)

theorem freelock_move_faults_witness:
  "Writer_ctor \<lparr>open_existing = 3, open_errno_ENOENT = False, open_create = 0, ftruncate_result = 0,
     mmap_result = None, munmap_result = 0, shm_unlink_result = 0\<rparr> ''/x'' True
     (\<lambda>_. \<lparr>current_uid = 0, already_uid = 0, sh_size = 0, sh_data = []\<rparr>) = Inl Null_Deref"
  using freelock_move_faults[of "\<lparr>open_existing = 3, open_errno_ENOENT = False, open_create = 0,
     ftruncate_result = 0, mmap_result = None, munmap_result = 0, shm_unlink_result = 0\<rparr>" _ _ "''/x''"]
  by simp

end
