(* ===== verification/IO_Worker.thy ===== *)
theory IO_Worker
  imports Task_Distributor
begin

text \<open>
  Worker 0 of a task distributor with the closures of a component as its tasks (\<open>task_distributor.cpp\<close>,
  \<open>startNextLoop\<close> and \<open>work\<close>): what the poller, asynchronous files and streams run on. A task acts on the
  component's state and on the distributor it was submitted to, so that it may submit again.
\<close>

section \<open>Rounds of the worker\<close>

text \<open>
  A round of \<open>work\<close> takes a batch from the queue and calls the tasks one by one, and \<open>startNextLoop\<close> repeats
  rounds until the exit flag is seen, here for a given number of rounds. A fault ends the thread, and \<open>None\<close>
  is a task that never returns.
\<close>

fun run_batch ::
  "('t \<Rightarrow> 's \<Rightarrow> 's outcome option) \<Rightarrow> 't option list \<Rightarrow> 's \<Rightarrow> 's outcome option" where
  "run_batch run [] st = Some (Inr st)"
| "run_batch run (None # ts) st = run_batch run ts st"
| "run_batch run (Some t # ts) st =
     (case run t st of Some (Inr st') \<Rightarrow> run_batch run ts st' | r \<Rightarrow> r)"

fun io_rounds ::
  "nat \<Rightarrow> ('t \<Rightarrow> 's \<times> 't TaskDistributor option \<Rightarrow> ('s \<times> 't TaskDistributor option) outcome option)
     \<Rightarrow> 's \<times> 't TaskDistributor option \<Rightarrow> ('s \<times> 't TaskDistributor option) outcome option" where
  "io_rounds 0 run st = Some (Inr st)"
| "io_rounds (Suc n) run (rp, None) = Some (Inr (rp, None))"
| "io_rounds (Suc n) run (rp, Some ev) =
     (if td_exit ev then Some (Inr (rp, Some ev))
      else case run_batch run (fst (work_take 0 ev)) (rp, Some (snd (work_take 0 ev))) of
             Some (Inr st') \<Rightarrow> io_rounds n run st'
           | r \<Rightarrow> r)"

text \<open>A distributor whose workers run and whose IO queue holds exactly the given tasks.\<close>

definition io_queue :: "'t TaskDistributor \<Rightarrow> 't list \<Rightarrow> bool" where
  "io_queue ev ts \<longleftrightarrow> TaskDistributor_inv ev \<and> td_tpool ev \<noteq> None \<and> \<not> td_exit ev
     \<and> MutexQue_contents (td_bqueForTask ev ! 0) = map Some ts"

lemma io_take:
  assumes "io_queue ev ts"
  obtains us vs ev' where "work_take 0 ev = (map Some us, ev')" and "ts = us @ vs" and "io_queue ev' vs"
    and "m_front (td_bqueForTask ev' ! 0) = []" and "m_front (td_bqueForTask ev ! 0) = [] \<Longrightarrow> vs = []"
    and "us = [] \<Longrightarrow> ts = []"
proof -
  let ?q = "td_bqueForTask ev ! 0"
  have inv: "TaskDistributor_inv ev" "0 < td_size ev" "0 < length (td_bqueForTask ev)"
    and c: "MutexQue_contents ?q = map Some ts"
    using assms by (simp_all add: io_queue_def TaskDistributor_inv_def)
  obtain b q where t: "MutexQue_takeMulti ?q [] = (b, q)" by fastforce
  have "map Some ts = b @ MutexQue_contents q" using MutexQue_takeMulti_contents[of ?q] t c by simp
  then obtain us vs where s: "ts = us @ vs" "b = map Some us" "MutexQue_contents q = map Some vs"
    by (auto simp: map_eq_append_conv)
  let ?ev = "ev\<lparr>td_bqueForTask := (td_bqueForTask ev)[0 := q]\<rparr>"
  have w: "work_take 0 ev = (map Some us, ?ev)" using t s(2) by (simp add: work_take_def)
  moreover have "io_queue ?ev vs"
    using work_take_inv[OF inv(1,2)] assms w s(3) inv(3) by (simp add: io_queue_def)
  moreover have "m_front q = []" "m_front ?q = [] \<Longrightarrow> vs = []"
    using t s(3) by (auto simp: queue_defs Let_def split: if_splits)
  moreover have "us = [] \<Longrightarrow> ts = []" using MutexQue_takeMulti_progress[of ?q] t s c by auto
  ultimately show thesis using that[OF w s(1)] inv(3) by simp
qed

lemma io_queue_take:
  assumes "io_queue ev [t]"
  shows "fst (work_take 0 ev) = [Some t]" and "io_queue (snd (work_take 0 ev)) []"
  by (rule io_take[OF assms]; auto simp: append_eq_Cons_conv Cons_eq_append_conv)+

lemma io_queue_add:
  assumes "io_queue ev ts"
  obtains ev' where "add_io t ev = (True, Some ev')" and "io_queue ev' (ts @ [t])"
proof -
  have a: "TaskDistributor_inv ev" "td_tpool ev \<noteq> None" using assms by (simp_all add: io_queue_def)
  obtain ev' where e: "add_io t ev = (True, Some ev')" "TaskDistributor_inv ev'" "td_tpool ev' \<noteq> None"
    "MutexQue_contents (td_bqueForTask ev' ! 0) = map Some ts @ [Some t]"
    by (rule add_io_queue[OF a, of t]) (use that assms in \<open>simp add: io_queue_def\<close>)
  have "td_exit ev' = td_exit ev"
    using e(1) addTask_accepts(1)[OF a, of t 0]
    by (auto simp: add_io_def TaskDistributor_addTask_type_def push_task_def split: prod.splits)
  then show thesis using that e assms by (simp add: io_queue_def)
qed

section \<open>The tasks that wait\<close>

text \<open>For a worker that calls one task at a time: the rest of its batch, then the queue.\<close>

definition tasks_wait :: "'t option list \<Rightarrow> 't TaskDistributor \<Rightarrow> 't list \<Rightarrow> bool" where
  "tasks_wait b ev q \<longleftrightarrow> (\<exists>us vs. b = map Some us \<and> io_queue ev vs \<and> q = us @ vs)"

lemma tasks_wait_list: "tasks_wait b ev q \<Longrightarrow> map the (b @ MutexQue_contents (td_bqueForTask ev ! 0)) = q"
  by (auto simp: tasks_wait_def io_queue_def)

lemma tasks_wait_add:
  assumes "tasks_wait b ev q"
  obtains ev' where "add_io t ev = (True, Some ev')" and "tasks_wait b ev' (q @ [t])"
proof -
  obtain us vs where u: "b = map Some us" "io_queue ev vs" "q = us @ vs" using assms by (auto simp: tasks_wait_def)
  obtain ev' where "add_io t ev = (True, Some ev')" "io_queue ev' (vs @ [t])" by (rule io_queue_add[OF u(2)])
  then show thesis using that[of ev'] u by (auto simp: tasks_wait_def)
qed

lemma tasks_wait_fetch:
  assumes "tasks_wait [] ev q" and "work_take 0 ev = (b, ev')"
  shows "tasks_wait b ev' q" and "q \<noteq> [] \<Longrightarrow> b \<noteq> []"
proof -
  have q: "io_queue ev q" using assms(1) by (auto simp: tasks_wait_def)
  show "tasks_wait b ev' q" "q \<noteq> [] \<Longrightarrow> b \<noteq> []" by (rule io_take[OF q]; use assms(2) in \<open>auto simp: tasks_wait_def\<close>)+
qed

lemma tasks_wait_call:
  assumes "tasks_wait (Some t # ts) ev q"
  obtains q' where "q = t # q'" and "tasks_wait ts ev q'"
  using assms by (auto simp: tasks_wait_def Cons_eq_map_conv)

lemma tasks_wait_runs: "tasks_wait b ev q \<Longrightarrow> \<not> td_exit ev"
  by (auto simp: tasks_wait_def io_queue_def)

lemma tasks_wait_batch: "tasks_wait (x # ts) ev q \<Longrightarrow> \<exists>t. x = Some t"
  by (auto simp: tasks_wait_def Cons_eq_map_conv)

section \<open>Draining\<close>

text \<open>Tasks that act on the component alone and leave the distributor as it is.\<close>

definition on_worker :: "('t \<Rightarrow> 's \<Rightarrow> 's outcome option) \<Rightarrow> 't \<Rightarrow> 's \<times> 'd \<Rightarrow> ('s \<times> 'd) outcome option" where
  "on_worker step t st = map_option (\<lambda>r. bind_out r (\<lambda>s. Inr (s, snd st))) (step t (fst st))"

lemma run_batch_append:
  "run_batch run (as @ bs) st = (case run_batch run as st of Some (Inr st') \<Rightarrow> run_batch run bs st' | r \<Rightarrow> r)"
proof (induction as arbitrary: st)
  case (Cons a as)
  then show ?case by (cases a) (auto split: option.splits sum.splits)
qed simp

lemma run_batch_on_worker:
  "run_batch (on_worker step) bs (s, w) = map_option (\<lambda>r. bind_out r (\<lambda>s. Inr (s, w))) (run_batch step bs s)"
proof (induction bs arbitrary: s)
  case (Cons b bs)
  then show ?case by (cases b) (auto simp: on_worker_def split: option.splits sum.splits)
qed simp

lemma run_batch_split:
  assumes "run_batch run (as @ bs) st = Some (Inr st'')"
  obtains st' where "run_batch run as st = Some (Inr st')" and "run_batch run bs st' = Some (Inr st'')"
  using assms by (auto simp: run_batch_append split: option.splits sum.splits)

lemma io_rounds_idle:
  "io_queue ev [] \<Longrightarrow> \<exists>ev'. io_rounds n (on_worker step) (s, Some ev) = Some (Inr (s, Some ev')) \<and> io_queue ev' []"
proof (induction n arbitrary: ev)
  case (Suc n)
  obtain ev' where "work_take 0 ev = ([], ev')" "io_queue ev' []" by (rule io_take[OF Suc.prems]) auto
  then show ?case using Suc.IH[of ev'] Suc.prems by (simp add: io_queue_def)
qed auto

text \<open>Two rounds call everything that is queued, once and in order, and later rounds find nothing to do.\<close>

lemma io_rounds_drain:
  assumes "io_queue ev ts" and "run_batch step (map Some ts) s = Some (Inr s')"
  shows "\<exists>ev'. io_rounds (2 + n) (on_worker step) (s, Some ev) = Some (Inr (s', Some ev')) \<and> io_queue ev' []"
proof -
  obtain us vs ev1 where 1: "work_take 0 ev = (map Some us, ev1)" "ts = us @ vs" "io_queue ev1 vs"
    "m_front (td_bqueForTask ev1 ! 0) = []"
    by (rule io_take[OF assms(1)])
  obtain ev2 where 2: "work_take 0 ev1 = (map Some vs, ev2)" "io_queue ev2 []"
    by (rule io_take[OF 1(3)]) (use 1(4) in auto)
  obtain s1 where s1: "run_batch step (map Some us) s = Some (Inr s1)" "run_batch step (map Some vs) s1 = Some (Inr s')"
    using assms(2) 1(2) by (auto elim: run_batch_split)
  have "\<not> td_exit ev" "\<not> td_exit ev1" using assms(1) 1(3) by (simp_all add: io_queue_def)
  then have "io_rounds (2 + n) (on_worker step) (s, Some ev) = io_rounds n (on_worker step) (s', Some ev2)"
    using 1(1) 2(1) s1 by (simp add: run_batch_on_worker)
  then show ?thesis using io_rounds_idle[OF 2(2), of n step s'] by simp
qed

end
