(* ===== verification/Unique_Owner.thy ===== *)
theory Unique_Owner
  imports Andren_Prelude "HOL-Library.Multiset"
begin

text \<open>
  The interface of the classes that own one resource of the system or of a library: descriptors,
  TLS handles, database connections, results, coroutine frames. What an object refers to is read from its member; what the
  destructor and the move assignment release is what they hand to \<open>close\<close>, \<open>SSL_free\<close> and their like. The resources that are open are kept
  beside the objects, as the kernel or the library keeps them. Over any sequence of operations on any number of
  objects nothing is released that is not open, and the open resources are exactly those the objects refer to, one object each.
\<close>

section \<open>Objects and open resources\<close>

text \<open>What a member that may be null, or a descriptor that may be invalid, refers to.\<close>

fun pointee :: "'h option \<Rightarrow> 'h list" where
  "pointee None = []"
| "pointee (Some h) = [h]"

definition descriptor :: "int \<Rightarrow> int list" where
  "descriptor f = (if 0 < f then [f] else [])"

text \<open>The constructor of a class takes a resource the system has just opened.\<close>

datatype 'h own_op = Acquire 'h | Move_Construct nat | Move_Assign nat nat | Destroy nat

fun op_within :: "('h \<Rightarrow> bool) \<Rightarrow> 'o list \<times> 'h list \<Rightarrow> 'h own_op \<Rightarrow> bool" where
  "op_within good st (Acquire h) \<longleftrightarrow> good h \<and> h \<notin> set (snd st)"
| "op_within good st (Move_Construct i) \<longleftrightarrow> i < length (fst st)"
| "op_within good st (Move_Assign i j) \<longleftrightarrow> i < length (fst st) \<and> j < length (fst st)"
| "op_within good st (Destroy i) \<longleftrightarrow> i < length (fst st)"

text \<open>Releasing: each resource must be open, \<open>None\<close> is a release of one that is not.\<close>

fun give_back :: "'h list \<Rightarrow> 'h list \<Rightarrow> 'h list option" where
  "give_back [] opened = Some opened"
| "give_back (h # hs) opened = (if h \<in> set opened then give_back hs (remove1 h opened) else None)"

text \<open>One operation on the objects \<open>ps\<close>; a destroyed object leaves the place.\<close>

fun own_step ::
  "('h \<Rightarrow> 'o) \<Rightarrow> ('o \<Rightarrow> 'h list) \<Rightarrow> ('o \<Rightarrow> 'o \<times> 'o) \<Rightarrow> ('o \<Rightarrow> 'o \<Rightarrow> 'h list \<times> 'o \<times> 'o)
     \<Rightarrow> 'h own_op \<Rightarrow> 'o list \<times> 'h list \<Rightarrow> ('o list \<times> 'h list) option" where
  "own_step make release mv asg (Acquire h) (ps, opened) = Some (ps @ [make h], opened @ [h])"
| "own_step make release mv asg (Move_Construct i) (ps, opened) =
     (let (b, a') = mv (ps ! i) in Some (ps[i := a'] @ [b], opened))"
| "own_step make release mv asg (Move_Assign i j) (ps, opened) =
     (let (cl, s', a') = asg (ps ! i) (ps ! j)
      in map_option (\<lambda>opened'. (ps[i := s', j := a'], opened')) (give_back cl opened))"
| "own_step make release mv asg (Destroy i) (ps, opened) =
     map_option (\<lambda>opened'. (take i ps @ drop (Suc i) ps, opened')) (give_back (release (ps ! i)) opened)"

fun own_run ::
  "('h \<Rightarrow> bool) \<Rightarrow> ('h \<Rightarrow> 'o) \<Rightarrow> ('o \<Rightarrow> 'h list) \<Rightarrow> ('o \<Rightarrow> 'o \<times> 'o) \<Rightarrow> ('o \<Rightarrow> 'o \<Rightarrow> 'h list \<times> 'o \<times> 'o)
     \<Rightarrow> 'h own_op list \<Rightarrow> 'o list \<times> 'h list \<Rightarrow> ('o list \<times> 'h list) option" where
  "own_run good make release mv asg [] st = Some st"
| "own_run good make release mv asg (c # cs) st =
     (if op_within good st c
      then Option.bind (own_step make release mv asg c st) (own_run good make release mv asg cs)
      else own_run good make release mv asg cs st)"

text \<open>
  The promise of a class: starting with no objects, no run ever releases what is not open, and afterwards the resources the objects refer to are
  exactly the open ones, each once. So nothing is released twice, nothing is shared and nothing is lost; when all objects are
  destroyed nothing is open.
\<close>

definition owns_exactly ::
  "('o \<Rightarrow> 'h list) \<Rightarrow> ('h \<Rightarrow> bool) \<Rightarrow> ('h \<Rightarrow> 'o) \<Rightarrow> ('o \<Rightarrow> 'h list) \<Rightarrow> ('o \<Rightarrow> 'o \<times> 'o)
     \<Rightarrow> ('o \<Rightarrow> 'o \<Rightarrow> 'h list \<times> 'o \<times> 'o) \<Rightarrow> bool" where
  "owns_exactly refers good make release mv asg \<longleftrightarrow>
     (\<forall>cs. \<exists>ps opened. own_run good make release mv asg cs ([], []) = Some (ps, opened)
        \<and> distinct opened \<and> mset (concat (map refers ps)) = mset opened)"

section \<open>The interface\<close>

locale unique_owner =
  fixes refers :: "'o \<Rightarrow> 'h list"
    and good :: "'h \<Rightarrow> bool"
    and make :: "'h \<Rightarrow> 'o"
    and release :: "'o \<Rightarrow> 'h list"
    and move_ctor :: "'o \<Rightarrow> 'o \<times> 'o"
    and move_assign :: "'o \<Rightarrow> 'o \<Rightarrow> 'h list \<times> 'o \<times> 'o"
  assumes refers_make: "good h \<Longrightarrow> refers (make h) = [h]"
    and release_refers: "release a = refers a"
    and refers_move: "move_ctor a = (b, a') \<Longrightarrow> refers b = refers a \<and> refers a' = []"
    and refers_assign: "move_assign s a = (cl, s', a') \<Longrightarrow> cl = refers s \<and> refers s' = refers a \<and> refers a' = []"

lemma give_back_all:
  "mset hs + M = mset opened \<Longrightarrow> distinct opened \<Longrightarrow>
     \<exists>opened'. give_back hs opened = Some opened' \<and> mset opened' = M \<and> distinct opened'"
proof (induction hs arbitrary: opened)
  case (Cons h hs)
  have "h \<in># mset opened" using Cons.prems(1)[symmetric] by simp
  then have "h \<in> set opened" by simp
  moreover have "mset hs + M = mset (remove1 h opened)" using Cons.prems(1)[symmetric] by simp
  ultimately show ?case using Cons.IH[of "remove1 h opened"] Cons.prems(2) by simp
qed simp

definition accounts :: "('o \<Rightarrow> 'h list) \<Rightarrow> 'o list \<times> 'h list \<Rightarrow> bool" where
  "accounts refers st \<longleftrightarrow> distinct (snd st) \<and> mset (concat (map refers (fst st))) = mset (snd st)"

lemma mset_concat_update:
  "i < length ps \<Longrightarrow> mset (concat (map f (ps[i := x]))) + mset (f (ps ! i)) = mset (concat (map f ps)) + mset (f x)"
proof (induction ps arbitrary: i)
  case (Cons p ps)
  then show ?case by (cases i) (auto simp: ac_simps)
qed simp

lemma mset_concat_removed:
  assumes "i < length ps"
  shows "mset (f (ps ! i)) + mset (concat (map f (take i ps @ drop (Suc i) ps))) = mset (concat (map f ps))"
proof -
  have "mset (concat (map f ps)) = mset (concat (map f (take i ps @ ps ! i # drop (Suc i) ps)))" using id_take_nth_drop[OF assms] by simp
  then show ?thesis by (simp add: ac_simps)
qed

context unique_owner
begin

lemma step_accounts:
  assumes a: "accounts refers st" and c: "op_within good st c"
  shows "\<exists>st'. own_step make release move_ctor move_assign c st = Some st' \<and> accounts refers st'"
proof -
  obtain ps opened where st: "st = (ps, opened)" by (cases st)
  have d: "distinct opened" "mset (concat (map refers ps)) = mset opened" using a by (simp_all add: st accounts_def)
  show ?thesis
  proof (cases c)
    case (Acquire h)
    then show ?thesis using c d refers_make[of h] by (auto simp: st accounts_def)
  next
    case (Move_Construct i)
    obtain b a' where m: "move_ctor (ps ! i) = (b, a')" by (cases "move_ctor (ps ! i)")
    show ?thesis
      using mset_concat_update[of i ps refers a'] refers_move[OF m] c m d by (simp add: st Move_Construct accounts_def)
  next
    case (Move_Assign i j)
    obtain cl s' a' where m: "move_assign (ps ! i) (ps ! j) = (cl, s', a')" by (cases "move_assign (ps ! i) (ps ! j)") auto
    note r = refers_assign[OF m]
    have i: "i < length ps" "j < length ps" using c by (simp_all add: st Move_Assign)
    let ?M = "mset (concat (map refers (ps[i := s', j := a'])))"
    have "?M + mset (refers (ps[i := s'] ! j)) = mset (concat (map refers (ps[i := s'])))"
      using mset_concat_update[of j "ps[i := s']" refers a'] i r by simp
    moreover have "mset (concat (map refers (ps[i := s']))) + mset (refers (ps ! i)) = mset opened + mset (refers (ps ! j))"
      using mset_concat_update[OF i(1), of refers s'] r d(2) by simp
    moreover have "refers (ps[i := s'] ! j) = refers (ps ! j)" using i r by (cases "i = j") simp_all
    ultimately have "(mset cl + ?M) + mset (refers (ps ! j)) = mset opened + mset (refers (ps ! j))" using r by (simp add: ac_simps)
    then have "mset cl + ?M = mset opened" unfolding add_right_cancel .
    then obtain opened' where "give_back cl opened = Some opened'" "mset opened' = ?M" "distinct opened'" using give_back_all d(1) by blast
    then show ?thesis using m by (simp add: st Move_Assign accounts_def)
  next
    case (Destroy i)
    have "i < length ps" using c by (simp add: st Destroy)
    from mset_concat_removed[OF this, of refers]
    have "mset (release (ps ! i)) + mset (concat (map refers (take i ps @ drop (Suc i) ps))) = mset opened" using d(2) by (simp only: release_refers)
    then obtain opened' where "give_back (release (ps ! i)) opened = Some opened'"
      "mset opened' = mset (concat (map refers (take i ps @ drop (Suc i) ps)))" "distinct opened'" using give_back_all d(1) by blast
    then show ?thesis by (simp add: st Destroy accounts_def)
  qed
qed

lemma run_accounts:
  "accounts refers st \<Longrightarrow> \<exists>st'. own_run good make release move_ctor move_assign cs st = Some st' \<and> accounts refers st'"
proof (induction cs arbitrary: st)
  case (Cons c cs)
  then show ?case using step_accounts[OF Cons.prems, of c] by (auto simp del: op_within.simps)
qed simp

lemma owner_owns: "owns_exactly refers good make release move_ctor move_assign"
  unfolding owns_exactly_def using run_accounts[of "([], [])"] by (auto simp: accounts_def)

end

end
