(* ===== verification/Re_Poller.thy ===== *)
theory Re_Poller
  imports IO_Worker Unique_Owner "HOL-Library.RBT"
begin

text \<open>
  \<open>source/base/epoll.cpp\<close> and \<open>source/extention/repoller.cpp\<close>: the poller that turns epoll events and
  events posted by hand into callbacks, tick by tick, on the IO worker of a task distributor.
  The tables are \<open>std::map<int, ...>\<close>, red-black trees. The kernel side of epoll is the record of
  functions \<open>epoll_os\<close> over a kernel state \<open>'k\<close>. A callback \<open>'c\<close> acts on the whole state of the
  poller and, through the record's extension, on the rest of the program, so callbacks may
  register, post and cancel. Closures handed to the distributor are the values of \<open>rp_task\<close>.
\<close>

section \<open>Epoll\<close>

datatype EpollCTRL = ADD | DEL | MOD

record Epoll =
  m_efd :: fd

definition Epoll_ctor :: "fd \<Rightarrow> Epoll" where
  "Epoll_ctor efd = \<lparr>m_efd = (if efd > 0 then efd else 0)\<rparr>"

definition Epoll_move_ctor :: "Epoll \<Rightarrow> Epoll \<times> Epoll" where
  "Epoll_move_ctor e = (e, e\<lparr>m_efd := 0\<rparr>)"

text \<open>The descriptors closed by the destructor and by move assignment.\<close>

definition Epoll_dtor :: "Epoll \<Rightarrow> fd list" where
  "Epoll_dtor e = (if m_efd e > 0 then [m_efd e] else [])"

definition Epoll_move_assign :: "Epoll \<Rightarrow> Epoll \<Rightarrow> fd list \<times> Epoll \<times> Epoll" where
  "Epoll_move_assign this e = (Epoll_dtor this, e, e\<lparr>m_efd := 0\<rparr>)"

interpretation epoll_owner: unique_owner "\<lambda>e. descriptor (m_efd e)" "\<lambda>f. 0 < f" Epoll_ctor Epoll_dtor Epoll_move_ctor Epoll_move_assign
  by unfold_locales (auto simp: descriptor_def Epoll_dtor_def Epoll_move_ctor_def Epoll_move_assign_def Epoll_ctor_def)

definition Epoll_valid :: "Epoll \<Rightarrow> bool" where
  "Epoll_valid e \<longleftrightarrow> m_efd e > 0"

type_synonym epoll_event = "fd \<times> u32"

definition EventContain_reference_ptr :: "'e list \<Rightarrow> nat \<Rightarrow> 'e option" where
  "EventContain_reference_ptr events pos = (if pos \<ge> length events then None else Some (events ! pos))"

text \<open>
  \<open>epoll_wait\<close> fails, with \<open>errno\<close> equal to \<open>EINTR\<close> or not, or writes ready events to the front of the
  buffer. \<open>epoll_ctl\<close> answers 0 for success.
\<close>

datatype wait_result = Wait_Failed bool | Wait_Ready "epoll_event list"

record 'k epoll_os =
  epoll_ctl :: "fd \<Rightarrow> EpollCTRL \<Rightarrow> fd \<Rightarrow> epoll_event \<Rightarrow> 'k \<Rightarrow> int \<times> 'k"
  epoll_wait :: "fd \<Rightarrow> nat \<Rightarrow> int \<Rightarrow> 'k \<Rightarrow> wait_result \<times> 'k"

definition Epoll_control ::
  "'k epoll_os \<Rightarrow> Epoll \<Rightarrow> EpollCTRL \<Rightarrow> fd \<Rightarrow> epoll_event \<Rightarrow> 'k \<Rightarrow> int \<times> 'k" where
  "Epoll_control os e op f ev = epoll_ctl os (m_efd e) op f ev"

definition Epoll_wait :: "'k epoll_os \<Rightarrow> Epoll \<Rightarrow> nat \<Rightarrow> int \<Rightarrow> 'k \<Rightarrow> wait_result \<times> 'k" where
  "Epoll_wait os e n timeoutMsec = epoll_wait os (m_efd e) n timeoutMsec"

section \<open>RePoller\<close>

datatype ('o, 'b) rp_task =
    Tick int
  | Save_Object int bool 'o 'b
  | Find_Object int bool "'b option"

record ('c, 'o, 'k) RePoller =
  rp_shutdown :: bool
  rp_objects :: "(int, 'o) rbt"
  rp_callbacks :: "(int, 'c) rbt"
  rp_customEvents :: "(int, u32) rbt"
  rp_ep :: Epoll
  rp_kernel :: 'k

definition RePoller_ctor :: "fd \<Rightarrow> 'k \<Rightarrow> ('c, 'o, 'k) RePoller" where
  "RePoller_ctor efd k =
     \<lparr>rp_shutdown = False, rp_objects = RBT.empty, rp_callbacks = RBT.empty,
      rp_customEvents = RBT.empty, rp_ep = Epoll_ctor efd, rp_kernel = k\<rparr>"

definition control_fd ::
  "'k epoll_os \<Rightarrow> EpollCTRL \<Rightarrow> fd \<Rightarrow> u32 \<Rightarrow> ('c, 'o, 'k, 'w) RePoller_scheme
     \<Rightarrow> bool \<times> ('c, 'o, 'k, 'w) RePoller_scheme" where
  "control_fd os op f events rp =
     (let (r, k) = Epoll_control os (rp_ep rp) op f (f, events) (rp_kernel rp)
      in (r = 0, rp\<lparr>rp_kernel := k\<rparr>))"

definition RePoller_append ::
  "'k epoll_os \<Rightarrow> fd \<Rightarrow> u32 \<Rightarrow> ('c, 'o, 'k, 'w) RePoller_scheme \<Rightarrow> bool \<times> ('c, 'o, 'k, 'w) RePoller_scheme" where
  "RePoller_append os f events rp = control_fd os ADD f events rp"

definition RePoller_modify ::
  "'k epoll_os \<Rightarrow> fd \<Rightarrow> u32 \<Rightarrow> ('c, 'o, 'k, 'w) RePoller_scheme \<Rightarrow> bool \<times> ('c, 'o, 'k, 'w) RePoller_scheme" where
  "RePoller_modify os f events rp = control_fd os MOD f events rp"

definition RePoller_cancle ::
  "'k epoll_os \<Rightarrow> fd \<Rightarrow> ('c, 'o, 'k, 'w) RePoller_scheme \<Rightarrow> bool \<times> ('c, 'o, 'k, 'w) RePoller_scheme" where
  "RePoller_cancle os f rp =
     control_fd os DEL f 0 (rp\<lparr>rp_callbacks := RBT.delete f (rp_callbacks rp)\<rparr>)"

definition RePoller_notifyEvents ::
  "fd \<Rightarrow> u32 \<Rightarrow> ('c, 'o, 'k, 'w) RePoller_scheme \<Rightarrow> bool \<times> ('c, 'o, 'k, 'w) RePoller_scheme" where
  "RePoller_notifyEvents f events rp =
     (if f = 0 \<or> f = -1 then (False, rp)
      else if RBT.lookup (rp_callbacks rp) f \<noteq> None
      then (True, rp\<lparr>rp_customEvents := RBT.insert f events (rp_customEvents rp)\<rparr>)
      else (False, rp))"

definition RePoller_setReadyCallback ::
  "fd \<Rightarrow> 'c option \<Rightarrow> ('c, 'o, 'k, 'w) RePoller_scheme \<Rightarrow> bool \<times> ('c, 'o, 'k, 'w) RePoller_scheme" where
  "RePoller_setReadyCallback f onEventUP rp =
     (case onEventUP of
        None \<Rightarrow> (False, rp)
      | Some cb \<Rightarrow>
          if f = 0 \<or> f = -1 then (False, rp)
          else (True, rp\<lparr>rp_callbacks := RBT.insert f cb (rp_callbacks rp)\<rparr>))"

definition RePoller_stop :: "('c, 'o, 'k, 'w) RePoller_scheme \<Rightarrow> ('c, 'o, 'k, 'w) RePoller_scheme" where
  "RePoller_stop rp = rp\<lparr>rp_shutdown := True\<rparr>"

text \<open>The distributor reached through the weak pointer; \<open>None\<close> when it is gone.\<close>

type_synonym ('o, 'b) rp_dist = "('o, 'b) rp_task TaskDistributor option"

definition RePoller_workNextTick :: "int \<Rightarrow> ('o, 'b) rp_dist \<Rightarrow> ('o, 'b) rp_dist outcome" where
  "RePoller_workNextTick timeoutMsec wev =
     (case wev of None \<Rightarrow> Inl Null_Deref | Some ev \<Rightarrow> Inr (snd (add_io (Tick timeoutMsec) ev)))"

definition RePoller_start ::
  "int \<Rightarrow> ('c, 'o, 'k, 'w) RePoller_scheme \<Rightarrow> ('o, 'b) rp_dist
     \<Rightarrow> (bool \<times> ('c, 'o, 'k, 'w) RePoller_scheme \<times> ('o, 'b) rp_dist) outcome" where
  "RePoller_start timeoutMsec rp wev =
     (case wev of
        None \<Rightarrow> Inr (False, rp, wev)
      | Some _ \<Rightarrow> bind_out (RePoller_workNextTick timeoutMsec wev) (\<lambda>wev'.
                    Inr (True, rp\<lparr>rp_shutdown := False\<rparr>, wev')))"

text \<open>The merge of the events \<open>epoll_wait\<close> reported into the events posted by hand.\<close>

definition merge_event :: "epoll_event \<Rightarrow> (int, u32) rbt \<Rightarrow> (int, u32) rbt" where
  "merge_event pe evs =
     (case RBT.lookup evs (fst pe) of
        Some events \<Rightarrow> RBT.insert (fst pe) (or events (snd pe)) evs
      | None \<Rightarrow> RBT.insert (fst pe) (snd pe) evs)"

text \<open>The loop over the events: each is looked up among the callbacks as they are at that moment.\<close>

fun dispatch_events ::
  "('c \<Rightarrow> u32 \<Rightarrow> ('c, 'o, 'k, 'w) RePoller_scheme \<Rightarrow> ('c, 'o, 'k, 'w) RePoller_scheme)
     \<Rightarrow> (int \<times> u32) list \<Rightarrow> ('c, 'o, 'k, 'w) RePoller_scheme \<Rightarrow> ('c, 'o, 'k, 'w) RePoller_scheme" where
  "dispatch_events call [] rp = rp"
| "dispatch_events call ((f, events) # evs) rp =
     dispatch_events call evs
       (case RBT.lookup (rp_callbacks rp) f of Some cb \<Rightarrow> call cb events rp | None \<Rightarrow> rp)"

text \<open>
  The loop over the callbacks walks the live tree: the iterator stands on \<open>f\<close>, and moves to the
  least larger key after the call. A callback that erases its own entry leaves the iterator
  dangling. Callbacks that keep inserting larger keys could make the loop run forever, so it is
  partial: \<open>None\<close> is a loop that does not end.
\<close>

definition next_key :: "(int, 'a) rbt \<Rightarrow> int \<Rightarrow> int option" where
  "next_key t f = find (\<lambda>k. f < k) (RBT.keys t)"

definition first_key :: "(int, 'a) rbt \<Rightarrow> int option" where
  "first_key t = (case RBT.keys t of [] \<Rightarrow> None | k # _ \<Rightarrow> Some k)"

partial_function (option) dispatch_callbacks ::
  "('c \<Rightarrow> u32 \<Rightarrow> ('c, 'o, 'k, 'w) RePoller_scheme \<Rightarrow> ('c, 'o, 'k, 'w) RePoller_scheme)
     \<Rightarrow> (int, u32) rbt \<Rightarrow> int option \<Rightarrow> ('c, 'o, 'k, 'w) RePoller_scheme
     \<Rightarrow> ('c, 'o, 'k, 'w) RePoller_scheme outcome option" where
  "dispatch_callbacks call evs it rp =
     (case it of
        None \<Rightarrow> Some (Inr rp)
      | Some f \<Rightarrow>
          (case RBT.lookup (rp_callbacks rp) f of
             None \<Rightarrow> Some (Inl Bad_Iterator)
           | Some cb \<Rightarrow>
               let rp' = (case RBT.lookup evs f of Some events \<Rightarrow> call cb events rp | None \<Rightarrow> rp)
               in if RBT.lookup (rp_callbacks rp') f = None then Some (Inl Bad_Iterator)
                  else dispatch_callbacks call evs (next_key (rp_callbacks rp') f) rp'))"

definition RePoller_work ::
  "'k epoll_os \<Rightarrow> ('c \<Rightarrow> u32 \<Rightarrow> ('c, 'o, 'k, 'w) RePoller_scheme \<Rightarrow> ('c, 'o, 'k, 'w) RePoller_scheme)
     \<Rightarrow> int \<Rightarrow> ('c, 'o, 'k, 'w) RePoller_scheme \<Rightarrow> ('c, 'o, 'k, 'w) RePoller_scheme outcome option" where
  "RePoller_work os call timeoutMsec rp =
     (let currentEventsMap = rp_customEvents rp;
          numEvMap = length (RBT.keys currentEventsMap);
          numCbMap = length (RBT.keys (rp_callbacks rp));
          (r, k) = Epoll_wait os (rp_ep rp) 300 (if numEvMap > 0 then 1 else timeoutMsec) (rp_kernel rp);
          rp1 = rp\<lparr>rp_customEvents := RBT.empty, rp_kernel := k\<rparr>
      in case r of
           Wait_Failed False \<Rightarrow> Some (Inr (rp1\<lparr>rp_shutdown := True\<rparr>))
         | _ \<Rightarrow>
             (let ready = (case r of Wait_Ready es \<Rightarrow> es | Wait_Failed _ \<Rightarrow> [])
              in if length ready > 300 then Some (Inl Null_Deref)
                 else let evs = fold merge_event ready currentEventsMap
                      in if numEvMap < numCbMap
                         then Some (Inr (dispatch_events call (RBT.entries evs) rp1))
                         else dispatch_callbacks call evs (first_key (rp_callbacks rp1)) rp1))"

definition RePoller_saveObject ::
  "int \<Rightarrow> bool \<Rightarrow> 'o \<Rightarrow> 'b option \<Rightarrow> ('o, 'b) rp_dist \<Rightarrow> bool \<times> ('o, 'b) rp_dist" where
  "RePoller_saveObject oid force object onSave wev =
     (case (onSave, wev) of
        (Some cb, Some ev) \<Rightarrow> add_io (Save_Object oid force object cb) ev
      | _ \<Rightarrow> (False, wev))"

definition RePoller_findObject ::
  "int \<Rightarrow> bool \<Rightarrow> 'b option \<Rightarrow> ('o, 'b) rp_dist \<Rightarrow> bool \<times> ('o, 'b) rp_dist" where
  "RePoller_findObject oid takeOrNot onFind wev =
     (case wev of
        Some ev \<Rightarrow> add_io (Find_Object oid takeOrNot onFind) ev
      | None \<Rightarrow> (False, wev))"

text \<open>
  The closures run on the IO worker. A callback given an object may change it through the pointer:
  \<open>cbo b ret obj rp\<close> returns the object as the callback leaves it and the new state.
\<close>

definition run_save ::
  "('b \<Rightarrow> bool \<Rightarrow> 'o option \<Rightarrow> ('c, 'o, 'k, 'w) RePoller_scheme \<Rightarrow> 'o \<times> ('c, 'o, 'k, 'w) RePoller_scheme)
     \<Rightarrow> int \<Rightarrow> bool \<Rightarrow> 'o \<Rightarrow> 'b \<Rightarrow> ('c, 'o, 'k, 'w) RePoller_scheme \<Rightarrow> ('c, 'o, 'k, 'w) RePoller_scheme" where
  "run_save cbo oid force obj cb rp =
     (case RBT.lookup (rp_objects rp) oid of
        Some _ \<Rightarrow>
          if force
          then let (o', rp') = cbo cb True (Some obj) (rp\<lparr>rp_objects := RBT.insert oid obj (rp_objects rp)\<rparr>)
               in rp'\<lparr>rp_objects := RBT.insert oid o' (rp_objects rp')\<rparr>
          else snd (cbo cb False (Some obj) rp)
      | None \<Rightarrow>
          let (o', rp') = cbo cb True (Some obj) rp
          in rp'\<lparr>rp_objects := RBT.insert oid o' (rp_objects rp')\<rparr>)"

definition run_find ::
  "('b \<Rightarrow> bool \<Rightarrow> 'o option \<Rightarrow> ('c, 'o, 'k, 'w) RePoller_scheme \<Rightarrow> 'o \<times> ('c, 'o, 'k, 'w) RePoller_scheme)
     \<Rightarrow> int \<Rightarrow> bool \<Rightarrow> 'b option \<Rightarrow> ('c, 'o, 'k, 'w) RePoller_scheme \<Rightarrow> ('c, 'o, 'k, 'w) RePoller_scheme" where
  "run_find cbo oid takeOrNot onFind rp =
     (case RBT.lookup (rp_objects rp) oid of
        Some obj \<Rightarrow>
          if takeOrNot
          then let rp' = rp\<lparr>rp_objects := RBT.delete oid (rp_objects rp)\<rparr>
               in (case onFind of None \<Rightarrow> rp' | Some cb \<Rightarrow> snd (cbo cb True (Some obj) rp'))
          else (case onFind of
                  None \<Rightarrow> rp
                | Some cb \<Rightarrow> let (o', rp') = cbo cb True (Some obj) rp
                             in rp'\<lparr>rp_objects := RBT.insert oid o' (rp_objects rp')\<rparr>)
      | None \<Rightarrow> (case onFind of None \<Rightarrow> rp | Some cb \<Rightarrow> snd (cbo cb False None rp)))"

definition RePoller_run_task ::
  "'k epoll_os \<Rightarrow> ('c \<Rightarrow> u32 \<Rightarrow> ('c, 'o, 'k, 'w) RePoller_scheme \<Rightarrow> ('c, 'o, 'k, 'w) RePoller_scheme)
     \<Rightarrow> ('b \<Rightarrow> bool \<Rightarrow> 'o option \<Rightarrow> ('c, 'o, 'k, 'w) RePoller_scheme \<Rightarrow> 'o \<times> ('c, 'o, 'k, 'w) RePoller_scheme)
     \<Rightarrow> ('o, 'b) rp_task \<Rightarrow> ('c, 'o, 'k, 'w) RePoller_scheme \<times> ('o, 'b) rp_dist
     \<Rightarrow> (('c, 'o, 'k, 'w) RePoller_scheme \<times> ('o, 'b) rp_dist) outcome option" where
  "RePoller_run_task os call cbo t st =
     (case t of
        Tick ms \<Rightarrow>
          (case RePoller_work os call ms (fst st) of
             None \<Rightarrow> None
           | Some r \<Rightarrow> Some (bind_out r (\<lambda>rp.
               if rp_shutdown rp then Inr (rp, snd st)
               else bind_out (RePoller_workNextTick ms (snd st)) (\<lambda>wev. Inr (rp, wev)))))
      | Save_Object oid force obj cb \<Rightarrow> Some (Inr (run_save cbo oid force obj cb (fst st), snd st))
      | Find_Object oid tk cb \<Rightarrow> Some (Inr (run_find cbo oid tk cb (fst st), snd st)))"

section \<open>Merging\<close>

text \<open>All the events reported for one descriptor, the posted one first.\<close>

definition merged :: "u32 option \<Rightarrow> u32 list \<Rightarrow> u32 option" where
  "merged v xs =
     (case (case v of None \<Rightarrow> xs | Some x \<Rightarrow> x # xs) of [] \<Rightarrow> None | y # ys \<Rightarrow> Some (fold (\<lambda>a b. or b a) ys y))"

lemma merge_event_lookup:
  "RBT.lookup (merge_event pe evs) =
     (RBT.lookup evs)(fst pe \<mapsto> (case RBT.lookup evs (fst pe) of None \<Rightarrow> snd pe | Some v \<Rightarrow> or v (snd pe)))"
  by (cases "RBT.lookup evs (fst pe)") (simp_all add: merge_event_def)

lemma merge_events_lookup:
  "RBT.lookup (fold merge_event es cur) f =
     merged (RBT.lookup cur f) (map snd (filter (\<lambda>pe. fst pe = f) es))"
proof (induction es arbitrary: cur)
  case Nil
  then show ?case by (simp add: merged_def split: option.splits)
next
  case (Cons pe es)
  show ?case
    using Cons.IH[of "merge_event pe cur"]
    by (cases "fst pe = f"; cases "RBT.lookup cur f") (simp_all add: merge_event_lookup merged_def)
qed

section \<open>The two dispatch loops\<close>

definition deliveries :: "(int, 'c) rbt \<Rightarrow> (int, u32) rbt \<Rightarrow> ('c \<times> u32) list" where
  "deliveries cbs evs =
     map (\<lambda>f. (the (RBT.lookup cbs f), the (RBT.lookup evs f)))
       (sorted_list_of_set (dom (RBT.lookup cbs) \<inter> dom (RBT.lookup evs)))"

lemma keys_filter_sorted:
  "filter (\<lambda>f. P f) (RBT.keys t) = sorted_list_of_set {f \<in> dom (RBT.lookup t). P f}"
proof -
  have "sorted (filter P (RBT.keys t))" "distinct (filter P (RBT.keys t))"
    by (simp_all add: RBT.sorted_keys RBT.distinct_keys sorted_wrt_filter)
  moreover have "set (filter P (RBT.keys t)) = {f \<in> dom (RBT.lookup t). P f}"
    by (auto simp: RBT.lookup_keys[symmetric])
  ultimately show ?thesis by (metis sorted_list_of_set.idem_if_sorted_distinct)
qed

lemma entries_keys: "RBT.entries t = map (\<lambda>f. (f, the (RBT.lookup t f))) (RBT.keys t)"
proof -
  have "map ((\<lambda>f. (f, the (RBT.lookup t f))) \<circ> fst) (RBT.entries t) = RBT.entries t"
  proof (rule map_idI)
    fix x assume "x \<in> set (RBT.entries t)"
    then have "RBT.lookup t (fst x) = Some (snd x)" by (simp add: RBT.lookup_in_tree)
    then show "((\<lambda>f. (f, the (RBT.lookup t f))) \<circ> fst) x = x" by simp
  qed
  then show ?thesis by (simp add: RBT.keys_def_alt)
qed

text \<open>
  A callback table that the calls leave alone makes each loop a fold over the deliveries:
  \<open>stable\<close> says so of what the callbacks do.
\<close>

definition stable ::
  "('c \<Rightarrow> u32 \<Rightarrow> ('c, 'o, 'k, 'w) RePoller_scheme \<Rightarrow> ('c, 'o, 'k, 'w) RePoller_scheme) \<Rightarrow> bool" where
  "stable call \<longleftrightarrow> (\<forall>c e rp. rp_callbacks (call c e rp) = rp_callbacks rp)"

definition call_all ::
  "('c \<Rightarrow> u32 \<Rightarrow> 's \<Rightarrow> 's) \<Rightarrow> ('c \<times> u32) list \<Rightarrow> 's \<Rightarrow> 's" where
  "call_all call ds = fold (\<lambda>ce. call (fst ce) (snd ce)) ds"

lemma dispatch_events_fold:
  assumes "stable call" and "rp_callbacks rp = cbs"
  shows "dispatch_events call evs rp =
       call_all call (map (\<lambda>fe. (the (RBT.lookup cbs (fst fe)), snd fe))
                   (filter (\<lambda>fe. fst fe \<in> dom (RBT.lookup cbs)) evs)) rp"
  using assms(2)
proof (induction evs arbitrary: rp)
  case (Cons fe evs)
  then show ?case
    using assms(1)
    by (cases fe; cases "RBT.lookup cbs (fst fe)") (auto simp: call_all_def stable_def domIff)
qed (simp add: call_all_def)

lemma dispatch_events_deliveries:
  assumes "stable call"
  shows "dispatch_events call (RBT.entries evs) rp = call_all call (deliveries (rp_callbacks rp) evs) rp"
proof -
  let ?cbs = "rp_callbacks rp"
  have "filter (\<lambda>f. f \<in> dom (RBT.lookup ?cbs)) (RBT.keys evs)
      = sorted_list_of_set (dom (RBT.lookup ?cbs) \<inter> dom (RBT.lookup evs))"
    unfolding keys_filter_sorted by (rule arg_cong[of _ _ sorted_list_of_set]) blast
  then have "map (\<lambda>fe. (the (RBT.lookup ?cbs (fst fe)), snd fe))
      (filter (\<lambda>fe. fst fe \<in> dom (RBT.lookup ?cbs)) (RBT.entries evs)) = deliveries ?cbs evs"
    by (simp only: entries_keys filter_map map_map comp_def fst_conv snd_conv deliveries_def)
  then show ?thesis using dispatch_events_fold[OF assms, of rp ?cbs "RBT.entries evs"] by simp
qed

lemma next_key_split:
  assumes "RBT.keys t = pre @ f # suf"
  shows "next_key t f = (case suf of [] \<Rightarrow> None | g # _ \<Rightarrow> Some g)"
proof -
  have s: "sorted (pre @ f # suf)" "distinct (pre @ f # suf)" using assms RBT.sorted_keys RBT.distinct_keys by metis+
  then have "\<forall>x \<in> set pre. \<not> f < x" "\<forall>x \<in> set suf. f < x"
    by (auto simp: sorted_append order.strict_iff_order)
  then have "find (\<lambda>k. f < k) (pre @ f # suf) = (case suf of [] \<Rightarrow> None | g # _ \<Rightarrow> Some g)"
    by (induction pre) (auto split: list.splits)
  then show ?thesis using assms by (simp add: next_key_def)
qed

lemma dispatch_callbacks_suffix:
  assumes "stable call" and "RBT.keys cbs = pre @ suf" and "rp_callbacks rp = cbs"
  shows "dispatch_callbacks call evs (case suf of [] \<Rightarrow> None | g # _ \<Rightarrow> Some g) rp =
      Some (Inr (call_all call (map (\<lambda>f. (the (RBT.lookup cbs f), the (RBT.lookup evs f)))
                   (filter (\<lambda>f. f \<in> dom (RBT.lookup evs)) suf)) rp))"
  using assms(2,3)
proof (induction suf arbitrary: pre rp)
  case Nil
  then show ?case by (simp add: dispatch_callbacks.simps call_all_def)
next
  case (Cons f suf)
  have "f \<in> dom (RBT.lookup cbs)" using Cons.prems(1) by (simp add: RBT.lookup_keys)
  then obtain cb where cb: "RBT.lookup cbs f = Some cb" by blast
  let ?rp = "case RBT.lookup evs f of Some events \<Rightarrow> call cb events rp | None \<Rightarrow> rp"
  have k: "rp_callbacks ?rp = cbs" using assms(1) Cons.prems(2) by (simp add: stable_def split: option.splits)
  have IH: "dispatch_callbacks call evs (next_key cbs f) ?rp =
      Some (Inr (call_all call (map (\<lambda>f. (the (RBT.lookup cbs f), the (RBT.lookup evs f)))
                   (filter (\<lambda>f. f \<in> dom (RBT.lookup evs)) suf)) ?rp))"
    using Cons.IH[of "pre @ [f]" ?rp] Cons.prems(1) k next_key_split[OF Cons.prems(1)] by simp
  have "dispatch_callbacks call evs (Some f) rp = dispatch_callbacks call evs (next_key cbs f) ?rp"
    using cb k Cons.prems(2) by (simp add: dispatch_callbacks.simps[of call evs "Some f" rp] Let_def)
  then show ?case using IH cb by (cases "RBT.lookup evs f") (simp_all add: call_all_def domIff)
qed

lemma dispatch_callbacks_deliveries:
  assumes "stable call"
  shows "dispatch_callbacks call evs (first_key (rp_callbacks rp)) rp =
           Some (Inr (call_all call (deliveries (rp_callbacks rp) evs) rp))"
proof -
  let ?cbs = "rp_callbacks rp"
  have "filter (\<lambda>f. f \<in> dom (RBT.lookup evs)) (RBT.keys ?cbs)
      = sorted_list_of_set (dom (RBT.lookup ?cbs) \<inter> dom (RBT.lookup evs))"
    unfolding keys_filter_sorted by (rule arg_cong[of _ _ sorted_list_of_set]) blast
  then show ?thesis
    using dispatch_callbacks_suffix[OF assms, of ?cbs "[]" "RBT.keys ?cbs" rp evs]
    by (simp add: first_key_def deliveries_def)
qed

lemma RePoller_work_ready:
  assumes "stable call"
    and "Epoll_wait os (rp_ep rp) 300 (if RBT.keys (rp_customEvents rp) \<noteq> [] then 1 else ms) (rp_kernel rp)
           = (Wait_Ready es, k)"
    and "length es \<le> 300"
  shows "RePoller_work os call ms rp =
     Some (Inr (call_all call (deliveries (rp_callbacks rp) (fold merge_event es (rp_customEvents rp)))
       (rp\<lparr>rp_customEvents := RBT.empty, rp_kernel := k\<rparr>)))"
proof -
  let ?evs = "fold merge_event es (rp_customEvents rp)"
  let ?rp = "rp\<lparr>rp_customEvents := RBT.empty, rp_kernel := k\<rparr>"
  show ?thesis
    using assms(2,3) dispatch_events_deliveries[OF assms(1), of ?evs ?rp]
      dispatch_callbacks_deliveries[OF assms(1), of ?evs ?rp]
    by (simp add: RePoller_work_def Let_def)
qed

lemma call_all_invariant:
  assumes "\<And>c e s. f (call c e s) = f s"
  shows "f (call_all call ds s) = f s"
  by (induction ds arbitrary: s) (simp_all add: call_all_def assms)

section \<open>The poller on the IO worker\<close>

lemma io_round_tick:
  assumes "io_queue ev [Tick ms]" and "RePoller_work os call ms rp = Some (Inr rp')" and "\<not> rp_shutdown rp'"
  obtains ev' where "io_queue ev' [Tick ms]"
    and "\<And>n. io_rounds (Suc n) (RePoller_run_task os call cbo) (rp, Some ev)
               = io_rounds n (RePoller_run_task os call cbo) (rp', Some ev')"
proof -
  obtain ev' where e: "add_io (Tick ms) (snd (work_take 0 ev)) = (True, Some ev')" "io_queue ev' [Tick ms]"
    using io_queue_add[OF io_queue_take(2)[OF assms(1)], of "Tick ms"] by auto
  have "\<not> td_exit ev" using assms(1) by (simp add: io_queue_def)
  then have "io_rounds (Suc n) (RePoller_run_task os call cbo) (rp, Some ev)
      = io_rounds n (RePoller_run_task os call cbo) (rp', Some ev')" for n
    using io_queue_take(1)[OF assms(1)] assms(2,3) e(1)
    by (simp add: RePoller_run_task_def RePoller_workNextTick_def)
  then show thesis using that e(2) by blast
qed

text \<open>A property of the poller that every tick keeps and that excludes the shutdown flag holds for any number of rounds.\<close>

lemma tick_sequence:
  assumes tick: "\<And>rp. P rp \<Longrightarrow> \<exists>rp'. RePoller_work os call ms rp = Some (Inr rp') \<and> P rp' \<and> \<not> rp_shutdown rp'"
    and "P rp" and "io_queue ev [Tick ms]"
  shows "\<exists>rps ev'. rps 0 = rp \<and> (\<forall>i \<le> n. P (rps i)) \<and> (\<forall>i < n. RePoller_work os call ms (rps i) = Some (Inr (rps (Suc i))))
     \<and> io_rounds n (RePoller_run_task os call cbo) (rp, Some ev) = Some (Inr (rps n, Some ev'))
     \<and> io_queue ev' [Tick ms]"
  using assms(2,3)
proof (induction n arbitrary: rp ev)
  case 0
  then show ?case by (intro exI[of _ "\<lambda>_. rp"] exI[of _ ev]) simp
next
  case (Suc n)
  obtain rp1 where w: "RePoller_work os call ms rp = Some (Inr rp1)" "P rp1" "\<not> rp_shutdown rp1"
    using tick[OF Suc.prems(1)] by blast
  obtain ev1 where e: "io_queue ev1 [Tick ms]"
    "\<And>n. io_rounds (Suc n) (RePoller_run_task os call cbo) (rp, Some ev)
        = io_rounds n (RePoller_run_task os call cbo) (rp1, Some ev1)"
    by (rule io_round_tick[OF Suc.prems(2) w(1,3)]) (rule that; assumption)
  obtain rps ev' where r: "rps 0 = rp1" "\<forall>i \<le> n. P (rps i)" "\<forall>i < n. RePoller_work os call ms (rps i) = Some (Inr (rps (Suc i)))"
    "io_rounds n (RePoller_run_task os call cbo) (rp1, Some ev1) = Some (Inr (rps n, Some ev'))"
    "io_queue ev' [Tick ms]"
    using Suc.IH[OF w(2) e(1)] by blast
  have "RePoller_work os call ms (case_nat rp rps i) = Some (Inr (rps i))" if "i < Suc n" for i
    using that r(1,3) w(1) by (cases i) simp_all
  moreover have "P (case_nat rp rps i)" if "i \<le> Suc n" for i
    using that r(2) Suc.prems(1) by (cases i) simp_all
  ultimately show ?case
    using r(4,5) e(2)[of n] by (intro exI[of _ "case_nat rp rps"] exI[of _ ev']) simp
qed

section \<open>Properties\<close>

text \<open>
  Property C19. One tick of the poller. When the callbacks leave the callback table alone and
  \<open>epoll_wait\<close> reports at most as many events as the buffer holds, \<open>work\<close> always returns, and calls
  each callback whose descriptor has posted or reported events exactly once, in ascending order
  of descriptors, with the bitwise or of the posted event and all reported ones; nothing else is
  called, and the posted events are consumed. Which of its two loops it runs makes no difference.
\<close>

theorem RePoller_work_dispatch:
  assumes "stable call"
    and "Epoll_wait os (rp_ep rp) 300 (if RBT.keys (rp_customEvents rp) \<noteq> [] then 1 else ms) (rp_kernel rp)
           = (Wait_Ready es, k)"
    and "length es \<le> 300"
  shows "\<exists>evs. RePoller_work os call ms rp =
       Some (Inr (fold (\<lambda>f. call (the (RBT.lookup (rp_callbacks rp) f)) (the (RBT.lookup evs f)))
                    (sorted_list_of_set (dom (RBT.lookup (rp_callbacks rp)) \<inter> dom (RBT.lookup evs)))
                    (rp\<lparr>rp_customEvents := RBT.empty, rp_kernel := k\<rparr>)))
     \<and> (\<forall>f. RBT.lookup evs f = merged (RBT.lookup (rp_customEvents rp) f)
                                (map snd (filter (\<lambda>pe. fst pe = f) es)))"
proof -
  let ?evs = "fold merge_event es (rp_customEvents rp)"
  let ?rp = "rp\<lparr>rp_customEvents := RBT.empty, rp_kernel := k\<rparr>"
  have w: "RePoller_work os call ms rp = Some (Inr (call_all call (deliveries (rp_callbacks rp) ?evs) ?rp))"
    by (rule RePoller_work_ready[OF assms])
  have "call_all call (deliveries (rp_callbacks rp) ?evs) ?rp =
      fold (\<lambda>f. call (the (RBT.lookup (rp_callbacks rp) f)) (the (RBT.lookup ?evs f)))
        (sorted_list_of_set (dom (RBT.lookup (rp_callbacks rp)) \<inter> dom (RBT.lookup ?evs))) ?rp"
    by (simp add: call_all_def deliveries_def fold_map comp_def)
  with w show ?thesis by (intro exI[of _ ?evs]) (simp add: merge_events_lookup)
qed

text \<open>A poller with one callback, and a kernel that reports one event, for the concrete instances.\<close>

definition demo_os :: "wait_result \<Rightarrow> unit epoll_os" where
  "demo_os r = \<lparr>epoll_ctl = (\<lambda>_ _ _ _ k. (0, k)), epoll_wait = (\<lambda>_ _ _ k. (r, k))\<rparr>"

definition demo_poller :: "(nat, u32, unit) RePoller" where
  "demo_poller = (RePoller_ctor 3 ())\<lparr>rp_callbacks := RBT.insert 5 7 RBT.empty,
                                    rp_customEvents := RBT.insert 5 4 RBT.empty\<rparr>"

definition note_call :: "nat \<Rightarrow> u32 \<Rightarrow> (nat, u32, unit) RePoller \<Rightarrow> (nat, u32, unit) RePoller" where
  "note_call c e rp = rp\<lparr>rp_objects := RBT.insert (int c) e (rp_objects rp)\<rparr>"

theorem RePoller_work_dispatch_witness:
  "\<exists>rp'. RePoller_work (demo_os (Wait_Ready [(5, 1)])) note_call 10 demo_poller = Some (Inr rp')
     \<and> RBT.lookup (rp_objects rp') 7 = Some 5"
proof -
  have st: "stable note_call" by (simp add: stable_def note_call_def)
  have k: "RBT.keys (rp_customEvents demo_poller) = [5]" by code_simp
  have w: "Epoll_wait (demo_os (Wait_Ready [(5, 1)])) (rp_ep demo_poller) 300
      (if RBT.keys (rp_customEvents demo_poller) \<noteq> [] then 1 else 10) (rp_kernel demo_poller)
      = (Wait_Ready [(5, 1)], ())"
    by (simp add: Epoll_wait_def demo_os_def)
  from RePoller_work_dispatch[OF st w] obtain evs where
    r: "RePoller_work (demo_os (Wait_Ready [(5, 1)])) note_call 10 demo_poller =
       Some (Inr (fold (\<lambda>f. note_call (the (RBT.lookup (rp_callbacks demo_poller) f)) (the (RBT.lookup evs f)))
                    (sorted_list_of_set (dom (RBT.lookup (rp_callbacks demo_poller)) \<inter> dom (RBT.lookup evs)))
                    (demo_poller\<lparr>rp_customEvents := RBT.empty, rp_kernel := ()\<rparr>)))"
    and e: "\<forall>f. RBT.lookup evs f = merged (RBT.lookup (rp_customEvents demo_poller) f)
                                (map snd (filter (\<lambda>pe. fst pe = f) [(5, 1)]))" by auto
  have e5: "RBT.lookup evs 5 = Some 5" using e by (simp add: merged_def demo_poller_def)
  then have "dom (RBT.lookup (rp_callbacks demo_poller)) \<inter> dom (RBT.lookup evs) = {5}"
    by (auto simp: demo_poller_def split: if_splits)
  with r e5 show ?thesis by (simp add: note_call_def demo_poller_def)
qed

text \<open>
  A tick keeps the poller going: when \<open>work\<close> ends without the shutdown flag, the tick
  appends exactly one further tick to the queue of the IO worker and nothing to any other; with
  the flag set it appends none, and with the distributor already gone (its last strong reference
  released while the tick was running) it dereferences null.
\<close>

theorem RePoller_tick_rearms:
  assumes "RePoller_work os call ms rp = Some (Inr rp')"
    and "TaskDistributor_inv ev" and "td_tpool ev \<noteq> None"
  shows "(rp_shutdown rp' \<longrightarrow> RePoller_run_task os call cbo (Tick ms) (rp, wev) = Some (Inr (rp', wev)))
     \<and> (\<not> rp_shutdown rp' \<longrightarrow>
          RePoller_run_task os call cbo (Tick ms) (rp, None) = Some (Inl Null_Deref)
        \<and> (\<exists>ev'. RePoller_run_task os call cbo (Tick ms) (rp, Some ev) = Some (Inr (rp', Some ev'))
             \<and> TaskDistributor_inv ev'
             \<and> (\<forall>j. MutexQue_contents (td_bqueForTask ev' ! j) =
                  (if j = 0 then MutexQue_contents (td_bqueForTask ev ! j) @ [Some (Tick ms)]
                   else MutexQue_contents (td_bqueForTask ev ! j)))))"
proof -
  obtain ev' where "add_io (Tick ms) ev = (True, Some ev')" "TaskDistributor_inv ev'"
    "\<forall>j. MutexQue_contents (td_bqueForTask ev' ! j) =
       (if j = 0 then MutexQue_contents (td_bqueForTask ev ! j) @ [Some (Tick ms)]
        else MutexQue_contents (td_bqueForTask ev ! j))"
    using add_io_queue[OF assms(2,3), of "Tick ms"] by metis
  then show ?thesis
    using assms(1) by (auto simp: RePoller_run_task_def RePoller_workNextTick_def)
qed

theorem RePoller_tick_rearms_witness:
  "\<exists>rp' ev'. RePoller_run_task (demo_os (Wait_Ready [])) note_call (\<lambda>_ _ _ rp. (0, rp)) (Tick 10)
      (RePoller_ctor 3 (), Some (snd (TaskDistributor_start Suc (TaskDistributor_ctor 2)))) = Some (Inr (rp', Some ev'))
     \<and> MutexQue_contents (td_bqueForTask ev' ! 0) = [Some (Tick 10 :: (u32, nat) rp_task)]"
proof -
  let ?ev = "snd (TaskDistributor_start Suc (TaskDistributor_ctor 2)) :: (u32, nat) rp_task TaskDistributor"
  have i: "TaskDistributor_inv ?ev" by (auto simp: TaskDistributor_inv_def loop_defs queue_defs)
  have t: "td_tpool ?ev \<noteq> None" "MutexQue_contents (td_bqueForTask ?ev ! 0) = []"
    by (simp_all add: loop_defs queue_defs)
  have w: "RePoller_work (demo_os (Wait_Ready [])) note_call 10 (RePoller_ctor 3 ())
      = Some (Inr ((RePoller_ctor 3 ()) :: (nat, u32, unit) RePoller))"
    by (simp add: RePoller_work_def RePoller_ctor_def Epoll_wait_def demo_os_def first_key_def
        dispatch_callbacks.simps)
  have "\<not> rp_shutdown (RePoller_ctor 3 () :: (nat, u32, unit) RePoller)" by (simp add: RePoller_ctor_def)
  then show ?thesis
    using RePoller_tick_rearms[OF w i t(1), of "\<lambda>_ _ _ rp. (0, rp)" None] t(2) by auto
qed

text \<open>
  When \<open>epoll_wait\<close> fails for a reason other than a signal, the tick stops the poller
  for good and every event posted by hand since the last tick is dropped without any callback.
\<close>

theorem RePoller_wait_failure_drops_events:
  assumes "Epoll_wait os (rp_ep rp) 300 (if RBT.keys (rp_customEvents rp) \<noteq> [] then 1 else ms) (rp_kernel rp)
           = (Wait_Failed False, k)"
  shows "RePoller_run_task os call cbo (Tick ms) (rp, wev) =
     Some (Inr (rp\<lparr>rp_customEvents := RBT.empty, rp_kernel := k, rp_shutdown := True\<rparr>, wev))"
  using assms by (simp add: RePoller_run_task_def RePoller_work_def Let_def)

theorem RePoller_wait_failure_drops_events_witness:
  "\<exists>rp'. RePoller_run_task (demo_os (Wait_Failed False)) note_call (\<lambda>(_ :: nat) _ _ rp. (0, rp)) (Tick 10)
      (demo_poller, None) = Some (Inr (rp', None))
     \<and> rp_customEvents rp' = RBT.empty \<and> rp_objects rp' = RBT.empty"
  using RePoller_wait_failure_drops_events[of "demo_os (Wait_Failed False)" demo_poller 10 "()" note_call
      "\<lambda>(_ :: nat) _ _ rp. (0, rp)" None]
  by (simp add: Epoll_wait_def demo_os_def demo_poller_def RePoller_ctor_def)

text \<open>
  A callback that cancels its own descriptor breaks the tick when there are at least as
  many posted events as callbacks: the loop then walks the callback table itself, and the entry
  under its iterator is erased. The same callback is harmless when the other loop runs.
\<close>

theorem RePoller_self_cancel_faults:
  assumes "RBT.keys (rp_callbacks rp) = [f]" and "RBT.lookup (rp_customEvents rp) f = Some e"
    and "Epoll_wait os (rp_ep rp) 300 1 (rp_kernel rp) = (Wait_Ready [], k)"
    and "\<And>c e rp. call c e rp = snd (RePoller_cancle os f rp)"
  shows "RePoller_work os call ms rp = Some (Inl Bad_Iterator)"
proof -
  have n: "RBT.keys (rp_customEvents rp) \<noteq> []" using assms(2) by (metis RBT.lookup_keys domI empty_iff list.set(1))
  have "f \<in> dom (RBT.lookup (rp_callbacks rp))" using assms(1) by (simp add: RBT.lookup_keys)
  then obtain cb where cb: "RBT.lookup (rp_callbacks rp) f = Some cb" by blast
  have "RBT.lookup (rp_callbacks (snd (RePoller_cancle os f r))) f = None" for r :: "('a, 'b, 'c, 'd) RePoller_scheme"
    by (simp add: RePoller_cancle_def control_fd_def split_beta Let_def)
  then show ?thesis
    using assms n cb
    by (simp add: RePoller_work_def Let_def first_key_def dispatch_callbacks.simps[of call _ "Some f"] Suc_le_eq
        flip: length_greater_0_conv)
qed

theorem RePoller_self_cancel_faults_witness:
  "RePoller_work (demo_os (Wait_Ready [])) (\<lambda>_ _ rp. snd (RePoller_cancle (demo_os (Wait_Ready [])) 5 rp)) 10 demo_poller
     = Some (Inl Bad_Iterator)"
proof -
  have k: "RBT.keys (rp_callbacks demo_poller) = [5]" by code_simp
  have e: "RBT.lookup (rp_customEvents demo_poller) 5 = Some 4" by (simp add: demo_poller_def)
  have w: "Epoll_wait (demo_os (Wait_Ready [])) (rp_ep demo_poller) 300 1 (rp_kernel demo_poller) = (Wait_Ready [], ())"
    by (simp add: Epoll_wait_def demo_os_def)
  show ?thesis by (rule RePoller_self_cancel_faults[OF k e w]) simp
qed

text \<open>
  The object store. When the caller's callback neither changes the object nor the
  store, saving under a free id stores the object, under a used id replaces it only if forced,
  and every other id is untouched; finding with \<open>takeOrNot\<close> removes the object and nothing else,
  without it changes nothing; and a save followed by a taking find hands back the saved object.
\<close>

theorem RePoller_object_store:
  assumes cbo: "\<And>b r obj rp. rp_objects (snd (cbo b r obj rp)) = rp_objects rp"
    and same: "\<And>b r obj rp. fst (cbo b r (Some obj) rp) = obj"
  shows "RBT.lookup (rp_objects (run_save cbo i force obj cb rp)) =
           (if RBT.lookup (rp_objects rp) i = None \<or> force then (RBT.lookup (rp_objects rp))(i \<mapsto> obj)
            else RBT.lookup (rp_objects rp))
     \<and> RBT.lookup (rp_objects (run_find cbo i tk onFind rp)) =
           (if tk then (RBT.lookup (rp_objects rp))(i := None) else RBT.lookup (rp_objects rp))
     \<and> (RBT.lookup (rp_objects rp) i = None \<longrightarrow>
          run_find cbo i True (Some cb2) (run_save cbo i force obj cb rp) =
            snd (cbo cb2 True (Some obj) (let rp2 = run_save cbo i force obj cb rp
                                          in rp2\<lparr>rp_objects := RBT.delete i (rp_objects rp2)\<rparr>)))"
proof -
  have "(RBT.lookup (rp_objects rp))(i := None) = RBT.lookup (rp_objects rp)" if "RBT.lookup (rp_objects rp) i = None"
    using that by (simp add: fun_upd_idem)
  moreover have "(RBT.lookup (rp_objects rp))(i \<mapsto> x) = RBT.lookup (rp_objects rp)" if "RBT.lookup (rp_objects rp) i = Some x" for x
    using that by (simp add: fun_upd_idem)
  ultimately show ?thesis
    using cbo same
    by (auto simp: run_save_def run_find_def split_beta Let_def restrict_complement_singleton_eq
        split: option.splits)
qed

theorem RePoller_object_store_witness:
  "RBT.lookup (rp_objects (run_save (\<lambda>(_ :: nat) _ obj rp. (case obj of Some x \<Rightarrow> x | None \<Rightarrow> 0, rp)) 9 False 4 1 demo_poller)) 9
     = Some 4"
  using RePoller_object_store[of "\<lambda>(_ :: nat) _ obj rp. (case obj of Some x \<Rightarrow> x | None \<Rightarrow> 0, rp)" 9 False 4 1 demo_poller]
  by (simp add: demo_poller_def RePoller_ctor_def)

end
