(* ===== verification/Http2_Frame.thy ===== *)
theory Http2_Frame
  imports Andren_Prelude
begin

text \<open>
  \<open>include/extention/http2frame.hh\<close>: the library's own copies of the frames nghttp2 hands to its
  callbacks. The \<open>ng_\<close> records are the nghttp2 structures as the constructors read them: counted
  arrays are a list with the count beside it. \<open>Http2ndFrame\<close> keeps one frame in a raw buffer the
  size of the largest; the buffer is the datatype \<open>frame_content\<close>, and a zeroed buffer is \<open>Blank\<close>.
  Writing a frame with vectors or strings into the zeroed buffer by assignment, and never
  destroying it, is outside the model.
\<close>

section \<open>The frames\<close>

record frame_hd =
  hd_length :: u64
  hd_stream_id :: u32
  hd_type :: u8
  hd_flags :: u8
  hd_reserved :: u8

record data_frame =
  df_hd :: frame_hd
  df_padlen :: u64

record priority_spec =
  ps_stream_id :: u32
  ps_weight :: u32
  ps_exclusive :: u8

record name_value =
  nv_name :: string
  nv_value :: string
  nv_flags :: u8

datatype headers_category = HCAT_REQUEST | HCAT_RESPONSE | HCAT_PUSH_RESPONSE | HCAT_HEADERS

record headers_frame =
  hf_hd :: frame_hd
  hf_padlen :: u64
  hf_pri_spec :: priority_spec
  hf_nvlist :: "name_value list"
  hf_cat :: headers_category

record priority_frame =
  pf_hd :: frame_hd
  pf_pri_spec :: priority_spec

record rst_stream =
  rs_hd :: frame_hd
  rs_error_code :: u32

record settings_entry =
  se_settings_id :: u32
  se_value :: u32

record settings_frame =
  sf_hd :: frame_hd
  sf_ivlist :: "settings_entry list"

record push_promise =
  pp_hd :: frame_hd
  pp_padlen :: u64
  pp_nvlist :: "name_value list"
  pp_promised_stream_id :: u32
  pp_reserved :: u8

record ping_frame =
  pg_hd :: frame_hd
  pg_opaque_data :: bytes

record goaway_frame =
  ga_hd :: frame_hd
  ga_last_stream_id :: u32
  ga_error_code :: u32
  ga_opaque_data :: bytes
  ga_reserved :: u8

record window_update_frame =
  wu_hd :: frame_hd
  wu_window_size_increment :: u32
  wu_reserved :: u8

datatype frame_content =
    Blank
  | Data_Frame data_frame
  | Headers_Frame headers_frame
  | Priority_Frame priority_frame
  | Rst_Stream rst_stream
  | Settings_Frame settings_frame
  | Push_Promise push_promise
  | Ping_Frame ping_frame
  | Goaway_Frame goaway_frame
  | Window_Update_Frame window_update_frame

section \<open>What nghttp2 hands over\<close>

record ng_nv =
  ng_name :: bytes
  ng_namelen :: nat
  ng_value :: bytes
  ng_valuelen :: nat
  ng_flags :: u8

record ng_headers =
  ngh_hd :: frame_hd
  ngh_padlen :: u64
  ngh_pri_spec :: priority_spec
  ngh_nva :: "ng_nv list"
  ngh_nvlen :: nat
  ngh_cat :: headers_category

record ng_settings =
  ngs_hd :: frame_hd
  ngs_niv :: nat
  ngs_iv :: "settings_entry list"

record ng_push_promise =
  ngp_hd :: frame_hd
  ngp_padlen :: u64
  ngp_nva :: "ng_nv list"
  ngp_nvlen :: nat
  ngp_promised_stream_id :: u32
  ngp_reserved :: u8

record ng_goaway =
  ngg_hd :: frame_hd
  ngg_last_stream_id :: u32
  ngg_error_code :: u32
  ngg_opaque_data :: bytes
  ngg_opaque_data_len :: nat
  ngg_reserved :: u8

datatype nghttp2_frame =
    NG_DATA data_frame
  | NG_HEADERS ng_headers
  | NG_PRIORITY priority_frame
  | NG_RST_STREAM rst_stream
  | NG_SETTINGS ng_settings
  | NG_PUSH_PROMISE ng_push_promise
  | NG_PING ping_frame
  | NG_GOAWAY ng_goaway
  | NG_WINDOW_UPDATE window_update_frame
  | NG_OTHER frame_hd

fun frame_header :: "nghttp2_frame \<Rightarrow> frame_hd" where
  "frame_header (NG_DATA f) = df_hd f"
| "frame_header (NG_HEADERS f) = ngh_hd f"
| "frame_header (NG_PRIORITY f) = pf_hd f"
| "frame_header (NG_RST_STREAM f) = rs_hd f"
| "frame_header (NG_SETTINGS f) = ngs_hd f"
| "frame_header (NG_PUSH_PROMISE f) = ngp_hd f"
| "frame_header (NG_PING f) = pg_hd f"
| "frame_header (NG_GOAWAY f) = ngg_hd f"
| "frame_header (NG_WINDOW_UPDATE f) = wu_hd f"
| "frame_header (NG_OTHER h) = h"

section \<open>Conversions\<close>

definition name_value_ctor :: "bytes \<Rightarrow> nat \<Rightarrow> bytes \<Rightarrow> nat \<Rightarrow> u8 \<Rightarrow> name_value" where
  "name_value_ctor n ns v vs flags = \<lparr>nv_name = take ns n, nv_value = take vs v, nv_flags = flags\<rparr>"

definition name_value_from :: "ng_nv \<Rightarrow> name_value" where
  "name_value_from nv = name_value_ctor (ng_name nv) (ng_namelen nv) (ng_value nv) (ng_valuelen nv) (ng_flags nv)"

definition coverToHEADERS :: "ng_headers \<Rightarrow> headers_frame" where
  "coverToHEADERS h =
     \<lparr>hf_hd = ngh_hd h, hf_padlen = ngh_padlen h, hf_pri_spec = ngh_pri_spec h,
      hf_nvlist = map name_value_from (take (ngh_nvlen h) (ngh_nva h)), hf_cat = ngh_cat h\<rparr>"

definition coverToSETTINGS :: "ng_settings \<Rightarrow> settings_frame" where
  "coverToSETTINGS s = \<lparr>sf_hd = ngs_hd s, sf_ivlist = take (ngs_niv s) (ngs_iv s)\<rparr>"

definition coverToPUSH_PROMIS :: "ng_push_promise \<Rightarrow> push_promise" where
  "coverToPUSH_PROMIS pp =
     \<lparr>pp_hd = ngp_hd pp, pp_padlen = ngp_padlen pp,
      pp_nvlist = map name_value_from (take (ngp_nvlen pp) (ngp_nva pp)),
      pp_promised_stream_id = ngp_promised_stream_id pp, pp_reserved = ngp_reserved pp\<rparr>"

definition coverToPING :: "ping_frame \<Rightarrow> ping_frame" where
  "coverToPING p = p\<lparr>pg_opaque_data := take 8 (pg_opaque_data p)\<rparr>"

definition coverToGOAWAY :: "ng_goaway \<Rightarrow> goaway_frame" where
  "coverToGOAWAY g =
     \<lparr>ga_hd = ngg_hd g, ga_last_stream_id = ngg_last_stream_id g, ga_error_code = ngg_error_code g,
      ga_opaque_data = take (ngg_opaque_data_len g) (ngg_opaque_data g), ga_reserved = ngg_reserved g\<rparr>"

text \<open>The remaining cover functions assign field by field; extension frames have a struct and no cover function.\<close>

record 'p extension_frame =
  ext_hd :: frame_hd
  ext_payload :: 'p

definition extension_frame_ctor :: "frame_hd \<times> 'p \<Rightarrow> 'p extension_frame" where
  "extension_frame_ctor ext = \<lparr>ext_hd = fst ext, ext_payload = snd ext\<rparr>"

definition coverToDATA :: "data_frame \<Rightarrow> data_frame" where
  "coverToDATA d = d"

definition coverToPRIORITY :: "priority_frame \<Rightarrow> priority_frame" where
  "coverToPRIORITY p = p"

definition coverToRST_STREAM :: "rst_stream \<Rightarrow> rst_stream" where
  "coverToRST_STREAM r = r"

definition coverToWINDOW_UPDATE :: "window_update_frame \<Rightarrow> window_update_frame" where
  "coverToWINDOW_UPDATE w = w"

lemmas cover_copies [simp] = coverToDATA_def coverToPRIORITY_def coverToRST_STREAM_def coverToWINDOW_UPDATE_def

record Http2ndFrame =
  frame :: frame_content

definition Http2ndFrame_ctor0 :: Http2ndFrame where
  "Http2ndFrame_ctor0 = \<lparr>frame = Blank\<rparr>"

definition Http2ndFrame_ctor :: "nghttp2_frame \<Rightarrow> Http2ndFrame" where
  "Http2ndFrame_ctor f =
     \<lparr>frame = (case f of
        NG_DATA d \<Rightarrow> Data_Frame (coverToDATA d)
      | NG_HEADERS h \<Rightarrow> Headers_Frame (coverToHEADERS h)
      | NG_PRIORITY p \<Rightarrow> Priority_Frame (coverToPRIORITY p)
      | NG_RST_STREAM r \<Rightarrow> Rst_Stream (coverToRST_STREAM r)
      | NG_SETTINGS s \<Rightarrow> Settings_Frame (coverToSETTINGS s)
      | NG_PUSH_PROMISE pp \<Rightarrow> Push_Promise (coverToPUSH_PROMIS pp)
      | NG_PING p \<Rightarrow> Ping_Frame (coverToPING p)
      | NG_GOAWAY g \<Rightarrow> Goaway_Frame (coverToGOAWAY g)
      | NG_WINDOW_UPDATE w \<Rightarrow> Window_Update_Frame (coverToWINDOW_UPDATE w)
      | NG_OTHER _ \<Rightarrow> Blank)\<rparr>"

text \<open>The move constructor has an empty body: the new frame is a zeroed buffer. The source keeps its frame.\<close>

definition Http2ndFrame_move_ctor :: "Http2ndFrame \<Rightarrow> Http2ndFrame \<times> Http2ndFrame" where
  "Http2ndFrame_move_ctor f = (Http2ndFrame_ctor0, f)"

fun content_header :: "frame_content \<Rightarrow> frame_hd option" where
  "content_header Blank = None"
| "content_header (Data_Frame f) = Some (df_hd f)"
| "content_header (Headers_Frame f) = Some (hf_hd f)"
| "content_header (Priority_Frame f) = Some (pf_hd f)"
| "content_header (Rst_Stream f) = Some (rs_hd f)"
| "content_header (Settings_Frame f) = Some (sf_hd f)"
| "content_header (Push_Promise f) = Some (pp_hd f)"
| "content_header (Ping_Frame f) = Some (pg_hd f)"
| "content_header (Goaway_Frame f) = Some (ga_hd f)"
| "content_header (Window_Update_Frame f) = Some (wu_hd f)"

text \<open>A constructed frame carries the header it was made from, unless it is of a type the switch skips.\<close>

lemma Http2ndFrame_ctor_header:
  "content_header (frame (Http2ndFrame_ctor f)) =
     (case f of NG_OTHER _ \<Rightarrow> None | _ \<Rightarrow> Some (frame_header f))"
  by (cases f) (simp_all add: Http2ndFrame_ctor_def coverToHEADERS_def coverToSETTINGS_def
      coverToPUSH_PROMIS_def coverToPING_def coverToGOAWAY_def)

end
