(* ===== verification/Http2_Session.thy ===== *)
theory Http2_Session
  imports Http2_Frame
begin

text \<open>
  \<open>source/extention/http2.cpp\<close> and \<open>include/extention/http2.hh\<close>: streams and sessions of HTTP/2 over
  nghttp2. The streams of a session are a \<open>std::map<int, Http2ndStream>\<close> whose elements do not
  move, so a pointer to a stream is its id. The user pointer nghttp2 keeps per stream is the
  field \<open>h2_user_data\<close>. The user's callbacks are the record \<open>CBGroup\<close>, each possibly empty, acting on
  the session and, through the record's extension, on the rest of the program; calling an empty
  one throws. Whatever nghttp2 and the TLS stream answer is an argument.
\<close>

unbundle bit_operations_syntax

section \<open>Streams\<close>

type_synonym headers = "string \<rightharpoonup> string"

datatype derive_data = Http2ndRequest headers | Http2ndResponse headers

record Http2ndStream =
  st_id :: int
  st_derive_data :: derive_data
  st_frames :: "Http2ndFrame list"
  st_recvFrameFlags :: bool

definition Http2ndStream_ctor :: Http2ndStream where
  "Http2ndStream_ctor =
     \<lparr>st_id = 0, st_derive_data = Http2ndRequest Map.empty, st_frames = [], st_recvFrameFlags = False\<rparr>"

text \<open>\<open>frames.push_back(std::move(frame))\<close> stores what the move constructor makes.\<close>

definition Http2ndStream_push_frame :: "Http2ndFrame \<Rightarrow> Http2ndStream \<Rightarrow> Http2ndStream" where
  "Http2ndStream_push_frame f st =
     (if st_recvFrameFlags st then st\<lparr>st_frames := st_frames st @ [fst (Http2ndFrame_move_ctor f)]\<rparr> else st)"

fun derive_headers :: "derive_data \<Rightarrow> headers" where
  "derive_headers (Http2ndRequest h) = h"
| "derive_headers (Http2ndResponse h) = h"

fun map_headers :: "(headers \<Rightarrow> headers) \<Rightarrow> derive_data \<Rightarrow> derive_data" where
  "map_headers f (Http2ndRequest h) = Http2ndRequest (f h)"
| "map_headers f (Http2ndResponse h) = Http2ndResponse (f h)"

definition Http2ndStream_push_data :: "bytes \<Rightarrow> Http2ndStream \<Rightarrow> int \<times> Http2ndStream" where
  "Http2ndStream_push_data d st =
     (0, st\<lparr>st_derive_data := map_headers
              (\<lambda>h. h(''body'' \<mapsto> (case h ''body'' of None \<Rightarrow> d | Some b \<Rightarrow> b @ d))) (st_derive_data st)\<rparr>)"

definition Http2ndStream_push_header :: "string \<Rightarrow> string \<Rightarrow> Http2ndStream \<Rightarrow> int \<times> Http2ndStream" where
  "Http2ndStream_push_header name value st =
     (0, st\<lparr>st_derive_data := map_headers (\<lambda>h. h(name \<mapsto> value)) (st_derive_data st)\<rparr>)"

definition Http2ndStream_referent_request :: "Http2ndStream \<Rightarrow> headers option" where
  "Http2ndStream_referent_request st =
     (case st_derive_data st of Http2ndRequest h \<Rightarrow> Some h | Http2ndResponse _ \<Rightarrow> None)"

definition Http2ndStream_referent_response :: "Http2ndStream \<Rightarrow> headers option" where
  "Http2ndStream_referent_response st =
     (case st_derive_data st of Http2ndRequest _ \<Rightarrow> None | Http2ndResponse h \<Rightarrow> Some h)"

definition Http2ndStream_initAs :: "derive_data \<Rightarrow> Http2ndStream \<Rightarrow> int \<times> Http2ndStream" where
  "Http2ndStream_initAs d st = (0, st\<lparr>st_derive_data := d\<rparr>)"

definition Http2ndStream_enableFrameSave :: "bool \<Rightarrow> Http2ndStream \<Rightarrow> Http2ndStream" where
  "Http2ndStream_enableFrameSave b st = st\<lparr>st_recvFrameFlags := b\<rparr>"

definition Http2ndStream_clearFrameHistory :: "Http2ndStream \<Rightarrow> Http2ndStream" where
  "Http2ndStream_clearFrameHistory st = st\<lparr>st_frames := []\<rparr>"

lemmas Http2ndStream_defs [net_defs] =
  Http2ndStream_ctor_def Http2ndStream_push_frame_def Http2ndStream_push_data_def
  Http2ndStream_push_header_def Http2ndStream_referent_request_def Http2ndStream_referent_response_def
  Http2ndStream_initAs_def Http2ndStream_enableFrameSave_def Http2ndStream_clearFrameHistory_def

section \<open>Sessions\<close>

datatype nghttp2_session = No_Session | Server_Session | Client_Session

record Http2ndSession =
  h2_session :: nghttp2_session
  h2_endType :: int
  h2_streams :: "int \<rightharpoonup> Http2ndStream"
  h2_user_data :: "int \<rightharpoonup> int"

record 's CBGroup =
  onReqRecvDone :: "(int \<Rightarrow> 's \<Rightarrow> int \<times> 's) option"
  onStreamClosed :: "(int \<Rightarrow> u32 \<Rightarrow> 's \<Rightarrow> int \<times> 's) option"
  onHeadDone :: "(int \<Rightarrow> 's \<Rightarrow> int \<times> 's) option"
  onNewHead :: "(int \<Rightarrow> 's \<Rightarrow> int \<times> 's) option"
  onDataChunkRecv :: "(int \<Rightarrow> u8 \<Rightarrow> bytes \<Rightarrow> 's \<Rightarrow> int \<times> 's) option"
  onPushPromiseFrame :: "(int \<Rightarrow> nghttp2_frame \<Rightarrow> 's \<Rightarrow> int \<times> 's) option"

definition Http2ndSession_ctor :: "int \<Rightarrow> Http2ndSession" where
  "Http2ndSession_ctor endType =
     \<lparr>h2_session = (if endType = 1 then Server_Session else if endType = 2 then Client_Session else No_Session),
      h2_endType = endType, h2_streams = Map.empty, h2_user_data = Map.empty\<rparr>"

definition invoke :: "('a \<Rightarrow> 's \<Rightarrow> int \<times> 's) option \<Rightarrow> 'a \<Rightarrow> 's \<Rightarrow> (int \<times> 's) outcome" where
  "invoke f x s = (case f of None \<Rightarrow> Inl Bad_Function_Call | Some g \<Rightarrow> Inr (g x s))"

text \<open>
  How three of the callbacks find their stream: the user pointer if nghttp2 has one, else
  \<open>streams[id]\<close>, which creates the stream when there is none.
\<close>

definition stream_of :: "int \<Rightarrow> ('w) Http2ndSession_scheme \<Rightarrow> int \<times> 'w Http2ndSession_scheme" where
  "stream_of i s =
     (case h2_user_data s i of
        Some p \<Rightarrow> (p, s)
      | None \<Rightarrow> (i, case h2_streams s i of
                      Some _ \<Rightarrow> s
                    | None \<Rightarrow> s\<lparr>h2_streams := (h2_streams s)(i \<mapsto> Http2ndStream_ctor)\<rparr>))"

definition upd_stream ::
  "int \<Rightarrow> (Http2ndStream \<Rightarrow> Http2ndStream) \<Rightarrow> 'w Http2ndSession_scheme \<Rightarrow> 'w Http2ndSession_scheme" where
  "upd_stream i f s = s\<lparr>h2_streams := (h2_streams s)(i := map_option f (h2_streams s i))\<rparr>"

definition NGHTTP2_FLAG_END_STREAM :: u8 where
  "NGHTTP2_FLAG_END_STREAM = 1"

definition NGHTTP2_FLAG_END_HEADERS :: u8 where
  "NGHTTP2_FLAG_END_HEADERS = 4"

definition nghttp2OnFrameRecv ::
  "'w Http2ndSession_scheme CBGroup \<Rightarrow> nghttp2_frame \<Rightarrow> 'w Http2ndSession_scheme
     \<Rightarrow> (int \<times> 'w Http2ndSession_scheme) outcome" where
  "nghttp2OnFrameRecv cbs f s =
     (let flags = hd_flags (frame_header f);
          (p, s1) = stream_of (sint (hd_stream_id (frame_header f))) s;
          s2 = upd_stream p (Http2ndStream_push_frame (Http2ndFrame_ctor f)) s1
      in bind_out (if flags AND NGHTTP2_FLAG_END_HEADERS \<noteq> 0 then invoke (onHeadDone cbs) p s2 else Inr (0, s2))
           (\<lambda>(ret, s3).
              if ret \<noteq> 0 then Inr (ret, s3)
              else if flags AND NGHTTP2_FLAG_END_STREAM \<noteq> 0 then invoke (onReqRecvDone cbs) p s3
              else Inr (ret, s3)))"

text \<open>
  The stream's iterator is found first and erased after the callback; a callback that erases the
  stream itself would leave the iterator dangling.
\<close>

definition nghttp2OnStreamClose ::
  "'w Http2ndSession_scheme CBGroup \<Rightarrow> int \<Rightarrow> u32 \<Rightarrow> 'w Http2ndSession_scheme
     \<Rightarrow> (int \<times> 'w Http2ndSession_scheme) outcome" where
  "nghttp2OnStreamClose cbs i error_code s =
     (case h2_streams s i of
        None \<Rightarrow> Inr (0, s)
      | Some _ \<Rightarrow>
          (case onStreamClosed cbs of
             None \<Rightarrow> Inl Bad_Function_Call
           | Some g \<Rightarrow>
               let (ret, s1) = g i error_code s
               in if h2_streams s1 i = None then Inl Bad_Iterator
                  else Inr (ret, s1\<lparr>h2_streams := (h2_streams s1)(i := None)\<rparr>)))"

definition nghttp2OnHeadDone ::
  "nghttp2_frame \<Rightarrow> bytes \<Rightarrow> nat \<Rightarrow> bytes \<Rightarrow> nat \<Rightarrow> 'w Http2ndSession_scheme
     \<Rightarrow> int \<times> 'w Http2ndSession_scheme" where
  "nghttp2OnHeadDone f name namelen value valuelen s =
     (let (p, s1) = stream_of (sint (hd_stream_id (frame_header f))) s
      in (0, upd_stream p (\<lambda>st. snd (Http2ndStream_push_header (take namelen name) (take valuelen value) st)) s1))"

definition header_category :: "nghttp2_frame \<Rightarrow> headers_category option" where
  "header_category f = (case f of NG_HEADERS h \<Rightarrow> Some (ngh_cat h) | _ \<Rightarrow> None)"

definition nghttp2OnHeader ::
  "'w Http2ndSession_scheme CBGroup \<Rightarrow> nghttp2_frame \<Rightarrow> 'w Http2ndSession_scheme
     \<Rightarrow> (int \<times> 'w Http2ndSession_scheme) outcome" where
  "nghttp2OnHeader cbs f s =
     (case header_category f of
        None \<Rightarrow> Inr (0, s)
      | Some cat \<Rightarrow>
          if cat \<noteq> HCAT_REQUEST \<or> cat \<noteq> HCAT_RESPONSE \<or> cat \<noteq> HCAT_PUSH_RESPONSE then Inr (0, s)
          else
            let i = sint (hd_stream_id (frame_header f));
                st0 = (case h2_streams s i of None \<Rightarrow> Http2ndStream_ctor | Some st \<Rightarrow> st)\<lparr>st_id := i\<rparr>;
                st1 = (if cat = HCAT_REQUEST then snd (Http2ndStream_initAs (Http2ndRequest Map.empty) st0)
                       else if cat = HCAT_RESPONSE then snd (Http2ndStream_initAs (Http2ndResponse Map.empty) st0)
                       else st0);
                s1 = s\<lparr>h2_streams := (h2_streams s)(i \<mapsto> st1)\<rparr>
            in bind_out (if cat = HCAT_PUSH_RESPONSE
                         then invoke (map_option (\<lambda>g p. g p f) (onPushPromiseFrame cbs)) i s1 else Inr (0, s1))
                 (\<lambda>(_, s2).
                   let s3 = s2\<lparr>h2_user_data := (h2_user_data s2)(i \<mapsto> i)\<rparr>
                   in if cat = HCAT_PUSH_RESPONSE
                      then bind_out (invoke (map_option (\<lambda>g p. g p f) (onPushPromiseFrame cbs)) i s3)
                             (\<lambda>(_, s4). Inr (0, s4))
                      else invoke (onNewHead cbs) i s3))"

definition nghttp2OnDataChunkRecv ::
  "'w Http2ndSession_scheme CBGroup \<Rightarrow> u8 \<Rightarrow> int \<Rightarrow> bytes \<Rightarrow> nat \<Rightarrow> 'w Http2ndSession_scheme
     \<Rightarrow> (int \<times> 'w Http2ndSession_scheme) outcome" where
  "nghttp2OnDataChunkRecv cbs flags i d len s =
     (let (p, s1) = stream_of i s
      in invoke (map_option (\<lambda>g p. g p flags (take len d)) (onDataChunkRecv cbs)) p s1)"

definition nghttp2RealSend :: "(bytes \<Rightarrow> bool) \<Rightarrow> bytes \<Rightarrow> nat \<Rightarrow> int" where
  "nghttp2RealSend asend d len =
     (if len = 0 then 0 else if asend (take len d) then int len else -1)"

definition nghttp2RealRecv :: "int \<Rightarrow> int \<Rightarrow> int" where
  "nghttp2RealRecv mem_recv session_send =
     (if mem_recv < 0 then -1 else if session_send \<noteq> 0 then -2 else mem_recv)"

definition Http2ndSession_tryHandShakeAndInit :: "int \<Rightarrow> bool \<Rightarrow> bool" where
  "Http2ndSession_tryHandShakeAndInit handShake startListenReadEvent =
     (if handShake \<noteq> 1 then False else startListenReadEvent)"

section \<open>Events of a session\<close>

text \<open>
  What nghttp2 reports to the callbacks the session registers: the beginning of a header block, each of its fields, a whole frame, a chunk of
  data, the end of a stream. A callback's answer goes back to nghttp2.
\<close>

datatype h2_event =
    Begin_Headers nghttp2_frame
  | Header_Field nghttp2_frame string string
  | Frame_Recv nghttp2_frame
  | Data_Chunk u8 int bytes
  | Stream_Closed int u32

fun h2_report ::
  "'w Http2ndSession_scheme CBGroup \<Rightarrow> h2_event \<Rightarrow> 'w Http2ndSession_scheme \<Rightarrow> (int \<times> 'w Http2ndSession_scheme) outcome" where
  "h2_report cbs (Begin_Headers f) s = nghttp2OnHeader cbs f s"
| "h2_report cbs (Header_Field f name value) s = Inr (nghttp2OnHeadDone f name (length name) value (length value) s)"
| "h2_report cbs (Frame_Recv f) s = nghttp2OnFrameRecv cbs f s"
| "h2_report cbs (Data_Chunk flags i d) s = nghttp2OnDataChunkRecv cbs flags i d (length d) s"
| "h2_report cbs (Stream_Closed i error_code) s = nghttp2OnStreamClose cbs i error_code s"

definition h2_receive ::
  "'w Http2ndSession_scheme CBGroup \<Rightarrow> h2_event \<Rightarrow> 'w Http2ndSession_scheme \<Rightarrow> 'w Http2ndSession_scheme outcome" where
  "h2_receive cbs e s = bind_out (h2_report cbs e s) (\<lambda>(_, s'). Inr s')"

text \<open>User callbacks that are all set and leave the streams of the session alone; what else they do is free.\<close>

definition spares :: "('w Http2ndSession_scheme \<Rightarrow> int \<times> 'w Http2ndSession_scheme) \<Rightarrow> bool" where
  "spares g \<longleftrightarrow> (\<forall>s. h2_streams (snd (g s)) = h2_streams s \<and> h2_user_data (snd (g s)) = h2_user_data s)"

definition observing :: "'w Http2ndSession_scheme CBGroup \<Rightarrow> bool" where
  "observing cbs \<longleftrightarrow>
     (\<exists>g. onReqRecvDone cbs = Some g \<and> (\<forall>i. spares (g i))) \<and> (\<exists>g. onHeadDone cbs = Some g \<and> (\<forall>i. spares (g i)))
     \<and> (\<exists>g. onNewHead cbs = Some g \<and> (\<forall>i. spares (g i))) \<and> (\<exists>g. onStreamClosed cbs = Some g \<and> (\<forall>i e. spares (g i e)))
     \<and> (\<exists>g. onDataChunkRecv cbs = Some g \<and> (\<forall>i fl d. spares (g i fl d)))
     \<and> (\<exists>g. onPushPromiseFrame cbs = Some g \<and> (\<forall>i f. spares (g i f)))"

text \<open>The stream an event makes appear, the fields it carries for a stream, and the end of a stream.\<close>

definition frame_stream :: "nghttp2_frame \<Rightarrow> int" where
  "frame_stream f = sint (hd_stream_id (frame_header f))"

fun touches :: "int \<Rightarrow> h2_event \<Rightarrow> bool" where
  "touches i (Header_Field f name value) \<longleftrightarrow> frame_stream f = i"
| "touches i (Frame_Recv f) \<longleftrightarrow> frame_stream f = i"
| "touches i (Data_Chunk flags j d) \<longleftrightarrow> j = i"
| "touches i _ \<longleftrightarrow> False"

fun fields_of :: "int \<Rightarrow> h2_event \<Rightarrow> (string \<times> string) list" where
  "fields_of i (Header_Field f name value) = (if frame_stream f = i then [(name, value)] else [])"
| "fields_of i _ = []"

fun closes :: "int \<Rightarrow> h2_event \<Rightarrow> bool" where
  "closes i (Stream_Closed j e) \<longleftrightarrow> j = i"
| "closes i _ \<longleftrightarrow> False"

definition since_close :: "int \<Rightarrow> h2_event list \<Rightarrow> h2_event list" where
  "since_close i es = rev (takeWhile (\<lambda>e. \<not> closes i e) (rev es))"

definition fields_since :: "int \<Rightarrow> h2_event list \<Rightarrow> headers option" where
  "fields_since i es =
     (if list_ex (touches i) (since_close i es) then Some (map_of (rev (concat (map (fields_of i) (since_close i es))))) else None)"

text \<open>A stream no header block was begun for: the constructor's, with the fields it was given.\<close>

definition plain_stream :: "headers \<Rightarrow> Http2ndStream" where
  "plain_stream h = \<lparr>st_id = 0, st_derive_data = Http2ndRequest h, st_frames = [], st_recvFrameFlags = False\<rparr>"

lemma push_header_plain: "snd (Http2ndStream_push_header n v (plain_stream h)) = plain_stream (h(n \<mapsto> v))"
  by (simp add: plain_stream_def net_defs)

lemma push_frame_plain: "Http2ndStream_push_frame f (plain_stream h) = plain_stream h"
  by (simp add: plain_stream_def net_defs)

lemma ctor_plain: "Http2ndStream_ctor = plain_stream Map.empty"
  by (simp add: plain_stream_def net_defs)

lemma on_header_nothing: "nghttp2OnHeader cbs f s = Inr (0, s)"
  by (auto simp: nghttp2OnHeader_def split: option.splits)

text \<open>The table of headers an event leads to.\<close>

definition reached :: "int \<Rightarrow> (int \<rightharpoonup> headers) \<Rightarrow> headers" where
  "reached i g = (case g i of None \<Rightarrow> Map.empty | Some h \<Rightarrow> h)"

fun h2_table :: "h2_event \<Rightarrow> (int \<rightharpoonup> headers) \<Rightarrow> (int \<rightharpoonup> headers)" where
  "h2_table (Begin_Headers f) g = g"
| "h2_table (Header_Field f n v) g = g(frame_stream f \<mapsto> (reached (frame_stream f) g)(n \<mapsto> v))"
| "h2_table (Frame_Recv f) g = g(frame_stream f \<mapsto> reached (frame_stream f) g)"
| "h2_table (Data_Chunk fl i d) g = g(i \<mapsto> reached i g)"
| "h2_table (Stream_Closed i e) g = g(i := None)"

definition h2_holds :: "'w Http2ndSession_scheme \<Rightarrow> (int \<rightharpoonup> headers) \<Rightarrow> bool" where
  "h2_holds s g \<longleftrightarrow> h2_user_data s = Map.empty \<and> h2_streams s = (\<lambda>i. map_option plain_stream (g i))"

lemma stream_of_holds:
  assumes "h2_holds s g"
  shows "\<exists>s1. stream_of i s = (i, s1) \<and> h2_holds s1 (g(i \<mapsto> reached i g))"
  using assms by (cases "g i") (auto simp: stream_of_def h2_holds_def reached_def ctor_plain fun_eq_iff)

lemma upd_stream_holds:
  assumes "h2_holds s g" and "\<And>h. f (plain_stream h) = plain_stream (k h)"
  shows "h2_holds (upd_stream i f s) (g(i := map_option k (g i)))"
  using assms by (cases "g i") (auto simp: upd_stream_def h2_holds_def fun_eq_iff)

lemma spares_holds: "spares g \<Longrightarrow> h2_holds (snd (g s)) h \<longleftrightarrow> h2_holds s h"
  by (simp add: spares_def h2_holds_def)

lemma h2_receive_holds:
  assumes o: "observing cbs" and s: "h2_holds s g"
  shows "\<exists>s'. h2_receive cbs e s = Inr s' \<and> h2_holds s' (h2_table e g)"
proof (cases e)
  case (Begin_Headers f)
  then show ?thesis using s by (simp add: h2_receive_def on_header_nothing)
next
  case (Header_Field f n v)
  obtain s1 where s1: "stream_of (frame_stream f) s = (frame_stream f, s1)" "h2_holds s1 (g(frame_stream f \<mapsto> reached (frame_stream f) g))"
    using stream_of_holds[OF s] by blast
  from upd_stream_holds[OF s1(2), where f = "\<lambda>st. snd (Http2ndStream_push_header n v st)" and k = "\<lambda>h. h(n \<mapsto> v)" and i = "frame_stream f"]
  show ?thesis using s1(1) Header_Field by (simp add: h2_receive_def nghttp2OnHeadDone_def frame_stream_def push_header_plain)
next
  case (Frame_Recv f)
  obtain s1 where s1: "stream_of (frame_stream f) s = (frame_stream f, s1)" "h2_holds s1 (g(frame_stream f \<mapsto> reached (frame_stream f) g))"
    using stream_of_holds[OF s] by blast
  let ?s2 = "upd_stream (frame_stream f) (Http2ndStream_push_frame (Http2ndFrame_ctor f)) s1"
  from upd_stream_holds[OF s1(2), where f = "Http2ndStream_push_frame (Http2ndFrame_ctor f)" and k = "\<lambda>h. h" and i = "frame_stream f"]
  have s2: "h2_holds ?s2 (h2_table e g)" using Frame_Recv by (simp add: push_frame_plain)
  obtain hd rd where c: "onHeadDone cbs = Some hd" "spares (hd (frame_stream f))" "onReqRecvDone cbs = Some rd" "spares (rd (frame_stream f))"
    using o by (auto simp: observing_def)
  show ?thesis
    using s1(1) s2 c Frame_Recv
    by (auto simp: h2_receive_def nghttp2OnFrameRecv_def frame_stream_def[symmetric] invoke_def split_beta spares_holds Let_def)
next
  case (Data_Chunk fl i d)
  obtain s1 where s1: "stream_of i s = (i, s1)" "h2_holds s1 (g(i \<mapsto> reached i g))" using stream_of_holds[OF s] by blast
  obtain dc where c: "onDataChunkRecv cbs = Some dc" "spares (dc i fl d)" using o by (auto simp: observing_def)
  show ?thesis using s1 c Data_Chunk by (simp add: h2_receive_def nghttp2OnDataChunkRecv_def invoke_def split_beta spares_holds)
next
  case (Stream_Closed i ec)
  obtain sc where c: "onStreamClosed cbs = Some sc" "spares (sc i ec)" using o by (auto simp: observing_def)
  show ?thesis
  proof (cases "g i")
    case None
    then have "g(i := None) = g" "h2_streams s i = None" using s by (auto simp: h2_holds_def)
    then show ?thesis using s Stream_Closed by (simp add: h2_receive_def nghttp2OnStreamClose_def)
  next
    case (Some h)
    have "h2_holds (snd (sc i ec s)) g" using s by (simp add: spares_holds[OF c(2)])
    then show ?thesis
      using s c Stream_Closed Some
      by (auto simp: h2_receive_def nghttp2OnStreamClose_def h2_holds_def split_beta Let_def fun_eq_iff)
  qed
qed

lemma h2_receive_all:
  assumes o: "observing cbs"
  shows "h2_holds s g \<Longrightarrow> \<exists>s'. fold_out (h2_receive cbs) es s = Inr s' \<and> h2_holds s' (fold h2_table es g)"
proof (induction es arbitrary: s g)
  case (Cons e es)
  obtain s1 where "h2_receive cbs e s = Inr s1" "h2_holds s1 (h2_table e g)" using h2_receive_holds[OF o Cons.prems] by blast
  then show ?case using Cons.IH[of s1 "h2_table e g"] by simp
qed simp

lemma since_close_snoc: "since_close i (es @ [e]) = (if closes i e then [] else since_close i es @ [e])"
  by (simp add: since_close_def)

lemma untouched_fields: "\<not> list_ex (touches i) es \<Longrightarrow> concat (map (fields_of i) es) = []"
proof (induction es)
  case (Cons e es)
  then show ?case by (cases e) auto
qed simp

lemma h2_table_fields: "fold h2_table es Map.empty i = fields_since i es"
proof (induction es rule: rev_induct)
  case (snoc e es)
  have r: "reached i (fold h2_table es Map.empty) = map_of (rev (concat (map (fields_of i) (since_close i es))))"
    using snoc untouched_fields[of i "since_close i es"] by (simp add: reached_def fields_since_def)
  show ?case using snoc r by (cases e) (auto simp: fields_since_def since_close_snoc)
qed (simp add: fields_since_def since_close_def)

section \<open>Properties\<close>

text \<open>
  Property C34. Headers reach their stream, and nothing else does. Whatever nghttp2 reports to a new session, beginnings of header blocks, fields, frames,
  chunks of data and ends of streams in any order, and whatever the user's callbacks do elsewhere: no callback faults; a
  stream is there exactly if something but the beginning of a block was reported for it since it last ended; it holds exactly the fields reported for it since then, the last
  value of a name. But it has id 0, is a request, on a client session too, and holds no frame: the callback for the beginning of a block, which should set these, does nothing, because its
  guard asks whether the category differs from one of three values.
\<close>

theorem Http2_headers_reach_stream:
  assumes "observing cbs" and "Http2ndSession.truncate s = Http2ndSession_ctor endType"
  shows "\<exists>s'. fold_out (h2_receive cbs) es s = Inr s'
     \<and> (\<forall>i. h2_streams s' i = (case fields_since i es of
              None \<Rightarrow> None
            | Some h \<Rightarrow> Some \<lparr>st_id = 0, st_derive_data = Http2ndRequest h, st_frames = [], st_recvFrameFlags = False\<rparr>))"
proof -
  have "h2_streams s = Map.empty" "h2_user_data s = Map.empty"
    using assms(2) by (simp_all add: Http2ndSession.truncate_def Http2ndSession_ctor_def)
  then have "h2_holds s Map.empty" by (simp add: h2_holds_def)
  from h2_receive_all[OF assms(1) this, of es] obtain s' where s': "fold_out (h2_receive cbs) es s = Inr s'"
    "h2_streams s' = (\<lambda>i. map_option plain_stream (fold h2_table es Map.empty i))" unfolding h2_holds_def by blast
  show ?thesis
    by (rule exI[of _ s']) (simp add: s' h2_table_fields plain_stream_def split: option.splits)
qed

text \<open>A response on a client session: its block is begun, it has two fields, the second twice, the frame is complete.\<close>

definition quiet_callbacks :: "Http2ndSession CBGroup" where
  "quiet_callbacks = \<lparr>onReqRecvDone = Some (\<lambda>_ s. (0, s)), onStreamClosed = Some (\<lambda>_ _ s. (0, s)), onHeadDone = Some (\<lambda>_ s. (0, s)),
     onNewHead = Some (\<lambda>_ s. (0, s)), onDataChunkRecv = Some (\<lambda>_ _ _ s. (0, s)), onPushPromiseFrame = Some (\<lambda>_ _ s. (0, s))\<rparr>"

definition response_frame :: "priority_spec \<Rightarrow> nghttp2_frame" where
  "response_frame pri = NG_HEADERS \<lparr>ngh_hd = \<lparr>hd_length = 9, hd_stream_id = 3, hd_type = 1, hd_flags = 5, hd_reserved = 0\<rparr>, ngh_padlen = 0,
     ngh_pri_spec = pri, ngh_nva = [], ngh_nvlen = 0, ngh_cat = HCAT_RESPONSE\<rparr>"

theorem Http2_headers_reach_stream_witness:
  "\<forall>pri. \<exists>s'. fold_out (h2_receive quiet_callbacks)
       [Begin_Headers (response_frame pri), Header_Field (response_frame pri) '':status'' ''200'', Header_Field (response_frame pri) ''a'' ''1'',
        Header_Field (response_frame pri) ''a'' ''2'', Frame_Recv (response_frame pri)] (Http2ndSession_ctor 2) = Inr s'
     \<and> h2_streams s' 3 = Some \<lparr>st_id = 0, st_derive_data = Http2ndRequest ['':status'' \<mapsto> ''200'', ''a'' \<mapsto> ''2''],
         st_frames = [], st_recvFrameFlags = False\<rparr>"
proof
  fix pri
  let ?f = "response_frame pri"
  let ?es = "[Begin_Headers ?f, Header_Field ?f '':status'' ''200'', Header_Field ?f ''a'' ''1'', Header_Field ?f ''a'' ''2'', Frame_Recv ?f]"
  have o: "observing quiet_callbacks" by (auto simp: observing_def quiet_callbacks_def spares_def)
  have t: "Http2ndSession.truncate (Http2ndSession_ctor 2) = Http2ndSession_ctor 2" by (simp add: Http2ndSession.truncate_def)
  have f: "frame_stream ?f = 3" by (simp add: frame_stream_def response_frame_def)
  have "fields_since 3 ?es = Some ['':status'' \<mapsto> ''200'', ''a'' \<mapsto> ''2'']"
    by (simp add: fields_since_def since_close_def f fun_eq_iff)
  then show "\<exists>s'. fold_out (h2_receive quiet_callbacks) ?es (Http2ndSession_ctor 2) = Inr s'
     \<and> h2_streams s' 3 = Some \<lparr>st_id = 0, st_derive_data = Http2ndRequest ['':status'' \<mapsto> ''200'', ''a'' \<mapsto> ''2''],
         st_frames = [], st_recvFrameFlags = False\<rparr>"
    using Http2_headers_reach_stream[OF o t, of ?es] by (elim exE conjE) (rule exI, rule conjI, assumption, simp)
qed

text \<open>
  The callback registered for the beginning of headers never does anything: its guard
  asks whether the category differs from one of three different values, which is always so. No
  new stream is announced, no push promise is delivered, no user pointer is set.
\<close>

theorem nghttp2OnHeader_dead: "nghttp2OnHeader cbs f s = Inr (0, s)"
  by (rule on_header_nothing)

text \<open>
  A received frame, on a session without user pointers. The head callback runs exactly
  when END_HEADERS is set and before the request callback, which runs exactly when END_STREAM is
  set and the head callback returned 0; a missing callback throws; and with frame saving on, the
  frame recorded for the stream is blank whatever the frame was.
\<close>

theorem nghttp2OnFrameRecv_spec:
  assumes "h2_user_data s i = None" and "i = sint (hd_stream_id (frame_header f))"
    and "h2_streams s i = Some st" and "onHeadDone cbs = Some hdone" and "onReqRecvDone cbs = Some rdone"
  shows "\<exists>s1. nghttp2OnFrameRecv cbs f s =
       (let (r1, s2) = (if hd_flags (frame_header f) AND 4 \<noteq> 0 then hdone i s1 else (0, s1))
        in Inr (if r1 = 0 \<and> hd_flags (frame_header f) AND 1 \<noteq> 0 then rdone i s2 else (r1, s2)))
     \<and> h2_streams s1 = (h2_streams s)(i \<mapsto>
         st\<lparr>st_frames := st_frames st @ (if st_recvFrameFlags st then [\<lparr>frame = Blank\<rparr>] else [])\<rparr>)"
  using assms
  by (intro exI[of _ "upd_stream i (Http2ndStream_push_frame (Http2ndFrame_ctor f)) s"])
    (auto simp: nghttp2OnFrameRecv_def stream_of_def upd_stream_def invoke_def split_beta Let_def
      NGHTTP2_FLAG_END_STREAM_def NGHTTP2_FLAG_END_HEADERS_def Http2ndStream_push_frame_def
      Http2ndFrame_move_ctor_def Http2ndFrame_ctor0_def prod_eq_iff)

definition demo_session :: Http2ndSession where
  "demo_session = (Http2ndSession_ctor 1)\<lparr>h2_streams := [3 \<mapsto> Http2ndStream_enableFrameSave True Http2ndStream_ctor]\<rparr>"

definition demo_frame :: nghttp2_frame where
  "demo_frame = NG_RST_STREAM \<lparr>rs_hd = \<lparr>hd_length = 4, hd_stream_id = 3, hd_type = 3, hd_flags = 5,
     hd_reserved = 0\<rparr>, rs_error_code = 8\<rparr>"

definition demo_callbacks :: "Http2ndSession CBGroup" where
  "demo_callbacks = \<lparr>onReqRecvDone = Some (\<lambda>_ s. (7, s)), onStreamClosed = None,
       onHeadDone = Some (\<lambda>_ s. (0, s)), onNewHead = None, onDataChunkRecv = None, onPushPromiseFrame = None\<rparr>"

theorem nghttp2OnFrameRecv_spec_witness:
  "\<exists>s1. nghttp2OnFrameRecv demo_callbacks demo_frame demo_session = Inr (7, s1)"
proof -
  have f: "hd_flags (frame_header demo_frame) = 5" "3 = sint (hd_stream_id (frame_header demo_frame))"
    by (simp_all add: demo_frame_def)
  have w: "(5 :: u8) AND 4 \<noteq> 0" "(5 :: u8) AND 1 \<noteq> 0" by code_simp+
  have s: "h2_user_data demo_session 3 = None"
    "h2_streams demo_session 3 = Some (Http2ndStream_enableFrameSave True Http2ndStream_ctor)"
    by (simp_all add: demo_session_def Http2ndSession_ctor_def)
  have c: "onHeadDone demo_callbacks = Some (\<lambda>_ s. (0, s))" "onReqRecvDone demo_callbacks = Some (\<lambda>_ s. (7, s))"
    by (simp_all add: demo_callbacks_def)
  show ?thesis using nghttp2OnFrameRecv_spec[OF s(1) f(2) s(2) c] f(1) w by auto
qed

end
