(* ===== verification/Ssl_Model.thy ===== *)
theory Ssl_Model
  imports KV_Pair Unique_Owner
begin

text \<open>
  \<open>source/base/ssl.cpp\<close>: creation of TLS contexts with application-layer protocol negotiation
  (ALPN), and the owners of OpenSSL's handles. OpenSSL itself is not modelled: what its calls
  answer is an argument, and what the wrappers do to its objects is a list of effects. A
  protocol's callback \<open>'cb\<close> acts on the program state \<open>'s\<close> through the parameter \<open>call\<close>.
\<close>

section \<open>The protocol lists\<close>

record 'cb aSSLContextCreator =
  cr_next_proto_list :: bytes
  cr_protocbs :: "string \<rightharpoonup> 'cb option"
  cr_endType :: int

definition aSSLContextCreator_ctor :: "int \<Rightarrow> 'cb aSSLContextCreator" where
  "aSSLContextCreator_ctor endType = \<lparr>cr_next_proto_list = [], cr_protocbs = Map.empty, cr_endType = endType\<rparr>"

text \<open>One protocol in wire format: a length byte, the length taken modulo 256, and that many bytes.\<close>

definition wire_entry :: "string \<Rightarrow> bytes" where
  "wire_entry protocol =
     (let sz = length protocol mod 256 in char_of sz # take sz protocol)"

definition appendProtocolOnList :: "string \<Rightarrow> ('cb, 'z) aSSLContextCreator_scheme \<Rightarrow> ('cb, 'z) aSSLContextCreator_scheme" where
  "appendProtocolOnList protocol cr =
     cr\<lparr>cr_next_proto_list := cr_next_proto_list cr @ wire_entry protocol\<rparr>"

definition addProtocol :: "string \<times> 'cb option \<Rightarrow> ('cb, 'z) aSSLContextCreator_scheme \<Rightarrow> ('cb, 'z) aSSLContextCreator_scheme" where
  "addProtocol h cr =
     (let cr' = appendProtocolOnList (fst h) cr
      in cr'\<lparr>cr_protocbs := (cr_protocbs cr')(fst h \<mapsto> snd h)\<rparr>)"

definition setSupportedProtoForServer ::
  "(string \<times> 'cb option) list \<Rightarrow> ('cb, 'z) aSSLContextCreator_scheme \<Rightarrow> ('cb, 'z) aSSLContextCreator_scheme" where
  "setSupportedProtoForServer protoList cr = (fold addProtocol protoList cr)\<lparr>cr_endType := 1\<rparr>"

definition setSupportedProtoForClient ::
  "(string \<times> 'cb option) list \<Rightarrow> ('cb, 'z) aSSLContextCreator_scheme \<Rightarrow> ('cb, 'z) aSSLContextCreator_scheme" where
  "setSupportedProtoForClient protoList cr = (fold addProtocol protoList cr)\<lparr>cr_endType := 2\<rparr>"

text \<open>
  The selection loop over the client's list. It answers the code, the bytes selected if any, and
  the state; a length byte that points past the list is an out-of-range read.
\<close>

function select_loop ::
  "('cb \<Rightarrow> 's \<Rightarrow> bool \<times> 's) \<Rightarrow> (string \<rightharpoonup> 'cb option) \<Rightarrow> bytes \<Rightarrow> 's \<Rightarrow> (int \<times> string option \<times> 's) outcome" where
  "select_loop call cbs [] s = Inr (-1, None, s)"
| "select_loop call cbs (b # rest) s =
     (let sz = of_char b :: nat in
      if sz = 0 then Inr (-1, None, s)
      else if length rest < sz then Inl Out_Of_Range
      else case cbs (take sz rest) of
             None \<Rightarrow> Inr (-3, None, s)
           | Some None \<Rightarrow> select_loop call cbs (drop sz rest) s
           | Some (Some cb) \<Rightarrow>
               let (bret, s') = call cb s
               in Inr (if bret then (0, Some (take sz rest), s') else (-2, None, s')))"
  by pat_completeness auto
termination by (relation "measure (\<lambda>(_, _, bs, _). length bs)") auto

text \<open>\<open>decide\<close> is the user's replacement for the loop, if one was set.\<close>

definition select_next_protocol ::
  "('cb \<Rightarrow> 's \<Rightarrow> bool \<times> 's) \<Rightarrow> (bytes \<Rightarrow> 's \<Rightarrow> int \<times> string option \<times> 's) option
     \<Rightarrow> ('cb, 'z) aSSLContextCreator_scheme \<Rightarrow> bytes \<Rightarrow> 's \<Rightarrow> (int \<times> string option \<times> 's) outcome" where
  "select_next_protocol call decide cr inp s =
     (case decide of Some f \<Rightarrow> Inr (f inp s) | None \<Rightarrow> select_loop call (cr_protocbs cr) inp s)"

definition SSL_TLSEXT_ERR_OK :: int where "SSL_TLSEXT_ERR_OK = 0"

definition SSL_TLSEXT_ERR_NOACK :: int where "SSL_TLSEXT_ERR_NOACK = 3"

text \<open>The callback \<open>alpnForServer\<close> installs.\<close>

definition alpn_select_cb ::
  "('cb \<Rightarrow> 's \<Rightarrow> bool \<times> 's) \<Rightarrow> (bytes \<Rightarrow> 's \<Rightarrow> int \<times> string option \<times> 's) option
     \<Rightarrow> ('cb, 'z) aSSLContextCreator_scheme \<Rightarrow> bytes \<Rightarrow> 's \<Rightarrow> (int \<times> string option \<times> 's) outcome" where
  "alpn_select_cb call decide cr inp s =
     bind_out (select_next_protocol call decide cr inp s) (\<lambda>(rv, out, s').
       Inr (if rv \<noteq> 0 then SSL_TLSEXT_ERR_NOACK else SSL_TLSEXT_ERR_OK, out, s'))"

section \<open>Creating a context\<close>

record ctx_sys =
  sys_ctx :: "nat option"
  sys_curves :: int
  sys_key_file :: int
  sys_cert_file :: int
  sys_alpn_protos :: int

text \<open>
  \<open>startCreate\<close>: the code, the context returned, and the contexts freed on the way. On the
  server side \<open>alpnForServer\<close> always succeeds with the OpenSSL versions the source requires.
\<close>

definition startCreate :: "ctx_sys \<Rightarrow> int \<Rightarrow> ('cb, 'z) aSSLContextCreator_scheme \<Rightarrow> (int, nat option) KVPair \<times> nat list" where
  "startCreate sys mthd cr =
     (if mthd \<noteq> 1 \<and> mthd \<noteq> 2 then (KVPair_ctor (-2) None, [])
      else case sys_ctx sys of
        None \<Rightarrow> (KVPair_ctor (-3) None, [])
      | Some ctx \<Rightarrow>
          if sys_curves sys \<noteq> 1 then (KVPair_ctor (-4) None, [ctx])
          else if sys_key_file sys \<noteq> 1 then (KVPair_ctor (-5) None, [ctx])
          else if sys_cert_file sys \<noteq> 1 then (KVPair_ctor (-6) None, [ctx])
          else let bret = (if cr_endType cr = 1 then True
                           else if cr_endType cr = 2 then sys_alpn_protos sys = 0
                           else False)
               in if \<not> bret then (KVPair_ctor (-7) None, [ctx]) else (KVPair_ctor 0 (Some ctx), []))"

section \<open>Owners of handles\<close>

datatype ssl_effect = CTX_free nat | SSL_free nat | SSL_shutdown nat

record aSSLContext =
  m_ctx :: "nat option"

definition aSSLContext_ctor :: aSSLContext where
  "aSSLContext_ctor = \<lparr>m_ctx = None\<rparr>"

definition aSSLContext_ctor_ptr :: "nat option \<Rightarrow> aSSLContext" where
  "aSSLContext_ctor_ptr ctx = \<lparr>m_ctx = ctx\<rparr>"

definition aSSLContext_move_ctor :: "aSSLContext \<Rightarrow> aSSLContext \<times> aSSLContext" where
  "aSSLContext_move_ctor c = (\<lparr>m_ctx = m_ctx c\<rparr>, c\<lparr>m_ctx := None\<rparr>)"

definition aSSLContext_dtor :: "aSSLContext \<Rightarrow> ssl_effect list" where
  "aSSLContext_dtor c = (case m_ctx c of None \<Rightarrow> [] | Some p \<Rightarrow> [CTX_free p])"

definition aSSLContext_move_assign :: "aSSLContext \<Rightarrow> aSSLContext \<Rightarrow> ssl_effect list \<times> aSSLContext \<times> aSSLContext" where
  "aSSLContext_move_assign this c = (aSSLContext_dtor this, c, c\<lparr>m_ctx := None\<rparr>)"

text \<open>The handles freed among the calls of OpenSSL, by the function that frees them.\<close>

definition freed_ctx :: "ssl_effect list \<Rightarrow> nat list" where
  "freed_ctx eff = concat (map (\<lambda>e. case e of CTX_free p \<Rightarrow> [p] | _ \<Rightarrow> []) eff)"

definition freed_ssl :: "ssl_effect list \<Rightarrow> nat list" where
  "freed_ssl eff = concat (map (\<lambda>e. case e of SSL_free p \<Rightarrow> [p] | _ \<Rightarrow> []) eff)"

interpretation ctx_owner: unique_owner "\<lambda>c. pointee (m_ctx c)" "\<lambda>_. True" "\<lambda>h. aSSLContext_ctor_ptr (Some h)" "\<lambda>c. freed_ctx (aSSLContext_dtor c)"
  aSSLContext_move_ctor "\<lambda>s c. case aSSLContext_move_assign s c of (eff, s', c') \<Rightarrow> (freed_ctx eff, s', c')"
  by unfold_locales
    (auto simp: freed_ctx_def aSSLContext_dtor_def aSSLContext_move_ctor_def aSSLContext_move_assign_def aSSLContext_ctor_ptr_def split: option.splits)

definition aSSLContext_take :: "aSSLContext \<Rightarrow> nat option \<times> aSSLContext" where
  "aSSLContext_take c = (m_ctx c, c\<lparr>m_ctx := None\<rparr>)"

record aSSL =
  m_ssl :: "nat option"

definition aSSL_ctor :: aSSL where
  "aSSL_ctor = \<lparr>m_ssl = None\<rparr>"

text \<open>From a context: what \<open>SSL_new\<close> answers is the handle.\<close>

definition aSSL_ctor_ctx :: "nat option \<Rightarrow> aSSL" where
  "aSSL_ctor_ctx new = \<lparr>m_ssl = new\<rparr>"

definition aSSL_move_ctor :: "aSSL \<Rightarrow> aSSL \<times> aSSL" where
  "aSSL_move_ctor s = (\<lparr>m_ssl = m_ssl s\<rparr>, s\<lparr>m_ssl := None\<rparr>)"

definition aSSL_dtor :: "aSSL \<Rightarrow> ssl_effect list" where
  "aSSL_dtor s = (case m_ssl s of None \<Rightarrow> [] | Some p \<Rightarrow> [SSL_free p])"

definition aSSL_move_assign :: "aSSL \<Rightarrow> aSSL \<Rightarrow> ssl_effect list \<times> aSSL \<times> aSSL" where
  "aSSL_move_assign this s = (aSSL_dtor this, s, s\<lparr>m_ssl := None\<rparr>)"

interpretation ssl_owner: unique_owner "\<lambda>s. pointee (m_ssl s)" "\<lambda>_. True" "\<lambda>h. aSSL_ctor_ctx (Some h)" "\<lambda>s. freed_ssl (aSSL_dtor s)"
  aSSL_move_ctor "\<lambda>s a. case aSSL_move_assign s a of (eff, s', a') \<Rightarrow> (freed_ssl eff, s', a')"
  by unfold_locales (auto simp: freed_ssl_def aSSL_dtor_def aSSL_move_ctor_def aSSL_move_assign_def aSSL_ctor_ctx_def split: option.splits)

definition aSSL_valid :: "aSSL \<Rightarrow> bool" where
  "aSSL_valid s \<longleftrightarrow> m_ssl s \<noteq> None"

definition aSSL_take_ssl :: "aSSL \<Rightarrow> nat option \<times> aSSL" where
  "aSSL_take_ssl s = (m_ssl s, s\<lparr>m_ssl := None\<rparr>)"

definition selectedProtocolForClient :: "(bytes \<times> nat) option \<Rightarrow> string" where
  "selectedProtocolForClient alpn_selected =
     (case alpn_selected of None \<Rightarrow> [] | Some (str, len) \<Rightarrow> if len \<noteq> 0 then take len str else [])"

record aSSLSocketIO =
  io_ssl :: aSSL
  io_endType :: int

definition aSSLSocketIO_shutdown :: "int \<Rightarrow> aSSLSocketIO \<Rightarrow> int \<times> ssl_effect list \<times> aSSLSocketIO" where
  "aSSLSocketIO_shutdown ret io =
     (if aSSL_valid (io_ssl io)
      then let (p, s) = aSSL_take_ssl (io_ssl io)
           in (ret, map SSL_shutdown (case p of None \<Rightarrow> [] | Some h \<Rightarrow> [h]), io\<lparr>io_ssl := s\<rparr>)
      else (0, [], io))"

text \<open>The destructor's body, and then the destructor of the member.\<close>

definition aSSLSocketIO_dtor :: "int \<Rightarrow> aSSLSocketIO \<Rightarrow> ssl_effect list" where
  "aSSLSocketIO_dtor ret io =
     (let (_, eff, io') = aSSLSocketIO_shutdown ret io in eff @ aSSL_dtor (io_ssl io'))"

definition aSSLSocketIO_upgradeFromSSL :: "aSSL \<Rightarrow> aSSLSocketIO \<Rightarrow> ssl_effect list \<times> aSSL \<times> aSSLSocketIO" where
  "aSSLSocketIO_upgradeFromSSL ssl io =
     (let (eff, new, old) = aSSL_move_assign (io_ssl io) ssl in (eff, old, io\<lparr>io_ssl := new\<rparr>))"

text \<open>
  \<open>read\<close>: after the read that fills OpenSSL's buffer, \<open>pending\<close> bytes wait; the second read writes
  the front of a zeroed buffer of that size, and the size of the buffer is returned, not the
  count the read answered.
\<close>

definition aSSLSocketIO_read :: "int \<Rightarrow> bytes \<Rightarrow> (int, bytes) KVPair" where
  "aSSLSocketIO_read pending got =
     (if pending \<le> 0 then KVPair_ctor (-1) []
      else let n = nat pending; buffer = take n got @ replicate (n - length got) (CHR 0x00)
           in KVPair_ctor pending buffer)"

section \<open>Round trip of the wire format\<close>

definition wire :: "string list \<Rightarrow> bytes" where
  "wire ps = concat (map wire_entry ps)"

definition proto_ok :: "string \<Rightarrow> bool" where
  "proto_ok p \<longleftrightarrow> 0 < length p \<and> length p < 256"

text \<open>The reference: negotiation over the list of names itself.\<close>

fun select_ref ::
  "('cb \<Rightarrow> 's \<Rightarrow> bool \<times> 's) \<Rightarrow> (string \<rightharpoonup> 'cb option) \<Rightarrow> string list \<Rightarrow> 's \<Rightarrow> int \<times> string option \<times> 's" where
  "select_ref call cbs [] s = (-1, None, s)"
| "select_ref call cbs (p # ps) s =
     (case cbs p of
        None \<Rightarrow> (-3, None, s)
      | Some None \<Rightarrow> select_ref call cbs ps s
      | Some (Some cb) \<Rightarrow> let (b, s') = call cb s in if b then (0, Some p, s') else (-2, None, s'))"

lemma wire_entry_ok: "proto_ok p \<Longrightarrow> wire_entry p = char_of (length p) # p"
  by (simp add: wire_entry_def proto_ok_def)

lemma select_loop_wire:
  "list_all proto_ok ps \<Longrightarrow> select_loop call cbs (wire ps) s = Inr (select_ref call cbs ps s)"
proof (induction ps arbitrary: s)
  case (Cons p ps)
  then have p: "wire (p # ps) = char_of (length p) # p @ wire ps" "0 < length p" "length p < 256"
    by (simp_all add: wire_def wire_entry_ok proto_ok_def)
  have "of_char (char_of (length p) :: char) = length p" using p(3) by simp
  then show ?case
    using p Cons by (simp add: Let_def split_beta split: option.splits)
qed (simp add: wire_def)

lemma addProtocol_fold:
  "cr_next_proto_list (fold addProtocol hs cr) = cr_next_proto_list cr @ wire (map fst hs)"
  "cr_protocbs (fold addProtocol hs cr) = fold (\<lambda>h m. m(fst h \<mapsto> snd h)) hs (cr_protocbs cr)"
  by (induction hs arbitrary: cr) (simp_all add: addProtocol_def appendProtocolOnList_def wire_def Let_def)

section \<open>Properties\<close>

text \<open>
  Property C22. Negotiation end to end. For protocol names of 1 to 255 bytes, the list a client builds
  with \<open>setSupportedProtoForClient\<close> is read back by the server's selection loop name by name, in
  the client's order, without ever reading outside the list: the loop over bytes computes the
  reference negotiation over names.
\<close>

theorem alpn_wire_roundtrip:
  assumes "list_all proto_ok (map fst hs)"
  shows "select_next_protocol call None server
           (cr_next_proto_list (setSupportedProtoForClient hs (aSSLContextCreator_ctor e))) s
       = Inr (select_ref call (cr_protocbs server) (map fst hs) s)"
  using select_loop_wire[OF assms, of call "cr_protocbs server" s]
  by (simp add: select_next_protocol_def setSupportedProtoForClient_def addProtocol_fold aSSLContextCreator_ctor_def)

theorem alpn_wire_roundtrip_witness:
  "select_next_protocol (\<lambda>(_ :: nat) (s :: nat). (True, s + 1)) None
     (setSupportedProtoForServer [(''h2'', Some 1)] (aSSLContextCreator_ctor 0))
     (cr_next_proto_list (setSupportedProtoForClient [(''h2'', None :: nat option), (''http/1.1'', None)]
        (aSSLContextCreator_ctor 0))) 0 = Inr (0, Some ''h2'', 1)"
proof -
  have "list_all proto_ok (map fst [(''h2'', None :: nat option), (''http/1.1'', None)])"
    by (simp add: proto_ok_def)
  from alpn_wire_roundtrip[OF this, of "\<lambda>(_ :: nat) (s :: nat). (True, s + 1)"
      "setSupportedProtoForServer [(''h2'', Some 1)] (aSSLContextCreator_ctor 0)" 0 0]
  show ?thesis
    by (simp add: setSupportedProtoForServer_def addProtocol_def appendProtocolOnList_def
        aSSLContextCreator_ctor_def Let_def)
qed

text \<open>
  The negotiation does not form the intersection its documentation describes: as soon as
  the first name the client offers is unknown to the server, the server answers that nothing is
  acknowledged, whatever follows, even a name both sides support.
\<close>

theorem alpn_first_unknown_refuses:
  assumes "list_all proto_ok (p # ps)" and "cr_protocbs server p = None"
  shows "alpn_select_cb call None server (wire (p # ps)) s = Inr (SSL_TLSEXT_ERR_NOACK, None, s)"
  using select_loop_wire[OF assms(1), of call "cr_protocbs server" s] assms(2)
  by (simp add: alpn_select_cb_def select_next_protocol_def)

theorem alpn_first_unknown_refuses_witness:
  "alpn_select_cb (\<lambda>(_ :: nat) (s :: nat). (True, s)) None
     (setSupportedProtoForServer [(''h2'', Some 1)] (aSSLContextCreator_ctor 0)) (wire [''http/1.1'', ''h2'']) 0
   = Inr (SSL_TLSEXT_ERR_NOACK, None, 0)"
  by (rule alpn_first_unknown_refuses)
    (simp_all add: proto_ok_def setSupportedProtoForServer_def addProtocol_def appendProtocolOnList_def
      aSSLContextCreator_ctor_def Let_def)

text \<open>
  \<open>startCreate\<close> on every branch: it returns a context exactly with code 0, every context
  it made and does not return is freed once, and with the documented default end type 0, which
  should mean a context without ALPN, it never succeeds.
\<close>

theorem startCreate_owns_context:
  "(case startCreate sys mthd cr of (r, freed) \<Rightarrow>
      (m_key r = 0 \<longleftrightarrow> m_val r \<noteq> None)
      \<and> (m_val r = None \<longrightarrow> freed = (if mthd = 1 \<or> mthd = 2 then
            (case sys_ctx sys of None \<Rightarrow> [] | Some ctx \<Rightarrow> [ctx]) else []))
      \<and> (m_val r \<noteq> None \<longrightarrow> m_val r = sys_ctx sys \<and> freed = []))
   \<and> m_key (fst (startCreate sys mthd (aSSLContextCreator_ctor 0))) \<noteq> 0"
  by (auto simp: startCreate_def heap_defs aSSLContextCreator_ctor_def Let_def split: option.splits)

theorem startCreate_owns_context_witness:
  "startCreate \<lparr>sys_ctx = Some 9, sys_curves = 1, sys_key_file = 1, sys_cert_file = 1, sys_alpn_protos = 0\<rparr> 1
     (aSSLContextCreator_ctor 0 :: nat aSSLContextCreator) = (KVPair_ctor (-7) None, [9])
   \<and> m_key (fst (startCreate \<lparr>sys_ctx = Some 9, sys_curves = 1, sys_key_file = 1, sys_cert_file = 1,
        sys_alpn_protos = 0\<rparr> 1 (aSSLContextCreator_ctor 0 :: nat aSSLContextCreator))) \<noteq> 0"
  using startCreate_owns_context[where sys = "\<lparr>sys_ctx = Some 9, sys_curves = 1, sys_key_file = 1, sys_cert_file = 1,
        sys_alpn_protos = 0\<rparr>" and mthd = 1 and cr = "aSSLContextCreator_ctor 0 :: nat aSSLContextCreator"]
  by (simp add: startCreate_def aSSLContextCreator_ctor_def)

lemma aSSLSocketIO_leaks:
  "SSL_free p \<notin> set (aSSLSocketIO_dtor ret io)"
  by (auto simp: aSSLSocketIO_dtor_def aSSLSocketIO_shutdown_def aSSL_valid_def aSSL_take_ssl_def aSSL_dtor_def
      split: option.splits)

end
