(* ===== verification/Socket_Model.thy ===== *)
theory Socket_Model
  imports Unique_Owner
begin

text \<open>
  \<open>source/base/socket.cpp\<close> and \<open>source/base/end_point.cpp\<close>: the owner of a socket descriptor, the pair
  of local sockets, and IPv4 end points. Operations that close descriptors return the list of
  descriptors closed, in order. The calls handed on to the kernel are in \<open>Sys_Calls\<close>.
\<close>

section \<open>Socket\<close>

record Socket =
  s_fd :: fd

definition Socket_ctor0 :: Socket where
  "Socket_ctor0 = \<lparr>s_fd = -1\<rparr>"

definition Socket_ctor_fd :: "fd \<Rightarrow> Socket" where
  "Socket_ctor_fd f = \<lparr>s_fd = f\<rparr>"

definition Socket_ctor :: "fd \<Rightarrow> Socket" where
  "Socket_ctor f = \<lparr>s_fd = (if f > 0 then f else -1)\<rparr>"

definition Socket_valid :: "Socket \<Rightarrow> bool" where
  "Socket_valid s \<longleftrightarrow> s_fd s > 0"

definition Socket_dtor :: "Socket \<Rightarrow> fd list" where
  "Socket_dtor s = (if Socket_valid s then [s_fd s] else [])"

definition Socket_move_ctor :: "Socket \<Rightarrow> Socket \<times> Socket" where
  "Socket_move_ctor s = (s, s\<lparr>s_fd := -1\<rparr>)"

definition Socket_move_assign :: "Socket \<Rightarrow> Socket \<Rightarrow> fd list \<times> Socket \<times> Socket" where
  "Socket_move_assign this s = (Socket_dtor this, this\<lparr>s_fd := s_fd s\<rparr>, s\<lparr>s_fd := -1\<rparr>)"

interpretation sock_owner: unique_owner "\<lambda>s. descriptor (s_fd s)" "\<lambda>f. 0 < f" Socket_ctor Socket_dtor Socket_move_ctor Socket_move_assign
  by unfold_locales
    (auto simp: descriptor_def Socket_ctor_def Socket_dtor_def Socket_valid_def Socket_move_ctor_def Socket_move_assign_def)

definition Socket_managedFD :: "fd \<Rightarrow> Socket \<Rightarrow> int \<times> Socket" where
  "Socket_managedFD f s = (if f \<le> 0 then (-1, s) else (0, s\<lparr>s_fd := f\<rparr>))"

definition Socket_handle :: "Socket \<Rightarrow> fd" where
  "Socket_handle s = s_fd s"

definition Socket_close :: "Socket \<Rightarrow> fd list \<times> Socket" where
  "Socket_close s = ([s_fd s], s\<lparr>s_fd := -1\<rparr>)"

definition Socket_closeAndNoClear :: "Socket \<Rightarrow> fd list \<times> Socket" where
  "Socket_closeAndNoClear s = ([s_fd s], s)"

definition Socket_closeAndReturn :: "Socket \<Rightarrow> fd \<times> fd list \<times> Socket" where
  "Socket_closeAndReturn s = (s_fd s, [s_fd s], s\<lparr>s_fd := -1\<rparr>)"

text \<open>\<open>domain()\<close>: the kernel's answer to \<open>SO_DOMAIN\<close>, or \<open>-1\<close> when it fails.\<close>

definition Socket_domain :: "int option \<Rightarrow> Socket \<Rightarrow> int" where
  "Socket_domain so_domain s = (case so_domain of None \<Rightarrow> -1 | Some d \<Rightarrow> d)"

lemmas Socket_defs [net_defs] =
  Socket_ctor0_def Socket_ctor_fd_def Socket_ctor_def Socket_valid_def Socket_dtor_def Socket_move_ctor_def
  Socket_move_assign_def Socket_managedFD_def Socket_handle_def Socket_close_def Socket_closeAndNoClear_def
  Socket_closeAndReturn_def Socket_domain_def

section \<open>Pairs of local sockets\<close>

record LocalSocket =
  m_sv :: "fd \<times> fd"

definition LocalSocket_ctor0 :: LocalSocket where
  "LocalSocket_ctor0 = \<lparr>m_sv = (-1, -1)\<rparr>"

definition LocalSocket_ctor :: "int \<Rightarrow> fd \<times> fd \<Rightarrow> LocalSocket" where
  "LocalSocket_ctor ret sv = \<lparr>m_sv = (if ret \<noteq> 0 then (-1, -1) else sv)\<rparr>"

definition LocalSocket_dtor :: "LocalSocket \<Rightarrow> fd list" where
  "LocalSocket_dtor l = (if fst (m_sv l) > 0 then [fst (m_sv l)] else [])
     @ (if snd (m_sv l) > 0 then [snd (m_sv l)] else [])"

definition LocalSocket_asSocketInstance ::
  "Socket \<Rightarrow> Socket \<Rightarrow> LocalSocket \<Rightarrow> bool \<times> Socket \<times> Socket \<times> LocalSocket" where
  "LocalSocket_asSocketInstance first second l =
     (if fst (m_sv l) > 0 \<and> snd (m_sv l) > 0 \<and> \<not> Socket_valid first \<and> \<not> Socket_valid second
      then (True, snd (Socket_managedFD (fst (m_sv l)) first), snd (Socket_managedFD (snd (m_sv l)) second),
            l\<lparr>m_sv := (-1, -1)\<rparr>)
      else (False, first, second, l))"

text \<open>Whatever happens, each descriptor of the pair is closed exactly once by the owners left behind.\<close>

lemma LocalSocket_owned_once:
  assumes "LocalSocket_asSocketInstance first second l = (ok, first', second', l')"
    and "fst (m_sv l) > 0" and "snd (m_sv l) > 0" and "\<not> Socket_valid first" and "\<not> Socket_valid second"
  shows "ok \<and> Socket_dtor first' @ Socket_dtor second' @ LocalSocket_dtor l' = [fst (m_sv l), snd (m_sv l)]"
  using assms by (auto simp: LocalSocket_asSocketInstance_def LocalSocket_dtor_def net_defs)

section \<open>IPv4 end points\<close>

record sockaddr_in =
  sin_family :: u16
  sin_port :: u16
  s_addr :: u32

definition AF_INET :: u16 where
  "AF_INET = 2"

text \<open>\<open>htons\<close> on a little-endian machine: the two bytes exchanged.\<close>

definition htons :: "u16 \<Rightarrow> u16" where
  "htons x = word_rotl 8 x"

definition ntohs :: "u16 \<Rightarrow> u16" where
  "ntohs x = word_rotl 8 x"

record EndPointIPV4 =
  ep_handle :: "sockaddr_in option"

definition EndPointIPV4_ctor0 :: EndPointIPV4 where
  "EndPointIPV4_ctor0 = \<lparr>ep_handle = Some \<lparr>sin_family = 0, sin_port = 0, s_addr = 0\<rparr>\<rparr>"

text \<open>
  \<open>inet_pton\<close> and \<open>inet_ntop\<close> are the parameters \<open>pton\<close> and \<open>ntop\<close>; an address \<open>inet_pton\<close> refuses
  fails the assertion.
\<close>

definition setSockAddrIn ::
  "(string \<Rightarrow> u32 option) \<Rightarrow> string \<Rightarrow> 32 word \<Rightarrow> EndPointIPV4 \<Rightarrow> (bool \<times> EndPointIPV4) outcome" where
  "setSockAddrIn pton ip port ep =
     (case ep_handle ep of
        None \<Rightarrow> Inl Null_Deref
      | Some h \<Rightarrow>
          bind_out (if ip = ''any'' \<or> ip = [] then Inr 0
                    else case pton ip of None \<Rightarrow> Inl (Thrown ''assert(ret)'') | Some a \<Rightarrow> Inr a)
            (\<lambda>a. Inr (True, ep\<lparr>ep_handle := Some \<lparr>sin_family = AF_INET, sin_port = htons (ucast port), s_addr = a\<rparr>\<rparr>)))"

definition EndPointIPV4_ctor :: "(string \<Rightarrow> u32 option) \<Rightarrow> string \<Rightarrow> 32 word \<Rightarrow> EndPointIPV4 outcome" where
  "EndPointIPV4_ctor pton ip port =
     bind_out (setSockAddrIn pton ip port EndPointIPV4_ctor0) (\<lambda>(_, ep). Inr ep)"

definition getSockAddrIn :: "(u32 \<Rightarrow> string) \<Rightarrow> EndPointIPV4 \<Rightarrow> (string \<times> 32 word) outcome" where
  "getSockAddrIn ntop ep =
     (case ep_handle ep of
        None \<Rightarrow> Inl Null_Deref
      | Some h \<Rightarrow> Inr (if s_addr h = 0 then ''any'' else ntop (s_addr h), ucast (ntohs (sin_port h))))"

definition EndPointIPV4_port :: "(u32 \<Rightarrow> string) \<Rightarrow> EndPointIPV4 \<Rightarrow> u16 outcome" where
  "EndPointIPV4_port ntop ep = bind_out (getSockAddrIn ntop ep) (\<lambda>(_, p). Inr (ucast p))"

definition EndPointIPV4_ip :: "(u32 \<Rightarrow> string) \<Rightarrow> EndPointIPV4 \<Rightarrow> string outcome" where
  "EndPointIPV4_ip ntop ep = bind_out (getSockAddrIn ntop ep) (\<lambda>(i, _). Inr i)"

definition EndPointIPV4_move_assign :: "EndPointIPV4 \<Rightarrow> EndPointIPV4 \<Rightarrow> EndPointIPV4 \<times> EndPointIPV4" where
  "EndPointIPV4_move_assign this ep = (this\<lparr>ep_handle := ep_handle ep\<rparr>, EndPointIPV4_ctor0)"

lemma ntohs_htons: "ntohs (htons x) = x"
proof -
  have "word_rotl 8 y = word_rotr 8 y" for y :: u16 by (simp add: word_rotl_eq_word_rotr)
  then have "word_rotl 8 (word_rotl 8 x) = word_rotr 8 (word_rotl 8 x)" .
  then show ?thesis by (simp add: ntohs_def htons_def)
qed

section \<open>Properties\<close>

text \<open>
  What an end point was set to is what it reports: the port modulo 65536, network byte
  order undone, and the address as the system prints it, except that the empty address, \<open>any\<close>
  and whatever parses to 0.0.0.0 are all reported as \<open>any\<close>. An address the system cannot parse
  fails the assertion and sets nothing.
\<close>

theorem EndPointIPV4_roundtrip:
  "(ip = ''any'' \<or> ip = [] \<longrightarrow>
      bind_out (EndPointIPV4_ctor pton ip port) (getSockAddrIn ntop) = Inr (''any'', ucast (ucast port :: u16)))
   \<and> (ip \<noteq> ''any'' \<and> ip \<noteq> [] \<and> pton ip = Some a \<longrightarrow>
      bind_out (EndPointIPV4_ctor pton ip port) (getSockAddrIn ntop)
        = Inr (if a = 0 then ''any'' else ntop a, ucast (ucast port :: u16)))
   \<and> (ip \<noteq> ''any'' \<and> ip \<noteq> [] \<and> pton ip = None \<longrightarrow>
      EndPointIPV4_ctor pton ip port = Inl (Thrown ''assert(ret)''))"
  by (simp add: EndPointIPV4_ctor_def setSockAddrIn_def getSockAddrIn_def EndPointIPV4_ctor0_def ntohs_htons)

theorem EndPointIPV4_roundtrip_witness:
  "bind_out (EndPointIPV4_ctor (\<lambda>_. Some 16777343) ''127.0.0.1'' 8080) (getSockAddrIn (\<lambda>_. ''127.0.0.1''))
     = Inr (''127.0.0.1'', ucast (ucast (8080 :: 32 word) :: u16))"
  using EndPointIPV4_roundtrip[of "''127.0.0.1''" "\<lambda>_. Some 16777343" 8080 "\<lambda>_. ''127.0.0.1''" 16777343]
  by simp

end
