(* ===== verification/Stream_Model.thy ===== *)
theory Stream_Model
  imports Socket_Model Ssl_Model Re_Poller
begin

text \<open>
  \<open>source/extention/sockstream.cpp\<close>, \<open>sslstream.cpp\<close>, \<open>datagram.cpp\<close> and \<open>acceptor.cpp\<close>: sockets driven by
  the poller. Their asynchronous calls submit a closure to the IO worker of the poller's task
  distributor; the closures are the values of \<open>stream_task\<close>. Running a closure or a poller
  callback yields the list of what it does to the outside, in order (\<open>net_effect\<close>); what the
  kernel and OpenSSL answer is an argument.
\<close>

unbundle bit_operations_syntax

definition EPOLLIN :: u32 where "EPOLLIN = 1"

definition AF_UNIX :: int where "AF_UNIX = 1"

datatype net_effect =
    Close_FD fd
  | Unlink_FD fd
  | Send_FD fd bytes
  | SSL_Write bytes
  | On_Close
  | On_Read int bytes
  | On_Write int bytes
  | On_Connect bool
  | On_Accept "fd option"
  | On_Stop
  | Append_FD fd u32
  | Set_Callback fd
  | Cancle_FD fd
  | Notify_FD fd u32

datatype stream_task =
    Listen_Read fd
  | Send_Msg bytes
  | Close_Sock bool
  | Connect_To bytes bool
  | Send_To bytes bytes
  | Accept_On fd u32
  | Stop_Accept bool

text \<open>
  The weak pointers to the poller and to its distributor, as they lock: the poller alive or not,
  and the distributor if it is.
\<close>

record loop_ref =
  poller_alive :: bool
  loop_dist :: "stream_task TaskDistributor option"

definition submit_io :: "stream_task \<Rightarrow> loop_ref \<Rightarrow> bool \<times> loop_ref" where
  "submit_io t lr =
     (if \<not> poller_alive lr then (False, lr)
      else case loop_dist lr of
             None \<Rightarrow> (False, lr)
           | Some ev \<Rightarrow>
               let (b, ev') = TaskDistributor_addTask_type ev (Some t) IO_TASK 0
               in (b, lr\<lparr>loop_dist := Some ev'\<rparr>))"

section \<open>SockStream\<close>

record SockStream =
  ss_sock :: Socket
  ss_onClose :: bool
  ss_onRead :: bool
  ss_onWrite :: bool

definition SockStream_ctor :: "Socket \<Rightarrow> SockStream \<times> Socket" where
  "SockStream_ctor sock =
     (let (_, s, old) = Socket_move_assign Socket_ctor0 sock
      in (\<lparr>ss_sock = s, ss_onClose = False, ss_onRead = False, ss_onWrite = False\<rparr>, old))"

definition SockStream_setOnClose :: "bool \<Rightarrow> SockStream \<Rightarrow> SockStream" where
  "SockStream_setOnClose cb s = (if cb then s\<lparr>ss_onClose := True\<rparr> else s)"

definition SockStream_setOnRead :: "bool \<Rightarrow> SockStream \<Rightarrow> SockStream" where
  "SockStream_setOnRead cb s = (if cb then s\<lparr>ss_onRead := True\<rparr> else s)"

definition SockStream_setOnWrite :: "bool \<Rightarrow> SockStream \<Rightarrow> SockStream" where
  "SockStream_setOnWrite cb s = (if cb then s\<lparr>ss_onWrite := True\<rparr> else s)"

definition SockStream_startListenReadEvent :: "SockStream \<Rightarrow> loop_ref \<Rightarrow> bool \<times> loop_ref" where
  "SockStream_startListenReadEvent s lr = submit_io (Listen_Read (Socket_handle (ss_sock s))) lr"

definition SockStream_asend :: "SockStream \<Rightarrow> bytes \<Rightarrow> loop_ref \<Rightarrow> bool \<times> loop_ref" where
  "SockStream_asend s msg lr =
     (if \<not> Socket_valid (ss_sock s) then (False, lr) else submit_io (Send_Msg msg) lr)"

definition SockStream_aclose :: "SockStream \<Rightarrow> bool \<Rightarrow> loop_ref \<Rightarrow> bool \<times> loop_ref" where
  "SockStream_aclose s unlink_file lr = submit_io (Close_Sock unlink_file) lr"

definition SockStream_asyncConnect :: "SockStream \<Rightarrow> bytes \<Rightarrow> bool \<Rightarrow> loop_ref \<Rightarrow> bool \<times> loop_ref" where
  "SockStream_asyncConnect s addr onConnect lr =
     (if \<not> poller_alive lr \<or> loop_dist lr = None \<or> \<not> Socket_valid (ss_sock s) then (False, lr)
      else submit_io (Connect_To addr onConnect) lr)"

text \<open>
  \<open>tryRead\<close>: the kernel's answers to the successive non-blocking reads of at most 128 bytes. The
  loop reads until it is told to stop; when the answers run out it is still in the loop (\<open>None\<close>).
\<close>

datatype recv_result = Got bytes | Would_Block | End_Of_Stream | Recv_Error

fun tryRead_loop :: "recv_result list \<Rightarrow> bytes \<Rightarrow> (int, bytes) KVPair option" where
  "tryRead_loop [] rddata = None"
| "tryRead_loop (Would_Block # rs) rddata = Some (KVPair_ctor (int (length rddata)) rddata)"
| "tryRead_loop (End_Of_Stream # rs) rddata = Some (KVPair_ctor 0 [])"
| "tryRead_loop (Recv_Error # rs) rddata = Some (KVPair_ctor 0 [])"
| "tryRead_loop (Got bs # rs) rddata = tryRead_loop rs (rddata @ take 128 bs)"

definition SockStream_tryRead :: "recv_result list \<Rightarrow> (int, bytes) KVPair option" where
  "SockStream_tryRead rs = tryRead_loop rs []"

definition SockStream_listenReadEvent :: "fd \<Rightarrow> bool \<Rightarrow> net_effect list" where
  "SockStream_listenReadEvent f alive = (if alive then [Append_FD f EPOLLIN, Set_Callback f] else [])"

text \<open>The callback \<open>listenReadEvent\<close> registers.\<close>

definition SockStream_on_event :: "fd \<Rightarrow> u32 \<Rightarrow> recv_result list \<Rightarrow> bool \<Rightarrow> SockStream \<Rightarrow> net_effect list option" where
  "SockStream_on_event f events rs alive s =
     (if events AND EPOLLIN = 0 then Some []
      else case SockStream_tryRead rs of
        None \<Rightarrow> None
      | Some r \<Rightarrow>
          if KVPair_key r \<le> 0
          then Some ((if ss_onClose s then [On_Close] else []) @ (if alive then [Cancle_FD f] else []))
          else Some (if ss_onRead s then [On_Read (KVPair_key r) (KVPair_value r)] else []))"

definition SockStream_run ::
  "int \<Rightarrow> int option \<Rightarrow> bool \<Rightarrow> stream_task \<Rightarrow> SockStream \<Rightarrow> net_effect list \<times> SockStream" where
  "SockStream_run ret so_domain alive t s =
     (case t of
        Listen_Read f \<Rightarrow> (SockStream_listenReadEvent f alive, s)
      | Send_Msg msg \<Rightarrow>
          if Socket_valid (ss_sock s)
          then (Send_FD (s_fd (ss_sock s)) msg # (if ss_onWrite s then [On_Write ret msg] else []), s)
          else ([], s)
      | Close_Sock unlink_file \<Rightarrow>
          let (closed, sock) = Socket_closeAndNoClear (ss_sock s)
          in ((if Socket_domain so_domain (ss_sock s) = AF_UNIX \<and> unlink_file then [Unlink_FD (s_fd (ss_sock s))] else [])
              @ map Close_FD closed, s\<lparr>ss_sock := sock\<rparr>)
      | Connect_To addr cb \<Rightarrow>
          ((if ret = 0 then SockStream_listenReadEvent (Socket_handle (ss_sock s)) alive else [])
           @ (if cb then [On_Connect (ret = 0)] else []), s)
      | _ \<Rightarrow> ([], s))"

definition SockStream_dtor :: "SockStream \<Rightarrow> net_effect list" where
  "SockStream_dtor s = map Close_FD (Socket_dtor (ss_sock s))"

section \<open>SSLStream\<close>

record SSLStream = SockStream +
  st_sslio :: aSSLSocketIO
  st_usedSSL :: bool
  st_sslshutdown :: bool

definition SSLStream_usingSSL :: "aSSL \<Rightarrow> int \<Rightarrow> SSLStream \<Rightarrow> bool \<times> ssl_effect list \<times> SSLStream" where
  "SSLStream_usingSSL assl endType s =
     (let (eff, _, io) = aSSLSocketIO_upgradeFromSSL assl (st_sslio s)
      in (True, eff, s\<lparr>st_sslio := io\<lparr>io_endType := endType\<rparr>, st_usedSSL := True\<rparr>))"

definition SSLStream_ctor_from :: "SockStream \<Rightarrow> SSLStream" where
  "SSLStream_ctor_from s =
     \<lparr>ss_sock = ss_sock s, ss_onClose = ss_onClose s, ss_onRead = ss_onRead s, ss_onWrite = ss_onWrite s,
      st_sslio = \<lparr>io_ssl = \<lparr>m_ssl = None\<rparr>, io_endType = 0\<rparr>, st_usedSSL = False, st_sslshutdown = False\<rparr>"

definition SSLStream_asend :: "SSLStream \<Rightarrow> bytes \<Rightarrow> loop_ref \<Rightarrow> bool \<times> loop_ref" where
  "SSLStream_asend s msg lr =
     (if \<not> Socket_valid (ss_sock s) then (False, lr) else submit_io (Send_Msg msg) lr)"

definition SSLStream_aclose :: "SSLStream \<Rightarrow> loop_ref \<Rightarrow> bool \<times> loop_ref" where
  "SSLStream_aclose s lr = submit_io (Close_Sock False) lr"

text \<open>\<open>SSLStream::tryRead\<close>, for a stream that does not use TLS, repeats the loop of \<open>SockStream::tryRead\<close>.\<close>

definition SSLStream_tryRead :: "recv_result list \<Rightarrow> (int, bytes) KVPair option" where
  "SSLStream_tryRead rs = tryRead_loop rs []"

definition SSLStream_real_read ::
  "recv_result list \<Rightarrow> int \<Rightarrow> bytes \<Rightarrow> SSLStream \<Rightarrow> (int, bytes) KVPair option" where
  "SSLStream_real_read rs pending got s =
     (if \<not> st_usedSSL s then SSLStream_tryRead rs
      else if st_sslshutdown s \<or> \<not> aSSL_valid (io_ssl (st_sslio s)) then Some (KVPair_ctor (-2) [])
      else Some (aSSLSocketIO_read pending got))"

definition SSLStream_real_write :: "bytes \<Rightarrow> int \<Rightarrow> SSLStream \<Rightarrow> int \<times> net_effect list" where
  "SSLStream_real_write msg ret s =
     (if \<not> st_usedSSL s then (ret, [Send_FD (s_fd (ss_sock s)) msg])
      else if st_sslshutdown s \<or> \<not> aSSL_valid (io_ssl (st_sslio s)) then (-2, [])
      else (ret, [SSL_Write msg]))"

text \<open>
  The callback \<open>listenReadEvent\<close> registers. \<open>errcode\<close> is what \<open>ERR_get_error\<close> answers and \<open>eagain\<close> says
  whether \<open>errno\<close> is \<open>EAGAIN\<close>; the error constants are those of OpenSSL.
\<close>

definition SSL_ERROR_WANT_READ :: int where "SSL_ERROR_WANT_READ = 2"
definition SSL_ERROR_WANT_WRITE :: int where "SSL_ERROR_WANT_WRITE = 3"
definition SSL_ERROR_SYSCALL :: int where "SSL_ERROR_SYSCALL = 5"
definition SSL_ERROR_ZERO_RETURN :: int where "SSL_ERROR_ZERO_RETURN = 6"

definition SSLStream_on_event ::
  "fd \<Rightarrow> u32 \<Rightarrow> (int, bytes) KVPair option \<Rightarrow> bool \<Rightarrow> int \<Rightarrow> bool \<Rightarrow> SSLStream \<Rightarrow> net_effect list option" where
  "SSLStream_on_event f events result eagain errcode alive s =
     (if events AND EPOLLIN = 0 then Some []
      else case result of
        None \<Rightarrow> None
      | Some r \<Rightarrow>
          let closing = (if ss_onClose s then [On_Close] else []) @ (if alive then [Cancle_FD f] else [])
          in if KVPair_key r = 0 then Some closing
             else if KVPair_key r < 0
             then if eagain \<or> (errcode = SSL_ERROR_SYSCALL \<and> errcode = 0) \<or> errcode = SSL_ERROR_WANT_WRITE
                     \<or> errcode = SSL_ERROR_WANT_READ \<or> errcode = SSL_ERROR_ZERO_RETURN
                  then Some [] else Some closing
             else Some (if ss_onRead s then [On_Read (KVPair_key r) (KVPair_value r)] else []))"

text \<open>
  The loop of \<open>real_close\<close>: \<open>shutdown\<close> until it answers 1 or an error. \<open>ret i\<close> is what the \<open>i\<close>-th
  call of \<open>SSL_shutdown\<close> answers. A loop that never ends is \<open>None\<close>.
\<close>

partial_function (option) shutdown_loop :: "(nat \<Rightarrow> int) \<Rightarrow> nat \<Rightarrow> aSSLSocketIO \<Rightarrow> aSSLSocketIO option" where
  "shutdown_loop ret i io =
     (case aSSLSocketIO_shutdown (ret i) io of (r, _, io') \<Rightarrow>
        if r = 1 \<or> r < 0 then Some io' else shutdown_loop ret (Suc i) io')"

definition SSLStream_real_close :: "(nat \<Rightarrow> int) \<Rightarrow> SSLStream \<Rightarrow> (net_effect list \<times> SSLStream) option" where
  "SSLStream_real_close ret s =
     (let closed = map Close_FD (fst (Socket_closeAndNoClear (ss_sock s)))
      in if \<not> st_usedSSL s then Some (closed, s)
         else if st_sslshutdown s \<or> \<not> aSSL_valid (io_ssl (st_sslio s)) then Some (closed, s)
         else case shutdown_loop ret 0 (st_sslio s) of
                None \<Rightarrow> None
              | Some io \<Rightarrow> Some (closed, s\<lparr>st_sslio := io, st_sslshutdown := True\<rparr>))"

definition SSLStream_run ::
  "int \<Rightarrow> (nat \<Rightarrow> int) \<Rightarrow> bool \<Rightarrow> stream_task \<Rightarrow> SSLStream \<Rightarrow> (net_effect list \<times> SSLStream) option" where
  "SSLStream_run ret shutdown_ret alive t s =
     (case t of
        Listen_Read f \<Rightarrow> Some (SockStream_listenReadEvent f alive, s)
      | Send_Msg msg \<Rightarrow>
          if Socket_valid (ss_sock s)
          then let (r, eff) = SSLStream_real_write msg ret s
               in Some (eff @ (if ss_onWrite s then [On_Write r msg] else []), s)
          else Some ([], s)
      | Close_Sock _ \<Rightarrow> SSLStream_real_close shutdown_ret s
      | Connect_To addr cb \<Rightarrow>
          Some ((if ret = 0 then SockStream_listenReadEvent (Socket_handle (ss_sock s)) alive else [])
                @ (if cb then [On_Connect (ret = 0)] else []), s)
      | _ \<Rightarrow> Some ([], s))"

section \<open>DataGram\<close>

text \<open>A datagram socket has the same members as a stream; only its reads, sends and closing differ.\<close>

type_synonym DataGram = SockStream

definition DataGram_bindAddr :: "int \<Rightarrow> DataGram \<Rightarrow> bool" where
  "DataGram_bindAddr bind_result d \<longleftrightarrow> Socket_valid (ss_sock d) \<and> bind_result = 0"

definition DataGram_setOnClose :: "bool \<Rightarrow> DataGram \<Rightarrow> DataGram" where
  "DataGram_setOnClose cb d = d\<lparr>ss_onClose := cb\<rparr>"

definition DataGram_setOnRead :: "bool \<Rightarrow> DataGram \<Rightarrow> DataGram" where
  "DataGram_setOnRead cb d = d\<lparr>ss_onRead := cb\<rparr>"

definition DataGram_setOnWrite :: "bool \<Rightarrow> DataGram \<Rightarrow> DataGram" where
  "DataGram_setOnWrite cb d = d\<lparr>ss_onWrite := cb\<rparr>"

definition DataGram_asend :: "DataGram \<Rightarrow> bytes \<Rightarrow> bytes \<Rightarrow> loop_ref \<Rightarrow> bool \<times> loop_ref" where
  "DataGram_asend d saddr message lr =
     (if \<not> Socket_valid (ss_sock d) then (False, lr) else submit_io (Send_To saddr message) lr)"

definition DataGram_aclose :: "DataGram \<Rightarrow> bool \<Rightarrow> loop_ref \<Rightarrow> bool \<times> loop_ref" where
  "DataGram_aclose d unlink_file lr = submit_io (Close_Sock unlink_file) lr"

text \<open>One read of at most 2048 bytes: the kernel's return value and what it wrote.\<close>

definition DataGram_tryRead :: "int \<Rightarrow> bytes \<Rightarrow> (int, bytes) KVPair" where
  "DataGram_tryRead ret got =
     (if ret < 0 then KVPair_ctor ret [] else if ret = 0 then KVPair_ctor ret []
      else KVPair_ctor ret (take (nat ret) got))"

definition DataGram_on_event :: "fd \<Rightarrow> u32 \<Rightarrow> int \<Rightarrow> bytes \<Rightarrow> bool \<Rightarrow> DataGram \<Rightarrow> net_effect list" where
  "DataGram_on_event f events ret got alive d =
     (if events AND EPOLLIN = 0 then []
      else let r = DataGram_tryRead ret got
           in if KVPair_key r = 0
              then (if ss_onClose d then [On_Close] else []) @ (if alive then [Cancle_FD f] else [])
              else if KVPair_key r < 0 then (if ss_onClose d then [On_Close] else [])
              else (if ss_onRead d then [On_Read (KVPair_key r) (KVPair_value r)] else []))"

definition DataGram_run ::
  "int \<Rightarrow> int option \<Rightarrow> bool \<Rightarrow> stream_task \<Rightarrow> DataGram \<Rightarrow> net_effect list \<times> DataGram" where
  "DataGram_run ret so_domain alive t d =
     (case t of
        Listen_Read f \<Rightarrow> (SockStream_listenReadEvent f alive, d)
      | Send_To remote msg \<Rightarrow>
          if Socket_valid (ss_sock d)
          then (Send_FD (s_fd (ss_sock d)) msg # (if ss_onWrite d then [On_Write ret msg] else []), d)
          else ([], d)
      | Close_Sock unlink_file \<Rightarrow>
          let f = Socket_handle (ss_sock d); (closed, sock) = Socket_closeAndNoClear (ss_sock d)
          in ((if Socket_domain so_domain (ss_sock d) = AF_UNIX \<and> unlink_file then [Unlink_FD f] else [])
              @ map Close_FD closed @ (if alive then [Notify_FD f EPOLLIN] else []), d\<lparr>ss_sock := sock\<rparr>)
      | _ \<Rightarrow> ([], d))"

section \<open>Acceptor\<close>

record Acceptor =
  ac_onAccept :: bool
  ac_sock :: Socket

definition Acceptor_ctor :: Acceptor where
  "Acceptor_ctor = \<lparr>ac_onAccept = False, ac_sock = Socket_ctor0\<rparr>"

definition Acceptor_setOnAccept :: "bool \<Rightarrow> Acceptor \<Rightarrow> Acceptor" where
  "Acceptor_setOnAccept cb a = (if cb then a\<lparr>ac_onAccept := True\<rparr> else a)"

definition Acceptor_start :: "Socket \<Rightarrow> Acceptor \<Rightarrow> loop_ref \<Rightarrow> bool \<times> net_effect list \<times> Acceptor \<times> loop_ref" where
  "Acceptor_start listenSock a lr =
     (let (closed, sock, _) = Socket_move_assign (ac_sock a) listenSock;
          a' = a\<lparr>ac_sock := sock\<rparr>;
          (b, lr') = submit_io (Accept_On (Socket_handle sock) EPOLLIN) lr
      in (b, map Close_FD closed, a', lr'))"

text \<open>The callback for the listening descriptor; \<open>cli\<close> is what \<open>accept\<close> answers.\<close>

definition Acceptor_on_event :: "u32 \<Rightarrow> fd \<Rightarrow> Acceptor \<Rightarrow> net_effect list outcome" where
  "Acceptor_on_event events cli a =
     (if events AND EPOLLIN = 0
      then if ac_onAccept a then Inr [On_Accept None] else Inl Bad_Function_Call
      else if Socket_valid (Socket_ctor_fd cli)
      then if ac_onAccept a then Inr [On_Accept (Some cli)] else Inl Bad_Function_Call
      else Inr [])"

definition Acceptor_asyncStop :: "Acceptor \<Rightarrow> bool \<Rightarrow> stream_task TaskDistributor option
     \<Rightarrow> bool \<times> stream_task TaskDistributor option" where
  "Acceptor_asyncStop a onStop wev =
     (case wev of
        None \<Rightarrow> (False, wev)
      | Some ev \<Rightarrow> let (b, ev') = TaskDistributor_addTask_type ev (Some (Stop_Accept onStop)) IO_TASK 0 in (b, Some ev'))"

definition Acceptor_run :: "bool \<Rightarrow> bool \<Rightarrow> stream_task \<Rightarrow> Acceptor \<Rightarrow> net_effect list outcome" where
  "Acceptor_run appended alive t a =
     (case t of
        Accept_On f events \<Rightarrow>
          if appended then Inr [Set_Callback f, Append_FD f events] else Inl (Thrown ''assert(bret)'')
      | Stop_Accept cb \<Rightarrow>
          let f = Socket_handle (ac_sock a)
          in if cb then Inr ((if alive \<and> f > 0 then [Cancle_FD f] else []) @ [On_Stop]) else Inl Bad_Function_Call
      | _ \<Rightarrow> Inr [])"

section \<open>Reading and closing\<close>

lemma tryRead_loop_got:
  "list_all (\<lambda>bs. length bs \<le> 128) bss \<Longrightarrow>
     tryRead_loop (map Got bss @ rs) acc = tryRead_loop rs (acc @ concat bss)"
  by (induction bss arbitrary: acc) simp_all

text \<open>Once the TLS handle has been taken, \<open>shutdown\<close> answers 0 for ever and the loop cannot end.\<close>

lemma shutdown_loop_returns_valid:
  "shutdown_loop ret i io = Some y \<Longrightarrow> aSSL_valid (io_ssl io)"
proof (rule shutdown_loop.raw_induct[of "\<lambda>ret i io y. aSSL_valid (io_ssl io)"])
  fix f ret i io y
  assume IH: "\<And>ret i io y. f ret i io = Some y \<Longrightarrow> aSSL_valid (io_ssl io)"
    and "(case aSSLSocketIO_shutdown (ret i) io of (r, _, io') \<Rightarrow>
            if r = 1 \<or> r < 0 then Some io' else f ret (Suc i) io') = Some y"
  then show "aSSL_valid (io_ssl io)"
    by (cases "aSSL_valid (io_ssl io)") (auto simp: aSSLSocketIO_shutdown_def)
qed

lemma shutdown_loop_stuck: "\<not> aSSL_valid (io_ssl io) \<Longrightarrow> shutdown_loop ret i io = None"
  using shutdown_loop_returns_valid[of ret i io] by (cases "shutdown_loop ret i io") auto

lemma shutdown_loop_first:
  assumes "aSSL_valid (io_ssl io)"
  shows "shutdown_loop ret i io =
     (if ret i = 1 \<or> ret i < 0 then Some (io\<lparr>io_ssl := \<lparr>m_ssl = None\<rparr>\<rparr>) else None)"
proof -
  have "\<not> aSSL_valid (io_ssl (io\<lparr>io_ssl := (io_ssl io)\<lparr>m_ssl := None\<rparr>\<rparr>))" by (simp add: aSSL_valid_def)
  note stuck = shutdown_loop_stuck[OF this, of ret "Suc i"]
  show ?thesis
    using assms stuck
    by (simp add: shutdown_loop.simps[of ret i io] aSSLSocketIO_shutdown_def aSSL_take_ssl_def split_beta)
qed

section \<open>Properties\<close>

text \<open>
  Reading a stream. When the kernel hands over any number of chunks of at most 128 bytes
  and then has nothing more, \<open>tryRead\<close> returns all of them in order and the reader's callback gets
  exactly those bytes. But if the peer's end of stream, or an error, follows the chunks in the
  same wake-up, all of them are dropped: the callback never sees them and the stream is closed.
\<close>

theorem SockStream_read_event:
  assumes "list_all (\<lambda>bs. length bs \<le> 128) bss" and "concat bss \<noteq> []" and "ss_onRead s" and "ss_onClose s"
  shows "SockStream_on_event f EPOLLIN (map Got bss @ [Would_Block]) True s
           = Some [On_Read (int (length (concat bss))) (concat bss)]
     \<and> SockStream_on_event f EPOLLIN (map Got bss @ [End_Of_Stream]) True s = Some [On_Close, Cancle_FD f]
     \<and> SockStream_on_event f EPOLLIN (map Got bss @ [Recv_Error]) True s = Some [On_Close, Cancle_FD f]"
  using assms tryRead_loop_got[OF assms(1)]
  by (simp add: SockStream_on_event_def SockStream_tryRead_def EPOLLIN_def heap_defs)

definition demo_stream :: SockStream where
  "demo_stream = \<lparr>ss_sock = \<lparr>s_fd = 7\<rparr>, ss_onClose = True, ss_onRead = True, ss_onWrite = True\<rparr>"

theorem SockStream_read_event_witness:
  "SockStream_on_event 7 EPOLLIN (map Got [''ab'', ''c''] @ [Would_Block]) True demo_stream = Some [On_Read 3 ''abc'']
   \<and> SockStream_on_event 7 EPOLLIN (map Got [''ab'', ''c''] @ [End_Of_Stream]) True demo_stream
       = Some [On_Close, Cancle_FD 7]"
  using SockStream_read_event[of "[''ab'', ''c'']" demo_stream 7] by (simp add: demo_stream_def)

text \<open>
  A wake-up with nothing to read is taken for a disconnect: when the first read would
  block, \<open>tryRead\<close> answers 0 bytes, and the callback closes the stream and unregisters it.
\<close>

theorem SockStream_spurious_wakeup_closes:
  "SockStream_on_event f EPOLLIN (Would_Block # rs) alive s =
     Some ((if ss_onClose s then [On_Close] else []) @ (if alive then [Cancle_FD f] else []))"
  by (simp add: SockStream_on_event_def SockStream_tryRead_def EPOLLIN_def heap_defs)

text \<open>
  Property C38. Closing a TLS stream hangs the IO worker whenever the first \<open>SSL_shutdown\<close> answers 0,
  which is its answer until the peer has also closed: the first call gives the handle away, so
  the next ones answer 0 for ever and the loop never ends. It ends exactly when the first answer
  is 1 or an error, and then the descriptor is closed.
\<close>

theorem SSLStream_real_close_ends:
  assumes "st_usedSSL s" and "\<not> st_sslshutdown s" and "aSSL_valid (io_ssl (st_sslio s))"
  shows "(ret 0 = 1 \<or> ret 0 < 0 \<longrightarrow>
            (\<exists>s'. SSLStream_real_close ret s = Some ([Close_FD (s_fd (ss_sock s))], s') \<and> st_sslshutdown s'))
     \<and> (ret 0 = 0 \<longrightarrow> SSLStream_real_close ret s = None)"
  using assms shutdown_loop_first[OF assms(3), of ret 0]
  by (simp add: SSLStream_real_close_def net_defs)

theorem SSLStream_real_close_ends_witness:
  "SSLStream_real_close (\<lambda>_. 0)
     (snd (snd (SSLStream_usingSSL \<lparr>m_ssl = Some 4\<rparr> 1 (SSLStream_ctor_from demo_stream)))) = None"
  using SSLStream_real_close_ends[of "snd (snd (SSLStream_usingSSL \<lparr>m_ssl = Some 4\<rparr> 1 (SSLStream_ctor_from demo_stream)))"
      "\<lambda>_. 0"]
  by (simp add: SSLStream_usingSSL_def SSLStream_ctor_from_def aSSLSocketIO_upgradeFromSSL_def
      aSSL_move_assign_def aSSL_valid_def)

text \<open>
  A stream closed through \<open>aclose\<close> still counts as valid, so later sends are accepted
  and write to the closed descriptor, and destroying the stream closes that descriptor number
  a second time, by then possibly another file's.
\<close>

theorem SockStream_aclose_closes_twice:
  assumes "Socket_valid (ss_sock s)"
    and "SockStream_run ret so_domain alive (Close_Sock False) s = (eff, s')"
  shows "eff = [Close_FD (s_fd (ss_sock s))] \<and> SockStream_dtor s' = [Close_FD (s_fd (ss_sock s))]
     \<and> SockStream_asend s' msg lr = submit_io (Send_Msg msg) lr
     \<and> Send_FD (s_fd (ss_sock s)) msg \<in> set (fst (SockStream_run ret2 so_domain2 alive2 (Send_Msg msg) s'))"
  using assms by (auto simp: SockStream_run_def SockStream_dtor_def SockStream_asend_def net_defs)

theorem SockStream_aclose_closes_twice_witness:
  "SockStream_dtor (snd (SockStream_run 0 (Some 2) True (Close_Sock False) demo_stream)) = [Close_FD 7]"
  using SockStream_aclose_closes_twice[of demo_stream 0 "Some 2" True
      "fst (SockStream_run 0 (Some 2) True (Close_Sock False) demo_stream)"
      "snd (SockStream_run 0 (Some 2) True (Close_Sock False) demo_stream)"]
  by (simp add: demo_stream_def net_defs)

end
