(* ===== verification/Posix_Thread.thy ===== *)
theory Posix_Thread
  imports Andren_Prelude "HOL-Library.Signed_Division"
begin

text \<open>
  \<open>Thread\<close> (\<open>thread.hh\<close>, \<open>thread.cpp\<close>), the wrapper of a POSIX thread handle. What the library
  calls ask of the system is recorded as effects; their return codes are arguments.
\<close>

record Thread =
  m_pthread :: u64
  m_detach :: int

datatype pthread_effect =
    Pthread_Detach u64
  | Pthread_Join u64
  | Pthread_Tryjoin u64
  | Pthread_Timedjoin u64 int int

definition Thread_ctor :: Thread where
  "Thread_ctor = \<lparr>m_pthread = 0, m_detach = 0\<rparr>"

text \<open>Both moves return the new value of the object and what is left of the argument.\<close>

definition Thread_move_ctor :: "Thread \<Rightarrow> Thread \<times> Thread" where
  "Thread_move_ctor t = (\<lparr>m_pthread = m_pthread t, m_detach = m_detach t\<rparr>, t\<lparr>m_pthread := 0, m_detach := 0\<rparr>)"

definition Thread_move_assign :: "Thread \<Rightarrow> Thread \<Rightarrow> (Thread \<times> Thread) outcome" where
  "Thread_move_assign self t =
     (if m_pthread self > 0
      then Inl (Thrown ''cannot drop a working thread to move assignments for a working threads'')
      else Inr (self\<lparr>m_pthread := m_pthread t, m_detach := m_detach t\<rparr>, t\<lparr>m_pthread := 0, m_detach := 0\<rparr>))"

definition Thread_join :: "Thread \<Rightarrow> pthread_effect list" where
  "Thread_join t = [Pthread_Join (m_pthread t)]"

definition Thread_try_join :: "Thread \<Rightarrow> pthread_effect list" where
  "Thread_try_join t = [Pthread_Tryjoin (m_pthread t)]"

definition Thread_time_join :: "Thread \<Rightarrow> int \<Rightarrow> pthread_effect list" where
  "Thread_time_join t msec =
     (let tv_nsec = (msec smod 1000) * 1000; tv_sec = msec sdiv 1000
      in [Pthread_Timedjoin (m_pthread t) tv_sec tv_nsec])"

definition Thread_dtor :: "Thread \<Rightarrow> pthread_effect list" where
  "Thread_dtor t = (if m_pthread t > 0 \<and> m_detach t \<noteq> 0 then Thread_join t else [])"

text \<open>\<open>pthread_create\<close> answers a code and, when it is 0, a handle.\<close>

definition Thread_create :: "int \<Rightarrow> u64 \<Rightarrow> Thread \<Rightarrow> int \<times> Thread" where
  "Thread_create ret ptfd t = (ret, if ret = 0 then t\<lparr>m_pthread := ptfd\<rparr> else t)"

definition Thread_detach :: "int \<Rightarrow> Thread \<Rightarrow> int \<times> Thread \<times> pthread_effect list" where
  "Thread_detach ret t =
     (ret, t\<lparr>m_detach := (if ret = 0 then 1 else 0)\<rparr>, [Pthread_Detach (m_pthread t)])"

text \<open>The thread's entry: the function it was given, unless the pointer or the function is empty.\<close>

definition Thread_work :: "('f \<Rightarrow> 's \<Rightarrow> 's) \<Rightarrow> 'f option option \<Rightarrow> 's \<Rightarrow> 's" where
  "Thread_work run arg s = (case arg of Some (Some func) \<Rightarrow> run func s | _ \<Rightarrow> s)"

lemmas Thread_defs =
  Thread_ctor_def Thread_move_ctor_def Thread_move_assign_def Thread_join_def Thread_try_join_def
  Thread_time_join_def Thread_dtor_def Thread_create_def Thread_detach_def

lemma Thread_moved_from_harmless: "Thread_dtor (snd (Thread_move_ctor t)) = []"
  by (simp add: Thread_defs)

text \<open>
  The destructor's test of the detach flag is inverted. A thread that was created and not detached
  is dropped without being joined; one that was detached is joined, which POSIX leaves undefined.
  After \<open>join\<close> the handle is kept, so a joined thread still refuses to be assigned to.
\<close>

theorem Thread_dtor_inverted:
  assumes "0 < h"
  shows "Thread_dtor (snd (Thread_create 0 h Thread_ctor)) = []
     \<and> Thread_dtor (fst (snd (Thread_detach 0 (snd (Thread_create 0 h Thread_ctor))))) = [Pthread_Join h]
     \<and> Thread_move_assign (snd (Thread_create 0 h Thread_ctor)) t
         = Inl (Thrown ''cannot drop a working thread to move assignments for a working threads'')"
  using assms by (simp add: Thread_defs)

text \<open>
  \<open>pthread_timedjoin_np\<close> takes an absolute time. The one \<open>time_join\<close> passes lies within 25 days of
  the epoch for every \<open>int\<close>, and its nanoseconds stay below a thousandth of a second: microseconds
  were meant to become nanoseconds.
\<close>

lemma Thread_time_join_past:
  assumes "0 \<le> msec" and "msec < 2 ^ 31"
  shows "\<exists>sec nsec. Thread_time_join t msec = [Pthread_Timedjoin (m_pthread t) sec nsec]
     \<and> sec \<le> 2147483 \<and> nsec < 1000000 \<and> nsec = msec mod 1000 * 1000"
proof -
  have "msec sdiv 1000 = msec div 1000" "msec smod 1000 = msec mod 1000"
    using assms(1) by (simp_all add: signed_divide_int_def signed_modulo_int_def sgn_if minus_mult_div_eq_mod mult.commute)
  then show ?thesis using assms by (simp add: Thread_time_join_def)
qed

section \<open>Names and signals\<close>

text \<open>
  \<open>setname\<close>, \<open>getname\<close> and \<open>kill\<close> are the library's answers for a handle; \<open>getname\<close> writes the name and a
  zero byte to the front of the buffer.
\<close>

definition Thread_set_name :: "(u64 \<Rightarrow> string \<Rightarrow> int) \<Rightarrow> string \<Rightarrow> Thread \<Rightarrow> int" where
  "Thread_set_name setname n t = setname (m_pthread t) n"

definition Thread_name :: "(u64 \<Rightarrow> nat \<Rightarrow> int \<times> bytes) \<Rightarrow> Thread \<Rightarrow> string" where
  "Thread_name getname t =
     (let buffer = replicate 128 (CHR 0x00);
          (ret, out) = getname (m_pthread t) (length buffer);
          buffer' = out @ drop (length out) buffer
      in if ret = 0 then buffer' else [])"

definition Thread_kill :: "(u64 \<Rightarrow> int \<Rightarrow> int) \<Rightarrow> int \<Rightarrow> Thread \<Rightarrow> int" where
  "Thread_kill kill sig t = kill (m_pthread t) sig"

text \<open>
  The name that is read back is not the name that was set: it has 128 characters, the rest of them zero. Only the part
  before the first zero is the name.
\<close>

theorem Thread_name_padded:
  assumes "getname (m_pthread t) 128 = (0, n @ [CHR 0x00])" and "length n < 16" and "CHR 0x00 \<notin> set n"
  shows "Thread_name getname t = n @ replicate (128 - length n) (CHR 0x00)
     \<and> Thread_name getname t \<noteq> n \<and> length (Thread_name getname t) = 128
     \<and> takeWhile (\<lambda>c. c \<noteq> CHR 0x00) (Thread_name getname t) = n"
proof -
  have r: "Thread_name getname t = n @ replicate (128 - length n) (CHR 0x00)"
    using assms(1,2) Suc_diff_le[of "length n" 127] by (simp add: Thread_name_def Suc_diff_Suc flip: replicate_Suc)
  moreover have "replicate (128 - length n) (CHR 0x00) = CHR 0x00 # replicate (127 - length n) (CHR 0x00)"
    using assms(2) Suc_diff_le[of "length n" 127] by (simp flip: replicate_Suc)
  ultimately show ?thesis using assms(2,3) by (auto simp: takeWhile_append)
qed

end
