(* ===== verification/Thread_Pool.thy ===== *)
theory Thread_Pool
  imports Posix_Thread Task_Sink "HOL-Library.Sublist"
begin

text \<open>
  \<open>ThreadPool\<close> and \<open>ThreadPoolPortable\<close> (\<open>threadpool.hh\<close>, \<open>threadpool.cpp\<close>). The two classes have
  the same queues and the same worker loop; they differ in how the constructor makes the threads.
  The worker is a state machine split at its mutex: it holds the lock at the head of its loop, and
  releases it while it runs a batch and while it waits. The system interleaves the workers with
  callers of \<open>exec\<close>, whose test and whose insertion are separate steps, and with the destructor.
\<close>

section \<open>State and operations\<close>

record 't data_t =
  isExit :: bool
  perthread_data :: "'t option list list"
  thread_count :: nat

type_synonym 't ThreadPool = "'t data_t option"

definition data_t_ctor :: "nat \<Rightarrow> 't data_t" where
  "data_t_ctor n = \<lparr>isExit = False, perthread_data = replicate n [], thread_count = n\<rparr>"

text \<open>
  The constructor of \<open>ThreadPool\<close> makes each thread through a local \<open>Thread\<close>, detaches it, and lets
  the local object be destroyed: \<open>make_thread\<close> is one round of its loop, given the handle that
  \<open>pthread_create\<close> returned. A failing creation fails the assertion, after the detach.
\<close>

definition make_thread :: "int \<Rightarrow> u64 \<Rightarrow> pthread_effect list outcome" where
  "make_thread ret h =
     (let (r, t) = Thread_create ret h Thread_ctor;
          (_, t', e) = Thread_detach r t
      in if r = 0 then Inr (e @ Thread_dtor t') else Inl (Thrown ''assert(ret ==0)''))"

definition ThreadPool_ctor :: "(int \<times> u64) list \<Rightarrow> ('t ThreadPool \<times> pthread_effect list) outcome" where
  "ThreadPool_ctor created =
     bind_out (fold_out (\<lambda>(r, h) es. bind_out (make_thread r h) (\<lambda>e. Inr (es @ e))) created [])
       (\<lambda>es. Inr (Some (data_t_ctor (length created)), es))"

definition ThreadPoolPortable_ctor :: "nat \<Rightarrow> 't ThreadPool" where
  "ThreadPoolPortable_ctor n = Some (data_t_ctor n)"

definition exec_guard :: "nat \<Rightarrow> 't data_t \<Rightarrow> bool" where
  "exec_guard threadno d \<longleftrightarrow> \<not> (thread_count d \<le> threadno \<or> isExit d)"

definition exec_push :: "nat \<Rightarrow> 't option \<Rightarrow> 't data_t \<Rightarrow> 't data_t" where
  "exec_push threadno task d =
     d\<lparr>perthread_data := (perthread_data d)[threadno := perthread_data d ! threadno @ [task]]\<rparr>"

definition ThreadPool_exec :: "'t ThreadPool \<Rightarrow> 't option \<Rightarrow> nat \<Rightarrow> bool \<times> 't ThreadPool" where
  "ThreadPool_exec p task threadno =
     (case p of
        None \<Rightarrow> (False, p)
      | Some d \<Rightarrow> if exec_guard threadno d then (True, Some (exec_push threadno task d)) else (False, p))"

definition ThreadPool_valid :: "'t ThreadPool \<Rightarrow> bool" where
  "ThreadPool_valid p = (case p of None \<Rightarrow> False | Some d \<Rightarrow> \<not> isExit d)"

text \<open>\<open>notifyThread\<close> indexes the array of thread data after its test.\<close>

definition ThreadPool_notifyThread :: "'t ThreadPool \<Rightarrow> nat \<Rightarrow> bool outcome" where
  "ThreadPool_notifyThread p index =
     (case p of
        None \<Rightarrow> Inr False
      | Some d \<Rightarrow>
          if index > thread_count d \<or> isExit d then Inr False
          else if length (perthread_data d) \<le> index then Inl Out_Of_Range
          else Inr True)"

definition ThreadPool_dtor :: "'t ThreadPool \<Rightarrow> 't ThreadPool" where
  "ThreadPool_dtor p = map_option (isExit_update (\<lambda>_. True)) p"

definition ThreadPool_move_ctor :: "'t ThreadPool \<Rightarrow> 't ThreadPool \<times> 't ThreadPool" where
  "ThreadPool_move_ctor p = (p, None)"

text \<open>
  \<open>operator=\<close> destroys the object by hand, which releases its shared data, and then assigns to the
  destroyed pointer, which releases it a second time; only an empty pool survives that.
\<close>

definition ThreadPool_move_assign :: "'t ThreadPool \<Rightarrow> 't ThreadPool \<Rightarrow> ('t ThreadPool \<times> 't ThreadPool) outcome" where
  "ThreadPool_move_assign self p = (case self of Some _ \<Rightarrow> Inl Use_After_Free | None \<Rightarrow> Inr (p, None))"

section \<open>The worker\<close>

datatype 't worker_pc =
    At_Loop
  | Running "'t option list"
  | Waiting
  | Exited

text \<open>
  One step of a worker: the data afterwards, its new position, and the task it called, if any. At
  the head of the loop it holds its lock. An empty function among the tasks throws.
\<close>

definition worker_step :: "nat \<Rightarrow> 't data_t \<Rightarrow> 't worker_pc \<Rightarrow> ('t data_t \<times> 't worker_pc \<times> 't list) outcome" where
  "worker_step i d pc =
     (case pc of
        At_Loop \<Rightarrow>
          if perthread_data d ! i \<noteq> []
          then Inr (d\<lparr>perthread_data := (perthread_data d)[i := []]\<rparr>, Running (perthread_data d ! i), [])
          else if isExit d then Inr (d, Exited, [])
          else Inr (d, Waiting, [])
      | Running [] \<Rightarrow> Inr (d, At_Loop, [])
      | Running (Some t # ts) \<Rightarrow> Inr (d, Running ts, [t])
      | Running (None # ts) \<Rightarrow> Inl Bad_Function_Call
      | Waiting \<Rightarrow> Inr (d, At_Loop, [])
      | Exited \<Rightarrow> Inr (d, Exited, []))"

text \<open>A worker run on its own for a number of steps, with the tasks it calls.\<close>

fun worker_run :: "nat \<Rightarrow> nat \<Rightarrow> 't data_t \<Rightarrow> 't worker_pc \<Rightarrow> ('t data_t \<times> 't worker_pc \<times> 't list) outcome" where
  "worker_run 0 i d pc = Inr (d, pc, [])"
| "worker_run (Suc n) i d pc =
     bind_out (worker_step i d pc) (\<lambda>(d', pc', ts).
       bind_out (worker_run n i d' pc') (\<lambda>(d'', pc'', us). Inr (d'', pc'', ts @ us)))"

section \<open>The pool with its threads\<close>

text \<open>
  \<open>inflight\<close> holds the calls of \<open>exec\<close> that have passed the test and not yet taken the lock. The
  pool is destroyed only when no call is in flight, as C++ requires. The ghost sequences record
  the tasks accepted for each worker and the tasks it has called.
\<close>

record 't tp_sys =
  pool :: "'t data_t"
  pcs :: "nat \<Rightarrow> 't worker_pc"
  inflight :: "(nat \<times> 't) list"
  accepted :: "nat \<Rightarrow> 't list"
  ran :: "nat \<Rightarrow> 't list"

definition tp_init :: "nat \<Rightarrow> 't tp_sys" where
  "tp_init n = \<lparr>pool = data_t_ctor n, pcs = (\<lambda>_. At_Loop), inflight = [], accepted = (\<lambda>_. []), ran = (\<lambda>_. [])\<rparr>"

inductive tp_step :: "'t tp_sys \<Rightarrow> 't tp_sys \<Rightarrow> bool" where
  test: "exec_guard i (pool s) \<Longrightarrow> tp_step s (s\<lparr>inflight := inflight s @ [(i, t)]\<rparr>)"
| insert: "inflight s = xs @ (i, t) # ys \<Longrightarrow> pcs s i \<noteq> At_Loop \<Longrightarrow>
     tp_step s (s\<lparr>pool := exec_push i (Some t) (pool s), inflight := xs @ ys,
                  accepted := (accepted s)(i := accepted s i @ [t])\<rparr>)"
| work: "i < thread_count (pool s) \<Longrightarrow> worker_step i (pool s) (pcs s i) = Inr (d, pc, ts) \<Longrightarrow>
     tp_step s (s\<lparr>pool := d, pcs := (pcs s)(i := pc), ran := (ran s)(i := ran s i @ ts)\<rparr>)"
| destroy: "inflight s = [] \<Longrightarrow> tp_step s (s\<lparr>pool := (pool s)\<lparr>isExit := True\<rparr>\<rparr>)"

inductive tp_reachable :: "nat \<Rightarrow> 't tp_sys \<Rightarrow> bool" for n where
  tp_start: "tp_reachable n (tp_init n)"
| tp_next: "tp_reachable n s \<Longrightarrow> tp_step s t \<Longrightarrow> tp_reachable n t"

fun running :: "'t worker_pc \<Rightarrow> 't option list" where
  "running (Running ts) = ts"
| "running _ = []"

definition worker_inv :: "nat \<Rightarrow> 't tp_sys \<Rightarrow> bool" where
  "worker_inv i s \<longleftrightarrow>
     map Some (ran s i) @ running (pcs s i) @ perthread_data (pool s) ! i = map Some (accepted s i)
     \<and> (pcs s i = Exited \<longrightarrow> isExit (pool s) \<and> perthread_data (pool s) ! i = [])"

definition tp_inv :: "'t tp_sys \<Rightarrow> bool" where
  "tp_inv s \<longleftrightarrow> length (perthread_data (pool s)) = thread_count (pool s)
     \<and> (isExit (pool s) \<longrightarrow> inflight s = [])
     \<and> (\<forall>(i, t) \<in> set (inflight s). i < thread_count (pool s))
     \<and> (\<forall>i < thread_count (pool s). worker_inv i s)"

lemmas pool_defs [loop_defs] =
  data_t_ctor_def exec_guard_def exec_push_def ThreadPool_exec_def ThreadPool_valid_def
  ThreadPool_notifyThread_def ThreadPool_dtor_def ThreadPool_move_ctor_def ThreadPool_move_assign_def
  ThreadPoolPortable_ctor_def

lemma worker_step_inv:
  assumes "worker_step i (pool s) (pcs s i) = Inr (d, pc, ts)" and "worker_inv i s"
    and "i < length (perthread_data (pool s))"
  shows "worker_inv i (s\<lparr>pool := d, pcs := (pcs s)(i := pc), ran := (ran s)(i := ran s i @ ts)\<rparr>)"
    and "isExit d = isExit (pool s)" and "thread_count d = thread_count (pool s)"
    and "length (perthread_data d) = length (perthread_data (pool s))"
    and "j \<noteq> i \<Longrightarrow> perthread_data d ! j = perthread_data (pool s) ! j"
  using assms
  by (auto simp: worker_step_def worker_inv_def split: worker_pc.splits list.splits option.splits if_splits)

lemma tp_step_inv: "tp_step s t \<Longrightarrow> tp_inv s \<Longrightarrow> tp_inv t"
proof (induction rule: tp_step.induct)
  case (test i s t)
  then show ?case by (auto simp: tp_inv_def worker_inv_def exec_guard_def)
next
  case (insert s xs i t ys)
  then have i: "i < thread_count (pool s)" "\<not> isExit (pool s)" by (auto simp: tp_inv_def)
  then have "pcs s i \<noteq> Exited" using insert by (auto simp: tp_inv_def worker_inv_def)
  then show ?case using insert i by (auto simp: tp_inv_def worker_inv_def exec_push_def nth_list_update)
next
  case (work i s d pc ts)
  have i: "i < length (perthread_data (pool s))" "worker_inv i s" using work by (auto simp: tp_inv_def)
  note w = worker_step_inv[OF work(2) i(2,1)]
  have "worker_inv j (s\<lparr>pool := d, pcs := (pcs s)(i := pc), ran := (ran s)(i := ran s i @ ts)\<rparr>)"
    if "j < thread_count (pool s)" for j
    using w(1) w(2) w(5)[of j] that work.prems by (cases "j = i") (auto simp: tp_inv_def worker_inv_def)
  then show ?case using work.prems w(2-4) by (auto simp: tp_inv_def)
next
  case (destroy s)
  then show ?case by (auto simp: tp_inv_def worker_inv_def)
qed

lemma tp_reachable_inv: "tp_reachable n s \<Longrightarrow> tp_inv s \<and> thread_count (pool s) = n"
proof (induction rule: tp_reachable.induct)
  case tp_start
  then show ?case by (simp add: tp_init_def tp_inv_def worker_inv_def data_t_ctor_def)
next
  case (tp_next s t)
  moreover have "thread_count (pool t) = thread_count (pool s)"
    using tp_next.hyps(2)
    by cases (auto simp: exec_push_def worker_step_def split: worker_pc.splits list.splits option.splits if_splits)
  ultimately show ?case using tp_step_inv by auto
qed

section \<open>Finishing\<close>

lemma worker_run_add:
  "worker_run (m + n) i d pc = bind_out (worker_run m i d pc) (\<lambda>(d', pc', ts).
     bind_out (worker_run n i d' pc') (\<lambda>(d'', pc'', us). Inr (d'', pc'', ts @ us)))"
proof (induction m arbitrary: d pc)
  case 0
  show ?case by (cases "worker_run n i d pc") auto
next
  case (Suc m)
  show ?case
  proof (cases "worker_step i d pc")
    case (Inr r)
    obtain d' pc' ts where r: "r = (d', pc', ts)" by (cases r)
    show ?thesis
      using Suc.IH[of d' pc'] Inr r
      by (cases "worker_run m i d' pc'") (auto simp: bind_out_assoc split_beta)
  qed simp
qed

lemma worker_run_batch:
  "worker_run (Suc (length ts)) i d (Running (map Some ts)) = Inr (d, At_Loop, ts)"
  by (induction ts) (simp_all add: worker_step_def)

text \<open>From the head of the loop, with the exit flag set, a worker empties its queue and returns.\<close>

lemma worker_run_exit:
  assumes "isExit d" and "perthread_data d ! i = map Some ts" and "i < length (perthread_data d)"
  shows "\<exists>d'. worker_run (length ts + 3) i d At_Loop = Inr (d', Exited, ts)"
proof (cases "ts = []")
  case True
  then show ?thesis using assms by (simp add: worker_step_def numeral_3_eq_3)
next
  case False
  let ?d = "d\<lparr>perthread_data := (perthread_data d)[i := []]\<rparr>"
  have a: "worker_run 1 i d At_Loop = Inr (?d, Running (map Some ts), [])"
    using assms False by (simp add: worker_step_def)
  have b: "worker_run 1 i ?d At_Loop = Inr (?d, Exited, [])" using assms by (simp add: worker_step_def)
  have "length ts + 3 = 1 + (Suc (length ts) + 1)" by simp
  then show ?thesis
    using a b worker_run_batch[of ts i ?d] by (simp only: worker_run_add bind_out.simps split_conv) simp
qed

text \<open>From wherever it stands: it finishes its batch first.\<close>

lemma worker_finishes:
  assumes "isExit d" and "running pc = map Some bs" and "perthread_data d ! i = map Some ts"
    and "i < length (perthread_data d)" and "pc = Exited \<longrightarrow> ts = []"
  shows "\<exists>k d'. worker_run k i d pc = Inr (d', Exited, bs @ ts)"
proof -
  obtain d' where e: "worker_run (length ts + 3) i d At_Loop = Inr (d', Exited, ts)"
    using worker_run_exit[OF assms(1,3,4)] by blast
  show ?thesis
  proof (cases pc)
    case At_Loop
    then show ?thesis using e assms(2) by auto
  next
    case (Running xs)
    then have "worker_run (Suc (length bs) + (length ts + 3)) i d pc = Inr (d', Exited, bs @ ts)"
      using worker_run_batch[of bs i d] e assms(2) by (simp only: worker_run_add bind_out.simps split_conv running.simps)
    then show ?thesis by blast
  next
    case Waiting
    then have "worker_run (1 + (length ts + 3)) i d pc = Inr (d', Exited, ts)"
      using e by (simp only: worker_run_add) (simp add: worker_step_def)
    then show ?thesis using assms(2) Waiting by auto
  next
    case Exited
    then have "worker_run 0 i d pc = Inr (d, Exited, bs @ ts)" using assms(2,5) by simp
    then show ?thesis by blast
  qed
qed

lemma map_Some_append:
  assumes "map Some xs @ ys @ zs = map Some ws"
  obtains bs ts where "ys = map Some bs" and "zs = map Some ts" and "ws = xs @ bs @ ts"
proof -
  have "map the (map Some xs @ ys @ zs) = ws" using assms by (simp add: comp_def)
  moreover have "None \<notin> set (ys @ zs)" using assms by (metis Un_iff ex_map_conv option.distinct(1) set_append)
  then have "map (Some \<circ> the) ys = ys" "map (Some \<circ> the) zs = zs"
    by (auto intro!: map_idI) (metis option.collapse)+
  then have "ys = map Some (map the ys)" "zs = map Some (map the zs)" by simp_all
  ultimately show thesis by (intro that[of "map the ys" "map the zs"]) (simp_all add: comp_def)
qed

interpretation tp_sink: task_sink
  "\<lambda>p. ThreadPool_valid p \<and> (case p of None \<Rightarrow> False | Some d \<Rightarrow> length (perthread_data d) = thread_count d)"
  "\<lambda>p j. case p of None \<Rightarrow> [] | Some d \<Rightarrow> perthread_data d ! j"
  "\<lambda>p k. case p of None \<Rightarrow> False | Some d \<Rightarrow> k < thread_count d"
  "\<lambda>p k. k" Some "\<lambda>p k t. Inr (ThreadPool_exec p (Some t) k)"
proof (unfold_locales, goal_cases)
  case (1 p k t)
  then show ?case by (cases p) (auto simp: loop_defs nth_list_update fun_eq_iff)
qed

section \<open>Properties\<close>

text \<open>
  Property C8. The pool loses nothing on the way out. In every interleaving of callers, workers and
  the destructor (run when no call is in flight), each worker has called a prefix of the tasks
  accepted for it, in order and once each; it returns only after it has called all of them; and
  once the pool is destroyed every worker, wherever it stands, comes to its end in finitely many
  steps having called exactly the accepted tasks.
\<close>

theorem ThreadPool_drains_before_exit:
  assumes "tp_reachable n s" and "i < n"
  shows "prefix (ran s i) (accepted s i)
     \<and> (pcs s i = Exited \<longrightarrow> ran s i = accepted s i)
     \<and> (isExit (pool s) \<longrightarrow> (\<exists>k d ts. worker_run k i (pool s) (pcs s i) = Inr (d, Exited, ts)
          \<and> ran s i @ ts = accepted s i))"
proof -
  have inv: "worker_inv i s" "i < length (perthread_data (pool s))"
    using tp_reachable_inv[OF assms(1)] assms(2) by (auto simp: tp_inv_def)
  obtain bs ts where b: "running (pcs s i) = map Some bs" "perthread_data (pool s) ! i = map Some ts"
    "accepted s i = ran s i @ bs @ ts"
    by (rule map_Some_append[of "ran s i" "running (pcs s i)" "perthread_data (pool s) ! i" "accepted s i"])
      (use inv(1) that in \<open>auto simp: worker_inv_def\<close>)
  have e: "pcs s i = Exited \<longrightarrow> ts = [] \<and> bs = []" using inv(1) b by (auto simp: worker_inv_def)
  have "\<exists>k d. worker_run k i (pool s) (pcs s i) = Inr (d, Exited, bs @ ts)" if "isExit (pool s)"
    using worker_finishes[OF that b(1,2) inv(2)] e by blast
  then show ?thesis using b(3) e by auto
qed

text \<open>A pool of one thread with one task accepted, then destroyed.\<close>

lemma tp_demo: "\<exists>s. tp_reachable 1 s \<and> accepted s 0 = [7 :: nat] \<and> ran s 0 = [] \<and> isExit (pool s)"
proof -
  let ?s0 = "tp_init 1 :: nat tp_sys"
  let ?s1 = "?s0\<lparr>pool := pool ?s0, pcs := (pcs ?s0)(0 := Waiting), ran := (ran ?s0)(0 := ran ?s0 0 @ [])\<rparr>"
  have "tp_step ?s0 ?s1" by (rule tp_step.work) (simp_all add: tp_init_def data_t_ctor_def worker_step_def)
  then have 1: "tp_reachable 1 ?s1" using tp_start tp_next by blast
  let ?s2 = "?s1\<lparr>inflight := inflight ?s1 @ [(0, 7)]\<rparr>"
  have "tp_step ?s1 ?s2" by (rule tp_step.test) (simp add: tp_init_def data_t_ctor_def exec_guard_def)
  then have 2: "tp_reachable 1 ?s2" using 1 tp_next by blast
  let ?s3 = "?s2\<lparr>pool := exec_push 0 (Some 7) (pool ?s2), inflight := [] @ [],
                 accepted := (accepted ?s2)(0 := accepted ?s2 0 @ [7])\<rparr>"
  have "tp_step ?s2 ?s3" by (rule tp_step.insert) (simp_all add: tp_init_def)
  then have 3: "tp_reachable 1 ?s3" using 2 tp_next by blast
  let ?s4 = "?s3\<lparr>pool := (pool ?s3)\<lparr>isExit := True\<rparr>\<rparr>"
  have "tp_step ?s3 ?s4" by (rule tp_step.destroy) simp
  then have "tp_reachable 1 ?s4" using 3 tp_next by blast
  then show ?thesis by (intro exI[of _ ?s4]) (simp add: tp_init_def)
qed

theorem ThreadPool_drains_before_exit_witness:
  "\<exists>(s :: nat tp_sys) k d. tp_reachable 1 s \<and> worker_run k 0 (pool s) (pcs s 0) = Inr (d, Exited, [7])"
proof -
  obtain s where s: "tp_reachable 1 s" "accepted s 0 = [7 :: nat]" "ran s 0 = []" "isExit (pool s)"
    using tp_demo by blast
  show ?thesis using ThreadPool_drains_before_exit[OF s(1), of 0] s by auto
qed

text \<open>
  What \<open>exec\<close> accepts and where it goes. Any sequence of calls whose indices name threads
  of a pool that was not destroyed is accepted, and each thread's queue grows by exactly the tasks
  given its index, in order; a call with any other index, or on a destroyed or moved-from pool, is
  refused and changes nothing. But \<open>notifyThread\<close> lets the index one past the last thread through
  and reads outside the array.
\<close>

theorem ThreadPool_exec_spec:
  assumes "p = Some d" and "\<not> isExit d" and "length (perthread_data d) = thread_count d"
    and "\<forall>kt \<in> set kts. fst kt < thread_count d"
  shows "(\<exists>d'. fold_out (\<lambda>(k, t) p. Inr (snd (ThreadPool_exec p (Some t) k))) kts p = Inr (Some d')
            \<and> (\<forall>j. perthread_data d' ! j =
                 perthread_data d ! j @ map (Some \<circ> snd) (filter (\<lambda>kt. fst kt = j) kts)))
     \<and> (thread_count d \<le> k \<longrightarrow> ThreadPool_exec p task k = (False, p))
     \<and> ThreadPool_exec (ThreadPool_dtor p) task k = (False, ThreadPool_dtor p)
     \<and> ThreadPool_exec (snd (ThreadPool_move_ctor p)) task k = (False, None)
     \<and> ThreadPool_notifyThread p (thread_count d) = Inl Out_Of_Range"
proof -
  have "\<exists>p'. tp_sink.submit_all kts p = Inr p' \<and> (case p' of None \<Rightarrow> False | Some d' \<Rightarrow>
      (\<forall>j. perthread_data d' ! j = perthread_data d ! j @ map (Some \<circ> snd) (filter (\<lambda>kt. fst kt = j) kts)))"
    using tp_sink.submit_all_order[of p kts] assms
    by (auto simp: ThreadPool_valid_def split: option.splits)
  then obtain d' where d': "fold_out (\<lambda>(k, t) p. Inr (snd (ThreadPool_exec p (Some t) k))) kts p = Inr (Some d')"
    "\<forall>j. perthread_data d' ! j = perthread_data d ! j @ map (Some \<circ> snd) (filter (\<lambda>kt. fst kt = j) kts)"
    by (auto simp: tp_sink.submit_all_def split_beta split: option.splits)
  show ?thesis
  proof (intro conjI)
    show "\<exists>d'. fold_out (\<lambda>(k, t) p. Inr (snd (ThreadPool_exec p (Some t) k))) kts p = Inr (Some d')
        \<and> (\<forall>j. perthread_data d' ! j =
             perthread_data d ! j @ map (Some \<circ> snd) (filter (\<lambda>kt. fst kt = j) kts))"
      using d' by blast
  qed (use assms(1-3) in \<open>auto simp: loop_defs\<close>)
qed

theorem ThreadPool_exec_spec_witness:
  "ThreadPool_notifyThread (ThreadPoolPortable_ctor 2 :: nat ThreadPool) 2 = Inl Out_Of_Range
   \<and> (\<exists>d'. fold_out (\<lambda>(k, t) p. Inr (snd (ThreadPool_exec p (Some t) k))) [(1, 5), (0, 6), (1, 7)]
              (ThreadPoolPortable_ctor 2) = Inr (Some d') \<and> perthread_data d' ! 1 = [Some (5 :: nat), Some 7])"
proof -
  let ?d = "data_t_ctor 2 :: nat data_t"
  have "\<not> isExit ?d" "length (perthread_data ?d) = thread_count ?d"
    "\<forall>kt \<in> set [(1, 5), (0, 6), (1, 7 :: nat)]. fst kt < thread_count ?d" "thread_count ?d = 2"
    "perthread_data ?d ! 1 = []"
    by (simp_all add: data_t_ctor_def)
  note d = this
  obtain d' where r: "fold_out (\<lambda>(k, t) p. Inr (snd (ThreadPool_exec p (Some t) k)))
      [(1, 5), (0, 6), (1, 7)] (Some ?d) = Inr (Some d')"
    "\<forall>j. perthread_data d' ! j = perthread_data ?d ! j
        @ map (Some \<circ> snd) (filter (\<lambda>kt. fst kt = j) [(1, 5), (0, 6), (1, 7)])"
    and n: "ThreadPool_notifyThread (Some ?d) 2 = Inl Out_Of_Range"
    using ThreadPool_exec_spec[OF refl d(1-3)] d(4) by metis
  have "perthread_data d' ! 1 = [Some 5, Some 7]" using r(2)[rule_format, of 1] d(5) by simp
  then show ?thesis using r(1) n unfolding ThreadPoolPortable_ctor_def by blast
qed

text \<open>
  Making the threads of a \<open>ThreadPool\<close> of \<open>n\<close> threads detaches each handle and then joins the
  detached handle, since the local \<open>Thread\<close> is destroyed at the end of each round; the portable
  pool does neither.
\<close>

lemma ThreadPool_ctor_joins_detached:
  assumes "\<forall>(r, h) \<in> set created. r = 0 \<and> 0 < h"
  shows "ThreadPool_ctor created = Inr (ThreadPoolPortable_ctor (length created),
           concat (map (\<lambda>(_, h). [Pthread_Detach h, Pthread_Join h]) created))"
proof -
  have m: "make_thread 0 h = Inr [Pthread_Detach h, Pthread_Join h]" if "0 < h" for h
    using that by (simp add: make_thread_def Thread_defs)
  have "fold_out (\<lambda>(r, h) es. bind_out (make_thread r h) (\<lambda>e. Inr (es @ e))) created es
      = Inr (es @ concat (map (\<lambda>(_, h). [Pthread_Detach h, Pthread_Join h]) created))" for es
    using assms by (induction created arbitrary: es) (auto simp: m)
  then show ?thesis by (simp add: ThreadPool_ctor_def ThreadPoolPortable_ctor_def)
qed

end
