(* ===== verification/Sys_Pipe.thy ===== *)
theory Sys_Pipe
  imports Andren_Prelude
begin

text \<open>
  The pipe wrappers (\<open>pipe.hh\<close>, \<open>pipe.cpp\<close>). \<open>SysPipe::write\<close> sends a string in pieces of at most
  \<open>PIPE_BUF\<close> bytes, each of which the kernel writes atomically; \<open>read\<close> asks for one piece. The answers
  of the system calls are arguments: \<open>wr i c\<close> is what the \<open>i\<close>-th \<open>::write\<close> of a call, given the
  piece \<open>c\<close>, returns.
\<close>

definition PIPE_BUF :: nat where "PIPE_BUF = 4096"

section \<open>Creating and opening\<close>

text \<open>A field the source leaves uninitialised is \<open>None\<close>.\<close>

record upipe_result =
  rfd :: int
  wfd :: int
  up_ret :: int
  up_eno :: "int option"

text \<open>\<open>pipe()\<close> and \<open>pipe2()\<close> write the two descriptors over the first fields of the result.\<close>

definition SysUnnamedPipe_pipe :: "int \<Rightarrow> int \<times> int \<Rightarrow> int \<Rightarrow> upipe_result" where
  "SysUnnamedPipe_pipe ret fds eno =
     \<lparr>rfd = fst fds, wfd = snd fds, up_ret = ret, up_eno = (if ret \<noteq> 0 then Some eno else None)\<rparr>"

record npipe_result =
  np_fd :: "int option"
  np_ret :: int
  np_eno :: "int option"

definition SysNamedPipe_mkfifo :: "int \<Rightarrow> int \<Rightarrow> npipe_result" where
  "SysNamedPipe_mkfifo ret eno = \<lparr>np_fd = None, np_ret = ret, np_eno = (if ret \<noteq> 0 then Some eno else None)\<rparr>"

definition SysNamedPipe_open :: "int \<Rightarrow> int \<Rightarrow> npipe_result" where
  "SysNamedPipe_open ret eno =
     (if ret \<le> 0 then \<lparr>np_fd = None, np_ret = ret, np_eno = Some eno\<rparr>
      else \<lparr>np_fd = Some ret, np_ret = 0, np_eno = None\<rparr>)"

section \<open>Writing and reading\<close>

text \<open>The value returned, and the pieces handed to the kernel in order.\<close>

definition SysPipe_write :: "(nat \<Rightarrow> bytes \<Rightarrow> int) \<Rightarrow> fd \<Rightarrow> bytes \<Rightarrow> int \<times> bytes list" where
  "SysPipe_write wr f data =
     (if f \<ge> 0 \<and> length data > 0
      then let count = length data div PIPE_BUF;
               freecount = length data mod PIPE_BUF;
               (ret, out) = fold (\<lambda>i (ret, out).
                   let c = take PIPE_BUF (drop (i * PIPE_BUF) data) in (ret + wr i c, out @ [c]))
                 [0..<count] (0, [])
           in if freecount > 0
              then let c = take freecount (drop (count * PIPE_BUF) data) in (ret + wr count c, out @ [c])
              else (ret, out)
      else (-1, []))"

text \<open>\<open>None\<close> is a failing \<open>::read\<close>, \<open>Some []\<close> the end of the stream.\<close>

definition SysPipe_read :: "(nat \<Rightarrow> bytes option) \<Rightarrow> fd \<Rightarrow> bytes \<Rightarrow> int \<times> bytes" where
  "SysPipe_read rd f data =
     (if f > 0
      then case rd PIPE_BUF of
             None \<Rightarrow> (-1, [])
           | Some bs \<Rightarrow> if length bs > 0 then (int (length bs), bs) else (0, [])
      else (-1, data))"

section \<open>Pieces\<close>

lemma write_loop_pieces:
  "fold (\<lambda>i (ret, out). let c = take PIPE_BUF (drop (i * PIPE_BUF) data) in (ret + wr i c, out @ [c]))
     [0..<n] (0, [])
   = (\<Sum>i<n. wr i (take PIPE_BUF (drop (i * PIPE_BUF) data)),
      map (\<lambda>i. take PIPE_BUF (drop (i * PIPE_BUF) data)) [0..<n])"
  by (induction n) (simp_all add: Let_def)

lemma concat_pieces:
  "n * b \<le> length data \<Longrightarrow> concat (map (\<lambda>i. take b (drop (i * b) data)) [0..<n]) = take (n * b) data"
proof (induction n)
  case (Suc n)
  then have "concat (map (\<lambda>i. take b (drop (i * b) data)) [0..<Suc n])
      = take (n * b) data @ take b (drop (n * b) data)" by simp
  then show ?case by (metis add.commute mult_Suc take_add)
qed simp

lemma SysPipe_write_pieces:
  assumes "f \<ge> 0" and "data \<noteq> []"
  obtains out where "SysPipe_write wr f data = (\<Sum>i<length out. wr i (out ! i), out)"
    and "concat out = data" and "\<forall>c \<in> set out. 0 < length c \<and> length c \<le> PIPE_BUF"
    and "\<forall>i < length out - 1. length (out ! i) = PIPE_BUF"
proof -
  let ?n = "length data div PIPE_BUF" and ?m = "length data mod PIPE_BUF"
  let ?p = "map (\<lambda>i. take PIPE_BUF (drop (i * PIPE_BUF) data)) [0..<?n]"
  let ?l = "take ?m (drop (?n * PIPE_BUF) data)"
  let ?out = "if ?m > 0 then ?p @ [?l] else ?p"
  have pos: "0 < PIPE_BUF" by (simp add: PIPE_BUF_def)
  have nb: "?n * PIPE_BUF \<le> length data" "?n * PIPE_BUF + ?m = length data" by simp_all
  have full: "length (take PIPE_BUF (drop (i * PIPE_BUF) data)) = PIPE_BUF" if "i < ?n" for i
  proof -
    have "Suc i * PIPE_BUF \<le> ?n * PIPE_BUF" using that by (intro mult_le_mono1) simp
    from order_trans[OF this nb(1)] show ?thesis by simp
  qed
  have l: "length ?l = ?m" "?l = drop (?n * PIPE_BUF) data"
    using minus_div_mult_eq_mod[of "length data" PIPE_BUF] by simp_all
  have "SysPipe_write wr f data = (\<Sum>i<length ?out. wr i (?out ! i), ?out)"
    using assms unfolding SysPipe_write_def write_loop_pieces
    by (simp add: Let_def nth_append lessThan_Suc add.commute)
  moreover have "concat ?out = data"
  proof (cases "?m > 0")
    case True
    then have "concat ?out = concat ?p @ drop (?n * PIPE_BUF) data" using l(2) by simp
    then show ?thesis using concat_pieces[OF nb(1)] by (metis append_take_drop_id)
  next
    case False
    then show ?thesis using concat_pieces[OF nb(1)] nb(2) by simp
  qed
  moreover have "\<forall>c \<in> set ?out. 0 < length c \<and> length c \<le> PIPE_BUF"
  proof
    fix c assume "c \<in> set ?out"
    then have "(\<exists>i < ?n. c = take PIPE_BUF (drop (i * PIPE_BUF) data)) \<or> (0 < ?m \<and> c = ?l)"
      by (auto split: if_splits)
    then show "0 < length c \<and> length c \<le> PIPE_BUF"
      using full l(1) pos mod_less_divisor[OF pos, of "length data"] by (metis less_imp_le order_refl)
  qed
  moreover have "\<forall>i < length ?out - 1. length (?out ! i) = PIPE_BUF"
    using full by (auto simp: nth_append)
  ultimately show thesis by (rule that)
qed

section \<open>Properties\<close>

text \<open>
  \<open>SysPipe::write\<close> sends exactly the given bytes: the pieces it hands to the kernel join
  to the string, none is empty or longer than \<open>PIPE_BUF\<close>, and all but the last have that length.
  When the kernel takes every piece whole the value returned is the length of the string. But it
  adds the answers whatever they are and goes on: a piece that was cut short or refused is not sent
  again and the later ones follow it, and if every piece is refused the result is minus their number.
\<close>

theorem SysPipe_write_spec:
  assumes "f \<ge> 0" and "data \<noteq> []"
  shows "concat (snd (SysPipe_write wr f data)) = data
     \<and> (\<forall>c \<in> set (snd (SysPipe_write wr f data)). 0 < length c \<and> length c \<le> PIPE_BUF)
     \<and> (\<forall>i < length (snd (SysPipe_write wr f data)) - 1. length (snd (SysPipe_write wr f data) ! i) = PIPE_BUF)
     \<and> ((\<forall>i c. wr i c = int (length c)) \<longrightarrow> fst (SysPipe_write wr f data) = int (length data))
     \<and> ((\<forall>i c. wr i c = -1) \<longrightarrow>
          fst (SysPipe_write wr f data) = - int (length (snd (SysPipe_write wr f data))))"
proof -
  obtain out where o: "SysPipe_write wr f data = (\<Sum>i<length out. wr i (out ! i), out)"
    "concat out = data" "\<forall>c \<in> set out. 0 < length c \<and> length c \<le> PIPE_BUF"
    "\<forall>i < length out - 1. length (out ! i) = PIPE_BUF"
    by (rule SysPipe_write_pieces[OF assms]) (rule that; assumption)
  have "length data = (\<Sum>i<length out. length (out ! i))"
    using length_concat[of out] o(2) by (simp add: sum_list_sum_nth atLeast0LessThan)
  then have "(\<Sum>i<length out. int (length (out ! i))) = int (length data)" by simp
  then show ?thesis using o by (simp add: sum_negf)
qed

theorem SysPipe_write_spec_witness:
  "concat (snd (SysPipe_write (\<lambda>_ c. int (length c)) 1 (replicate 10000 CHR ''x''))) = replicate 10000 CHR ''x''
   \<and> fst (SysPipe_write (\<lambda>_ c. int (length c)) 1 (replicate 10000 CHR ''x'')) = 10000"
  using SysPipe_write_spec[of 1 "replicate 10000 CHR ''x''" "\<lambda>_ c. int (length c)"] by simp

section \<open>The other calls\<close>

definition SysNamedPipe_access :: "(string \<Rightarrow> int \<Rightarrow> int) \<Rightarrow> string \<Rightarrow> int \<Rightarrow> int" where
  "SysNamedPipe_access access path type = access path type"

definition SysPipe_close :: "fd \<Rightarrow> fd list" where
  "SysPipe_close f = [f]"

text \<open>\<open>fcntl(fd, cmd, ...)\<close> passes the \<open>va_list\<close> it starts (\<open>Inr\<close>) in place of the caller's value (\<open>Inl\<close>).\<close>

definition SysPipe_fcntl :: "(fd \<Rightarrow> int \<Rightarrow> int + int list \<Rightarrow> int) \<Rightarrow> fd \<Rightarrow> int \<Rightarrow> int list \<Rightarrow> int" where
  "SysPipe_fcntl fcntl f cmd args = fcntl f cmd (Inr args)"

end
