(* ===== verification/Uid_Creator.thy ===== *)
theory Uid_Creator
  imports Andren_Prelude
begin

text \<open>
  \<open>uid_creator\<close>: two atomic counters that start at 1000. Every call is one indivisible
  \<open>fetch_add(1)\<close>, so however threads interleave, the calls form one sequence.
\<close>

record uid_state =
  uid_u32_last :: u32
  uid_u64_last :: u64

definition uid_state_init :: uid_state where
  "uid_state_init = \<lparr>uid_u32_last = 1000, uid_u64_last = 1000\<rparr>"

definition create_uid_u32 :: "uid_state \<Rightarrow> u32 \<times> uid_state" where
  "create_uid_u32 s = (uid_u32_last s, s\<lparr>uid_u32_last := uid_u32_last s + 1\<rparr>)"

definition create_uid_u64 :: "uid_state \<Rightarrow> u64 \<times> uid_state" where
  "create_uid_u64 s = (uid_u64_last s, s\<lparr>uid_u64_last := uid_u64_last s + 1\<rparr>)"

text \<open>The state after a number of calls of each kind.\<close>

definition after_calls :: "nat \<Rightarrow> nat \<Rightarrow> uid_state" where
  "after_calls m n = ((snd \<circ> create_uid_u64) ^^ n) (((snd \<circ> create_uid_u32) ^^ m) uid_state_init)"

lemma after_u32: "((snd \<circ> create_uid_u32) ^^ m) s = s\<lparr>uid_u32_last := uid_u32_last s + of_nat m\<rparr>"
  by (induction m) (simp_all add: create_uid_u32_def algebra_simps)

lemma after_u64: "((snd \<circ> create_uid_u64) ^^ n) s = s\<lparr>uid_u64_last := uid_u64_last s + of_nat n\<rparr>"
  by (induction n) (simp_all add: create_uid_u64_def algebra_simps)

text \<open>
  Two calls return the same id only when the number of calls between them is a multiple
  of the counter's range, so up to \<open>2 ^ 32\<close> (\<open>2 ^ 64\<close>) consecutive ids are distinct; the two counters
  do not disturb each other. They are not monotone for ever: call number \<open>2 ^ 32 - 1000\<close> returns 0.
\<close>

theorem uid_distinct:
  "(fst (create_uid_u32 (after_calls i k)) = fst (create_uid_u32 (after_calls j l))
      \<longleftrightarrow> i mod 2 ^ 32 = j mod 2 ^ 32)
   \<and> (fst (create_uid_u64 (after_calls k i)) = fst (create_uid_u64 (after_calls l j))
      \<longleftrightarrow> i mod 2 ^ 64 = j mod 2 ^ 64)
   \<and> fst (create_uid_u32 (after_calls (2 ^ 32 - 1000) k)) = 0"
  by (simp add: after_calls_def after_u32 after_u64 create_uid_u32_def create_uid_u64_def uid_state_init_def
      word_of_nat_eq_iff take_bit_eq_mod)

end
