(* ===== verification/String_Tools.thy ===== *)
theory String_Tools
  imports Andren_Prelude "HOL-Library.Sublist"
begin

text \<open>
  \<open>string_tool.cpp\<close>: the two split functions, over \<open>std::string::find\<close> and \<open>std::string::substr\<close>
  as the standard defines them. Splitting by a substring is a partial function, because an empty
  delimiter makes the source's loop run for ever. The functional correctness lemmas relate both
  loops to joining the fields again.
\<close>

section \<open>The standard string operations used\<close>

text \<open>\<open>find(pat, from)\<close>: the first position from \<open>from\<close> on where \<open>pat\<close> occurs; \<open>None\<close> is \<open>npos\<close>.\<close>

definition str_find :: "string \<Rightarrow> string \<Rightarrow> nat \<Rightarrow> nat option" where
  "str_find str pat from =
     find (\<lambda>i. take (length pat) (drop i str) = pat) [from..<Suc (length str) - length pat]"

definition str_find_char :: "string \<Rightarrow> char \<Rightarrow> nat \<Rightarrow> nat option" where
  "str_find_char str c from = find (\<lambda>i. str ! i = c) [from..<length str]"

text \<open>\<open>substr(pos, n)\<close> throws when \<open>pos\<close> is past the end.\<close>

definition str_substr :: "string \<Rightarrow> nat \<Rightarrow> nat \<Rightarrow> string outcome" where
  "str_substr str pos n = (if length str < pos then Inl Out_Of_Range else Inr (take n (drop pos str)))"

definition str_suffix :: "string \<Rightarrow> nat \<Rightarrow> string outcome" where
  "str_suffix str pos = (if length str < pos then Inl Out_Of_Range else Inr (drop pos str))"

section \<open>Splitting\<close>

lemma find_upt_Some:
  assumes "find P [a..<b] = Some e"
  shows "a \<le> e" and "e < b" and "P e" and "\<forall>i. a \<le> i \<and> i < e \<longrightarrow> \<not> P i"
proof -
  from assms obtain n where n: "n < b - a" "P (a + n)" "e = a + n" "\<forall>j < n. \<not> P (a + j)"
    by (auto simp: find_Some_iff)
  then show "a \<le> e" "e < b" "P e" by auto
  show "\<forall>i. a \<le> i \<and> i < e \<longrightarrow> \<not> P i"
  proof (intro allI impI)
    fix i assume i: "a \<le> i \<and> i < e"
    then have "i - a < n" "a + (i - a) = i" using n(3) by linarith+
    then show "\<not> P i" using n(4) by metis
  qed
qed

function split_char_loop :: "string \<Rightarrow> char \<Rightarrow> nat \<Rightarrow> string list \<Rightarrow> string list outcome" where
  "split_char_loop str delimiter start result =
     (case str_find_char str delimiter start of
        None \<Rightarrow> bind_out (str_suffix str start) (\<lambda>x. Inr (result @ [x]))
      | Some e \<Rightarrow> bind_out (str_substr str start (e - start)) (\<lambda>x.
                    split_char_loop str delimiter (e + 1) (result @ [x])))"
  by pat_completeness auto
termination
proof (relation "measure (\<lambda>(str, _, start, _). length str - start)")
  fix str :: string and delimiter start e and result :: "string list" and x :: string
  assume "str_find_char str delimiter start = Some e"
  then have "start \<le> e" "e < length str" using find_upt_Some(1,2) by (auto simp: str_find_char_def)
  then show "((str, delimiter, e + 1, result @ [x]), str, delimiter, start, result)
      \<in> measure (\<lambda>(str, _, start, _). length str - start)" by simp
qed simp

definition splitStringByChar :: "string \<Rightarrow> char \<Rightarrow> string list outcome" where
  "splitStringByChar str delimiter = split_char_loop str delimiter 0 []"

partial_function (option) split_sub_loop ::
  "string \<Rightarrow> string \<Rightarrow> nat \<Rightarrow> string list \<Rightarrow> string list outcome option" where
  "split_sub_loop str delimiter start result =
     (case str_find str delimiter start of
        None \<Rightarrow> Some (bind_out (str_suffix str start) (\<lambda>x. Inr (result @ [x])))
      | Some e \<Rightarrow>
          (case str_substr str start (e - start) of
             Inl f \<Rightarrow> Some (Inl f)
           | Inr x \<Rightarrow> split_sub_loop str delimiter (e + length delimiter) (result @ [x])))"

definition splitStringBySubstring :: "string \<Rightarrow> string \<Rightarrow> string list outcome option" where
  "splitStringBySubstring str delimiter = split_sub_loop str delimiter 0 []"

declare split_char_loop.simps [simp del]

section \<open>Joining\<close>

fun join_with :: "'a list \<Rightarrow> 'a list list \<Rightarrow> 'a list" where
  "join_with d [] = []"
| "join_with d [x] = x"
| "join_with d (x # y # zs) = x @ d @ join_with d (y # zs)"

lemma join_with_Cons: "fs \<noteq> [] \<Longrightarrow> join_with d (x # fs) = x @ d @ join_with d fs"
  by (cases fs) simp_all

lemma take_drop_split:
  assumes "start \<le> e" and "take (length d) (drop e str) = d"
  shows "drop start str = take (e - start) (drop start str) @ d @ drop (e + length d) str"
proof -
  have "drop start str = take (e - start) (drop start str) @ drop (e - start) (drop start str)"
    by (rule append_take_drop_id[symmetric])
  also have "drop (e - start) (drop start str) = drop e str" using assms(1) by simp
  also have "drop e str = take (length d) (drop e str) @ drop (length d) (drop e str)"
    by (rule append_take_drop_id[symmetric])
  finally show ?thesis using assms(2) by (simp add: add.commute)
qed

text \<open>No occurrence is found from \<open>a\<close> up to \<open>b\<close>, so none lies within that part of the string.\<close>

lemma no_occurrence:
  assumes "\<forall>i. a \<le> i \<and> i < b \<and> i + length d \<le> length str \<longrightarrow> take (length d) (drop i str) \<noteq> d"
    and "d \<noteq> []" and "b \<le> length str" and "a \<le> b"
  shows "\<not> sublist d (take (b - a) (drop a str))"
proof
  assume "sublist d (take (b - a) (drop a str))"
  then obtain p q where pq: "take (b - a) (drop a str) = p @ d @ q" by (auto simp: sublist_def)
  then have "length p + length d + length q = b - a" using assms(3,4) by (metis add.assoc length_append length_take
      length_drop min.absorb2 diff_le_mono)
  moreover have "0 < length d" using assms(2) by simp
  ultimately have l: "a + length p < b" "a + length p + length d \<le> length str" using assms(3,4) by linarith+
  have "take (length d) (drop (length p) (take (b - a) (drop a str))) = d" by (simp add: pq)
  then have "take (length d) (drop (a + length p) str) = d"
    using \<open>length p + length d + length q = b - a\<close>
    by (simp add: drop_take take_take min_def add.commute split: if_splits)
  then show False using assms(1) l by simp
qed

section \<open>The loops compute fields\<close>

text \<open>What both loops return: fields that contain no delimiter and join to the string again.\<close>

definition splits_to :: "string \<Rightarrow> string \<Rightarrow> string list \<Rightarrow> bool" where
  "splits_to d str fs \<longleftrightarrow> fs \<noteq> [] \<and> join_with d fs = str \<and> (\<forall>f \<in> set fs. \<not> sublist d f)"

lemma str_find_Some:
  assumes "str_find str d start = Some e"
  shows "start \<le> e" and "e + length d \<le> length str" and "take (length d) (drop e str) = d"
    and "\<forall>i. start \<le> i \<and> i < e \<longrightarrow> take (length d) (drop i str) \<noteq> d"
  using find_upt_Some[OF assms[unfolded str_find_def]] by auto

lemma str_find_None:
  assumes "str_find str d start = None"
  shows "\<forall>i. start \<le> i \<and> i + length d \<le> length str \<longrightarrow> take (length d) (drop i str) \<noteq> d"
  using assms by (auto simp: str_find_def find_None_iff)

lemma splits_to_step:
  assumes "str_find str d start = Some e" and "d \<noteq> []" and "splits_to d (drop (e + length d) str) fs"
  shows "splits_to d (drop start str) (take (e - start) (drop start str) # fs)"
proof -
  note f = str_find_Some[OF assms(1)]
  have "\<not> sublist d (take (e - start) (drop start str))"
    using no_occurrence[of start e d str] f assms(2) by auto
  moreover have "join_with d (take (e - start) (drop start str) # fs) = drop start str"
    using assms(3) take_drop_split[OF f(1,3)] by (simp add: splits_to_def join_with_Cons)
  ultimately show ?thesis using assms(3) by (simp add: splits_to_def)
qed

lemma splits_to_last:
  assumes "str_find str d start = None" and "d \<noteq> []" and "start \<le> length str"
  shows "splits_to d (drop start str) [drop start str]"
  using no_occurrence[of start "length str" d str] str_find_None[OF assms(1)] assms(2,3)
  by (simp add: splits_to_def)

lemma split_sub_loop_fields:
  assumes "d \<noteq> []" and "start \<le> length str"
  shows "\<exists>fs. split_sub_loop str d start result = Some (Inr (result @ fs)) \<and> splits_to d (drop start str) fs"
  using assms(2)
proof (induction "length str - start" arbitrary: start result rule: less_induct)
  case less
  show ?case
  proof (cases "str_find str d start")
    case None
    then show ?thesis
      using splits_to_last[OF None assms(1) less.prems] less.prems
      by (simp add: split_sub_loop.simps[of str d start result] str_suffix_def)
  next
    case (Some e)
    note f = str_find_Some[OF Some]
    let ?x = "take (e - start) (drop start str)"
    have "length str - (e + length d) < length str - start" using f(1,2) assms(1) less.prems
      by (cases d) auto
    then obtain fs where fs: "split_sub_loop str d (e + length d) (result @ [?x]) = Some (Inr ((result @ [?x]) @ fs))"
      "splits_to d (drop (e + length d) str) fs"
      using less.hyps[of "e + length d" "result @ [?x]"] f(2) by blast
    have "split_sub_loop str d start result = Some (Inr (result @ ?x # fs))"
      using fs(1) Some less.prems by (simp add: split_sub_loop.simps[of str d start result] str_substr_def)
    then show ?thesis using splits_to_step[OF Some assms(1) fs(2)] by blast
  qed
qed

lemma str_find_char_singleton: "str_find_char str c start = str_find str [c] start"
proof -
  have "find (\<lambda>i. str ! i = c) [start..<length str] = find (\<lambda>i. take 1 (drop i str) = [c]) [start..<length str]"
    by (rule find_cong) (auto simp: take_Suc hd_drop_conv_nth)
  then show ?thesis by (simp add: str_find_char_def str_find_def)
qed

lemma split_char_loop_sub: "split_sub_loop str [c] start result = Some (split_char_loop str c start result)"
proof (induction str c start result rule: split_char_loop.induct)
  case (1 str c start result)
  show ?case
  proof (cases "str_find_char str c start")
    case None
    then show ?thesis
      by (simp add: split_sub_loop.simps[of str "[c]"] split_char_loop.simps[of str] str_find_char_singleton)
  next
    case (Some e)
    then show ?thesis
      using "1.IH"[OF Some]
      by (cases "str_substr str start (e - start)")
        (simp_all add: split_sub_loop.simps[of str "[c]" start] split_char_loop.simps[of str c start]
          str_find_char_singleton)
  qed
qed

lemma sublist_singleton: "sublist [c] f \<longleftrightarrow> c \<in> set f"
  by (auto simp: sublist_def in_set_conv_decomp)

lemma append_delimiter_inject:
  assumes "xs @ c # rs = ys @ c # ss" and "c \<notin> set xs" and "c \<notin> set ys"
  shows "xs = ys \<and> rs = ss"
proof -
  have t: "takeWhile (\<lambda>y. y \<noteq> c) (zs @ c # ts) = zs" if "c \<notin> set zs" for zs ts
    using that by (induction zs) auto
  have "xs = ys" using t[OF assms(2), of rs] t[OF assms(3), of ss] assms(1) by simp
  then show ?thesis using assms(1) by simp
qed

lemma join_char_inject:
  assumes "fs \<noteq> []" and "gs \<noteq> []" and "join_with [c] fs = join_with [c] gs"
    and "\<forall>f \<in> set fs. c \<notin> set f" and "\<forall>g \<in> set gs. c \<notin> set g"
  shows "fs = gs"
  using assms
proof (induction fs arbitrary: gs rule: list_nonempty_induct)
  case (single x)
  then obtain g gs' where gs: "gs = g # gs'" by (cases gs) auto
  show ?case
  proof (cases gs')
    case Nil
    then show ?thesis using single gs by simp
  next
    case (Cons h hs)
    then have "c \<in> set x" using single gs by auto
    then show ?thesis using single by simp
  qed
next
  case (cons x fs)
  obtain g gs' where gs: "gs = g # gs'" using cons.prems(1) by (cases gs) auto
  have j: "join_with [c] (x # fs) = x @ c # join_with [c] fs" using cons.hyps by (simp add: join_with_Cons)
  have "gs' \<noteq> []"
  proof
    assume "gs' = []"
    then have "g = x @ c # join_with [c] fs" using cons.prems(2) gs j by simp
    then show False using cons.prems(4) gs by simp
  qed
  then have "x @ c # join_with [c] fs = g @ c # join_with [c] gs'"
    using cons.prems(2) gs j by (simp add: join_with_Cons)
  moreover have "c \<notin> set x" "c \<notin> set g" using cons.prems(3,4) gs by auto
  ultimately have "x = g \<and> join_with [c] fs = join_with [c] gs'" by (rule append_delimiter_inject)
  then show ?case using cons.IH[OF \<open>gs' \<noteq> []\<close>] cons.prems(3,4) gs by simp
qed

lemma str_find_empty: "start \<le> length str \<Longrightarrow> str_find str [] start = Some start"
  by (simp add: str_find_def upt_conv_Cons del: upt_Suc)

lemma split_empty_no_return:
  "split_sub_loop str d start result = Some y \<Longrightarrow> d = [] \<longrightarrow> length str < start"
proof (rule split_sub_loop.raw_induct[of "\<lambda>str d start result y. d = [] \<longrightarrow> length str < start"])
  fix f str d start result y
  assume IH: "\<And>str d start result y. f str d start result = Some y \<Longrightarrow> d = [] \<longrightarrow> length str < start"
    and r: "(case str_find str d start of
               None \<Rightarrow> Some (bind_out (str_suffix str start) (\<lambda>x. Inr (result @ [x])))
             | Some e \<Rightarrow> (case str_substr str start (e - start) of Inl f \<Rightarrow> Some (Inl f)
                 | Inr x \<Rightarrow> f str d (e + length d) (result @ [x]))) = Some y"
  show "d = [] \<longrightarrow> length str < start"
  proof (intro impI, rule ccontr)
    assume d: "d = []" and "\<not> length str < start"
    then have "f str [] start (result @ [[]]) = Some y"
      using r by (simp add: str_find_empty str_substr_def)
    then show False using IH[of str "[]" start] \<open>\<not> length str < start\<close> by simp
  qed
qed

section \<open>Properties\<close>

text \<open>
  Property C24. Splitting a string by a non-empty substring always returns, and returns fields that contain no
  occurrence of the delimiter and join to the string again. Splitting by a character is splitting
  by the string of that one character; and there the fields are the only ones with these two
  properties, so splitting undoes joining. With an empty delimiter the source's loop never ends.
\<close>

theorem split_correct:
  assumes "d \<noteq> []"
  shows "(\<exists>fs. splitStringBySubstring str d = Some (Inr fs) \<and> splits_to d str fs)
     \<and> splitStringBySubstring str [c] = Some (splitStringByChar str c)
     \<and> (fs \<noteq> [] \<and> (\<forall>f \<in> set fs. c \<notin> set f) \<longrightarrow> splitStringByChar (join_with [c] fs) c = Inr fs)
     \<and> splitStringBySubstring str [] = None"
proof (intro conjI impI)
  show "\<exists>fs. splitStringBySubstring str d = Some (Inr fs) \<and> splits_to d str fs"
    using split_sub_loop_fields[OF assms, of 0 str "[]"] by (simp add: splitStringBySubstring_def)
  show one: "splitStringBySubstring str [c] = Some (splitStringByChar str c)" for str
    by (simp add: splitStringBySubstring_def splitStringByChar_def split_char_loop_sub)
  show "splitStringBySubstring str [] = None"
    using split_empty_no_return[of str "[]" 0 "[]"]
    by (cases "split_sub_loop str [] 0 []") (auto simp: splitStringBySubstring_def)
  assume fs: "fs \<noteq> [] \<and> (\<forall>f \<in> set fs. c \<notin> set f)"
  obtain gs where gs: "splitStringBySubstring (join_with [c] fs) [c] = Some (Inr gs)"
    "splits_to [c] (join_with [c] fs) gs"
    using split_sub_loop_fields[of "[c]" 0 "join_with [c] fs" "[]"]
    by (auto simp: splitStringBySubstring_def)
  then have "gs = fs"
    using fs join_char_inject[of gs fs c] by (auto simp: splits_to_def sublist_singleton)
  then show "splitStringByChar (join_with [c] fs) c = Inr fs" using gs(1) one by simp
qed

theorem split_correct_witness:
  "splitStringBySubstring ''a::b::'' ''::'' = Some (Inr [''a'', ''b'', []])
   \<and> splitStringByChar ''x,,y'' (CHR '','') = Inr [''x'', [], ''y'']
   \<and> splitStringBySubstring ''xy'' [] = None"
proof -
  have "splitStringByChar (join_with [CHR '',''] [''x'', [], ''y'']) (CHR '','') = Inr [''x'', [], ''y'']"
    "splitStringBySubstring ''xy'' [] = None"
    using split_correct[of "''::''" "''xy''" "CHR '',''" "[''x'', [], ''y'']"] by simp_all
  moreover have "splitStringBySubstring ''a::b::'' ''::'' = Some (Inr [''a'', ''b'', []])"
    by (simp add: splitStringBySubstring_def split_sub_loop.simps str_find_def str_substr_def str_suffix_def
        upt_conv_Cons)
  ultimately show ?thesis by simp
qed

end
