(* ===== verification/File_Model.thy ===== *)
theory File_Model
  imports String_Tools
begin

text \<open>
  \<open>File\<close> (\<open>ufile.hh\<close>, \<open>ufile.cpp\<close>): ownership of a file descriptor and the creation of the directories
  of a path. Closing is recorded as an effect; the answers of \<open>open\<close> and \<open>mkdir\<close> are arguments.
\<close>

section \<open>Ownership\<close>

record File =
  u_fd :: int

type_synonym closed = "int list"

definition File_ctor :: File where
  "File_ctor = \<lparr>u_fd = -1\<rparr>"

definition File_ctor_fd :: "int \<Rightarrow> File" where
  "File_ctor_fd f = \<lparr>u_fd = f\<rparr>"

definition File_close :: "File \<Rightarrow> closed \<times> File" where
  "File_close fl = (if u_fd fl < 0 then ([], fl) else ([u_fd fl], fl\<lparr>u_fd := -1\<rparr>))"

definition File_dtor :: "File \<Rightarrow> closed" where
  "File_dtor fl = fst (File_close fl)"

definition File_swap :: "File \<Rightarrow> File \<Rightarrow> File \<times> File" where
  "File_swap a b = (a\<lparr>u_fd := u_fd b\<rparr>, b\<lparr>u_fd := u_fd a\<rparr>)"

text \<open>
  \<open>File().swap(file).swap(*this)\<close>: a temporary takes the argument's descriptor, exchanges it with
  the object's, and is destroyed. The results are what is closed, the object and the argument.
\<close>

definition File_exchange :: "File \<Rightarrow> File \<Rightarrow> closed \<times> File \<times> File" where
  "File_exchange self file =
     (let (tmp, file') = File_swap File_ctor file;
          (tmp', self') = File_swap tmp self
      in (File_dtor tmp', self', file'))"

definition File_move_assign :: "File \<Rightarrow> File \<Rightarrow> closed \<times> File \<times> File" where
  "File_move_assign self file = File_exchange self file"

text \<open>The move constructor does the same on an object whose descriptor was never set.\<close>

definition File_move_ctor :: "int \<Rightarrow> File \<Rightarrow> closed \<times> File \<times> File" where
  "File_move_ctor unset file = File_exchange \<lparr>u_fd = unset\<rparr> file"

definition File_open :: "int \<Rightarrow> File \<Rightarrow> bool \<times> File" where
  "File_open ret fl = (\<not> ret < 0, if \<not> ret < 0 then fl\<lparr>u_fd := ret\<rparr> else fl)"

definition File_valid :: "File \<Rightarrow> bool" where
  "File_valid fl \<longleftrightarrow> u_fd fl \<ge> 0"

definition File_take_handle :: "File \<Rightarrow> int \<times> File" where
  "File_take_handle fl = (u_fd fl, fl\<lparr>u_fd := -1\<rparr>)"

lemmas File_defs =
  File_ctor_def File_ctor_fd_def File_close_def File_dtor_def File_swap_def File_exchange_def
  File_move_assign_def File_move_ctor_def File_open_def File_valid_def File_take_handle_def

text \<open>
  A descriptor has one owner through moves, takes and closes; but the move constructor also closes
  whatever number the new object's memory held, and \<open>open\<close> on an open file forgets the old descriptor.
\<close>

theorem File_ownership:
  assumes "0 \<le> f"
  shows "fst (snd (File_move_ctor unset (File_ctor_fd f))) = File_ctor_fd f
     \<and> File_dtor (snd (snd (File_move_ctor unset (File_ctor_fd f)))) = []
     \<and> fst (File_move_ctor unset (File_ctor_fd f)) = (if unset < 0 then [] else [unset])
     \<and> fst (File_move_assign (File_ctor_fd f) file) = [f]
     \<and> File_dtor (snd (File_close (File_ctor_fd f))) = []
     \<and> (let (h, fl) = File_take_handle (File_ctor_fd f) in h = f \<and> File_dtor fl = [])
     \<and> (0 \<le> g \<and> g \<noteq> f \<longrightarrow> File_dtor (snd (File_open g (File_ctor_fd f))) = [g])"
  using assms by (simp add: File_defs)

section \<open>Directories\<close>

text \<open>
  The loop of \<open>createDirectories\<close>: the codes \<open>mk dir\<close> of the \<open>mkdir\<close> calls decide whether it goes on.
  The result is the value returned and the directories asked for, in order.
\<close>

function create_loop :: "(string \<Rightarrow> int) \<Rightarrow> bool \<Rightarrow> string \<Rightarrow> nat \<Rightarrow> int \<times> string list" where
  "create_loop mk ignoreErr path pos =
     (case str_find_char path (CHR ''/'') (pos + 1) of
        None \<Rightarrow> (0, [])
      | Some p \<Rightarrow>
          let dir = take p path in
          if dir = ''.'' then create_loop mk ignoreErr path p
          else if \<not> ignoreErr \<and> mk dir \<noteq> 0 then (-1, [dir])
          else let (r, ds) = create_loop mk ignoreErr path p in (r, dir # ds))"
  by pat_completeness auto
termination
proof (relation "measure (\<lambda>(_, _, path, pos). length path - pos)", goal_cases)
  case (2 mk ignoreErr path pos p dir)
  then have "pos + 1 \<le> p" "p < length path" using find_upt_Some(1,2) by (auto simp: str_find_char_def)
  then show ?case by simp
next
  case (3 mk ignoreErr path pos p dir)
  then have "pos + 1 \<le> p" "p < length path" using find_upt_Some(1,2) by (auto simp: str_find_char_def)
  then show ?case by simp
qed simp

declare create_loop.simps [simp del]

lemma create_loop_None:
  "str_find_char path (CHR ''/'') (pos + 1) = None \<Longrightarrow> create_loop mk ignoreErr path pos = (0, [])"
  by (subst create_loop.simps) simp

lemma create_loop_Some:
  "str_find_char path (CHR ''/'') (pos + 1) = Some p \<Longrightarrow>
     create_loop mk ignoreErr path pos =
       (if take p path = ''.'' then create_loop mk ignoreErr path p
        else if \<not> ignoreErr \<and> mk (take p path) \<noteq> 0 then (-1, [take p path])
        else (fst (create_loop mk ignoreErr path p), take p path # snd (create_loop mk ignoreErr path p)))"
  by (subst create_loop.simps) (simp add: Let_def split_beta)

definition File_createDirectories :: "(string \<Rightarrow> int) \<Rightarrow> bool \<Rightarrow> string \<Rightarrow> int \<times> string list" where
  "File_createDirectories mk ignoreErr path = create_loop mk ignoreErr path 0"

text \<open>The directories of a path: what stands before each slash that is not its first character.\<close>

definition parents_from :: "nat \<Rightarrow> string \<Rightarrow> string list" where
  "parents_from n path =
     filter (\<lambda>d. d \<noteq> ''.'') (map (\<lambda>i. take i path) (filter (\<lambda>i. path ! i = CHR ''/'') [n..<length path]))"

lemma filter_upt_first:
  assumes "find P [a..<b] = Some e"
  shows "filter P [a..<b] = e # filter P [Suc e..<b]"
proof -
  note f = find_upt_Some[OF assms]
  have "[a..<b] = [a..<e] @ e # [Suc e..<b]"
    using f(1,2) upt_add_eq_append[of a e "b - e"] by (simp add: upt_conv_Cons)
  moreover have "filter P [a..<e] = []" using f(4) by (auto simp: filter_empty_conv)
  ultimately show ?thesis using f(3) by simp
qed

lemma parents_from_step:
  assumes "str_find_char path (CHR ''/'') (pos + 1) = Some p"
  shows "parents_from (pos + 1) path =
     (if take p path = ''.'' then parents_from (p + 1) path else take p path # parents_from (p + 1) path)"
  using filter_upt_first[OF assms[unfolded str_find_char_def]] by (simp add: parents_from_def)

lemma parents_from_end:
  assumes "str_find_char path (CHR ''/'') (pos + 1) = None"
  shows "parents_from (pos + 1) path = []"
  using assms by (auto simp: parents_from_def str_find_char_def find_None_iff filter_empty_conv)

lemma create_loop_ok:
  assumes "ignoreErr \<or> (\<forall>d \<in> set (parents_from (pos + 1) path). mk d = 0)"
  shows "create_loop mk ignoreErr path pos = (0, parents_from (pos + 1) path)"
  using assms
proof (induction mk ignoreErr path pos rule: create_loop.induct)
  case (1 mk ignoreErr path pos)
  show ?case
  proof (cases "str_find_char path (CHR ''/'') (pos + 1)")
    case None
    then show ?thesis using parents_from_end[OF None] create_loop_None[OF None] by simp
  next
    case (Some p)
    show ?thesis
    proof (cases "take p path = ''.''")
      case True
      then show ?thesis using "1.IH"(1)[OF Some refl] "1.prems" parents_from_step[OF Some] create_loop_Some[OF Some] by simp
    next
      case False
      then show ?thesis using "1.IH"(2)[OF Some refl] "1.prems" parents_from_step[OF Some] create_loop_Some[OF Some] by auto
    qed
  qed
qed

lemma create_loop_fails:
  assumes "parents_from (pos + 1) path = ds @ d # es" and "\<forall>x \<in> set ds. mk x = 0" and "mk d \<noteq> 0"
  shows "create_loop mk False path pos = (-1, ds @ [d])"
  using assms(1,2)
proof (induction "length path - pos" arbitrary: pos ds rule: less_induct)
  case less
  then obtain p where p: "str_find_char path (CHR ''/'') (pos + 1) = Some p"
    using parents_from_end[of path pos] by (cases "str_find_char path (CHR ''/'') (pos + 1)") auto
  then have "pos + 1 \<le> p" "p < length path" using find_upt_Some(1,2) by (auto simp: str_find_char_def)
  then have m: "length path - p < length path - pos" by simp
  note s = parents_from_step[OF p]
  show ?case
  proof (cases "take p path = ''.''")
    case True
    then show ?thesis
      using less.hyps[OF m, of ds] less.prems s create_loop_Some[OF p] by simp
  next
    case False
    then show ?thesis
    proof (cases ds)
      case Nil
      then show ?thesis
        using False less.prems(1) s assms(3) create_loop_Some[OF p] by simp
    next
      case (Cons x xs)
      then show ?thesis
        using False less.hyps[OF m, of xs] less.prems s create_loop_Some[OF p] by simp
    qed
  qed
qed

text \<open>
  \<open>createDirectories\<close> asks for exactly the parent directories of the path, outermost
  first, never for the empty one or \<open>.\<close>, and returns 0 when told to ignore errors or when all
  succeed. Otherwise it stops at the first that fails with -1, even if that directory already
  existed, so without ignoring errors a path below an existing directory always fails.
\<close>

theorem File_createDirectories_spec:
  "File_createDirectories mk True path = (0, parents_from 1 path)
   \<and> ((\<forall>d \<in> set (parents_from 1 path). mk d = 0) \<longrightarrow>
        File_createDirectories mk False path = (0, parents_from 1 path))
   \<and> (parents_from 1 path = ds @ d # es \<and> (\<forall>x \<in> set ds. mk x = 0) \<and> mk d \<noteq> 0 \<longrightarrow>
        File_createDirectories mk False path = (-1, ds @ [d]))"
  using create_loop_ok[of True 0 path mk] create_loop_ok[of False 0 path mk] create_loop_fails[of 0 path ds d es mk]
  by (simp add: File_createDirectories_def)

theorem File_createDirectories_spec_witness:
  "File_createDirectories (\<lambda>d. if d = ''/a/b'' then -1 else 0) False ''/a/b/c/f'' = (-1, [''/a'', ''/a/b''])"
proof -
  have "parents_from 1 ''/a/b/c/f'' = [''/a''] @ ''/a/b'' # [''/a/b/c'']" by code_simp
  then show ?thesis
    using File_createDirectories_spec[of "\<lambda>d. if d = ''/a/b'' then -1 else 0" "''/a/b/c/f''" "[''/a'']" "''/a/b''"
        "[''/a/b/c'']"] by simp
qed

section \<open>Reading and writing\<close>

text \<open>
  The calls on the descriptor: the kernel is given the descriptor and answers a count and, for reads, the bytes.
  \<open>readToBuf\<close> reads into the string it is given, at most as many bytes as it has, and does not change its length.
\<close>

definition File_write :: "(int \<Rightarrow> bytes \<Rightarrow> 'k \<Rightarrow> int \<times> 'k) \<Rightarrow> bytes \<Rightarrow> nat \<Rightarrow> File \<Rightarrow> 'k \<Rightarrow> int \<times> 'k" where
  "File_write wr data n f = wr (u_fd f) (take n data)"

definition File_writeByBuf :: "(int \<Rightarrow> bytes \<Rightarrow> 'k \<Rightarrow> int \<times> 'k) \<Rightarrow> bytes \<Rightarrow> File \<Rightarrow> 'k \<Rightarrow> int \<times> 'k" where
  "File_writeByBuf wr buf f = File_write wr buf (length buf) f"

definition File_read :: "(int \<Rightarrow> nat \<Rightarrow> 'k \<Rightarrow> (int \<times> bytes) \<times> 'k) \<Rightarrow> nat \<Rightarrow> File \<Rightarrow> 'k \<Rightarrow> (int \<times> bytes) \<times> 'k" where
  "File_read rd buf_size f = rd (u_fd f) buf_size"

definition File_readToBuf ::
  "(int \<Rightarrow> nat \<Rightarrow> 'k \<Rightarrow> (int \<times> bytes) \<times> 'k) \<Rightarrow> bytes \<Rightarrow> File \<Rightarrow> 'k \<Rightarrow> int \<times> bytes \<times> 'k" where
  "File_readToBuf rd buf f k =
     (let ((ret, out), k') = File_read rd (length buf) f k
      in (ret, take (length buf) (out @ drop (length out) buf), k'))"

definition File_handle :: "File \<Rightarrow> int" where
  "File_handle f = u_fd f"

definition File_fcntl :: "(int \<Rightarrow> int \<Rightarrow> int option \<Rightarrow> int) \<Rightarrow> int \<Rightarrow> int \<Rightarrow> int option \<Rightarrow> int" where
  "File_fcntl fcntl f cmd arg = fcntl f cmd arg"

text \<open>
  A short read into a string: the bytes read replace its front, the tail is what it was before, and its length does not
  tell how much was read; an empty string never reads anything.
\<close>

theorem File_readToBuf_tail:
  assumes "rd (u_fd f) (length buf) k = ((ret, out), k')" and "length out \<le> length buf"
  shows "File_readToBuf rd buf f k = (ret, out @ drop (length out) buf, k')
     \<and> length (fst (snd (File_readToBuf rd buf f k))) = length buf
     \<and> File_writeByBuf wr buf f k = wr (u_fd f) buf k"
  using assms by (simp add: File_readToBuf_def File_read_def File_writeByBuf_def File_write_def)

end
