(* ===== verification/A_File.thy ===== *)
theory A_File
  imports File_Model IO_Worker
begin

text \<open>
  \<open>AFile\<close> (\<open>afile.hh\<close>, \<open>afile.cpp\<close>): file operations that run, one after the other, on the IO worker of
  a task distributor. A request is a task in the distributor's queue; \<open>AFile_run\<close> is what the closures
  do there. What the system calls answer is the argument \<open>env\<close>; what they are asked and which user
  callbacks are called is recorded as effects.
\<close>

section \<open>Requests\<close>

datatype 'c afile_task =
    A_Close 'c
  | A_Reopen 'c string
  | A_Send bytes 'c
  | A_Read 'c

definition AFile_aclose :: "'c option \<Rightarrow> 'c afile_task TaskDistributor option \<Rightarrow> bool \<times> 'c afile_task TaskDistributor option" where
  "AFile_aclose onControl wev =
     (case (wev, onControl) of (Some ev, Some cb) \<Rightarrow> add_io (A_Close cb) ev | _ \<Rightarrow> (False, wev))"

definition AFile_areopen ::
  "'c option \<Rightarrow> string \<Rightarrow> 'c afile_task TaskDistributor option \<Rightarrow> bool \<times> 'c afile_task TaskDistributor option" where
  "AFile_areopen onControl path wev =
     (case (wev, onControl) of
        (Some ev, Some cb) \<Rightarrow> if path = [] then (False, wev) else add_io (A_Reopen cb path) ev
      | _ \<Rightarrow> (False, wev))"

definition AFile_asend ::
  "bytes \<Rightarrow> 'c option \<Rightarrow> 'c afile_task TaskDistributor option \<Rightarrow> bool \<times> 'c afile_task TaskDistributor option" where
  "AFile_asend data onWriteDone wev =
     (case (wev, onWriteDone) of
        (Some ev, Some cb) \<Rightarrow> if data = [] then (False, wev) else add_io (A_Send data cb) ev
      | _ \<Rightarrow> (False, wev))"

text \<open>\<open>aread\<close> answers true whatever the distributor answered.\<close>

definition AFile_aread :: "'c option \<Rightarrow> 'c afile_task TaskDistributor option \<Rightarrow> bool \<times> 'c afile_task TaskDistributor option" where
  "AFile_aread onReadDone wev =
     (case (wev, onReadDone) of
        (Some ev, Some cb) \<Rightarrow> (True, snd (add_io (A_Read cb) ev))
      | _ \<Rightarrow> (False, wev))"

section \<open>What the requests do\<close>

datatype read_result = Rd bytes | Rd_Eof | Rd_Again | Rd_Error

datatype 'c afile_effect =
    Fd_Closed int
  | Nonblock int bool
  | Written int bytes
  | On_Control 'c bool
  | On_Write_Done 'c int bytes
  | On_Read_Done 'c int bytes

record afile_env =
  fe_open :: int
  fe_fcntl :: bool
  fe_write :: int
  fe_reads :: "nat \<Rightarrow> read_result"

text \<open>
  The read loop, from the \<open>i\<close>-th call of \<open>read\<close> on: it ends at the end of the file and when the call
  would block, and goes on after data and after any other error. \<open>None\<close> is a loop that never ends.
\<close>

partial_function (option) aread_loop :: "(nat \<Rightarrow> read_result) \<Rightarrow> nat \<Rightarrow> int \<Rightarrow> bytes \<Rightarrow> (int \<times> int \<times> bytes) option" where
  "aread_loop reads i cnt data =
     (case reads i of
        Rd_Eof \<Rightarrow> Some (0, cnt, data)
      | Rd_Again \<Rightarrow> Some (-1, cnt, data)
      | Rd_Error \<Rightarrow> aread_loop reads (Suc i) cnt data
      | Rd bs \<Rightarrow> aread_loop reads (Suc i) (cnt + int (length bs)) (data @ bs))"

definition AFile_switchNonblock :: "bool \<Rightarrow> bool \<Rightarrow> File \<Rightarrow> 'c afile_effect list outcome" where
  "AFile_switchNonblock ok enable fl =
     (if ok then Inr [Nonblock (u_fd fl) enable] else Inl (Thrown ''assert(bret)''))"

definition AFile_open :: "int \<Rightarrow> File \<Rightarrow> bool \<times> File" where
  "AFile_open ret fl = File_open ret fl"

fun AFile_run :: "afile_env \<Rightarrow> 'c afile_task \<Rightarrow> File \<Rightarrow> ('c afile_effect list \<times> File) outcome option" where
  "AFile_run env (A_Close cb) fl =
     (let (cl, fl') = File_close fl in Some (Inr (map Fd_Closed cl @ [On_Control cb False], fl')))"
| "AFile_run env (A_Reopen cb path) fl =
     (let (cl, fl1) = (if u_fd fl > 0 then File_close fl else ([], fl));
          (b, fl2) = AFile_open (fe_open env) fl1
      in Some (Inr (map Fd_Closed cl @ [On_Control cb b], fl2)))"
| "AFile_run env (A_Send data cb) fl =
     Some (bind_out (AFile_switchNonblock (fe_fcntl env) False fl) (\<lambda>e.
       Inr (e @ [Written (u_fd fl) data, On_Write_Done cb (fe_write env) data], fl)))"
| "AFile_run env (A_Read cb) fl =
     (case AFile_switchNonblock (fe_fcntl env) True fl of
        Inl f \<Rightarrow> Some (Inl f)
      | Inr e \<Rightarrow> map_option (\<lambda>(ret, cnt, data). Inr (e @ [On_Read_Done cb (if cnt = 0 then ret else cnt) data], fl))
                   (aread_loop (fe_reads env) 0 0 []))"

definition AFile_dtor :: "File \<Rightarrow> 'c afile_effect list" where
  "AFile_dtor fl = map Fd_Closed (fst (File_close fl))"

section \<open>The read loop\<close>

fun read_bytes :: "read_result \<Rightarrow> bytes" where
  "read_bytes (Rd bs) = bs"
| "read_bytes _ = []"

lemma aread_loop_data:
  assumes "\<forall>i < n. reads (k + i) \<noteq> Rd_Eof \<and> reads (k + i) \<noteq> Rd_Again"
  shows "aread_loop reads k cnt data =
     aread_loop reads (k + n) (cnt + int (length (concat (map (\<lambda>i. read_bytes (reads (k + i))) [0..<n]))))
       (data @ concat (map (\<lambda>i. read_bytes (reads (k + i))) [0..<n]))"
  using assms
proof (induction n)
  case (Suc n)
  let ?d = "concat (map (\<lambda>i. read_bytes (reads (k + i))) [0..<n])"
  have "aread_loop reads (k + n) (cnt + int (length ?d)) (data @ ?d) =
      aread_loop reads (k + Suc n) (cnt + int (length (?d @ read_bytes (reads (k + n)))))
        (data @ ?d @ read_bytes (reads (k + n)))"
    using Suc.prems
    by (subst aread_loop.simps) (cases "reads (k + n)"; auto simp: algebra_simps)
  then show ?case using Suc by simp
qed simp

lemma aread_loop_no_return:
  "aread_loop reads i cnt data = Some y \<Longrightarrow> \<exists>j \<ge> i. reads j = Rd_Eof \<or> reads j = Rd_Again"
proof (rule aread_loop.raw_induct[of "\<lambda>reads i cnt data y. \<exists>j \<ge> i. reads j = Rd_Eof \<or> reads j = Rd_Again"])
  fix f reads i cnt data y
  assume IH: "\<And>reads i cnt data y. f reads i cnt data = Some y \<Longrightarrow> \<exists>j \<ge> i. reads j = Rd_Eof \<or> reads j = Rd_Again"
    and r: "(case reads i of Rd_Eof \<Rightarrow> Some (0, cnt, data) | Rd_Again \<Rightarrow> Some (-1, cnt, data)
        | Rd_Error \<Rightarrow> f reads (Suc i) cnt data
        | Rd bs \<Rightarrow> f reads (Suc i) (cnt + int (length bs)) (data @ bs)) = Some y"
  show "\<exists>j \<ge> i. reads j = Rd_Eof \<or> reads j = Rd_Again"
  proof (cases "reads i")
    case (Rd bs)
    then obtain j where "j \<ge> Suc i" "reads j = Rd_Eof \<or> reads j = Rd_Again"
      using r IH[of reads "Suc i" "cnt + int (length bs)" "data @ bs"] by auto
    then show ?thesis by (intro exI[of _ j]) simp
  next
    case Rd_Error
    then obtain j where "j \<ge> Suc i" "reads j = Rd_Eof \<or> reads j = Rd_Again"
      using r IH[of reads "Suc i" cnt data] by auto
    then show ?thesis by (intro exI[of _ j]) simp
  qed auto
qed

section \<open>Properties\<close>

text \<open>
  Reading a file. If the first \<open>n\<close> reads give data or errors and the next meets the end of
  the file, the callback gets all the data read, in order, and its length; errors in between are
  passed over. But if from some point on every read fails with an error other than would-block, as on
  a directory, the loop never ends and the IO worker hangs; and when the descriptor refuses its
  flags, as a closed one does, the assertion fails.
\<close>

theorem AFile_read_spec:
  assumes "fe_fcntl env" and "\<forall>i < n. fe_reads env i \<noteq> Rd_Eof \<and> fe_reads env i \<noteq> Rd_Again"
    and "d = concat (map (\<lambda>i. read_bytes (fe_reads env i)) [0..<n])"
  shows "(fe_reads env n = Rd_Eof \<longrightarrow> AFile_run env (A_Read cb) fl
            = Some (Inr ([Nonblock (u_fd fl) True, On_Read_Done cb (int (length d)) d], fl)))
     \<and> (fe_reads env n = Rd_Again \<longrightarrow> AFile_run env (A_Read cb) fl
            = Some (Inr ([Nonblock (u_fd fl) True, On_Read_Done cb (if d = [] then -1 else int (length d)) d], fl)))
     \<and> ((\<forall>i \<ge> n. fe_reads env i = Rd_Error) \<longrightarrow> AFile_run env (A_Read cb) fl = None)
     \<and> AFile_run (env\<lparr>fe_fcntl := False\<rparr>) (A_Read cb) fl = Some (Inl (Thrown ''assert(bret)''))"
proof -
  let ?r = "fe_reads env"
  have l: "aread_loop ?r 0 0 [] = aread_loop ?r n (int (length d)) d"
    using aread_loop_data[of n ?r 0 0 "[]"] assms(2,3) by simp
  have eof: "aread_loop ?r 0 0 [] = Some (0, int (length d), d)" if "?r n = Rd_Eof"
    unfolding l using that by (simp add: aread_loop.simps[of ?r n])
  have again: "aread_loop ?r 0 0 [] = Some (-1, int (length d), d)" if "?r n = Rd_Again"
    unfolding l using that by (simp add: aread_loop.simps[of ?r n])
  have stuck: "aread_loop ?r 0 0 [] = None" if e: "\<forall>i \<ge> n. ?r i = Rd_Error"
  proof (rule ccontr)
    assume "aread_loop ?r 0 0 [] \<noteq> None"
    then obtain y where "aread_loop ?r n (int (length d)) d = Some y" unfolding l by blast
    from aread_loop_no_return[OF this] e show False by auto
  qed
  show ?thesis using assms(1) eof again stuck by (auto simp: AFile_switchNonblock_def)
qed

theorem AFile_read_spec_witness:
  "AFile_run \<lparr>fe_open = 3, fe_fcntl = True, fe_write = 0,
       fe_reads = (\<lambda>i. if i = 0 then Rd ''ab'' else if i = 1 then Rd ''c'' else Rd_Eof)\<rparr> (A_Read (0 :: nat)) \<lparr>u_fd = 3\<rparr>
     = Some (Inr ([Nonblock 3 True, On_Read_Done 0 3 ''abc''], \<lparr>u_fd = 3\<rparr>))
   \<and> AFile_run \<lparr>fe_open = 3, fe_fcntl = True, fe_write = 0, fe_reads = (\<lambda>_. Rd_Error)\<rparr> (A_Read (0 :: nat)) \<lparr>u_fd = 3\<rparr> = None"
  using AFile_read_spec[of "\<lparr>fe_open = 3, fe_fcntl = True, fe_write = 0,
       fe_reads = (\<lambda>i. if i = 0 then Rd ''ab'' else if i = 1 then Rd ''c'' else Rd_Eof)\<rparr>" 2 "''abc''"
       "0 :: nat" "\<lparr>u_fd = 3\<rparr>"]
    AFile_read_spec[of "\<lparr>fe_open = 3, fe_fcntl = True, fe_write = 0, fe_reads = (\<lambda>_. Rd_Error)\<rparr>" 0 "[]"
       "0 :: nat" "\<lparr>u_fd = 3\<rparr>"]
  by (simp add: numeral_2_eq_2)

text \<open>The requests as calls on a distributor that is alive.\<close>

fun afile_request :: "'c afile_task \<Rightarrow> 'c afile_task TaskDistributor option \<Rightarrow> bool \<times> 'c afile_task TaskDistributor option" where
  "afile_request (A_Close cb) wev = AFile_aclose (Some cb) wev"
| "afile_request (A_Reopen cb path) wev = AFile_areopen (Some cb) path wev"
| "afile_request (A_Send data cb) wev = AFile_asend data (Some cb) wev"
| "afile_request (A_Read cb) wev = AFile_aread (Some cb) wev"

definition proper_request :: "'c afile_task \<Rightarrow> bool" where
  "proper_request t = (case t of A_Reopen cb path \<Rightarrow> path \<noteq> [] | A_Send data cb \<Rightarrow> data \<noteq> [] | _ \<Rightarrow> True)"

lemma afile_request_io:
  assumes "proper_request t" and "TaskDistributor_inv ev" and "td_tpool ev \<noteq> None"
  shows "\<exists>ev'. afile_request t (Some ev) = (True, Some ev') \<and> addTask_out ev 0 t = Inr (True, ev')"
proof -
  obtain ev' where a: "add_io t ev = (True, Some ev')"
    by (rule add_io_queue[OF assms(2,3), of t]) (use that in blast)
  then have "addTask_out ev 0 t = Inr (True, ev')"
    by (auto simp: add_io_def addTask_out_def TaskDistributor_addTask_type_def split: prod.splits)
  moreover have "afile_request t (Some ev) = (True, Some ev')"
    using a assms(1)
    by (cases t) (simp_all add: AFile_aclose_def AFile_areopen_def AFile_asend_def AFile_aread_def proper_request_def)
  ultimately show ?thesis by blast
qed

text \<open>
  The order of file operations. On a distributor with running threads any sequence of
  proper requests is accepted and is appended, in order and with nothing in between, to the queue
  of the IO worker; the other workers get none of it. An improper request, an empty callback or a
  distributor that is gone is refused and changes nothing.
\<close>

theorem AFile_requests_in_order:
  assumes "TaskDistributor_inv ev" and "td_tpool ev \<noteq> None" and "\<forall>t \<in> set ts. proper_request t"
  shows "(\<exists>ev'. fold_out (\<lambda>t wev. if fst (afile_request t wev) then Inr (snd (afile_request t wev)) else Inl Null_Deref)
              ts (Some ev) = Inr (Some ev')
          \<and> (\<forall>j. MutexQue_contents (td_bqueForTask ev' ! j) = MutexQue_contents (td_bqueForTask ev ! j)
                  @ (if j = 0 then map Some ts else [])))
     \<and> (\<not> proper_request t \<longrightarrow> afile_request t (Some ev) = (False, Some ev))
     \<and> afile_request t None = (False, None)"
proof (intro conjI impI)
  have "fold_out (\<lambda>t wev. if fst (afile_request t wev) then Inr (snd (afile_request t wev)) else Inl Null_Deref) ts (Some ev)
      = bind_out (td_sink.submit_all (map (Pair 0) ts) ev) (\<lambda>ev'. Inr (Some ev'))"
    using assms
  proof (induction ts arbitrary: ev)
    case (Cons t ts)
    obtain ev1 where e: "afile_request t (Some ev) = (True, Some ev1)" "addTask_out ev 0 t = Inr (True, ev1)"
      using afile_request_io[of t ev] Cons.prems by auto
    moreover have "TaskDistributor_inv ev1 \<and> td_tpool ev1 \<noteq> None"
      using td_sink.submit_ok[of ev 0 t] Cons.prems(1,2) e(2) by auto
    ultimately show ?case using Cons.IH[of ev1] Cons.prems(3) by (simp add: td_sink.submit_all_def)
  qed (simp add: td_sink.submit_all_def)
  moreover have "clamp_index ev 0 = 0" using assms(1) by (auto simp: TaskDistributor_inv_def clamp_index_def)
  ultimately show "\<exists>ev'. fold_out (\<lambda>t wev. if fst (afile_request t wev) then Inr (snd (afile_request t wev))
          else Inl Null_Deref) ts (Some ev) = Inr (Some ev')
        \<and> (\<forall>j. MutexQue_contents (td_bqueForTask ev' ! j) = MutexQue_contents (td_bqueForTask ev ! j)
                @ (if j = 0 then map Some ts else []))"
    using td_sink.submit_all_order[of ev "map (Pair 0) ts"] assms(1,2) by (auto simp: comp_def filter_map)
next
  assume "\<not> proper_request t"
  then show "afile_request t (Some ev) = (False, Some ev)"
    by (cases t) (simp_all add: proper_request_def AFile_areopen_def AFile_asend_def)
next
  show "afile_request t None = (False, None)"
    by (cases t) (simp_all add: AFile_aclose_def AFile_areopen_def AFile_asend_def AFile_aread_def)
qed

theorem AFile_requests_in_order_witness:
  "\<exists>ev'. fold_out (\<lambda>t wev. if fst (afile_request t wev) then Inr (snd (afile_request t wev)) else Inl Null_Deref)
        [A_Send ''x'' 1, A_Read 2] (Some (snd (TaskDistributor_start Suc (TaskDistributor_ctor 2)))) = Inr (Some ev')
     \<and> MutexQue_contents (td_bqueForTask ev' ! 0) = [Some (A_Send ''x'' 1), Some (A_Read (2 :: nat))]"
proof -
  let ?ev = "snd (TaskDistributor_start Suc (TaskDistributor_ctor 2)) :: nat afile_task TaskDistributor"
  have i: "TaskDistributor_inv ?ev" "td_tpool ?ev \<noteq> None" "MutexQue_contents (td_bqueForTask ?ev ! 0) = []"
    by (auto simp: TaskDistributor_inv_def loop_defs queue_defs)
  have p: "\<forall>t \<in> set [A_Send ''x'' 1, A_Read (2 :: nat)]. proper_request t" by (simp add: proper_request_def)
  from AFile_requests_in_order[OF i(1,2) p, THEN conjunct1] obtain ev' where
    "fold_out (\<lambda>t wev. if fst (afile_request t wev) then Inr (snd (afile_request t wev)) else Inl Null_Deref)
        [A_Send ''x'' 1, A_Read 2] (Some ?ev) = Inr (Some ev')"
    "\<forall>j. MutexQue_contents (td_bqueForTask ev' ! j) = MutexQue_contents (td_bqueForTask ?ev ! j)
        @ (if j = 0 then map Some [A_Send ''x'' 1, A_Read 2] else [])" by (elim exE conjE)
  then show ?thesis using i(3) by (intro exI[of _ ev']) (simp del: fold_out.simps)
qed

section \<open>Requests on the worker\<close>

text \<open>
  The IO worker running the requests of one file: the number of requests served, all effects so far and the
  file. The answers of the system may differ from request to request.
\<close>

definition AFile_step ::
  "(nat \<Rightarrow> afile_env) \<Rightarrow> 'c afile_task \<Rightarrow> nat \<times> 'c afile_effect list \<times> File
     \<Rightarrow> (nat \<times> 'c afile_effect list \<times> File) outcome option" where
  "AFile_step envs t st =
     (case st of (k, log, fl) \<Rightarrow>
        map_option (\<lambda>r. bind_out r (\<lambda>(e, fl'). Inr (Suc k, log @ e, fl'))) (AFile_run (envs k) t fl))"

fun completion :: "'c afile_effect \<Rightarrow> 'c option" where
  "completion (On_Control cb _) = Some cb"
| "completion (On_Write_Done cb _ _) = Some cb"
| "completion (On_Read_Done cb _ _) = Some cb"
| "completion _ = None"

fun request_callback :: "'c afile_task \<Rightarrow> 'c" where
  "request_callback (A_Close cb) = cb"
| "request_callback (A_Reopen cb _) = cb"
| "request_callback (A_Send _ cb) = cb"
| "request_callback (A_Read cb) = cb"

text \<open>Answers that let every request end: the flags can be set, and every read comes to the end or would block.\<close>

definition fair_env :: "afile_env \<Rightarrow> bool" where
  "fair_env env \<longleftrightarrow> fe_fcntl env \<and> (\<exists>n. fe_reads env n = Rd_Eof \<or> fe_reads env n = Rd_Again)"

lemma aread_loop_returns:
  assumes "reads n = Rd_Eof \<or> reads n = Rd_Again"
  shows "\<exists>y. aread_loop reads 0 cnt data = Some y"
proof -
  define m where "m = (LEAST n. reads n = Rd_Eof \<or> reads n = Rd_Again)"
  have m: "reads m = Rd_Eof \<or> reads m = Rd_Again" unfolding m_def by (rule LeastI[of _ n]) (rule assms)
  have "reads i \<noteq> Rd_Eof \<and> reads i \<noteq> Rd_Again" if "i < m" for i
    using not_less_Least[of i "\<lambda>n. reads n = Rd_Eof \<or> reads n = Rd_Again"] that by (auto simp: m_def)
  then have "\<exists>cnt' data'. aread_loop reads 0 cnt data = aread_loop reads m cnt' data'"
    using aread_loop_data[of m reads 0 cnt data] by auto
  then show ?thesis using m by (auto simp: aread_loop.simps[of reads m])
qed

lemma AFile_run_completes:
  assumes "fair_env env"
  shows "\<exists>e fl'. AFile_run env t fl = Some (Inr (e, fl')) \<and> List.map_filter completion e = [request_callback t]"
proof (cases t)
  case (A_Read cb)
  obtain n where n: "fe_reads env n = Rd_Eof \<or> fe_reads env n = Rd_Again" using assms by (auto simp: fair_env_def)
  obtain ret cnt d where "aread_loop (fe_reads env) 0 0 [] = Some (ret, cnt, d)"
    using aread_loop_returns[of "fe_reads env", OF n, of 0 "[]"] by (metis prod_cases3)
  then show ?thesis using assms A_Read by (simp add: AFile_switchNonblock_def fair_env_def map_filter_simps)
qed (use assms in \<open>auto simp: AFile_switchNonblock_def fair_env_def map_filter_simps File_close_def Let_def split: prod.splits if_splits\<close>)

lemma AFile_batch_completes:
  assumes "\<And>k. fair_env (envs k)"
  shows "\<exists>log' fl'. run_batch (AFile_step envs) (map Some ts) (k, log, fl) = Some (Inr (k + length ts, log', fl'))
     \<and> List.map_filter completion log' = List.map_filter completion log @ map request_callback ts"
proof (induction ts arbitrary: k log fl)
  case (Cons t ts)
  obtain e fl1 where r: "AFile_run (envs k) t fl = Some (Inr (e, fl1))" "List.map_filter completion e = [request_callback t]"
    using AFile_run_completes[OF assms, of k t fl] by blast
  then show ?case using Cons.IH[of "Suc k" "log @ e" fl1] by (auto simp: AFile_step_def map_filter_def)
qed simp

lemma afile_request_queue:
  assumes "io_queue ev ts" and "proper_request t"
  obtains ev' where "afile_request t (Some ev) = (True, Some ev')" and "io_queue ev' (ts @ [t])"
proof -
  obtain ev' where e: "add_io t ev = (True, Some ev')" "io_queue ev' (ts @ [t])" by (rule io_queue_add[OF assms(1)])
  have "afile_request t (Some ev) = add_io t ev"
    using e(1) assms(2)
    by (cases t) (simp_all add: AFile_aclose_def AFile_areopen_def AFile_asend_def AFile_aread_def proper_request_def)
  then show thesis using that e by simp
qed

lemma afile_requests_queue:
  assumes "io_queue ev ts" and "\<forall>t \<in> set us. proper_request t"
  shows "\<exists>ev'. fold (\<lambda>t (b, wev). (b \<and> fst (afile_request t wev), snd (afile_request t wev))) us (True, Some ev)
       = (True, Some ev') \<and> io_queue ev' (ts @ us)"
  using assms
proof (induction us arbitrary: ev ts)
  case (Cons u us)
  obtain ev' where "afile_request u (Some ev) = (True, Some ev')" "io_queue ev' (ts @ [u])"
    using Cons.prems by (auto elim: afile_request_queue)
  then show ?case using Cons.IH[of ev' "ts @ [u]"] Cons.prems by simp
qed simp

text \<open>
  Property C27. File operations from request to callback. On a running distributor whose IO queue is empty any sequence of
  proper requests is accepted; when the descriptor accepts its flags and every read comes to an end, two rounds
  of the IO worker serve all of them: the effects and the file afterwards are those of running the requests
  one after the other, each request's callback is called exactly once, in the order of the requests, the
  queue is empty, and further rounds do nothing.
\<close>

theorem AFile_requests_complete:
  assumes "io_queue ev []" and "\<forall>t \<in> set ts. proper_request t" and "\<forall>k. fair_env (envs k)"
  shows "\<exists>ev' ev'' log fl'.
       fold (\<lambda>t (b, wev). (b \<and> fst (afile_request t wev), snd (afile_request t wev))) ts (True, Some ev) = (True, Some ev')
     \<and> run_batch (AFile_step envs) (map Some ts) (0, [], fl) = Some (Inr (length ts, log, fl'))
     \<and> io_rounds (2 + n) (on_worker (AFile_step envs)) ((0, [], fl), Some ev') = Some (Inr ((length ts, log, fl'), Some ev''))
     \<and> List.map_filter completion log = map request_callback ts \<and> io_queue ev'' []"
proof -
  obtain ev' where e: "fold (\<lambda>t (b, wev). (b \<and> fst (afile_request t wev), snd (afile_request t wev))) ts (True, Some ev)
       = (True, Some ev')" "io_queue ev' ts"
    using afile_requests_queue[OF assms(1,2)] by auto
  obtain log fl' where r: "run_batch (AFile_step envs) (map Some ts) (0, [], fl) = Some (Inr (length ts, log, fl'))"
    "List.map_filter completion log = map request_callback ts"
    using AFile_batch_completes[of envs ts 0 "[]" fl] assms(3) by (auto simp: map_filter_simps)
  from io_rounds_drain[OF e(2) r(1), of n] e(1) r show ?thesis by blast
qed

theorem AFile_requests_complete_witness:
  "\<exists>ev' ev'' log fl'.
       fold (\<lambda>t (b, wev). (b \<and> fst (afile_request t wev), snd (afile_request t wev))) [A_Send ''x'' 1, A_Read 2, A_Close 3]
         (True, Some (snd (TaskDistributor_start Suc (TaskDistributor_ctor 2)))) = (True, Some ev')
     \<and> io_rounds (2 + 5) (on_worker (AFile_step (\<lambda>_. \<lparr>fe_open = 3, fe_fcntl = True, fe_write = 1, fe_reads = (\<lambda>_. Rd_Eof)\<rparr>)))
         ((0, [], \<lparr>u_fd = 3\<rparr>), Some ev') = Some (Inr ((3, log, fl'), Some ev''))
     \<and> List.map_filter completion log = [1, 2, 3 :: nat]"
proof -
  let ?envs = "\<lambda>_ :: nat. \<lparr>fe_open = 3, fe_fcntl = True, fe_write = 1, fe_reads = (\<lambda>_. Rd_Eof)\<rparr>"
  have q: "io_queue (snd (TaskDistributor_start Suc (TaskDistributor_ctor 2)) :: nat afile_task TaskDistributor) []"
    by (auto simp: io_queue_def TaskDistributor_inv_def loop_defs queue_defs)
  have p: "\<forall>t \<in> set [A_Send ''x'' 1, A_Read 2, A_Close (3 :: nat)]. proper_request t" by (simp add: proper_request_def)
  have f: "\<forall>k. fair_env (?envs k)" by (simp add: fair_env_def)
  have n: "length [A_Send ''x'' 1, A_Read 2, A_Close (3 :: nat)] = 3"
    "map request_callback [A_Send ''x'' 1, A_Read 2, A_Close (3 :: nat)] = [1, 2, 3]" by simp_all
  show ?thesis using AFile_requests_complete[OF q p f, of "\<lparr>u_fd = 3\<rparr>" 5] unfolding n by blast
qed

end
