(* ===== verification/IO_Service.thy ===== *)
theory IO_Service
  imports Mutex_Que Events_Service "HOL-Library.RBT"
begin

text \<open>
  \<open>IOService\<close> (\<open>io_service.hh\<close>, \<open>io_service.cpp\<close>): an events service over io_uring. Requests are queued
  from any thread; on the service's thread the notifier turns them into submission entries whose
  user data is the address of the stored context, submits, and reports completions; the handler
  follows that address back to the context, calls its callback and erases it.

  The context table is a \<open>std::map\<close>, whose nodes keep their address until they are erased, so each
  entry carries the address of its node; \<open>alloc\<close>, given the addresses in use, is the address of a
  new node. What io_uring answers in one round is the argument \<open>env\<close>. The ring records the
  entries prepared and not yet completed.
\<close>

section \<open>State\<close>

datatype REQ = OPEN | CONNECT | ACCEPT | READ | WRITE | RECV | SEND | DISCONNECT | CLOSE | HOSTING | OTHER

record 'cb io_context =
  ic_req :: REQ
  ic_uid :: u64
  ic_size :: u32
  ic_flags :: int
  ic_fd :: int
  ic_dfd :: int
  ic_mode :: u32
  ic_path :: string
  ic_buf :: bytes
  ic_onEvents :: "'cb option"

definition BUF_SIZE :: nat where "BUF_SIZE = 728"

datatype sqe =
    Prep_Openat int string int u32
  | Prep_Connect int u32
  | Prep_Accept int int
  | Prep_Recv int nat int
  | Prep_Send int bytes u32 int
  | Prep_Read int nat nat
  | Prep_Write int bytes u32 nat
  | Prep_Close int

record 'cb IOService =
  ios_contexts :: "(u64, u64 \<times> 'cb io_context) rbt"
  ios_queue :: "(u64 \<times> 'cb io_context) MutexQue option"
  ios_size :: u32
  ios_used :: u32
  ios_uring :: bool
  ios_ring :: "(u64 \<times> sqe) list"

record uring_env =
  sq_room :: "nat \<Rightarrow> bool"
  submit_ret :: int
  wait_ret :: int
  wait_etime :: bool
  cqes :: "(u64 \<times> u32) list"

section \<open>Operations\<close>

definition IOService_ctor :: "u32 \<Rightarrow> 'cb IOService" where
  "IOService_ctor entries =
     \<lparr>ios_contexts = RBT.empty, ios_queue = Some MutexQue_ctor, ios_size = entries, ios_used = 0,
      ios_uring = True, ios_ring = []\<rparr>"

definition IOService_move_ctor :: "'cb IOService \<Rightarrow> 'cb IOService \<times> 'cb IOService" where
  "IOService_move_ctor s =
     (s, s\<lparr>ios_contexts := RBT.empty, ios_uring := False, ios_queue := None, ios_ring := []\<rparr>)"

definition IOService_deinit :: "'cb IOService \<Rightarrow> 'cb IOService" where
  "IOService_deinit s = (if ios_uring s then s\<lparr>ios_uring := False, ios_ring := []\<rparr> else s)"

definition IOService_submitRequest :: "u64 \<Rightarrow> 'cb io_context \<Rightarrow> 'cb IOService \<Rightarrow> bool \<times> 'cb IOService" where
  "IOService_submitRequest uid ctx s =
     (case ios_queue s of
        None \<Rightarrow> (False, s)
      | Some q \<Rightarrow>
          if ios_uring s then (True, s\<lparr>ios_queue := Some (MutexQue_pushBack q (uid, ctx))\<rparr>) else (False, s))"

definition find_empty_sqe :: "uring_env \<Rightarrow> 'cb IOService \<Rightarrow> bool" where
  "find_empty_sqe env s \<longleftrightarrow> ios_uring s \<and> sq_room env (length (ios_ring s))"

definition prep_sqe :: "'cb io_context \<Rightarrow> sqe option" where
  "prep_sqe c =
     (case ic_req c of
        OPEN \<Rightarrow> Some (Prep_Openat (ic_dfd c) (ic_path c) (ic_flags c) (ic_mode c))
      | CONNECT \<Rightarrow> Some (Prep_Connect (ic_fd c) (ic_size c))
      | ACCEPT \<Rightarrow> Some (Prep_Accept (ic_fd c) (ic_flags c))
      | RECV \<Rightarrow> Some (Prep_Recv (ic_fd c) BUF_SIZE (ic_flags c))
      | SEND \<Rightarrow> Some (Prep_Send (ic_fd c) (ic_buf c) (ic_size c) (ic_flags c))
      | READ \<Rightarrow> Some (Prep_Read (ic_fd c) BUF_SIZE 0)
      | WRITE \<Rightarrow> Some (Prep_Write (ic_fd c) (ic_buf c) (ic_size c) 0)
      | CLOSE \<Rightarrow> Some (Prep_Close (ic_fd c))
      | _ \<Rightarrow> None)"

text \<open>\<open>m_fds_context[uid] = std::move(...)\<close>: the node of \<open>uid\<close> is made if there is none.\<close>

definition addresses :: "'cb IOService \<Rightarrow> u64 list" where
  "addresses s = map (fst \<circ> snd) (RBT.entries (ios_contexts s))"

definition put_context ::
  "(u64 list \<Rightarrow> u64) \<Rightarrow> u64 \<Rightarrow> 'cb io_context \<Rightarrow> 'cb IOService \<Rightarrow> u64 \<times> 'cb IOService" where
  "put_context alloc uid ctx s =
     (let a = (case RBT.lookup (ios_contexts s) uid of Some (a, _) \<Rightarrow> a | None \<Rightarrow> alloc (addresses s))
      in (a, s\<lparr>ios_contexts := RBT.insert uid (a, ctx) (ios_contexts s)\<rparr>))"

definition submitRequest_Private ::
  "(u64 list \<Rightarrow> u64) \<Rightarrow> uring_env \<Rightarrow> u64 \<Rightarrow> 'cb io_context \<Rightarrow> 'cb IOService \<Rightarrow> bool \<times> 'cb IOService" where
  "submitRequest_Private alloc env uid ctx s =
     (let (a, s1) = put_context alloc uid ctx s
      in if ic_req ctx \<in> {OTHER, HOSTING, DISCONNECT} then (False, s1)
         else if \<not> find_empty_sqe env s1 then (False, s1)
         else case prep_sqe ctx of
                None \<Rightarrow> (False, s1)
              | Some e \<Rightarrow> (True, s1\<lparr>ios_ring := ios_ring s1 @ [(a, e)], ios_used := ios_used s1 + 1\<rparr>))"

definition working_request :: "(u64 list \<Rightarrow> u64) \<Rightarrow> uring_env \<Rightarrow> 'cb IOService \<Rightarrow> 'cb IOService" where
  "working_request alloc env s =
     (case ios_queue s of
        None \<Rightarrow> s
      | Some q \<Rightarrow>
          let (results, q') = MutexQue_takeMulti q []
          in fold (\<lambda>(uid, ctx) s. snd (submitRequest_Private alloc env uid ctx s)) results (s\<lparr>ios_queue := Some q'\<rparr>))"

text \<open>The two accessors, as the source has them.\<close>

definition IOService_sqe_used :: "'cb IOService \<Rightarrow> u32" where
  "IOService_sqe_used s = ios_size s"

definition IOService_entries_size :: "'cb IOService \<Rightarrow> u32" where
  "IOService_entries_size s = ios_used s"

text \<open>The notifier that \<open>init\<close> installs: the reported events and the state after it.\<close>

definition take_completions :: "(u64 \<times> u32) list \<Rightarrow> 'cb IOService \<Rightarrow> (u64, u32) KVPair list \<times> 'cb IOService" where
  "take_completions cs s =
     (map (\<lambda>(p, res). KVPair_ctor p res) (filter (\<lambda>(p, res). p \<noteq> 0 \<and> p \<noteq> - 1) cs),
      s\<lparr>ios_used := ios_used s - of_nat (length cs),
        ios_ring := filter (\<lambda>(p, e). p \<notin> fst ` set cs) (ios_ring s)\<rparr>)"

definition IOService_notify ::
  "(u64 list \<Rightarrow> u64) \<Rightarrow> uring_env \<Rightarrow> 'cb IOService \<Rightarrow> (u64, u32) KVPair list \<times> 'cb IOService" where
  "IOService_notify alloc env s =
     (let s1 = working_request alloc env s
      in if IOService_sqe_used s1 \<le> 0 then ([], s1)
         else if submit_ret env < 0 then ([], s1)
         else if wait_ret env \<noteq> 0 \<and> \<not> wait_etime env then ([], s1)
         else take_completions (cqes env) s1)"

text \<open>
  The handler that \<open>init\<close> installs. A callback receives its context by pointer: \<open>call cb ctx res u\<close>
  gives its answer, the context as it leaves it, the requests it submits to the service, and the
  rest of the program's state.
\<close>

definition node_at :: "u64 \<Rightarrow> 'cb IOService \<Rightarrow> (u64 \<times> 'cb io_context) option" where
  "node_at p s = map_option (\<lambda>(uid, _, c). (uid, c)) (find (\<lambda>(uid, a, c). a = p) (RBT.entries (ios_contexts s)))"

definition submit_many :: "(u64 \<times> 'cb io_context) list \<Rightarrow> 'cb IOService \<Rightarrow> 'cb IOService" where
  "submit_many = fold (\<lambda>(uid, ctx) s. snd (IOService_submitRequest uid ctx s))"

definition IOService_handle ::
  "('cb \<Rightarrow> 'cb io_context \<Rightarrow> u32 \<Rightarrow> 'u \<Rightarrow> bool \<times> 'cb io_context \<times> (u64 \<times> 'cb io_context) list \<times> 'u)
     \<Rightarrow> u64 \<Rightarrow> u32 \<Rightarrow> 'cb IOService \<times> 'u \<Rightarrow> ('cb IOService \<times> 'u) outcome" where
  "IOService_handle call key res su =
     (case su of (s, u) \<Rightarrow>
        if key = 0 then Inr (s, u)
        else case node_at key s of
          None \<Rightarrow> Inl Use_After_Free
        | Some (uid, ctx) \<Rightarrow>
            (let iter = RBT.lookup (ios_contexts s) (ic_uid ctx);
                 (bret, s1, u1) =
                   (case ic_onEvents ctx of
                      None \<Rightarrow> (True, s, u)
                    | Some cb \<Rightarrow>
                        let (b, ctx', reqs, u') = call cb ctx res u
                        in (b, submit_many reqs (s\<lparr>ios_contexts := RBT.insert uid (key, ctx') (ios_contexts s)\<rparr>), u'))
             in if \<not> bret then Inr (s1, u1)
                else if iter = None then Inl Bad_Iterator
                else Inr (s1\<lparr>ios_contexts := RBT.delete (ic_uid ctx) (ios_contexts s1)\<rparr>, u1)))"

text \<open>The service as the events service it is: both closures acting on a state that may have faulted.\<close>

definition IOService_events :: "u64 \<Rightarrow> (unit, unit) EventsService" where
  "IOService_events key =
     EventsService_setEventsHandler (EventsService_setNotifier (EventsService_ctor key) (Some ())) (Some ())"

definition IOService_round ::
  "('cb \<Rightarrow> 'cb io_context \<Rightarrow> u32 \<Rightarrow> 'u \<Rightarrow> bool \<times> 'cb io_context \<times> (u64 \<times> 'cb io_context) list \<times> 'u)
     \<Rightarrow> (u64 list \<Rightarrow> u64) \<Rightarrow> uring_env \<Rightarrow> u64 \<Rightarrow> 'cb IOService \<times> 'u \<Rightarrow> ('cb IOService \<times> 'u) outcome" where
  "IOService_round call alloc env key su =
     EventsService_processEvents
       (\<lambda>_ st. case st of Inl f \<Rightarrow> ([], Inl f)
                | Inr (s, u) \<Rightarrow> let (evs, s') = IOService_notify alloc env s in (evs, Inr (s', u)))
       (\<lambda>_ p res st. bind_out st (IOService_handle call p res))
       (IOService_events key) (Inr su)"

section \<open>The invariant of the service\<close>

definition live :: "'cb IOService \<Rightarrow> u64 \<Rightarrow> u64 \<Rightarrow> 'cb io_context \<Rightarrow> bool" where
  "live s uid p c \<longleftrightarrow> RBT.lookup (ios_contexts s) uid = Some (p, c)"

text \<open>
  Nodes have distinct non-null addresses and hold the context of their own key; the entries in
  flight point to distinct live nodes; the counter is their number.
\<close>

definition nodes_ok :: "'cb IOService \<Rightarrow> bool" where
  "nodes_ok s \<longleftrightarrow>
     (\<forall>u v p c d. live s u p c \<and> live s v p d \<longrightarrow> u = v)
     \<and> (\<forall>u p c. live s u p c \<longrightarrow> ic_uid c = u \<and> p \<noteq> 0 \<and> p \<noteq> - 1)"

definition ios_inv :: "'cb IOService \<Rightarrow> bool" where
  "ios_inv s \<longleftrightarrow> ios_uring s \<and> ios_queue s \<noteq> None \<and> nodes_ok s
     \<and> distinct (map fst (ios_ring s)) \<and> (\<forall>p \<in> fst ` set (ios_ring s). \<exists>u c. live s u p c)
     \<and> ios_used s = of_nat (length (ios_ring s))"

lemma set_addresses: "p \<in> set (addresses s) \<longleftrightarrow> (\<exists>u c. live s u p c)"
  by (force simp: addresses_def live_def RBT.lookup_in_tree)

lemma node_at_live:
  assumes "nodes_ok s" and "live s u p c"
  shows "node_at p s = Some (u, c)"
proof -
  have "(u, p, c) \<in> set (RBT.entries (ios_contexts s))" using assms(2) by (simp add: live_def RBT.lookup_in_tree)
  then have "find (\<lambda>(uid, a, c). a = p) (RBT.entries (ios_contexts s)) \<noteq> None"
    by (auto simp: find_None_iff)
  then obtain x where x: "find (\<lambda>(uid, a, c). a = p) (RBT.entries (ios_contexts s)) = Some x" by blast
  then have "x \<in> set (RBT.entries (ios_contexts s))" "fst (snd x) = p"
    by (auto simp: find_Some_iff split_beta)
  then have "live s (fst x) p (snd (snd x))"
    by (cases x) (auto simp: live_def RBT.lookup_in_tree)
  moreover from this have "fst x = u" using assms by (auto simp: nodes_ok_def)
  ultimately have "x = (u, p, c)" using assms(2) \<open>fst (snd x) = p\<close> by (cases x) (auto simp: live_def)
  then show ?thesis using x by (simp add: node_at_def)
qed

section \<open>Submitting\<close>

text \<open>An allocator finds a usable address as long as fewer than \<open>2 ^ 32\<close> are taken.\<close>

definition allocator :: "(u64 list \<Rightarrow> u64) \<Rightarrow> bool" where
  "allocator alloc \<longleftrightarrow>
     (\<forall>as. length as < 2 ^ 32 \<longrightarrow> alloc as \<notin> set as \<and> alloc as \<noteq> 0 \<and> alloc as \<noteq> - 1)"

definition contexts_count :: "'cb IOService \<Rightarrow> nat" where
  "contexts_count s = length (RBT.entries (ios_contexts s))"

lemma contexts_count_dom: "contexts_count s = card (dom (RBT.lookup (ios_contexts s)))"
proof -
  have "length (RBT.keys (ios_contexts s)) = card (set (RBT.keys (ios_contexts s)))"
    by (simp add: distinct_card RBT.distinct_keys)
  then show ?thesis by (simp add: contexts_count_def RBT.keys_def_alt RBT.lookup_keys)
qed

lemma contexts_count_insert:
  "contexts_count (s\<lparr>ios_contexts := RBT.insert uid v (ios_contexts s), ios_ring := r, ios_used := n\<rparr>)
     \<le> Suc (contexts_count s)"
  by (simp add: contexts_count_dom card_insert_if)

definition good_request :: "u64 \<times> 'cb io_context \<Rightarrow> bool" where
  "good_request r \<longleftrightarrow> ic_uid (snd r) = fst r \<and> prep_sqe (snd r) \<noteq> None"

lemma good_request_req: "good_request (uid, ctx) \<Longrightarrow> ic_req ctx \<notin> {OTHER, HOSTING, DISCONNECT}"
  by (auto simp: good_request_def prep_sqe_def)

lemma submit_fresh:
  assumes inv: "ios_inv s" and "good_request (uid, ctx)" and "RBT.lookup (ios_contexts s) uid = None"
    and alloc: "allocator alloc" and few: "contexts_count s < 2 ^ 32" and room: "\<And>n. sq_room env n"
  obtains p e where
    "submitRequest_Private alloc env uid ctx s =
       (True, s\<lparr>ios_contexts := RBT.insert uid (p, ctx) (ios_contexts s),
               ios_ring := ios_ring s @ [(p, e)], ios_used := ios_used s + 1\<rparr>)"
    and "prep_sqe ctx = Some e"
    and "ios_inv (s\<lparr>ios_contexts := RBT.insert uid (p, ctx) (ios_contexts s),
               ios_ring := ios_ring s @ [(p, e)], ios_used := ios_used s + 1\<rparr>)"
proof -
  let ?p = "alloc (addresses s)"
  obtain e where e: "prep_sqe ctx = Some e" using assms(2) by (auto simp: good_request_def)
  let ?s = "s\<lparr>ios_contexts := RBT.insert uid (?p, ctx) (ios_contexts s),
               ios_ring := ios_ring s @ [(?p, e)], ios_used := ios_used s + 1\<rparr>"
  have "submitRequest_Private alloc env uid ctx s = (True, ?s)"
    using good_request_req[OF assms(2)] e assms(3) inv room
    by (simp add: submitRequest_Private_def put_context_def find_empty_sqe_def ios_inv_def Let_def)
  have a: "?p \<notin> set (addresses s)" "?p \<noteq> 0" "?p \<noteq> - 1"
  proof -
    have "length (addresses s) < 2 ^ 32" using few by (simp add: addresses_def contexts_count_def)
    then show "?p \<notin> set (addresses s)" "?p \<noteq> 0" "?p \<noteq> - 1" using alloc unfolding allocator_def by blast+
  qed
  have fresh: "\<not> live s u ?p c" for u c using a(1) set_addresses by blast
  have ok: "nodes_ok s" using inv by (simp add: ios_inv_def)
  have inj: "u = v" if "live s u p c" "live s v p d" for u v p c d
    using ok[unfolded nodes_ok_def, THEN conjunct1] that by blast
  have node: "ic_uid c = u" "p \<noteq> 0" "p \<noteq> - 1" if "live s u p c" for u p c
    using ok[unfolded nodes_ok_def, THEN conjunct2] that by blast+
  have l: "live ?s u p c \<longleftrightarrow> (if u = uid then p = ?p \<and> c = ctx else live s u p c)" for u p c
    by (auto simp: live_def)
  have "nodes_ok ?s"
    unfolding nodes_ok_def l using inj node a fresh assms(2)
    by (auto simp: good_request_def split: if_splits)
  moreover have "?p \<notin> fst ` set (ios_ring s)" using inv fresh by (auto simp: ios_inv_def)
  moreover have "\<exists>u c. live ?s u p c" if p: "p \<in> insert ?p (fst ` set (ios_ring s))" for p
  proof (cases "p = ?p")
    case True
    then show ?thesis using l[of uid ?p ctx] by auto
  next
    case False
    then obtain u c where "live s u p c" using p inv by (auto simp: ios_inv_def)
    moreover from this have "u \<noteq> uid" using assms(3) by (auto simp: live_def)
    ultimately show ?thesis using l by auto
  qed
  ultimately have "ios_inv ?s" using inv by (auto simp: ios_inv_def)
  then show thesis using that[of ?p e] \<open>submitRequest_Private alloc env uid ctx s = (True, ?s)\<close> e by blast
qed

lemma submit_batch:
  assumes "ios_inv s" and "\<forall>r \<in> set rs. good_request r" and "distinct (map fst rs)"
    and "\<forall>r \<in> set rs. RBT.lookup (ios_contexts s) (fst r) = None"
    and few: "contexts_count s + length rs \<le> 2 ^ 32"
    and alloc: "allocator alloc" and room: "\<And>n. sq_room env n"
  shows "\<exists>s'. fold (\<lambda>(uid, ctx) s. snd (submitRequest_Private alloc env uid ctx s)) rs s = s' \<and> ios_inv s'
     \<and> ios_size s' = ios_size s \<and> ios_queue s' = ios_queue s
     \<and> (\<forall>x \<in> set (ios_ring s). x \<in> set (ios_ring s'))
     \<and> (\<forall>u. u \<notin> fst ` set rs \<longrightarrow> RBT.lookup (ios_contexts s') u = RBT.lookup (ios_contexts s) u)
     \<and> (\<forall>(uid, ctx) \<in> set rs. \<exists>p e. live s' uid p ctx \<and> prep_sqe ctx = Some e \<and> (p, e) \<in> set (ios_ring s'))"
  using assms(1-5)
proof (induction rs arbitrary: s)
  case Nil
  then show ?case by simp
next
  case (Cons r rs)
  obtain uid ctx where r: "r = (uid, ctx)" by (cases r)
  obtain p e where p: "submitRequest_Private alloc env uid ctx s =
       (True, s\<lparr>ios_contexts := RBT.insert uid (p, ctx) (ios_contexts s),
               ios_ring := ios_ring s @ [(p, e)], ios_used := ios_used s + 1\<rparr>)" "prep_sqe ctx = Some e"
    "ios_inv (s\<lparr>ios_contexts := RBT.insert uid (p, ctx) (ios_contexts s),
               ios_ring := ios_ring s @ [(p, e)], ios_used := ios_used s + 1\<rparr>)"
    by (rule submit_fresh[OF Cons.prems(1) _ _ alloc _ room, of uid ctx])
      (use Cons.prems r that in auto)
  let ?s = "s\<lparr>ios_contexts := RBT.insert uid (p, ctx) (ios_contexts s),
               ios_ring := ios_ring s @ [(p, e)], ios_used := ios_used s + 1\<rparr>"
  have "\<forall>r \<in> set rs. RBT.lookup (ios_contexts ?s) (fst r) = None" using Cons.prems(3,4) r by auto
  moreover have "contexts_count ?s + length rs \<le> 2 ^ 32"
    using contexts_count_insert[where s = s and uid = uid and v = "(p, ctx)" and r = "ios_ring s @ [(p, e)]"
        and n = "ios_used s + 1"] Cons.prems(5) by simp
  ultimately obtain s' where
    s': "fold (\<lambda>(uid, ctx) s. snd (submitRequest_Private alloc env uid ctx s)) rs ?s = s'" "ios_inv s'"
      "ios_size s' = ios_size s" "ios_queue s' = ios_queue s"
      "\<forall>x \<in> set (ios_ring s @ [(p, e)]). x \<in> set (ios_ring s')"
      "\<forall>u. u \<notin> fst ` set rs \<longrightarrow>
         RBT.lookup (ios_contexts s') u = RBT.lookup (RBT.insert uid (p, ctx) (ios_contexts s)) u"
      "\<forall>(uid, ctx) \<in> set rs. \<exists>p e. live s' uid p ctx \<and> prep_sqe ctx = Some e \<and> (p, e) \<in> set (ios_ring s')"
    using Cons.IH[OF p(3)] Cons.prems(2,3) by auto
  have "live s' uid p ctx" using s'(6) Cons.prems(3) r by (auto simp: live_def)
  then have "\<exists>p e. live s' uid p ctx \<and> prep_sqe ctx = Some e \<and> (p, e) \<in> set (ios_ring s')"
    using p(2) s'(5) by auto
  then show ?case using s' p(1) r by auto
qed

section \<open>Completing\<close>

definition deliver ::
  "('cb \<Rightarrow> 'cb io_context \<Rightarrow> u32 \<Rightarrow> 'u \<Rightarrow> bool \<times> 'cb io_context \<times> (u64 \<times> 'cb io_context) list \<times> 'u)
     \<Rightarrow> 'cb io_context \<Rightarrow> u32 \<Rightarrow> 'u \<Rightarrow> 'u" where
  "deliver call c res u = (case ic_onEvents c of None \<Rightarrow> u | Some cb \<Rightarrow> snd (snd (snd (call cb c res u))))"

lemma submit_many_frame:
  "ios_contexts (submit_many rs s) = ios_contexts s \<and> ios_ring (submit_many rs s) = ios_ring s
   \<and> ios_used (submit_many rs s) = ios_used s \<and> ios_uring (submit_many rs s) = ios_uring s
   \<and> (ios_queue (submit_many rs s) = None \<longleftrightarrow> ios_queue s = None)"
proof (induction rs arbitrary: s)
  case (Cons r rs)
  have "ios_contexts (snd (IOService_submitRequest (fst r) (snd r) s)) = ios_contexts s
    \<and> ios_ring (snd (IOService_submitRequest (fst r) (snd r) s)) = ios_ring s
    \<and> ios_used (snd (IOService_submitRequest (fst r) (snd r) s)) = ios_used s
    \<and> ios_uring (snd (IOService_submitRequest (fst r) (snd r) s)) = ios_uring s
    \<and> (ios_queue (snd (IOService_submitRequest (fst r) (snd r) s)) = None \<longleftrightarrow> ios_queue s = None)"
    by (auto simp: IOService_submitRequest_def split: option.splits)
  then show ?case using Cons.IH by (cases r) (simp add: submit_many_def)
qed (simp add: submit_many_def)

text \<open>Handling one completion erases exactly the node it points to.\<close>

lemma handle_one:
  assumes "nodes_ok s" and l: "live s uid p c" and fin: "\<forall>cb c r u. fst (call cb c r u)"
  obtains s' where "IOService_handle call p res (s, u) = Inr (s', deliver call c res u)"
    and "\<And>v. RBT.lookup (ios_contexts s') v = (if v = uid then None else RBT.lookup (ios_contexts s) v)"
    and "ios_ring s' = ios_ring s" and "ios_used s' = ios_used s" and "ios_uring s' = ios_uring s"
    and "ios_queue s' = None \<longleftrightarrow> ios_queue s = None"
proof -
  have c: "ic_uid c = uid" "p \<noteq> 0" "RBT.lookup (ios_contexts s) uid = Some (p, c)"
    using assms(1) l by (auto simp: nodes_ok_def live_def)
  note n = node_at_live[OF assms(1) l]
  show thesis
  proof (cases "ic_onEvents c")
    case None
    then show ?thesis
      using n c by (intro that[of "s\<lparr>ios_contexts := RBT.delete uid (ios_contexts s)\<rparr>"])
        (simp_all add: IOService_handle_def deliver_def)
  next
    case (Some cb)
    obtain b ctx' reqs u' where r: "call cb c res u = (b, ctx', reqs, u')" by (cases "call cb c res u")
    have b: "b" using fin r by (metis fst_conv)
    let ?s1 = "submit_many reqs (s\<lparr>ios_contexts := RBT.insert uid (p, ctx') (ios_contexts s)\<rparr>)"
    show ?thesis
      using n c Some r b submit_many_frame[of reqs "s\<lparr>ios_contexts := RBT.insert uid (p, ctx') (ios_contexts s)\<rparr>"]
      by (intro that[of "?s1\<lparr>ios_contexts := RBT.delete uid (ios_contexts ?s1)\<rparr>"])
        (simp_all add: IOService_handle_def deliver_def)
  qed
qed

lemma nodes_ok_erase:
  assumes "nodes_ok s" and "\<And>v. RBT.lookup (ios_contexts s') v = (if P v then None else RBT.lookup (ios_contexts s) v)"
  shows "nodes_ok s'"
  using assms by (auto simp: nodes_ok_def live_def split: if_splits)

lemma handle_all:
  assumes "nodes_ok s" and "distinct (map fst cs)" and "\<forall>(p, r) \<in> set cs. \<exists>uid. live s uid p (ctx p)"
    and fin: "\<forall>cb c r u. fst (call cb c r u)"
  shows "\<exists>s'. fold_out (\<lambda>(p, r). IOService_handle call p r) cs (s, u)
       = Inr (s', fold (\<lambda>(p, r). deliver call (ctx p) r) cs u)
     \<and> (\<forall>v p c. live s' v p c \<longleftrightarrow> live s v p c \<and> p \<notin> fst ` set cs)
     \<and> ios_ring s' = ios_ring s \<and> ios_used s' = ios_used s \<and> ios_uring s' = ios_uring s
     \<and> (ios_queue s' = None \<longleftrightarrow> ios_queue s = None)"
  using assms(1-3)
proof (induction cs arbitrary: s u)
  case Nil
  then show ?case by simp
next
  case (Cons x cs)
  obtain p r where x: "x = (p, r)" by (cases x)
  obtain uid where l: "live s uid p (ctx p)" using Cons.prems(3) x by auto
  obtain s1 where s1: "IOService_handle call p r (s, u) = Inr (s1, deliver call (ctx p) r u)"
    "\<And>v. RBT.lookup (ios_contexts s1) v = (if v = uid then None else RBT.lookup (ios_contexts s) v)"
    "ios_ring s1 = ios_ring s" "ios_used s1 = ios_used s" "ios_uring s1 = ios_uring s"
    "ios_queue s1 = None \<longleftrightarrow> ios_queue s = None"
    by (rule handle_one[OF Cons.prems(1) l fin]) (rule that; assumption)
  have ok: "nodes_ok s1" using nodes_ok_erase[OF Cons.prems(1), of s1 "\<lambda>v. v = uid"] s1(2) by simp
  have l1: "live s1 v q c \<longleftrightarrow> live s v q c \<and> q \<noteq> p" for v q c
    using s1(2) l Cons.prems(1) by (auto simp: live_def nodes_ok_def)
  have "\<forall>(q, r) \<in> set cs. \<exists>uid. live s1 uid q (ctx q)"
    using Cons.prems(2,3) x l1 by force
  from Cons.IH[OF ok _ this, of "deliver call (ctx p) r u"] Cons.prems(2) x obtain s' where
    s': "fold_out (\<lambda>(p, r). IOService_handle call p r) cs (s1, deliver call (ctx p) r u)
        = Inr (s', fold (\<lambda>(p, r). deliver call (ctx p) r) cs (deliver call (ctx p) r u))"
      "\<forall>v p c. live s' v p c \<longleftrightarrow> live s1 v p c \<and> p \<notin> fst ` set cs"
      "ios_ring s' = ios_ring s1" "ios_used s' = ios_used s1" "ios_uring s' = ios_uring s1"
      "ios_queue s' = None \<longleftrightarrow> ios_queue s1 = None" by auto
  then show ?case using s1 l1 x by auto
qed

section \<open>A round\<close>

lemma fold_bind_out: "fold (\<lambda>x st. bind_out st (f x)) xs (Inr s) = fold_out f xs s"
proof -
  have fault: "fold (\<lambda>x st. bind_out st (f x)) xs (Inl e) = Inl e" for xs e by (induction xs) simp_all
  show ?thesis
  proof (induction xs arbitrary: s)
    case (Cons x xs)
    then show ?case by (cases "f x s") (simp_all add: fault)
  qed simp
qed

lemma IOService_round_unfold:
  "IOService_round call alloc env key (s, u) =
     (case IOService_notify alloc env s of (evs, s') \<Rightarrow>
        fold_out (\<lambda>kv. IOService_handle call (KVPair_key kv) (KVPair_value kv)) evs (s', u))"
  by (simp add: IOService_round_def IOService_events_def EventsService_processEvents_def
      EventsService_setEventsHandler_def EventsService_setNotifier_def EventsService_ctor_def
      fold_bind_out split: prod.splits)

lemma fold_out_map: "fold_out f (map g xs) s = fold_out (\<lambda>x. f (g x)) xs s"
  by (induction xs arbitrary: s) (auto intro: arg_cong2[where f = bind_out])

lemma fold_out_pairs:
  "fold_out (\<lambda>kv. IOService_handle call (KVPair_key kv) (KVPair_value kv)) (map (\<lambda>(p, res). KVPair_ctor p res) cs) su
     = fold_out (\<lambda>(p, r). IOService_handle call p r) cs su"
  by (simp add: fold_out_map case_prod_beta' KVPair_ctor_def KVPair_key_def KVPair_value_def)

lemma working_request_inv:
  assumes "ios_inv s" and "ios_queue s = Some q" and "MutexQue_takeMulti q [] = (rs, q')"
    and "\<forall>r \<in> set rs. good_request r" and "distinct (map fst rs)"
    and "\<forall>r \<in> set rs. RBT.lookup (ios_contexts s) (fst r) = None"
    and "contexts_count s + length rs \<le> 2 ^ 32" and "allocator alloc" and "\<And>n. sq_room env n"
  shows "ios_inv (working_request alloc env s)"
    and "ios_size (working_request alloc env s) = ios_size s"
    and "\<forall>(uid, ctx) \<in> set rs. \<exists>p e. live (working_request alloc env s) uid p ctx
           \<and> prep_sqe ctx = Some e \<and> (p, e) \<in> set (ios_ring (working_request alloc env s))"
proof -
  have inv: "ios_inv (s\<lparr>ios_queue := Some q'\<rparr>)" using assms(1) by (simp add: ios_inv_def nodes_ok_def live_def)
  have w: "working_request alloc env s =
      fold (\<lambda>(uid, ctx) s. snd (submitRequest_Private alloc env uid ctx s)) rs (s\<lparr>ios_queue := Some q'\<rparr>)"
    using assms(2,3) by (simp add: working_request_def)
  note b = submit_batch[OF inv assms(4,5) _ _ assms(8,9), folded w]
  show "ios_inv (working_request alloc env s)" "ios_size (working_request alloc env s) = ios_size s"
    "\<forall>(uid, ctx) \<in> set rs. \<exists>p e. live (working_request alloc env s) uid p ctx
        \<and> prep_sqe ctx = Some e \<and> (p, e) \<in> set (ios_ring (working_request alloc env s))"
    using b assms(6,7) by (auto simp: contexts_count_def)
qed

lemma filter_out_length:
  assumes "distinct (map fst xs)" and "distinct (map fst cs)" and "fst ` set cs \<subseteq> fst ` set xs"
  shows "length (filter (\<lambda>(p, e). p \<notin> fst ` set cs) xs) + length cs = length xs"
proof -
  have "length (filter (\<lambda>(p, e). p \<notin> fst ` set cs) xs) = card (fst ` set xs - fst ` set cs)"
  proof -
    have "distinct (map fst (filter (\<lambda>(p, e). p \<notin> fst ` set cs) xs))"
      using assms(1) by (rule distinct_map_filter)
    moreover have "fst ` set (filter (\<lambda>(p, e). p \<notin> fst ` set cs) xs) = fst ` set xs - fst ` set cs" by force
    ultimately show ?thesis by (metis distinct_card length_map set_map)
  qed
  moreover have "length cs = card (fst ` set cs)" "length xs = card (fst ` set xs)"
    using assms(1,2) by (metis distinct_card length_map set_map)+
  moreover have "card (fst ` set cs) \<le> card (fst ` set xs)" using assms(3) by (simp add: card_mono)
  ultimately show ?thesis using assms(3) by (simp add: card_Diff_subset)
qed

lemma round_completes_core:
  assumes "ios_inv s" and "ios_queue s = Some q" and "MutexQue_takeMulti q [] = (rs, q')" and "ios_size s \<noteq> 0"
    and "\<forall>r \<in> set rs. good_request r" and "distinct (map fst rs)"
    and "\<forall>r \<in> set rs. RBT.lookup (ios_contexts s) (fst r) = None"
    and few: "contexts_count s + length rs \<le> 2 ^ 32" and alloc: "allocator alloc" and room: "\<And>n. sq_room env n"
    and "0 \<le> submit_ret env" and "wait_ret env = 0"
    and "s1 = working_request alloc env s"
    and "distinct (map fst (cqes env))" and "fst ` set (cqes env) \<subseteq> fst ` set (ios_ring s1)"
    and fin: "\<forall>cb c r u. fst (call cb c r u)"
  shows "(\<forall>(uid, ctx) \<in> set rs. \<exists>p e. live s1 uid p ctx \<and> prep_sqe ctx = Some e \<and> (p, e) \<in> set (ios_ring s1))
     \<and> (\<exists>s' ctx. IOService_round call alloc env key (s, u)
            = Inr (s', fold (\<lambda>(p, r). deliver call (ctx p) r) (cqes env) u)
          \<and> (\<forall>(p, r) \<in> set (cqes env). \<exists>uid. live s1 uid p (ctx p))
          \<and> (\<forall>uid p c. live s' uid p c \<longleftrightarrow> live s1 uid p c \<and> p \<notin> fst ` set (cqes env))
          \<and> ios_ring s' = filter (\<lambda>(p, e). p \<notin> fst ` set (cqes env)) (ios_ring s1)
          \<and> ios_inv s')"
proof -
  note w = working_request_inv[OF assms(1-3,5-7) few alloc room, folded assms(13)]
  let ?cs = "cqes env"
  have ok: "nodes_ok s1" using w(1) by (simp add: ios_inv_def)
  have lv: "\<exists>uid c. live s1 uid p c" if "p \<in> fst ` set ?cs" for p
    using w(1) assms(15) that unfolding ios_inv_def by blast
  define ctx where "ctx = (\<lambda>p. snd (the (node_at p s1)))"
  have c: "\<forall>(p, r) \<in> set ?cs. \<exists>uid. live s1 uid p (ctx p)"
  proof clarify
    fix p r assume "(p, r) \<in> set ?cs"
    then obtain uid d where "live s1 uid p d" using lv by force
    then show "\<exists>uid. live s1 uid p (ctx p)" using node_at_live[OF ok] by (auto simp: ctx_def)
  qed
  have nz: "p \<noteq> 0 \<and> p \<noteq> - 1" if "p \<in> fst ` set ?cs" for p
    using lv[OF that] ok[unfolded nodes_ok_def, THEN conjunct2] by blast
  then have "filter (\<lambda>(p, res). p \<noteq> 0 \<and> p \<noteq> - 1) ?cs = ?cs" by (force simp: filter_id_conv)
  then have n: "IOService_notify alloc env s =
      (map (\<lambda>(p, res). KVPair_ctor p res) ?cs, s1\<lparr>ios_used := ios_used s1 - of_nat (length ?cs),
        ios_ring := filter (\<lambda>(p, e). p \<notin> fst ` set ?cs) (ios_ring s1)\<rparr>)" (is "_ = (_, ?s2)")
    using assms(4,11,12,13) w(2)
    by (simp add: IOService_notify_def IOService_sqe_used_def take_completions_def Let_def)
  have l2: "live ?s2 v p c \<longleftrightarrow> live s1 v p c" for v p c by (simp add: live_def)
  have ok2: "nodes_ok ?s2" using ok by (simp add: nodes_ok_def l2)
  have c2: "\<forall>(p, r) \<in> set ?cs. \<exists>uid. live ?s2 uid p (ctx p)" using c by (simp only: l2)
  from handle_all[OF ok2 assms(14) c2 fin, where u = u, unfolded l2]
  obtain s' where s': "fold_out (\<lambda>(p, r). IOService_handle call p r) ?cs (?s2, u)
       = Inr (s', fold (\<lambda>(p, r). deliver call (ctx p) r) ?cs u)"
    "\<forall>v p c. live s' v p c \<longleftrightarrow> live s1 v p c \<and> p \<notin> fst ` set ?cs"
    "ios_ring s' = ios_ring ?s2" "ios_used s' = ios_used ?s2" "ios_uring s' = ios_uring ?s2"
    "ios_queue s' = None \<longleftrightarrow> ios_queue ?s2 = None"
    by (elim exE conjE) (rule that; assumption)
  have f: "length (ios_ring s1) = length (ios_ring s') + length ?cs"
    using filter_out_length[OF _ assms(14,15)] w(1) s'(3) by (simp add: ios_inv_def)
  have "ios_used s1 = of_nat (length (ios_ring s1))" using w(1) by (simp add: ios_inv_def)
  then have "ios_used s' = of_nat (length (ios_ring s'))" using s'(4) f by simp
  moreover have "nodes_ok s'" using ok s'(2) unfolding nodes_ok_def by blast
  ultimately have "ios_inv s'"
    using w(1) s'(2-6) by (auto simp: ios_inv_def distinct_map_filter)
  then show ?thesis
    using w(3) s' c n unfolding IOService_round_unfold by (intro conjI exI[of _ s'] exI[of _ ctx]) (auto simp: fold_out_pairs)
qed

section \<open>Properties\<close>

text \<open>
  One round of the service. Start from a service in order whose queued requests name
  fresh ids that agree with their contexts and ask for operations io_uring knows, on a ring with room;
  let the kernel report completions of entries in flight, each once, and let the callbacks answer
  that they are finished. Then the round has no fault: every queued request is stored and put in
  flight; every reported completion calls the callback of exactly its own context once, in the
  order reported; the completed contexts are erased and no other; and the service is in order
  again, its counter the number of entries still in flight.
\<close>

theorem IOService_round_completes:
  assumes "ios_inv s" and "ios_queue s = Some q" and "MutexQue_takeMulti q [] = (rs, q')" and "ios_size s \<noteq> 0"
    and "\<forall>r \<in> set rs. good_request r" and "distinct (map fst rs)"
    and "\<forall>r \<in> set rs. RBT.lookup (ios_contexts s) (fst r) = None"
    and few: "contexts_count s + length rs \<le> 2 ^ 32" and alloc: "allocator alloc" and room: "\<And>n. sq_room env n"
    and "0 \<le> submit_ret env" and "wait_ret env = 0"
    and "s1 = working_request alloc env s"
    and "distinct (map fst (cqes env))" and "fst ` set (cqes env) \<subseteq> fst ` set (ios_ring s1)"
    and fin: "\<forall>cb c r u. fst (call cb c r u)"
  shows "(\<forall>(uid, ctx) \<in> set rs. \<exists>p e. live s1 uid p ctx \<and> prep_sqe ctx = Some e \<and> (p, e) \<in> set (ios_ring s1))
     \<and> (\<exists>s' ctx. IOService_round call alloc env key (s, u)
            = Inr (s', fold (\<lambda>(p, r). deliver call (ctx p) r) (cqes env) u)
          \<and> (\<forall>(p, r) \<in> set (cqes env). \<exists>uid. live s1 uid p (ctx p))
          \<and> (\<forall>uid p c. live s' uid p c \<longleftrightarrow> live s1 uid p c \<and> p \<notin> fst ` set (cqes env))
          \<and> ios_ring s' = filter (\<lambda>(p, e). p \<notin> fst ` set (cqes env)) (ios_ring s1)
          \<and> ios_inv s')"
  using round_completes_core[OF assms] .

text \<open>A service with one queued read, for the concrete instances; the callback logs its result.\<close>

definition demo_context :: "u64 \<Rightarrow> nat io_context" where
  "demo_context uid = \<lparr>ic_req = READ, ic_uid = uid, ic_size = 0, ic_flags = 0, ic_fd = 4, ic_dfd = 0,
     ic_mode = 0, ic_path = [], ic_buf = [], ic_onEvents = Some 7\<rparr>"

definition demo_service :: "nat IOService" where
  "demo_service = snd (IOService_submitRequest 1000 (demo_context 1000) (IOService_ctor 128))"

definition demo_call ::
  "nat \<Rightarrow> nat io_context \<Rightarrow> u32 \<Rightarrow> (nat \<times> u32) list
     \<Rightarrow> bool \<times> nat io_context \<times> (u64 \<times> nat io_context) list \<times> (nat \<times> u32) list" where
  "demo_call cb c res log = (True, c, [], log @ [(cb, res)])"

definition demo_env :: uring_env where
  "demo_env = \<lparr>sq_room = (\<lambda>_. True), submit_ret = 1, wait_ret = 0, wait_etime = False, cqes = [(1, 42)]\<rparr>"

text \<open>An allocator: the first of the addresses 1, 2, \<dots> not in use.\<close>

definition demo_alloc :: "u64 list \<Rightarrow> u64" where
  "demo_alloc as = hd (filter (\<lambda>p. p \<notin> set as) (map of_nat [1..<length as + 2]))"

lemma demo_allocator: "allocator demo_alloc"
  unfolding allocator_def
proof (intro allI impI)
  fix as :: "u64 list" assume n: "length as < 2 ^ 32"
  let ?ps = "map of_nat [1..<length as + 2] :: u64 list"
  have small: "unat (of_nat i :: u64) = i" if "i < length as + 2" for i
    using that n by (simp add: unat_of_nat)
  have "inj_on (of_nat :: nat \<Rightarrow> u64) {..<length as + 2}" by (rule inj_onI) (metis small lessThan_iff)
  then have "inj_on (of_nat :: nat \<Rightarrow> u64) (set [1..<length as + 2])" by (rule inj_on_subset) auto
  then have "distinct ?ps" unfolding distinct_map by simp
  then have "card (set ?ps) = length as + 1" by (metis add_diff_cancel_right' distinct_card length_map length_upt
        one_add_one add.assoc)
  then have "\<not> set ?ps \<subseteq> set as"
    using card_mono[of "set as" "set ?ps"] card_length[of as] by auto
  then have "filter (\<lambda>p. p \<notin> set as) ?ps \<noteq> []" by (auto simp: filter_empty_conv)
  then have m: "demo_alloc as \<in> set (filter (\<lambda>p. p \<notin> set as) ?ps)"
    unfolding demo_alloc_def by (rule hd_in_set)
  from m have nin: "demo_alloc as \<notin> set as" unfolding set_filter by blast
  from m have "demo_alloc as \<in> set ?ps" by (rule subsetD[OF filter_is_subset])
  then obtain i where i: "demo_alloc as = of_nat i" "1 \<le> i" "i < length as + 2"
    by (auto simp only: set_map set_upt image_iff atLeastLessThan_iff)
  have "unat (demo_alloc as) = i" using i small by simp
  moreover have "unat (- 1 :: u64) = 2 ^ 64 - 1"
    by (simp add: unsigned_minus_1_eq_mask mask_eq_exp_minus_1)
  ultimately show "demo_alloc as \<notin> set as \<and> demo_alloc as \<noteq> 0 \<and> demo_alloc as \<noteq> - 1"
    using nin i(2,3) n by auto
qed

theorem IOService_round_completes_witness:
  "\<exists>s'. IOService_round demo_call demo_alloc demo_env 9 (demo_service, []) = Inr (s', [(7, 42)])
     \<and> ios_inv s' \<and> ios_ring s' = []"
proof -
  let ?s1 = "working_request demo_alloc demo_env demo_service"
  let ?q = "\<lparr>m_front = [], m_tail = [(1000, demo_context 1000)]\<rparr>"
  have q: "ios_queue demo_service = Some ?q" "MutexQue_takeMulti ?q [] = ([(1000, demo_context 1000)], MutexQue_ctor)"
    by (simp_all add: demo_service_def IOService_submitRequest_def IOService_ctor_def queue_defs)
  have s: "ios_inv demo_service" "ios_size demo_service \<noteq> 0" "contexts_count demo_service = 0"
    "RBT.lookup (ios_contexts demo_service) 1000 = None"
    by (simp_all add: demo_service_def IOService_submitRequest_def IOService_ctor_def ios_inv_def nodes_ok_def
        live_def contexts_count_dom queue_defs)
  have g: "good_request (1000, demo_context 1000)"
    by (simp add: good_request_def demo_context_def prep_sqe_def)
  have cq: "cqes demo_env = [(1, 42)]" by (simp add: demo_env_def)
  have r: "ios_ring ?s1 = [(1, Prep_Read 4 728 0)]" by code_simp
  have "\<exists>s' ctx. IOService_round demo_call demo_alloc demo_env 9 (demo_service, [])
         = Inr (s', fold (\<lambda>(p, r). deliver demo_call (ctx p) r) (cqes demo_env) [])
     \<and> (\<forall>(p, r) \<in> set (cqes demo_env). \<exists>uid. live ?s1 uid p (ctx p))
     \<and> (\<forall>uid p c. live s' uid p c \<longleftrightarrow> live ?s1 uid p c \<and> p \<notin> fst ` set (cqes demo_env))
     \<and> ios_ring s' = filter (\<lambda>(p, e). p \<notin> fst ` set (cqes demo_env)) (ios_ring ?s1) \<and> ios_inv s'"
    by (rule IOService_round_completes[OF s(1) q s(2) _ _ _ _ demo_allocator _ _ _ refl, THEN conjunct2])
      (use g s(3,4) r in \<open>simp_all add: demo_env_def demo_call_def\<close>)
  then obtain s' c where s': "IOService_round demo_call demo_alloc demo_env 9 (demo_service, [])
         = Inr (s', deliver demo_call c 42 [])" "\<exists>uid. live ?s1 uid 1 c" "ios_ring s' = []" "ios_inv s'"
    unfolding cq using r by auto
  have "RBT.entries (ios_contexts ?s1) = [(1000, 1, demo_context 1000)]" by code_simp
  then have "c = demo_context 1000" using s'(2) by (auto simp: live_def RBT.lookup_in_tree)
  then show ?thesis using s' by (auto simp: deliver_def demo_call_def demo_context_def)
qed

text \<open>
  How requests and completions go wrong. A request that finds the ring full is accepted
  and dropped: its context stays in the table and no entry will ever complete it, and the same
  happens to a request for an operation io_uring is not asked to do. Two completions of one
  id, which two submissions under that id produce, use the erased context the second time. A
  context whose own id differs from the one it was submitted under, and is not in the table, ends in
  erasing the end iterator. And the two accessors are exchanged: the number of entries in use reads
  as the ring's size, so the notifier submits and waits even when there is nothing to do.
\<close>

theorem IOService_losses:
  assumes "nodes_ok s" and "live s uid p c" and fin: "\<forall>cb c r u. fst (call cb c r u)"
  shows "((\<forall>n. \<not> sq_room env n) \<or> ic_req ctx \<in> {OTHER, HOSTING, DISCONNECT} \<longrightarrow>
          (\<exists>s'. submitRequest_Private alloc env v ctx s = (False, s') \<and> ios_ring s' = ios_ring s
              \<and> (\<exists>p'. live s' v p' ctx)))
     \<and> fold_out (\<lambda>(p, r). IOService_handle call p r) [(p, r1), (p, r2)] (s, u) = Inl Use_After_Free
     \<and> (RBT.lookup (ios_contexts s) v = None \<longrightarrow>
          IOService_handle call p r1 (s\<lparr>ios_contexts := RBT.insert uid (p, c\<lparr>ic_uid := v\<rparr>) (ios_contexts s)\<rparr>, u)
            = Inl Bad_Iterator)
     \<and> IOService_sqe_used (IOService_ctor m) = m \<and> IOService_entries_size (IOService_ctor m) = 0"
proof (intro conjI impI)
  assume "(\<forall>n. \<not> sq_room env n) \<or> ic_req ctx \<in> {OTHER, HOSTING, DISCONNECT}"
  then show "\<exists>s'. submitRequest_Private alloc env v ctx s = (False, s') \<and> ios_ring s' = ios_ring s
      \<and> (\<exists>p'. live s' v p' ctx)"
    by (auto simp: submitRequest_Private_def put_context_def find_empty_sqe_def live_def Let_def)
next
  obtain s1 where s1: "IOService_handle call p r1 (s, u) = Inr (s1, deliver call c r1 u)"
    "\<And>v. RBT.lookup (ios_contexts s1) v = (if v = uid then None else RBT.lookup (ios_contexts s) v)"
    by (rule handle_one[OF assms(1,2) fin]) (rule that; assumption)
  have "\<not> live s1 v p d" for v d using s1(2) assms(1,2) by (auto simp: live_def nodes_ok_def)
  then have "find (\<lambda>(uid, a, c). a = p) (RBT.entries (ios_contexts s1)) = None"
    by (auto simp: find_None_iff live_def RBT.lookup_in_tree)
  then have "IOService_handle call p r2 (s1, u1) = Inl Use_After_Free" for u1
    using assms(1,2) by (auto simp: IOService_handle_def node_at_def nodes_ok_def)
  then show "fold_out (\<lambda>(p, r). IOService_handle call p r) [(p, r1), (p, r2)] (s, u) = Inl Use_After_Free"
    using s1(1) by simp
next
  assume v: "RBT.lookup (ios_contexts s) v = None"
  let ?s = "s\<lparr>ios_contexts := RBT.insert uid (p, c\<lparr>ic_uid := v\<rparr>) (ios_contexts s)\<rparr>"
  have l: "live ?s w q d \<longleftrightarrow> (if w = uid then q = p \<and> d = c\<lparr>ic_uid := v\<rparr> else live s w q d)" for w q d
    by (auto simp: live_def)
  have "(uid, p, c\<lparr>ic_uid := v\<rparr>) \<in> set (RBT.entries (ios_contexts ?s))" by (simp flip: RBT.lookup_in_tree)
  then have "find (\<lambda>(uid, a, c). a = p) (RBT.entries (ios_contexts ?s)) \<noteq> None"
    by (auto simp: find_None_iff)
  then obtain x where x: "find (\<lambda>(uid, a, c). a = p) (RBT.entries (ios_contexts ?s)) = Some x" by blast
  then have m: "x \<in> set (RBT.entries (ios_contexts ?s))" "fst (snd x) = p"
    by (auto simp: find_Some_iff split_beta)
  then have "live ?s (fst x) p (snd (snd x))"
    unfolding live_def RBT.lookup_in_tree by (metis prod.collapse)
  then have "fst x = uid \<and> snd (snd x) = c\<lparr>ic_uid := v\<rparr>"
    unfolding l using assms(1,2) by (auto simp: nodes_ok_def split: if_splits)
  then have "x = (uid, p, c\<lparr>ic_uid := v\<rparr>)" using m(2) by (cases x) simp
  then have n: "node_at p ?s = Some (uid, c\<lparr>ic_uid := v\<rparr>)" using x by (simp add: node_at_def)
  have "p \<noteq> 0" "v \<noteq> uid" using assms(1,2) v by (auto simp: nodes_ok_def live_def)
  then show "IOService_handle call p r1 (?s, u) = Inl Bad_Iterator"
    using n v fin by (auto simp: IOService_handle_def Let_def split: option.splits prod.splits) (metis fst_conv)
qed (simp_all add: IOService_sqe_used_def IOService_entries_size_def IOService_ctor_def)

text \<open>A service with one live context, at address 1.\<close>

definition demo_busy :: "nat IOService" where
  "demo_busy = (IOService_ctor 128)\<lparr>ios_contexts := RBT.insert 1000 (1, demo_context 1000) RBT.empty\<rparr>"

theorem IOService_losses_witness:
  "fold_out (\<lambda>(p, r). IOService_handle demo_call p r) [(1, 3), (1, 4)] (demo_busy, []) = Inl Use_After_Free
   \<and> (\<exists>s'. submitRequest_Private demo_alloc (demo_env\<lparr>sq_room := \<lambda>_. False\<rparr>) 1001 (demo_context 1001) demo_busy
              = (False, s') \<and> ios_ring s' = [])"
proof -
  have n: "nodes_ok demo_busy" "live demo_busy 1000 1 (demo_context 1000)"
    by (auto simp: nodes_ok_def live_def demo_busy_def demo_context_def split: if_splits)
  have f: "\<forall>cb c r u. fst (demo_call cb c r u)" by (simp add: demo_call_def)
  have r: "ios_ring demo_busy = []" by (simp add: demo_busy_def IOService_ctor_def)
  show ?thesis
    using IOService_losses[OF n f, of "demo_env\<lparr>sq_room := \<lambda>_. False\<rparr>" "demo_context 1001" demo_alloc 1001 3 4 "[]" 0] r
    by auto
qed

end
