(* ===== verification/IO_File.thy ===== *)
theory IO_File
  imports IO_Service File_Model Uid_Creator
begin

text \<open>
  \<open>io_file\<close> (\<open>io_file.hh\<close>, \<open>io_file.cpp\<close>): files over the io_uring service. An asynchronous operation takes
  the descriptor out of the object, stores it in a request, and submits it; when the request
  completes, a temporary \<open>io_file\<close> with that descriptor is handed to the user's callback and destroyed
  afterwards, which closes what the callback did not take. The kernel fills the buffer of a
  read in place: \<open>buf uid\<close> is what it holds when the request \<open>uid\<close> completes.
\<close>

section \<open>The object\<close>

record io_file =
  if_fd :: int

definition io_file_ctor :: io_file where
  "io_file_ctor = \<lparr>if_fd = -1\<rparr>"

definition io_file_move_ctor :: "io_file \<Rightarrow> io_file \<times> io_file" where
  "io_file_move_ctor a = (\<lparr>if_fd = if_fd a\<rparr>, a\<lparr>if_fd := -1\<rparr>)"

definition io_file_take_handle :: "io_file \<Rightarrow> int \<times> io_file" where
  "io_file_take_handle f = (if_fd f, f\<lparr>if_fd := -1\<rparr>)"

definition io_file_valid :: "io_file \<Rightarrow> bool" where
  "io_file_valid f \<longleftrightarrow> if_fd f > 0"

text \<open>\<open>base::File(m_fd).close()\<close> closes through a temporary and leaves \<open>m_fd\<close> as it is.\<close>

definition io_file_immediately_close :: "io_file \<Rightarrow> closed" where
  "io_file_immediately_close f = fst (File_close (File_ctor_fd (if_fd f)))"

definition io_file_dtor :: "io_file \<Rightarrow> closed" where
  "io_file_dtor f = io_file_immediately_close f"

definition io_file_immediately_open :: "int \<Rightarrow> io_file \<Rightarrow> bool \<times> io_file" where
  "io_file_immediately_open ret f =
     (let (b, fl) = File_open ret File_ctor in (b, f\<lparr>if_fd := fst (File_take_handle fl)\<rparr>))"

text \<open>
  The blocking \<open>read\<close> and \<open>write\<close> go through a temporary \<open>File\<close>, which gives its descriptor up before it is
  destroyed: what is closed is the last component of the results.
\<close>

definition io_file_immediately_write :: "(int \<Rightarrow> bytes \<Rightarrow> int) \<Rightarrow> bytes \<Rightarrow> io_file \<Rightarrow> int \<times> closed" where
  "io_file_immediately_write sys data f =
     (let fl = File_ctor_fd (if_fd f);
          ret = sys (u_fd fl) data;
          (_, fl') = File_take_handle fl
      in (ret, File_dtor fl'))"

definition io_file_immediately_read :: "(int \<Rightarrow> nat \<Rightarrow> int \<times> bytes) \<Rightarrow> bytes \<Rightarrow> io_file \<Rightarrow> int \<times> bytes \<times> closed" where
  "io_file_immediately_read sys data f =
     (let fl = File_ctor_fd (if_fd f);
          (ret, got) = sys (u_fd fl) (length data);
          (_, fl') = File_take_handle fl
      in (ret, take (length data) got @ drop (length got) data, File_dtor fl'))"

section \<open>Requests\<close>

datatype 'c io_file_cb =
    Cb_Open "'c option"
  | Cb_Write "'c option"
  | Cb_Read "'c option"
  | Cb_Close "'c option"

text \<open>\<open>std::make_unique\<close> makes a request all zero, whose kind is the first of the enumeration.\<close>

definition blank_context :: "'c io_file_cb io_context" where
  "blank_context =
     \<lparr>ic_req = OPEN, ic_uid = 0, ic_size = 0, ic_flags = 0, ic_fd = 0, ic_dfd = 0, ic_mode = 0,
      ic_path = [], ic_buf = [], ic_onEvents = None\<rparr>"

type_synonym 'c ios_sys = "uid_state \<times> 'c io_file_cb IOService"

text \<open>The path is copied into an array of 256 characters; the terminator is written behind what was copied.\<close>

definition io_file_async_open ::
  "'c option \<Rightarrow> string \<Rightarrow> int \<Rightarrow> int \<Rightarrow> u32 \<Rightarrow> 'c ios_sys \<Rightarrow> (bool \<times> 'c ios_sys) outcome" where
  "io_file_async_open onOpen path dir_fd flags mode st =
     (let (uid, us) = create_uid_u64 (fst st);
          ctx = blank_context\<lparr>ic_req := OPEN, ic_dfd := dir_fd, ic_uid := uid, ic_flags := flags, ic_mode := mode,
                  ic_path := take 256 path, ic_onEvents := Some (Cb_Open onOpen)\<rparr>
      in if min 256 (length path) < 256
         then let (b, s) = IOService_submitRequest uid ctx (snd st) in Inr (b, us, s)
         else Inl Out_Of_Range)"

definition submit_with_handle ::
  "(u64 \<Rightarrow> int \<Rightarrow> 'c io_file_cb io_context) \<Rightarrow> io_file \<Rightarrow> 'c ios_sys \<Rightarrow> bool \<times> io_file \<times> 'c ios_sys" where
  "submit_with_handle mk f st =
     (let (uid, us) = create_uid_u64 (fst st);
          (fd, f') = io_file_take_handle f;
          (b, s) = IOService_submitRequest uid (mk uid fd) (snd st)
      in (b, f', us, s))"

definition io_file_async_write :: "'c option \<Rightarrow> bytes \<Rightarrow> io_file \<Rightarrow> 'c ios_sys \<Rightarrow> bool \<times> io_file \<times> 'c ios_sys" where
  "io_file_async_write onWrite data =
     submit_with_handle (\<lambda>uid fd. blank_context\<lparr>ic_req := WRITE, ic_fd := fd, ic_uid := uid,
       ic_size := of_nat (length data), ic_buf := data, ic_onEvents := Some (Cb_Write onWrite)\<rparr>)"

definition io_file_async_read :: "'c option \<Rightarrow> io_file \<Rightarrow> 'c ios_sys \<Rightarrow> bool \<times> io_file \<times> 'c ios_sys" where
  "io_file_async_read onRead =
     submit_with_handle (\<lambda>uid fd. blank_context\<lparr>ic_req := READ, ic_uid := uid, ic_fd := fd,
       ic_onEvents := Some (Cb_Read onRead)\<rparr>)"

definition io_file_async_close :: "'c option \<Rightarrow> io_file \<Rightarrow> 'c ios_sys \<Rightarrow> bool \<times> io_file \<times> 'c ios_sys" where
  "io_file_async_close onClose =
     submit_with_handle (\<lambda>uid fd. blank_context\<lparr>ic_req := CLOSE, ic_uid := uid, ic_fd := fd,
       ic_onEvents := Some (Cb_Close onClose)\<rparr>)"

section \<open>Completions\<close>

text \<open>
  What a user callback is told: the descriptor it is lent, the result, and the data of a read. It
  answers whether it takes the descriptor, and changes the user's state \<open>'s\<close>; descriptors closed by
  the service's callbacks are logged beside it.
\<close>

record io_report =
  rep_fd :: int
  rep_res :: int
  rep_data :: bytes

definition lend ::
  "('c \<Rightarrow> io_report \<Rightarrow> 's \<Rightarrow> bool \<times> 's) \<Rightarrow> 'c option \<Rightarrow> io_report \<Rightarrow> 's \<times> closed \<Rightarrow> 's \<times> closed" where
  "lend user cbo r st =
     (case cbo of
        None \<Rightarrow> (fst st, snd st @ io_file_dtor \<lparr>if_fd = rep_fd r\<rparr>)
      | Some cb \<Rightarrow>
          let (taken, s') = user cb r (fst st)
          in (s', snd st @ (if taken then [] else io_file_dtor \<lparr>if_fd = rep_fd r\<rparr>)))"

definition io_file_call ::
  "('c \<Rightarrow> io_report \<Rightarrow> 's \<Rightarrow> bool \<times> 's) \<Rightarrow> (u64 \<Rightarrow> bytes) \<Rightarrow> 'c io_file_cb \<Rightarrow> 'c io_file_cb io_context \<Rightarrow> u32 \<Rightarrow> 's \<times> closed
     \<Rightarrow> bool \<times> 'c io_file_cb io_context \<times> (u64 \<times> 'c io_file_cb io_context) list \<times> ('s \<times> closed)" where
  "io_file_call user buf cb ctx res st =
     (case cb of
        Cb_Open c \<Rightarrow> (True, ctx, [], lend user c \<lparr>rep_fd = sint res, rep_res = sint res, rep_data = []\<rparr> st)
      | Cb_Write c \<Rightarrow> (True, ctx, [], lend user c \<lparr>rep_fd = ic_fd ctx, rep_res = sint res, rep_data = []\<rparr> st)
      | Cb_Read c \<Rightarrow>
          let str = (if sint res > 0 \<and> sint res \<le> int BUF_SIZE then take (nat (sint res)) (buf (ic_uid ctx)) else [])
          in (True, ctx, [], lend user c \<lparr>rep_fd = ic_fd ctx, rep_res = int (length str), rep_data = str\<rparr> st)
      | Cb_Close c \<Rightarrow> (True, ctx, [], lend user c \<lparr>rep_fd = ic_fd ctx, rep_res = 0, rep_data = []\<rparr> st))"

lemmas io_file_defs =
  io_file_ctor_def io_file_take_handle_def io_file_immediately_close_def io_file_dtor_def submit_with_handle_def
  io_file_async_write_def io_file_async_read_def io_file_async_close_def blank_context_def

section \<open>Properties\<close>

lemma io_file_call_finishes: "\<forall>cb c r u. fst (io_file_call user buf cb c r u)"
  by (auto simp: io_file_call_def Let_def split: io_file_cb.splits)

lemma async_read_queues:
  assumes "ios_queue s = Some q" and "ios_uring s"
  shows "io_file_async_read cbo f (us, s) =
     (True, \<lparr>if_fd = -1\<rparr>, us\<lparr>uid_u64_last := uid_u64_last us + 1\<rparr>,
      s\<lparr>ios_queue := Some (MutexQue_pushBack q (uid_u64_last us,
          blank_context\<lparr>ic_req := READ, ic_uid := uid_u64_last us, ic_fd := if_fd f,
            ic_onEvents := Some (Cb_Read cbo)\<rparr>))\<rparr>)"
  using assms
  by (cases f) (simp add: io_file_async_read_def submit_with_handle_def create_uid_u64_def io_file_take_handle_def
      IOService_submitRequest_def)

text \<open>
  Property C26. An asynchronous read from request to callback. On a service in order with nothing queued
  and room in its ring, reading is accepted and leaves the object without a descriptor; if the kernel
  then completes the request with \<open>n\<close> bytes, \<open>0 < n \<le> 728\<close>, the round calls the user's callback exactly
  once with the descriptor, \<open>n\<close> and the first \<open>n\<close> bytes of the buffer, closes the descriptor exactly
  when the callback does not take it, erases the request and leaves the service in order.
\<close>

theorem io_file_read_delivers:
  assumes "ios_inv s" and "ios_queue s = Some q" and "MutexQue_contents q = []" and "ios_size s \<noteq> 0"
    and "RBT.lookup (ios_contexts s) (uid_u64_last us) = None" and "contexts_count s < 2 ^ 32"
    and "allocator alloc" and "\<And>n. sq_room env n" and "0 \<le> submit_ret env" and "wait_ret env = 0"
    and "cqes env = [(alloc (addresses s), res)]" and "0 < sint res" and "sint res \<le> int BUF_SIZE"
    and "length (buf (uid_u64_last us)) = BUF_SIZE"
    and "io_file_async_read (Some cb) f (us, s) = (b, f', us', s')"
  shows "b \<and> io_file_dtor f' = []
     \<and> (\<exists>s3. IOService_round (io_file_call user buf) alloc env key (s', (u, cl)) =
            Inr (s3, let (taken, u') = user cb \<lparr>rep_fd = if_fd f, rep_res = sint res,
                                               rep_data = take (nat (sint res)) (buf (uid_u64_last us))\<rparr> u
                     in (u', cl @ (if taken \<or> if_fd f < 0 then [] else [if_fd f])))
          \<and> ios_inv s3 \<and> RBT.lookup (ios_contexts s3) (uid_u64_last us) = None)"
proof -
  let ?uid = "uid_u64_last us"
  let ?ctx = "blank_context\<lparr>ic_req := READ, ic_uid := ?uid, ic_fd := if_fd f, ic_onEvents := Some (Cb_Read (Some cb))\<rparr>"
  let ?p = "alloc (addresses s)"
  have uring: "ios_uring s" using assms(1) by (simp add: ios_inv_def)
  have r: "b" "f' = \<lparr>if_fd = -1\<rparr>" "s' = s\<lparr>ios_queue := Some (MutexQue_pushBack q (?uid, ?ctx))\<rparr>"
    using assms(15) async_read_queues[OF assms(2) uring, of "Some cb" f us] by simp_all
  have inv: "ios_inv s'" using assms(1) r(3) by (simp add: ios_inv_def nodes_ok_def live_def)
  have q: "ios_queue s' = Some (MutexQue_pushBack q (?uid, ?ctx))"
    "MutexQue_takeMulti (MutexQue_pushBack q (?uid, ?ctx)) [] = ([(?uid, ?ctx)], MutexQue_ctor)"
    using assms(3) r(3) by (simp_all add: queue_defs)
  have g: "good_request (?uid, ?ctx)" "prep_sqe ?ctx = Some (Prep_Read (if_fd f) BUF_SIZE 0)"
    by (simp_all add: good_request_def prep_sqe_def)
  have w: "working_request alloc env s' = s'\<lparr>ios_queue := Some MutexQue_ctor,
      ios_contexts := RBT.insert ?uid (?p, ?ctx) (ios_contexts s),
      ios_ring := ios_ring s @ [(?p, Prep_Read (if_fd f) BUF_SIZE 0)], ios_used := ios_used s + 1\<rparr>"
    using q g(2) r(3) assms(5,8) uring
    by (simp add: working_request_def submitRequest_Private_def put_context_def find_empty_sqe_def addresses_def Let_def)
  have l: "live (working_request alloc env s') ?uid ?p ?ctx" by (simp add: live_def w)
  obtain s3 ctx where s3: "IOService_round (io_file_call user buf) alloc env key (s', (u, cl))
        = Inr (s3, deliver (io_file_call user buf) (ctx ?p) res (u, cl))"
      "\<exists>v. live (working_request alloc env s') v ?p (ctx ?p)"
      "\<forall>v p c. live s3 v p c \<longleftrightarrow> live (working_request alloc env s') v p c \<and> p \<noteq> ?p" "ios_inv s3"
    using round_completes_core[where s = s' and rs = "[(?uid, ?ctx)]" and call = "io_file_call user buf" and alloc = alloc
        and env = env and u = "(u, cl)" and key = key,
        OF inv q _ _ _ _ _ assms(7,8,9,10) refl _ _ io_file_call_finishes]
      g(1) assms(4,5,6,11) r(3) w by (auto simp: contexts_count_def)
  have "ios_inv (working_request alloc env s')"
    by (rule working_request_inv(1)[OF inv q _ _ _ _ assms(7,8)])
      (use g(1) assms(5,6) r(3) in \<open>auto simp: contexts_count_def\<close>)
  then have "nodes_ok (working_request alloc env s')" by (simp add: ios_inv_def)
  moreover obtain v where "live (working_request alloc env s') v ?p (ctx ?p)" using s3(2) by blast
  ultimately have "Some (v, ctx ?p) = Some (?uid, ?ctx)" using l node_at_live by metis
  then have "ctx ?p = ?ctx" by simp
  then have "deliver (io_file_call user buf) (ctx ?p) res (u, cl) =
      (let (taken, u') = user cb \<lparr>rep_fd = if_fd f, rep_res = sint res,
           rep_data = take (nat (sint res)) (buf ?uid)\<rparr> u
       in (u', cl @ (if taken \<or> if_fd f < 0 then [] else [if_fd f])))"
    using assms(12-14)
    by (auto simp: deliver_def io_file_call_def lend_def io_file_dtor_def io_file_immediately_close_def File_defs
        Let_def split: prod.splits)
  moreover have "RBT.lookup (ios_contexts s3) ?uid = None"
  proof (rule ccontr)
    assume "RBT.lookup (ios_contexts s3) ?uid \<noteq> None"
    then obtain p c where "live s3 ?uid p c" by (auto simp: live_def)
    then show False using s3(3) l by (auto simp: live_def)
  qed
  ultimately show ?thesis
    using s3(1,4) r(1,2) by (auto simp: io_file_dtor_def io_file_immediately_close_def File_defs)
qed

text \<open>
  Descriptors lost and closed twice. When the service refuses a request the descriptor has already
  been taken out of the object and nobody closes it; a completed \<open>async_close\<close>, for which the kernel has
  closed the descriptor, lends the same number to the callback and closes it again unless it is
  taken; and \<open>immediately_close\<close> leaves the number in place for the destructor. The blocking reads and
  writes close nothing, and a read never changes the length of the buffer it is given.
\<close>

theorem io_file_descriptor_errors:
  "(ios_queue s = None \<or> \<not> ios_uring s \<longrightarrow>
      io_file_async_read cbo f (us, s) = (False, \<lparr>if_fd = -1\<rparr>, snd (create_uid_u64 us), s))
   \<and> (0 \<le> if_fd f \<longrightarrow> prep_sqe ctx = Some (Prep_Close (if_fd f)) \<longrightarrow> ic_fd ctx = if_fd f \<longrightarrow>
        io_file_call user buf (Cb_Close None) ctx res (u, cl) = (True, ctx, [], u, cl @ [if_fd f]))
   \<and> (0 \<le> if_fd f \<longrightarrow> io_file_immediately_close f = [if_fd f] \<and> io_file_dtor f = [if_fd f])
   \<and> snd (io_file_immediately_write wr data f) = []
   \<and> (let (ret, data', cl') = io_file_immediately_read rd data f in
        cl' = [] \<and> (length (snd (rd (if_fd f) (length data))) \<le> length data \<longrightarrow> length data' = length data))"
  by (cases f) (auto simp: io_file_async_read_def submit_with_handle_def create_uid_u64_def io_file_take_handle_def
      IOService_submitRequest_def io_file_call_def lend_def io_file_dtor_def io_file_immediately_close_def File_defs
      io_file_immediately_write_def io_file_immediately_read_def Let_def split: option.splits prod.splits)

theorem io_file_read_delivers_witness:
  "\<exists>s3. IOService_round (io_file_call (\<lambda>cb r log. (False, log @ [(cb, rep_fd r, rep_data r)])) (\<lambda>_. replicate 728 CHR ''x''))
       demo_alloc (demo_env\<lparr>cqes := [(1, 2)]\<rparr>) 9
       (snd (snd (snd (io_file_async_read (Some (7 :: nat)) \<lparr>if_fd = 5\<rparr> (uid_state_init, IOService_ctor 128)))), ([], []))
     = Inr (s3, ([(7, 5, ''xx'')], [5])) \<and> ios_inv s3"
proof -
  let ?s = "IOService_ctor 128 :: nat io_file_cb IOService"
  obtain b f' us' s' where r: "io_file_async_read (Some (7 :: nat)) \<lparr>if_fd = 5\<rparr> (uid_state_init, ?s) = (b, f', us', s')"
    by (cases "io_file_async_read (Some (7 :: nat)) \<lparr>if_fd = 5\<rparr> (uid_state_init, ?s)") auto
  have s: "ios_inv ?s" "ios_queue ?s = Some MutexQue_ctor" "MutexQue_contents (MutexQue_ctor :: (u64 \<times> nat io_file_cb io_context) MutexQue) = []"
    "ios_size ?s \<noteq> 0" "RBT.lookup (ios_contexts ?s) (uid_u64_last uid_state_init) = None" "contexts_count ?s < 2 ^ 32"
    by (simp_all add: IOService_ctor_def ios_inv_def nodes_ok_def live_def contexts_count_dom queue_defs)
  have a: "demo_alloc (addresses ?s) = 1" by code_simp
  have e: "\<And>n. sq_room (demo_env\<lparr>cqes := [(1, 2)]\<rparr>) n" "0 \<le> submit_ret (demo_env\<lparr>cqes := [(1, 2)]\<rparr>)"
    "wait_ret (demo_env\<lparr>cqes := [(1, 2)]\<rparr>) = 0"
    "cqes (demo_env\<lparr>cqes := [(1, 2)]\<rparr>) = [(demo_alloc (addresses ?s), 2)]"
    by (simp_all add: demo_env_def a)
  have n: "0 < sint (2 :: u32)" "sint (2 :: u32) \<le> int BUF_SIZE" "nat (sint (2 :: u32)) = 2"
    by (simp_all add: BUF_SIZE_def)
  show ?thesis
    using io_file_read_delivers[OF s demo_allocator e n(1,2) _ r, of "\<lambda>_. replicate 728 CHR ''x''"
        "\<lambda>cb r log. (False, log @ [(cb, rep_fd r, rep_data r)])" 9 "[]" "[]"] r n(3)
    by (auto simp: BUF_SIZE_def numeral_2_eq_2)
qed

end
