(* ===== verification/Zlib_Stream.thy ===== *)
theory Zlib_Stream
  imports Andren_Prelude
begin

text \<open>
  \<open>zlibstream.cpp\<close>: \<open>ZStreamCompress\<close> and \<open>ZStreamDecompress\<close>, which push data through zlib in chunks and collect
  the output. zlib is a parameter: a record of the calls the code makes, on a stream state of any type.
  What the code relies on is stated by the predicates \<open>deflater\<close> and \<open>inflater\<close>, after the zlib manual.
\<close>

section \<open>The library\<close>

datatype zflush = Z_NO_FLUSH | Z_FINISH

definition Z_OK :: int where "Z_OK = 0"
definition Z_STREAM_END :: int where "Z_STREAM_END = 1"
definition Z_STREAM_ERROR :: int where "Z_STREAM_ERROR = -2"
definition Z_BUF_ERROR :: int where "Z_BUF_ERROR = -5"

lemmas zlib_codes = Z_OK_def Z_STREAM_END_def Z_STREAM_ERROR_def Z_BUF_ERROR_def

text \<open>
  \<open>zstep\<close> is \<open>deflate\<close> or \<open>inflate\<close>: from the flush mode, the input at \<open>next_in\<close>, \<open>avail_out\<close> and the stream it
  gives the code, the number of bytes consumed, the bytes written and the new stream.
\<close>

record 'z zlib =
  zinit :: "int \<times> 'z"
  zstep :: "zflush \<Rightarrow> bytes \<Rightarrow> nat \<Rightarrow> 'z \<Rightarrow> int \<times> nat \<times> bytes \<times> 'z"
  zend :: "'z \<Rightarrow> int \<times> 'z"

section \<open>The two private classes\<close>

text \<open>
  Their fields are the same: the stream with its \<open>next_in\<close>/\<open>avail_in\<close> and \<open>avail_out\<close>, the data collected, the
  size of \<open>tmp\<close>, and the flag. \<open>avail_in\<close> has 32 bits.
\<close>

record 'z zpriv =
  zs_stream :: 'z
  zs_in :: bytes
  zs_room :: nat
  m_data :: bytes
  zs_tmp :: nat
  zs_valid :: bool

definition zpriv_ctor :: "'z zlib \<Rightarrow> u32 \<Rightarrow> 'z zpriv" where
  "zpriv_ctor lib CHUNK_SIZE =
     (let (ret, z) = zinit lib
      in \<lparr>zs_stream = z, zs_in = [], zs_room = 0, m_data = [], zs_tmp = unat CHUNK_SIZE, zs_valid = (ret = Z_OK)\<rparr>)"

definition set_input :: "bytes \<Rightarrow> 'z zpriv \<Rightarrow> 'z zpriv" where
  "set_input data s = s\<lparr>zs_in := take (length data mod 2 ^ 32) data\<rparr>"

text \<open>
  One call of the library with the whole of \<open>tmp\<close> for output, and the append of what it wrote.
\<close>

definition call_lib :: "'z zlib \<Rightarrow> zflush \<Rightarrow> 'z zpriv \<Rightarrow> int \<times> bytes \<times> 'z zpriv" where
  "call_lib lib fl s =
     (let (ret, n, out, z) = zstep lib fl (zs_in s) (zs_tmp s) (zs_stream s)
      in (ret, out, s\<lparr>zs_stream := z, zs_in := drop n (zs_in s), zs_room := zs_tmp s - length out\<rparr>))"

definition append_data :: "bytes \<Rightarrow> 'z zpriv \<Rightarrow> 'z zpriv" where
  "append_data out s = s\<lparr>m_data := m_data s @ out\<rparr>"

partial_function (option) finish_loop :: "'z zlib \<Rightarrow> 'z zpriv \<Rightarrow> 'z zpriv option" where
  "finish_loop lib s =
     (case call_lib lib Z_FINISH s of (ret, out, s') \<Rightarrow>
        if ret \<noteq> Z_STREAM_END then finish_loop lib (append_data out s') else Some (append_data out s'))"

definition compress_finished :: "'z zlib \<Rightarrow> 'z zpriv \<Rightarrow> (bytes \<times> 'z zpriv) option" where
  "compress_finished lib s =
     (if \<not> zs_valid s then Some ([], s)
      else case finish_loop lib s of
             None \<Rightarrow> None
           | Some s' \<Rightarrow> Some (m_data s', s'\<lparr>zs_stream := snd (zend lib (zs_stream s')), zs_valid := False, m_data := []\<rparr>))"

partial_function (option) compress_loop :: "'z zlib \<Rightarrow> 'z zpriv \<Rightarrow> (int \<times> 'z zpriv) option" where
  "compress_loop lib s =
     (if zs_in s = [] then Some (0, s)
      else case call_lib lib Z_NO_FLUSH s of (ret, out, s') \<Rightarrow>
        if ret \<noteq> Z_OK then Some (-2, s') else compress_loop lib (append_data out s'))"

definition compress :: "'z zlib \<Rightarrow> bytes \<Rightarrow> 'z zpriv \<Rightarrow> (int \<times> 'z zpriv) option" where
  "compress lib data s =
     (if \<not> zs_valid s then Some (-1, s) else compress_loop lib (set_input data s))"

text \<open>
  The end of decompression calls \<open>inflate\<close> with what is left of \<open>tmp\<close> from the call before and appends
  nothing.
\<close>

definition decompress_finished :: "'z zlib \<Rightarrow> 'z zpriv \<Rightarrow> bytes \<times> 'z zpriv" where
  "decompress_finished lib s =
     (if \<not> zs_valid s then ([], s)
      else let (_, _, _, z) = zstep lib Z_FINISH [] (zs_room s) (zs_stream s);
               (ret, z') = zend lib z
           in (if ret = 0 then m_data s else [],
               s\<lparr>zs_stream := z', zs_in := [], zs_valid := False, m_data := if ret = 0 then [] else m_data s\<rparr>))"

partial_function (option) decompress_loop :: "'z zlib \<Rightarrow> 'z zpriv \<Rightarrow> (int \<times> 'z zpriv) option" where
  "decompress_loop lib s =
     (if zs_in s = [] then Some (0, s)
      else case call_lib lib Z_NO_FLUSH s of (ret, out, s') \<Rightarrow>
        if ret \<noteq> Z_OK \<and> ret \<noteq> Z_STREAM_END then Some (-2, s') else decompress_loop lib (append_data out s'))"

definition decompress :: "'z zlib \<Rightarrow> bytes \<Rightarrow> 'z zpriv \<Rightarrow> (int \<times> 'z zpriv) option" where
  "decompress lib data s =
     (if \<not> zs_valid s \<and> length data = 0 then Some (-1, s) else decompress_loop lib (set_input data s))"

section \<open>The public classes\<close>

text \<open>
  The public object is a pointer to the private one, null once moved from. A move deletes the object's
  own private part, which finishes its stream.
\<close>

definition ZStreamCompress_ctor :: "'z zlib \<Rightarrow> u32 \<Rightarrow> 'z zpriv option" where
  "ZStreamCompress_ctor lib chunkSize = Some (zpriv_ctor lib chunkSize)"

definition ZStreamCompress_dtor :: "'z zlib \<Rightarrow> 'z zpriv option \<Rightarrow> unit option" where
  "ZStreamCompress_dtor lib h =
     (case h of None \<Rightarrow> Some () | Some s \<Rightarrow> map_option (\<lambda>_. ()) (compress_finished lib s))"

definition ZStreamCompress_move_ctor :: "'z zpriv option \<Rightarrow> 'z zpriv option \<times> 'z zpriv option" where
  "ZStreamCompress_move_ctor other = (other, None)"

definition ZStreamCompress_move_assign ::
  "'z zlib \<Rightarrow> 'z zpriv option \<Rightarrow> 'z zpriv option \<Rightarrow> ('z zpriv option \<times> 'z zpriv option) option" where
  "ZStreamCompress_move_assign lib self other =
     map_option (\<lambda>_. (other, None)) (ZStreamCompress_dtor lib self)"

definition ZStreamCompress_isValid :: "'z zpriv option \<Rightarrow> bool" where
  "ZStreamCompress_isValid h = (case h of None \<Rightarrow> False | Some s \<Rightarrow> zs_valid s)"

definition ZStreamCompress_finished :: "'z zlib \<Rightarrow> 'z zpriv option \<Rightarrow> (bytes \<times> 'z zpriv option) outcome option" where
  "ZStreamCompress_finished lib h =
     (case h of None \<Rightarrow> Some (Inl Null_Deref)
      | Some s \<Rightarrow> map_option (\<lambda>(r, s'). Inr (r, Some s')) (compress_finished lib s))"

definition ZStreamCompress_compress ::
  "'z zlib \<Rightarrow> bytes \<Rightarrow> 'z zpriv option \<Rightarrow> (int \<times> 'z zpriv option) outcome option" where
  "ZStreamCompress_compress lib data h =
     (case h of None \<Rightarrow> Some (Inl Null_Deref)
      | Some s \<Rightarrow> map_option (\<lambda>(r, s'). Inr (r, Some s')) (compress lib data s))"

definition ZStreamDecompress_ctor :: "'z zlib \<Rightarrow> u32 \<Rightarrow> 'z zpriv option" where
  "ZStreamDecompress_ctor lib chunkSize = Some (zpriv_ctor lib chunkSize)"

definition ZStreamDecompress_dtor :: "'z zlib \<Rightarrow> 'z zpriv option \<Rightarrow> 'z zpriv option" where
  "ZStreamDecompress_dtor lib h = map_option (\<lambda>s. snd (decompress_finished lib s)) h"

definition ZStreamDecompress_move_ctor :: "'z zpriv option \<Rightarrow> 'z zpriv option \<times> 'z zpriv option" where
  "ZStreamDecompress_move_ctor other = (other, None)"

definition ZStreamDecompress_move_assign :: "'z zpriv option \<Rightarrow> 'z zpriv option \<Rightarrow> 'z zpriv option \<times> 'z zpriv option" where
  "ZStreamDecompress_move_assign self other = (other, None)"

definition ZStreamDecompress_isValid :: "'z zpriv option \<Rightarrow> bool" where
  "ZStreamDecompress_isValid h = (case h of None \<Rightarrow> False | Some s \<Rightarrow> zs_valid s)"

definition ZStreamDecompress_finished :: "'z zlib \<Rightarrow> 'z zpriv option \<Rightarrow> (bytes \<times> 'z zpriv option) outcome" where
  "ZStreamDecompress_finished lib h =
     (case h of None \<Rightarrow> Inl Null_Deref
      | Some s \<Rightarrow> let (r, s') = decompress_finished lib s in Inr (r, Some s'))"

definition ZStreamDecompress_decompress ::
  "'z zlib \<Rightarrow> bytes \<Rightarrow> 'z zpriv option \<Rightarrow> (int \<times> 'z zpriv option) outcome option" where
  "ZStreamDecompress_decompress lib data h =
     (case h of None \<Rightarrow> Some (Inl Null_Deref)
      | Some s \<Rightarrow> map_option (\<lambda>(r, s'). Inr (r, Some s')) (decompress lib data s))"

section \<open>What the code relies on\<close>

text \<open>
  Observers of a stream, after the zlib manual: all input consumed and all output written so far,
  whether it is in use or being finished, and two measures of the output a stream still holds back.
\<close>

record 'z zview =
  v_in :: "'z \<Rightarrow> bytes"
  v_out :: "'z \<Rightarrow> bytes"
  v_open :: "'z \<Rightarrow> bool"
  v_fin :: "'z \<Rightarrow> bool"
  v_held :: "'z \<Rightarrow> nat"
  v_left :: "'z \<Rightarrow> nat"

definition moves :: "'z zview \<Rightarrow> 'z \<Rightarrow> bytes \<Rightarrow> nat \<Rightarrow> nat \<Rightarrow> bytes \<Rightarrow> 'z \<Rightarrow> bool" where
  "moves v z inp cap n out z' \<longleftrightarrow>
     n \<le> length inp \<and> length out \<le> cap \<and> v_in v z' = v_in v z @ take n inp \<and> v_out v z' = v_out v z @ out"

definition starts :: "'z zlib \<Rightarrow> 'z zview \<Rightarrow> bool" where
  "starts lib v \<longleftrightarrow>
     (case zinit lib of (ret, z) \<Rightarrow> ret = Z_OK \<and> v_open v z \<and> v_in v z = [] \<and> v_out v z = [])"

text \<open>
  \<open>deflate\<close> with input and room makes progress; a call that takes no input writes out some of what it holds.
  With \<open>Z_FINISH\<close> and room it comes nearer to the end at every call, and at the end what it wrote is
  a compressed form of what it consumed: \<open>decode\<close> is the format.
\<close>

definition deflater :: "'z zlib \<Rightarrow> (bytes \<Rightarrow> bytes option) \<Rightarrow> 'z zview \<Rightarrow> bool" where
  "deflater lib decode v \<longleftrightarrow> starts lib v
   \<and> (\<forall>z inp cap ret n out z'. v_open v z \<and> inp \<noteq> [] \<and> 0 < cap \<and> zstep lib Z_NO_FLUSH inp cap z = (ret, n, out, z') \<longrightarrow>
        ret = Z_OK \<and> moves v z inp cap n out z' \<and> v_open v z' \<and> (n = 0 \<longrightarrow> v_held v z' < v_held v z))
   \<and> (\<forall>z cap ret n out z'. (v_open v z \<or> v_fin v z) \<and> 0 < cap \<and> zstep lib Z_FINISH [] cap z = (ret, n, out, z') \<longrightarrow>
        moves v z [] cap n out z'
        \<and> (ret = Z_STREAM_END \<and> decode (v_out v z') = Some (v_in v z')
           \<or> ret = Z_OK \<and> v_fin v z' \<and> v_left v z' < v_left v z))"

text \<open>
  \<open>inflate\<close> fed with the beginning of a compressed form makes progress without an error; it answers
  \<open>Z_STREAM_END\<close> when it has consumed all of it, and then it has written all of the data.
  The empty string is not a compressed form.
\<close>

definition inflater :: "'z zlib \<Rightarrow> (bytes \<Rightarrow> bytes option) \<Rightarrow> 'z zview \<Rightarrow> bool" where
  "inflater lib decode v \<longleftrightarrow> starts lib v \<and> decode [] = None
   \<and> (\<forall>z inp rest x cap ret n out z'.
        v_open v z \<and> inp \<noteq> [] \<and> decode (v_in v z @ inp @ rest) = Some x \<and> 0 < cap
        \<and> zstep lib Z_NO_FLUSH inp cap z = (ret, n, out, z') \<longrightarrow>
          (ret = Z_OK \<or> ret = Z_STREAM_END) \<and> moves v z inp cap n out z' \<and> v_open v z'
          \<and> (n = 0 \<longrightarrow> v_held v z' < v_held v z)
          \<and> (v_in v z' = v_in v z @ inp @ rest \<longrightarrow> ret = Z_STREAM_END)
          \<and> (ret = Z_STREAM_END \<longrightarrow> decode (v_in v z') = Some (v_out v z')))
   \<and> (\<forall>z cap ret n out z'. v_open v z \<and> zstep lib Z_FINISH [] cap z = (ret, n, out, z') \<longrightarrow> fst (zend lib z') = Z_OK)"

section \<open>Compression\<close>

text \<open>The collected data is all the library wrote.\<close>

definition in_step :: "'z zview \<Rightarrow> 'z zpriv \<Rightarrow> bool" where
  "in_step v s \<longleftrightarrow> zs_valid s \<and> v_open v (zs_stream s) \<and> m_data s = v_out v (zs_stream s) \<and> 0 < zs_tmp s"

lemma ctor_in_step:
  assumes "starts lib v" and "0 < c"
  shows "in_step v (zpriv_ctor lib c) \<and> v_in v (zs_stream (zpriv_ctor lib c)) = [] \<and> zs_in (zpriv_ctor lib c) = []"
  using assms by (auto simp: starts_def zpriv_ctor_def in_step_def unat_gt_0 word_greater_zero_iff split: prod.splits)

lemma compress_loop_consumes:
  assumes "deflater lib decode v"
  shows "in_step v s \<Longrightarrow>
     \<exists>s'. compress_loop lib s = Some (0, s') \<and> in_step v s' \<and> zs_in s' = []
        \<and> v_in v (zs_stream s') = v_in v (zs_stream s) @ zs_in s"
proof (induction s rule: wf_induct[OF wf_measures[of "[\<lambda>s. length (zs_in s), \<lambda>s. v_held v (zs_stream s)]"]])
  case (1 s)
  show ?case
  proof (cases "zs_in s = []")
    case True
    then show ?thesis using 1 by (subst compress_loop.simps) auto
  next
    case False
    obtain ret n out z where r: "zstep lib Z_NO_FLUSH (zs_in s) (zs_tmp s) (zs_stream s) = (ret, n, out, z)"
      by (cases "zstep lib Z_NO_FLUSH (zs_in s) (zs_tmp s) (zs_stream s)") auto
    then have d: "ret = Z_OK" "moves v (zs_stream s) (zs_in s) (zs_tmp s) n out z" "v_open v z"
      "n = 0 \<longrightarrow> v_held v z < v_held v (zs_stream s)"
      using assms False 1(2) unfolding deflater_def in_step_def by blast+
    let ?s = "append_data out (s\<lparr>zs_stream := z, zs_in := drop n (zs_in s), zs_room := zs_tmp s - length out\<rparr>)"
    have e: "compress_loop lib s = compress_loop lib ?s"
      using False r d(1) by (subst compress_loop.simps) (simp add: call_lib_def)
    have "in_step v ?s" using 1(2) d(2,3) by (simp add: in_step_def append_data_def moves_def)
    moreover have "(?s, s) \<in> measures [\<lambda>s. length (zs_in s), \<lambda>s. v_held v (zs_stream s)]"
      using d(4) False by (cases "n = 0") (simp_all add: append_data_def)
    ultimately obtain s' where "compress_loop lib ?s = Some (0, s')" "in_step v s'" "zs_in s' = []"
      "v_in v (zs_stream s') = v_in v (zs_stream ?s) @ zs_in ?s"
      using 1(1) by blast
    then show ?thesis using e d(2) by (auto simp: append_data_def moves_def)
  qed
qed

lemma compress_spec:
  assumes "deflater lib decode v" and "in_step v s" and "length data < 2 ^ 32"
  shows "\<exists>s'. compress lib data s = Some (0, s') \<and> in_step v s' \<and> zs_in s' = []
     \<and> v_in v (zs_stream s') = v_in v (zs_stream s) @ data"
  using compress_loop_consumes[OF assms(1), of "set_input data s"] assms(2,3)
  by (simp add: compress_def set_input_def in_step_def)

lemma finish_loop_ends:
  assumes "deflater lib decode v"
  shows "zs_in s = [] \<Longrightarrow> 0 < zs_tmp s \<Longrightarrow> v_open v (zs_stream s) \<or> v_fin v (zs_stream s) \<Longrightarrow>
     m_data s = v_out v (zs_stream s) \<Longrightarrow>
     \<exists>s'. finish_loop lib s = Some s' \<and> decode (m_data s') = Some (v_in v (zs_stream s))"
proof (induction "v_left v (zs_stream s)" arbitrary: s rule: less_induct)
  case less
  obtain ret n out z where r: "zstep lib Z_FINISH [] (zs_tmp s) (zs_stream s) = (ret, n, out, z)"
    by (cases "zstep lib Z_FINISH [] (zs_tmp s) (zs_stream s)") auto
  then have d: "moves v (zs_stream s) [] (zs_tmp s) n out z"
    "ret = Z_STREAM_END \<and> decode (v_out v z) = Some (v_in v z)
       \<or> ret = Z_OK \<and> v_fin v z \<and> v_left v z < v_left v (zs_stream s)"
    using assms less.prems(2,3) unfolding deflater_def by blast+
  let ?s = "append_data out (s\<lparr>zs_stream := z, zs_in := [], zs_room := zs_tmp s - length out\<rparr>)"
  have m: "zs_stream ?s = z" "zs_in ?s = []" "0 < zs_tmp ?s" "m_data ?s = v_out v z" "v_in v z = v_in v (zs_stream s)"
    using less.prems d(1) by (simp_all add: append_data_def moves_def)
  show ?case
  proof (cases "ret = Z_STREAM_END")
    case True
    then have "finish_loop lib s = Some ?s"
      using r less.prems(1) by (subst finish_loop.simps) (simp add: call_lib_def)
    then show ?thesis using True d m by (auto simp: zlib_codes)
  next
    case False
    then have "finish_loop lib s = finish_loop lib ?s"
      using r less.prems(1) by (subst finish_loop.simps) (simp add: call_lib_def)
    then show ?thesis using False d(2) less.hyps[of ?s] m by simp
  qed
qed

section \<open>Decompression\<close>

lemma decompress_loop_consumes:
  assumes "inflater lib decode v" and "decode e = Some x"
  shows "in_step v s \<Longrightarrow> v_in v (zs_stream s) @ zs_in s @ rest = e \<Longrightarrow>
     (v_in v (zs_stream s) = e \<longrightarrow> m_data s = x) \<Longrightarrow>
     \<exists>s'. decompress_loop lib s = Some (0, s') \<and> in_step v s' \<and> zs_in s' = []
        \<and> v_in v (zs_stream s') = v_in v (zs_stream s) @ zs_in s \<and> (v_in v (zs_stream s') = e \<longrightarrow> m_data s' = x)"
proof (induction s rule: wf_induct[OF wf_measures[of "[\<lambda>s. length (zs_in s), \<lambda>s. v_held v (zs_stream s)]"]])
  case (1 s)
  show ?case
  proof (cases "zs_in s = []")
    case True
    then show ?thesis using 1 by (subst decompress_loop.simps) auto
  next
    case False
    obtain ret n out z where r: "zstep lib Z_NO_FLUSH (zs_in s) (zs_tmp s) (zs_stream s) = (ret, n, out, z)"
      by (cases "zstep lib Z_NO_FLUSH (zs_in s) (zs_tmp s) (zs_stream s)") auto
    moreover have "decode (v_in v (zs_stream s) @ zs_in s @ rest) = Some x" "v_open v (zs_stream s)" "0 < zs_tmp s"
      using assms(2) 1(2,3) by (simp_all add: in_step_def)
    ultimately have d: "ret = Z_OK \<or> ret = Z_STREAM_END" "moves v (zs_stream s) (zs_in s) (zs_tmp s) n out z" "v_open v z"
      "n = 0 \<longrightarrow> v_held v z < v_held v (zs_stream s)"
      "v_in v z = e \<longrightarrow> ret = Z_STREAM_END" "ret = Z_STREAM_END \<longrightarrow> decode (v_in v z) = Some (v_out v z)"
      using assms(1) False unfolding inflater_def 1(3)[symmetric] by blast+
    let ?s = "append_data out (s\<lparr>zs_stream := z, zs_in := drop n (zs_in s), zs_room := zs_tmp s - length out\<rparr>)"
    have eq: "decompress_loop lib s = decompress_loop lib ?s"
      using False r d(1) by (subst decompress_loop.simps) (auto simp: call_lib_def)
    have s: "in_step v ?s" "v_in v (zs_stream ?s) @ zs_in ?s @ rest = e"
      using 1(2,3) d(2,3) by (auto simp: in_step_def append_data_def moves_def)
    moreover have "v_in v (zs_stream ?s) = e \<longrightarrow> m_data ?s = x"
      using d(5,6) assms(2) s(1) by (auto simp: append_data_def in_step_def)
    moreover have "(?s, s) \<in> measures [\<lambda>s. length (zs_in s), \<lambda>s. v_held v (zs_stream s)]"
      using d(4) False by (cases "n = 0") (simp_all add: append_data_def)
    ultimately obtain s' where "decompress_loop lib ?s = Some (0, s')" "in_step v s'" "zs_in s' = []"
      "v_in v (zs_stream s') = v_in v (zs_stream ?s) @ zs_in ?s" "v_in v (zs_stream s') = e \<longrightarrow> m_data s' = x"
      using 1(1) by blast
    then show ?thesis using eq d(2) by (auto simp: append_data_def moves_def)
  qed
qed

lemma decompress_spec:
  assumes "inflater lib decode v" and "decode e = Some x" and "in_step v s" and "length data < 2 ^ 32"
    and "v_in v (zs_stream s) @ data @ rest = e" and "v_in v (zs_stream s) = e \<longrightarrow> m_data s = x"
  shows "\<exists>s'. decompress lib data s = Some (0, s') \<and> in_step v s' \<and> zs_in s' = []
     \<and> v_in v (zs_stream s') = v_in v (zs_stream s) @ data \<and> (v_in v (zs_stream s') = e \<longrightarrow> m_data s' = x)"
  using decompress_loop_consumes[OF assms(1,2), of "set_input data s" rest] assms(3-6)
  by (simp add: decompress_def set_input_def in_step_def)

section \<open>Whole sessions\<close>

fun feed :: "(bytes \<Rightarrow> 'h \<Rightarrow> (int \<times> 'h) outcome option) \<Rightarrow> bytes list \<Rightarrow> 'h \<Rightarrow> (int list \<times> 'h) outcome option" where
  "feed f [] h = Some (Inr ([], h))"
| "feed f (d # ds) h =
     (case f d h of
        None \<Rightarrow> None
      | Some (Inl e) \<Rightarrow> Some (Inl e)
      | Some (Inr (r, h')) \<Rightarrow> map_option (\<lambda>res. bind_out res (\<lambda>(rs, h''). Inr (r # rs, h''))) (feed f ds h'))"

lemma feed_compress:
  assumes "deflater lib decode v" and "\<forall>d \<in> set ds. length d < 2 ^ 32" and "in_step v s" and "zs_in s = []"
  shows "\<exists>s'. feed (ZStreamCompress_compress lib) ds (Some s) = Some (Inr (replicate (length ds) 0, Some s'))
     \<and> in_step v s' \<and> zs_in s' = [] \<and> v_in v (zs_stream s') = v_in v (zs_stream s) @ concat ds"
  using assms(2-4)
proof (induction ds arbitrary: s)
  case (Cons d ds)
  obtain s1 where s1: "compress lib d s = Some (0, s1)" "in_step v s1" "zs_in s1 = []"
    "v_in v (zs_stream s1) = v_in v (zs_stream s) @ d"
    using compress_spec[OF assms(1) Cons.prems(2), of d] Cons.prems(1) by auto
  show ?case using Cons.IH[OF _ s1(2,3)] Cons.prems(1) s1(1,4) by (auto simp: ZStreamCompress_compress_def)
qed simp

lemma feed_decompress:
  assumes "inflater lib decode v" and "decode e = Some x" and "\<forall>d \<in> set es. length d < 2 ^ 32" and "in_step v s"
    and "v_in v (zs_stream s) @ concat es = e" and "v_in v (zs_stream s) = e \<longrightarrow> m_data s = x"
  shows "\<exists>s'. feed (ZStreamDecompress_decompress lib) es (Some s) = Some (Inr (replicate (length es) 0, Some s'))
     \<and> in_step v s' \<and> m_data s' = x"
  using assms(3-6)
proof (induction es arbitrary: s)
  case (Cons d es)
  obtain s1 where s1: "decompress lib d s = Some (0, s1)" "in_step v s1"
    "v_in v (zs_stream s1) = v_in v (zs_stream s) @ d" "v_in v (zs_stream s1) = e \<longrightarrow> m_data s1 = x"
    using decompress_spec[OF assms(1,2) Cons.prems(2) _ _ Cons.prems(4), of d "concat es"] Cons.prems(1,3)
    by (auto simp del: concat_eq_Nil_conv)
  show ?case using Cons.IH[OF _ s1(2) _ s1(4)] Cons.prems(1,3) s1(1,3) by (auto simp: ZStreamDecompress_decompress_def)
qed simp

lemma compress_session:
  assumes "deflater zd decode vd" and "0 < c" and "\<forall>d \<in> set ds. length d < 2 ^ 32"
  shows "\<exists>h e h'. feed (ZStreamCompress_compress zd) ds (ZStreamCompress_ctor zd c) = Some (Inr (replicate (length ds) 0, h))
     \<and> ZStreamCompress_finished zd h = Some (Inr (e, h')) \<and> decode e = Some (concat ds) \<and> \<not> ZStreamCompress_isValid h'"
proof -
  have "starts zd vd" using assms(1) by (simp add: deflater_def)
  then obtain s where s: "feed (ZStreamCompress_compress zd) ds (ZStreamCompress_ctor zd c)
      = Some (Inr (replicate (length ds) 0, Some s))" "in_step vd s" "zs_in s = []" "v_in vd (zs_stream s) = concat ds"
    using feed_compress[OF assms(1,3), of "zpriv_ctor zd c"] ctor_in_step[OF _ assms(2), of zd vd]
    by (auto simp: ZStreamCompress_ctor_def)
  then obtain s' where "finish_loop zd s = Some s'" "decode (m_data s') = Some (concat ds)"
    using finish_loop_ends[OF assms(1), of s] by (auto simp: in_step_def)
  then show ?thesis
    using s(1,2) by (simp add: ZStreamCompress_finished_def compress_finished_def in_step_def ZStreamCompress_isValid_def)
qed

lemma decompress_session:
  assumes "inflater zi decode vi" and "0 < c" and "\<forall>d \<in> set es. length d < 2 ^ 32" and "decode (concat es) = Some x"
  shows "\<exists>k k'. feed (ZStreamDecompress_decompress zi) es (ZStreamDecompress_ctor zi c) = Some (Inr (replicate (length es) 0, k))
     \<and> ZStreamDecompress_finished zi k = Inr (x, k')"
proof -
  have i: "starts zi vi" "concat es \<noteq> []"
    using assms(1,4) unfolding inflater_def by (blast, metis option.distinct(1))
  then obtain s where s: "feed (ZStreamDecompress_decompress zi) es (ZStreamDecompress_ctor zi c)
      = Some (Inr (replicate (length es) 0, Some s))" "in_step vi s" "m_data s = x"
    using feed_decompress[OF assms(1,4,3), of "zpriv_ctor zi c"] ctor_in_step[OF _ assms(2), of zi vi]
    by (auto simp: ZStreamDecompress_ctor_def)
  obtain ret n out z where z: "zstep zi Z_FINISH [] (zs_room s) (zs_stream s) = (ret, n, out, z)"
    by (cases "zstep zi Z_FINISH [] (zs_room s) (zs_stream s)") auto
  then have "fst (zend zi z) = Z_OK" using assms(1) s(2) unfolding inflater_def in_step_def by blast
  then show ?thesis
    using s z by (auto simp: ZStreamDecompress_finished_def decompress_finished_def in_step_def Z_OK_def split: prod.splits)
qed

text \<open>
  Property C16. Compression and decompression are inverse through the chunked loops. For every
  \<open>zlib\<close> that keeps its contract, all chunk sizes but 0 and every way of cutting the data into pieces below
  4 GiB: each \<open>compress\<close> returns 0, \<open>finished\<close> returns, and its result, fed in any pieces whatever to
  a \<open>ZStreamDecompress\<close>, is accepted with 0 throughout and gives the data back.
\<close>

theorem ZStream_roundtrip:
  assumes "deflater zd decode vd" and "inflater zi decode vi" and "0 < c1" and "0 < c2"
    and "\<forall>d \<in> set ds. length d < 2 ^ 32"
  shows "\<exists>h e h'. feed (ZStreamCompress_compress zd) ds (ZStreamCompress_ctor zd c1) = Some (Inr (replicate (length ds) 0, h))
     \<and> ZStreamCompress_finished zd h = Some (Inr (e, h'))
     \<and> (\<forall>es. concat es = e \<and> (\<forall>d \<in> set es. length d < 2 ^ 32) \<longrightarrow>
          (\<exists>k k'. feed (ZStreamDecompress_decompress zi) es (ZStreamDecompress_ctor zi c2) = Some (Inr (replicate (length es) 0, k))
             \<and> ZStreamDecompress_finished zi k = Inr (concat ds, k')))"
proof -
  obtain h e h' where e: "feed (ZStreamCompress_compress zd) ds (ZStreamCompress_ctor zd c1) = Some (Inr (replicate (length ds) 0, h))"
     "ZStreamCompress_finished zd h = Some (Inr (e, h'))" "decode e = Some (concat ds)"
    using compress_session[OF assms(1,3,5)] by (elim exE conjE) (rule that; assumption)
  show ?thesis
    using e(3) decompress_session[OF assms(2,4)] by (intro exI[of _ h] exI[of _ e] exI[of _ h'] conjI e(1,2) allI impI) simp
qed

section \<open>A small codec\<close>

text \<open>
  A concrete format that keeps the contract: every byte is preceded by \<open>+\<close> and the end is marked by a
  dot. The deflater takes a byte when it holds nothing back; the inflater takes a byte per call.
\<close>

datatype demo_phase = Plain | Marked | Ended | Wrong

fun demo_next :: "demo_phase \<times> bytes \<Rightarrow> char \<Rightarrow> demo_phase \<times> bytes" where
  "demo_next (Plain, out) c = (if c = CHR ''+'' then Marked else if c = CHR ''.'' then Ended else Wrong, out)"
| "demo_next (Marked, out) c = (Plain, out @ [c])"
| "demo_next (_, out) c = (Wrong, out)"

definition demo_read :: "bytes \<Rightarrow> demo_phase \<times> bytes" where
  "demo_read bs = foldl demo_next (Plain, []) bs"

definition demo_decode :: "bytes \<Rightarrow> bytes option" where
  "demo_decode bs = (if fst (demo_read bs) = Ended then Some (snd (demo_read bs)) else None)"

definition demo_inflate :: "bytes zlib" where
  "demo_inflate =
     \<lparr>zinit = (0, []),
      zstep = (\<lambda>fl inp cap z. case inp of
          [] \<Rightarrow> (Z_BUF_ERROR, 0, [], z)
        | c # _ \<Rightarrow>
            if fst (demo_read z) = Ended then (Z_STREAM_END, 0, [], z)
            else (if fst (demo_read (z @ [c])) = Ended then Z_STREAM_END else Z_OK, 1,
                  drop (length (snd (demo_read z))) (snd (demo_read (z @ [c]))), z @ [c])),
      zend = (\<lambda>z. (0, z))\<rparr>"

definition demo_inflate_view :: "bytes zview" where
  "demo_inflate_view =
     \<lparr>v_in = (\<lambda>z. z), v_out = (\<lambda>z. snd (demo_read z)), v_open = (\<lambda>_. True), v_fin = (\<lambda>_. False),
      v_held = (\<lambda>_. 0), v_left = (\<lambda>_. 0)\<rparr>"

definition demo_deflate :: "(bytes \<times> bytes \<times> bytes) zlib" where
  "demo_deflate =
     \<lparr>zinit = (0, [], [], []),
      zstep = (\<lambda>fl inp cap (i, w, held). case fl of
          Z_NO_FLUSH \<Rightarrow>
            if held \<noteq> [] then (Z_OK, 0, take cap held, i, w @ take cap held, drop cap held)
            else (Z_OK, 1, [], i @ take 1 inp, w, CHR ''+'' # take 1 inp)
        | Z_FINISH \<Rightarrow>
            if held \<noteq> [] then (Z_OK, 0, take cap held, i, w @ take cap held, drop cap held)
            else (Z_STREAM_END, 0, ''.'', i, w @ ''.'', [])),
      zend = (\<lambda>z. (0, z))\<rparr>"

definition demo_deflate_view :: "(bytes \<times> bytes \<times> bytes) zview" where
  "demo_deflate_view =
     \<lparr>v_in = (\<lambda>(i, w, held). i), v_out = (\<lambda>(i, w, held). w),
      v_open = (\<lambda>(i, w, held). w @ held = concat (map (\<lambda>c. [CHR ''+'', c]) i)),
      v_fin = (\<lambda>(i, w, held). w @ held = concat (map (\<lambda>c. [CHR ''+'', c]) i)),
      v_held = (\<lambda>(i, w, held). length held), v_left = (\<lambda>(i, w, held). length held)\<rparr>"

lemma demo_read_append: "demo_read (bs @ cs) = foldl demo_next (demo_read bs) cs"
  by (simp add: demo_read_def)

lemma demo_read_marks: "demo_read (concat (map (\<lambda>c. [CHR ''+'', c]) x)) = (Plain, x)"
  by (induction x rule: rev_induct) (simp_all add: demo_read_append, simp add: demo_read_def)

lemma demo_read_sticks: "fst p = Ended \<or> fst p = Wrong \<Longrightarrow> cs \<noteq> [] \<Longrightarrow> fst (foldl demo_next p cs) = Wrong"
proof (induction cs arbitrary: p)
  case (Cons c cs)
  have "fst (demo_next p c) = Wrong" using Cons.prems(1) by (cases p; cases "fst p") auto
  then show ?case using Cons.IH[of "demo_next p c"] by (cases "cs = []") simp_all
qed simp

lemma demo_read_grows: "\<exists>out. snd (demo_next p c) = snd p @ out \<and> length out \<le> 1"
  by (cases p; cases "fst p") auto

lemma demo_deflater: "deflater demo_deflate demo_decode demo_deflate_view"
proof -
  let ?m = "\<lambda>i. concat (map (\<lambda>c. [CHR ''+'', c]) i)"
  have r: "demo_decode (w @ ''.'') = Some i" if "w = ?m i" for w i
    using demo_read_marks[of i] that by (simp add: demo_decode_def demo_read_append)
  have "w @ take cap held @ drop cap held = w @ held" for w held :: bytes and cap by simp
  then have n: "ret = Z_OK \<and> moves demo_deflate_view z inp cap n out z' \<and> v_open demo_deflate_view z'
        \<and> (n = 0 \<longrightarrow> v_held demo_deflate_view z' < v_held demo_deflate_view z)"
    if "v_open demo_deflate_view z" "inp \<noteq> []" "0 < cap" "zstep demo_deflate Z_NO_FLUSH inp cap z = (ret, n, out, z')"
    for z inp cap ret n out z'
    using that
    by (cases z; cases inp) (auto simp: moves_def demo_deflate_def demo_deflate_view_def split: if_splits)
  have f: "moves demo_deflate_view z [] cap n out z'
        \<and> (ret = Z_STREAM_END \<and> demo_decode (v_out demo_deflate_view z') = Some (v_in demo_deflate_view z')
           \<or> ret = Z_OK \<and> v_fin demo_deflate_view z' \<and> v_left demo_deflate_view z' < v_left demo_deflate_view z)"
    if "v_open demo_deflate_view z \<or> v_fin demo_deflate_view z" "0 < cap" "zstep demo_deflate Z_FINISH [] cap z = (ret, n, out, z')"
    for z cap ret n out z'
    using that r
    by (cases z) (auto simp: moves_def demo_deflate_def demo_deflate_view_def split: if_splits)
  have "starts demo_deflate demo_deflate_view"
    by (simp add: starts_def demo_deflate_def demo_deflate_view_def Z_OK_def)
  then show ?thesis unfolding deflater_def using n f by blast
qed

lemma demo_inflater_step:
  assumes "demo_decode (z @ (c # inp) @ rest) = Some x"
  shows "fst (demo_read z) \<noteq> Ended" and "z @ [c] = z @ (c # inp) @ rest \<Longrightarrow> fst (demo_read (z @ [c])) = Ended"
  using demo_read_sticks[of "demo_read z" "(c # inp) @ rest"] assms
  by (auto simp: demo_decode_def demo_read_append split: if_splits)

lemma demo_inflater: "inflater demo_inflate demo_decode demo_inflate_view"
proof -
  have o: "length (drop (length (snd (demo_read z))) (snd (demo_read (z @ [c])))) \<le> 1"
    "snd (demo_read (z @ [c])) = snd (demo_read z) @ drop (length (snd (demo_read z))) (snd (demo_read (z @ [c])))" for z c
    using demo_read_grows[of "demo_read z" c] by (auto simp: demo_read_append)
  have n: "(ret = Z_OK \<or> ret = Z_STREAM_END) \<and> moves demo_inflate_view z inp cap n out z' \<and> v_open demo_inflate_view z'
        \<and> (n = 0 \<longrightarrow> v_held demo_inflate_view z' < v_held demo_inflate_view z)
        \<and> (v_in demo_inflate_view z' = v_in demo_inflate_view z @ inp @ rest \<longrightarrow> ret = Z_STREAM_END)
        \<and> (ret = Z_STREAM_END \<longrightarrow> demo_decode (v_in demo_inflate_view z') = Some (v_out demo_inflate_view z'))"
    if a: "inp \<noteq> []" "demo_decode (v_in demo_inflate_view z @ inp @ rest) = Some x" "0 < cap"
      "zstep demo_inflate Z_NO_FLUSH inp cap z = (ret, n, out, z')"
    for z inp rest x cap ret n out z'
  proof -
    obtain c cs where inp: "inp = c # cs" using a(1) by (cases inp) auto
    have d: "demo_decode (z @ (c # cs) @ rest) = Some x" using a(2) by (simp add: demo_inflate_view_def inp)
    have r: "ret = (if fst (demo_read (z @ [c])) = Ended then Z_STREAM_END else Z_OK)" "n = 1" "z' = z @ [c]"
      "out = drop (length (snd (demo_read z))) (snd (demo_read (z @ [c])))"
      using a(4) demo_inflater_step(1)[OF d] by (auto simp: demo_inflate_def inp)
    have "length out \<le> 1" using o(1)[of z c] by (simp only: r(4))
    then have "length out \<le> cap" using a(3) by simp
    then show ?thesis
      using demo_inflater_step(2)[OF d] o(2)[of z c] r
      by (auto simp: moves_def demo_inflate_view_def inp demo_decode_def zlib_codes)
  qed
  have "starts demo_inflate demo_inflate_view" "demo_decode [] = None"
    by (simp_all add: starts_def demo_inflate_def demo_inflate_view_def Z_OK_def demo_read_def demo_decode_def)
  moreover have "fst (zend demo_inflate z) = Z_OK" for z by (simp add: demo_inflate_def Z_OK_def)
  ultimately show ?thesis unfolding inflater_def using n by blast
qed

theorem ZStream_roundtrip_witness:
  "\<exists>h e h' k k'. feed (ZStreamCompress_compress demo_deflate) [''an'', [], ''dren''] (ZStreamCompress_ctor demo_deflate 1)
       = Some (Inr ([0, 0, 0], h))
     \<and> ZStreamCompress_finished demo_deflate h = Some (Inr (e, h'))
     \<and> feed (ZStreamDecompress_decompress demo_inflate) (map (\<lambda>c. [c]) e) (ZStreamDecompress_ctor demo_inflate 4)
         = Some (Inr (replicate (length e) 0, k))
     \<and> ZStreamDecompress_finished demo_inflate k = Inr (''andren'', k')"
proof -
  have d: "\<forall>d \<in> set [''an'', [], ''dren'']. length d < 2 ^ 32" "(0 :: u32) < 1" "(0 :: u32) < 4" by simp_all
  obtain h e h' where e: "feed (ZStreamCompress_compress demo_deflate) [''an'', [], ''dren''] (ZStreamCompress_ctor demo_deflate 1)
       = Some (Inr (replicate (length [''an'', [], ''dren'']) 0, h))"
    "ZStreamCompress_finished demo_deflate h = Some (Inr (e, h'))"
    "\<forall>es. concat es = e \<and> (\<forall>d \<in> set es. length d < 2 ^ 32) \<longrightarrow>
        (\<exists>k k'. feed (ZStreamDecompress_decompress demo_inflate) es (ZStreamDecompress_ctor demo_inflate 4) = Some (Inr (replicate (length es) 0, k))
           \<and> ZStreamDecompress_finished demo_inflate k = Inr (concat [''an'', [], ''dren''], k'))"
    using ZStream_roundtrip[OF demo_deflater demo_inflater d(2,3,1)] by (elim exE conjE) (rule that; assumption)
  have "concat (map (\<lambda>c. [c]) e) = e" by (induction e) simp_all
  then obtain k k' where
    "feed (ZStreamDecompress_decompress demo_inflate) (map (\<lambda>c. [c]) e) (ZStreamDecompress_ctor demo_inflate 4)
       = Some (Inr (replicate (length (map (\<lambda>c. [c]) e)) 0, k))"
    "ZStreamDecompress_finished demo_inflate k = Inr (concat [''an'', [], ''dren''], k')"
    using e(3)[rule_format, of "map (\<lambda>c. [c]) e"] by auto
  then show ?thesis
    using e(1,2)
    by (intro exI[of _ h] exI[of _ e] exI[of _ h'] exI[of _ k] exI[of _ k'] conjI) (simp_all add: numeral_3_eq_3)
qed

section \<open>Where the loops do not end\<close>

lemma decompress_loop_returns:
  "decompress_loop lib s = Some y \<Longrightarrow>
     (\<forall>inp cap. inp \<noteq> [] \<longrightarrow> zstep lib Z_NO_FLUSH inp cap z = (Z_STREAM_END, 0, [], z)) \<longrightarrow> zs_stream s = z \<longrightarrow> zs_in s = []"
proof (rule decompress_loop.raw_induct[of "\<lambda>lib s y. (\<forall>inp cap. inp \<noteq> [] \<longrightarrow> zstep lib Z_NO_FLUSH inp cap z = (Z_STREAM_END, 0, [], z)) \<longrightarrow>
        zs_stream s = z \<longrightarrow> zs_in s = []"], goal_cases)
  case (1 f lib s y)
  show ?case
    using 1(3) 1(2)[of lib "append_data [] (s\<lparr>zs_stream := z, zs_in := zs_in s, zs_room := zs_tmp s\<rparr>)"]
    by (cases y) (auto simp: call_lib_def append_data_def split: if_splits)
qed

lemma finish_loop_returns:
  "finish_loop lib s = Some y \<Longrightarrow>
     (\<forall>inp z. zstep lib Z_FINISH inp 0 z = (Z_BUF_ERROR, 0, [], z)) \<longrightarrow> zs_tmp s \<noteq> 0"
proof (rule finish_loop.raw_induct[of "\<lambda>lib s y. (\<forall>inp z. zstep lib Z_FINISH inp 0 z = (Z_BUF_ERROR, 0, [], z)) \<longrightarrow> zs_tmp s \<noteq> 0"],
    goal_cases)
  case (1 f lib s y)
  show ?case
  proof (intro impI notI)
    assume "\<forall>inp z. zstep lib Z_FINISH inp 0 z = (Z_BUF_ERROR, 0, [], z)" and "zs_tmp s = 0"
    then show False
      using 1(3) 1(2)[of lib "append_data [] (s\<lparr>zs_stream := zs_stream s, zs_in := zs_in s, zs_room := 0\<rparr>)"]
      by (auto simp: call_lib_def append_data_def zlib_codes)
  qed
qed

text \<open>
  Property C39. Inputs that keep the streams from returning. Once the compressed form has ended, where
  \<open>inflate\<close> answers \<open>Z_STREAM_END\<close> without consuming anything, every further non-empty \<open>decompress\<close> runs for ever.
  With chunk size 0, where \<open>deflate\<close> has no room and answers \<open>Z_BUF_ERROR\<close>, \<open>finished\<close> and with it the
  destructor and a move assignment run for ever. After \<open>finished\<close>, \<open>compress\<close> answers -1 but \<open>decompress\<close>
  of non-empty data still calls the library; and a moved-from object dereferences null.
\<close>

theorem ZStream_hangs:
  "((\<forall>inp cap. inp \<noteq> [] \<longrightarrow> zstep lib Z_NO_FLUSH inp cap (zs_stream s) = (Z_STREAM_END, 0, [], zs_stream s)) \<and> data \<noteq> [] \<and> length data < 2 ^ 32
      \<longrightarrow> ZStreamDecompress_decompress lib data (Some s) = None)
   \<and> ((\<forall>inp z. zstep lib Z_FINISH inp 0 z = (Z_BUF_ERROR, 0, [], z)) \<and> fst (zinit lib) = Z_OK
      \<longrightarrow> ZStreamCompress_finished lib (ZStreamCompress_ctor lib 0) = None
        \<and> ZStreamCompress_dtor lib (ZStreamCompress_ctor lib 0) = None
        \<and> ZStreamCompress_move_assign lib (ZStreamCompress_ctor lib 0) other = None)
   \<and> (\<not> zs_valid s \<longrightarrow> compress lib data s = Some (-1, s)
        \<and> (data \<noteq> [] \<longrightarrow> decompress lib data s = decompress_loop lib (set_input data s)))
   \<and> ZStreamCompress_finished lib (snd (ZStreamCompress_move_ctor other)) = Some (Inl Null_Deref)
   \<and> ZStreamCompress_compress lib data (snd (ZStreamCompress_move_ctor other)) = Some (Inl Null_Deref)"
proof -
  have "decompress_loop lib (set_input data s) = None"
    if "\<forall>inp cap. inp \<noteq> [] \<longrightarrow> zstep lib Z_NO_FLUSH inp cap (zs_stream s) = (Z_STREAM_END, 0, [], zs_stream s)" "data \<noteq> []" "length data < 2 ^ 32"
    using decompress_loop_returns[of lib "set_input data s" _ "zs_stream s"] that
    by (cases "decompress_loop lib (set_input data s)") (auto simp: set_input_def)
  moreover have "finish_loop lib (zpriv_ctor lib 0) = None" if "\<forall>inp z. zstep lib Z_FINISH inp 0 z = (Z_BUF_ERROR, 0, [], z)"
    using finish_loop_returns[of lib "zpriv_ctor lib 0"] that
    by (cases "finish_loop lib (zpriv_ctor lib 0)") (auto simp: zpriv_ctor_def split: prod.splits)
  moreover have "fst (zinit lib) = Z_OK \<Longrightarrow> zs_valid (zpriv_ctor lib 0)" by (auto simp: zpriv_ctor_def split: prod.splits)
  ultimately show ?thesis
    by (auto simp: ZStreamDecompress_decompress_def decompress_def ZStreamCompress_finished_def ZStreamCompress_ctor_def
        compress_finished_def ZStreamCompress_dtor_def ZStreamCompress_move_assign_def compress_def
        ZStreamCompress_move_ctor_def ZStreamCompress_compress_def)
qed

theorem ZStream_hangs_witness:
  "ZStreamDecompress_decompress demo_inflate ''x'' (Some \<lparr>zs_stream = ''.'', zs_in = [], zs_room = 4, m_data = [], zs_tmp = 4, zs_valid = True\<rparr>)
     = None"
proof -
  have "zstep demo_inflate Z_NO_FLUSH inp cap ''.'' = (Z_STREAM_END, 0, [], ''.'')" if "inp \<noteq> []" for inp cap
    using that by (cases inp) (simp_all add: demo_inflate_def demo_read_def)
  then show ?thesis
    using ZStream_hangs[of demo_inflate "\<lparr>zs_stream = ''.'', zs_in = [], zs_room = 4, m_data = [], zs_tmp = 4, zs_valid = True\<rparr>" "''x''"]
    by simp
qed

end
