(* ===== verification/Archive_Box.thy ===== *)
theory Archive_Box
  imports File_Model
begin

text \<open>
  \<open>Archive\<close> (\<open>zlibstream.hh\<close>, \<open>zlibstream.cpp\<close>): 7-zip archives through libarchive. The answers of
  libarchive and of the system calls are arguments; the calls made are recorded in order.
\<close>

section \<open>The object\<close>

datatype ArchiveType = COMPRESS | DECOMPRESS

record Archive =
  ar_type :: ArchiveType
  ar_filePath :: string
  ar_buffer :: nat

datatype archive_call =
    Write_Open string
  | Write_Close
  | Write_Header string int
  | Write_Data bytes
  | Read_Open string nat
  | Read_Close
  | Make_Dir string
  | Open_File string
  | File_Write int nat bytes
  | File_Close int

definition Archive_ctor :: "ArchiveType \<Rightarrow> string \<Rightarrow> u32 \<Rightarrow> Archive \<times> archive_call list" where
  "Archive_ctor type filePath bufferSize =
     (\<lparr>ar_type = type, ar_filePath = filePath, ar_buffer = unat bufferSize\<rparr>,
      case type of COMPRESS \<Rightarrow> [Write_Open filePath] | DECOMPRESS \<Rightarrow> [Read_Open filePath (unat bufferSize)])"

definition Archive_dtor :: "Archive \<Rightarrow> archive_call list" where
  "Archive_dtor a = (case ar_type a of COMPRESS \<Rightarrow> [Write_Close] | DECOMPRESS \<Rightarrow> [Read_Close])"

section \<open>Adding a file\<close>

text \<open>
  \<open>rd i\<close> is the answer of the \<open>i\<close>-th \<open>read\<close> and the bytes it put into the buffer; the loop ends at the
  first answer that is not positive.
\<close>

partial_function (option) pack_loop :: "(nat \<Rightarrow> int \<times> bytes) \<Rightarrow> nat \<Rightarrow> archive_call list \<Rightarrow> archive_call list option" where
  "pack_loop rd i acc =
     (case rd i of (r, bs) \<Rightarrow> if r > 0 then pack_loop rd (Suc i) (acc @ [Write_Data (take (nat r) bs)]) else Some acc)"

text \<open>\<open>st\<close> is the size reported by \<open>stat\<close>, if it succeeds; \<open>rd\<close> depends on the descriptor and the buffer size.\<close>

definition Archive_compress ::
  "int option \<Rightarrow> int \<Rightarrow> (int \<Rightarrow> nat \<Rightarrow> nat \<Rightarrow> int \<times> bytes) \<Rightarrow> string \<Rightarrow> Archive \<Rightarrow> (int \<times> archive_call list) option" where
  "Archive_compress st open_ret rd filePath a =
     (if ar_type a \<noteq> COMPRESS then Some (-1, [])
      else case st of
        None \<Rightarrow> Some (-2, [])
      | Some st_size \<Rightarrow>
          let (_, file) = File_open open_ret File_ctor in
          (case pack_loop (rd (u_fd file) (ar_buffer a)) 0 [] of
             None \<Rightarrow> None
           | Some calls \<Rightarrow>
               Some (0, Write_Header filePath st_size # Open_File filePath # calls @ map File_Close (File_dtor file))))"

section \<open>Unpacking\<close>

record ar_entry =
  ae_pathname :: string
  ae_size :: int
  ae_read :: "nat \<Rightarrow> int \<times> bytes"

text \<open>The answer of \<open>archive_read_data\<close> is kept in a \<open>size_t\<close>: an error is a huge size.\<close>

partial_function (option) unpack_loop ::
  "int \<Rightarrow> (nat \<Rightarrow> int \<times> bytes) \<Rightarrow> nat \<Rightarrow> archive_call list \<Rightarrow> archive_call list option" where
  "unpack_loop f rd i acc =
     (case rd i of (r, bs) \<Rightarrow>
        let bytesRead = word_of_int r :: u64 in
        if bytesRead > 0 then unpack_loop f rd (Suc i) (acc @ [File_Write f (unat bytesRead) bs]) else Some acc)"

definition target_dir :: "string \<Rightarrow> string" where
  "target_dir t =
     (let d = (if length t = 0 then ''./'' else t)
      in if d ! (length d - 1) \<noteq> CHR ''/'' then d @ ''/'' else d)"

definition Archive_createDirectories :: "(string \<Rightarrow> int) \<Rightarrow> string \<Rightarrow> int \<times> string list" where
  "Archive_createDirectories mk path = File_createDirectories mk True path"

text \<open>
  The loop over the entries: \<open>mk\<close> answers \<open>mkdir\<close>, \<open>op\<close> answers \<open>open\<close>. The result is the code, the list of
  files and the calls made.
\<close>

fun unpack_entries ::
  "(string \<Rightarrow> int) \<Rightarrow> (string \<Rightarrow> int) \<Rightarrow> string \<Rightarrow> ar_entry list \<Rightarrow> string list \<Rightarrow> archive_call list
     \<Rightarrow> (int \<times> string list \<times> archive_call list) option" where
  "unpack_entries mk op targetDir [] outList calls = Some (0, outList, calls)"
| "unpack_entries mk op targetDir (entry # es) outList calls =
     (if ae_size entry > 0
      then let entryPath = targetDir @ ae_pathname entry;
               (ret, dirs) = Archive_createDirectories mk entryPath;
               calls1 = calls @ map Make_Dir dirs
           in if ret \<noteq> 0 then Some (-2, outList, calls1)
              else let (_, file) = File_open (op entryPath) File_ctor;
                       calls2 = calls1 @ [Open_File entryPath]
                   in if u_fd file \<le> 0 then Some (-3, outList, calls2 @ map File_Close (File_dtor file))
                      else case unpack_loop (u_fd file) (ae_read entry) 0 [] of
                             None \<Rightarrow> None
                           | Some ws \<Rightarrow> unpack_entries mk op targetDir es (outList @ [entryPath])
                               (calls2 @ ws @ map File_Close (File_dtor file))
      else unpack_entries mk op targetDir es outList calls)"

definition Archive_decompress ::
  "(string \<Rightarrow> int) \<Rightarrow> (string \<Rightarrow> int) \<Rightarrow> ar_entry list \<Rightarrow> string \<Rightarrow> string list \<Rightarrow> Archive
     \<Rightarrow> (int \<times> string list \<times> archive_call list) option" where
  "Archive_decompress mk op entries targetDir outList a =
     (if ar_type a \<noteq> DECOMPRESS then Some (-1, outList, [])
      else unpack_entries mk op (target_dir targetDir) entries outList [])"

section \<open>Loops\<close>

definition answers :: "(nat \<Rightarrow> int \<times> bytes) \<Rightarrow> nat \<Rightarrow> bytes list \<Rightarrow> int \<Rightarrow> bool" where
  "answers rd i bss r \<longleftrightarrow>
     (\<forall>k < length bss. rd (i + k) = (int (length (bss ! k)), bss ! k) \<and> bss ! k \<noteq> [] \<and> length (bss ! k) < 2 ^ 63)
     \<and> fst (rd (i + length bss)) = r"

lemma answers_Cons:
  "answers rd i (b # bss) r \<longleftrightarrow>
     rd i = (int (length b), b) \<and> b \<noteq> [] \<and> length b < 2 ^ 63 \<and> answers rd (Suc i) bss r"
  by (auto simp: answers_def All_less_Suc2)

lemma pack_loop_answers:
  assumes "answers rd i bss r" and "r \<le> 0"
  shows "pack_loop rd i acc = Some (acc @ map Write_Data bss)"
  using assms(1)
proof (induction bss arbitrary: i acc)
  case Nil
  then show ?case using assms(2) by (subst pack_loop.simps) (auto simp: answers_def split: prod.splits)
next
  case (Cons b bss)
  then show ?case by (subst pack_loop.simps) (auto simp: answers_Cons)
qed

lemma word_of_length:
  assumes "n < 2 ^ 63"
  shows "unat (word_of_int (int n) :: u64) = n" and "0 < n \<Longrightarrow> (word_of_int (int n) :: u64) > 0"
proof -
  have "unat (of_nat n :: u64) = n" using assms by (simp add: unsigned_of_nat take_bit_nat_eq_self)
  then show u: "unat (word_of_int (int n) :: u64) = n" by simp
  show "(word_of_int (int n) :: u64) > 0" if "0 < n" using u that by (metis unat_gt_0 word_neq_0_conv neq0_conv)
qed

lemma unpack_loop_answers:
  assumes "answers rd i bss 0"
  shows "unpack_loop f rd i acc = Some (acc @ map (\<lambda>b. File_Write f (length b) b) bss)"
  using assms
proof (induction bss arbitrary: i acc)
  case Nil
  then show ?case by (subst unpack_loop.simps) (auto simp: answers_def split: prod.splits)
next
  case (Cons b bss)
  then have b: "rd i = (int (length b), b)" "b \<noteq> []" "length b < 2 ^ 63" "answers rd (Suc i) bss 0" by (simp_all add: answers_Cons)
  then show ?case using Cons.IH[OF b(4)] word_of_length[OF b(3)] by (subst unpack_loop.simps) simp
qed

lemma unpack_loop_returns:
  "unpack_loop f rd i acc = Some y \<Longrightarrow> \<exists>j \<ge> i. (word_of_int (fst (rd j)) :: u64) = 0"
proof (rule unpack_loop.raw_induct[of "\<lambda>f rd i acc y. \<exists>j \<ge> i. (word_of_int (fst (rd j)) :: u64) = 0"], goal_cases)
  case (1 g f rd i acc y)
  show ?case
  proof (cases "(word_of_int (fst (rd i)) :: u64) = 0")
    case False
    then obtain j where "j \<ge> Suc i" "(word_of_int (fst (rd j)) :: u64) = 0"
      using 1(3) 1(2)[of f rd "Suc i"] by (auto simp: Let_def word_neq_0_conv split: prod.splits if_splits)
    then show ?thesis by (intro exI[of _ j]) simp
  qed auto
qed

section \<open>Properties\<close>

text \<open>What unpacking one entry does when nothing fails: its directories, the file, its data, the end.\<close>

definition unpack_calls :: "(string \<Rightarrow> int) \<Rightarrow> string \<Rightarrow> ar_entry \<times> bytes list \<Rightarrow> archive_call list" where
  "unpack_calls op dir eb =
     (let path = dir @ ae_pathname (fst eb)
      in map Make_Dir (parents_from 1 path) @ [Open_File path]
         @ map (\<lambda>b. File_Write (op path) (length b) b) (snd eb) @ [File_Close (op path)])"

lemma createDirectories_ignores: "Archive_createDirectories mk path = (0, parents_from 1 path)"
  using create_loop_ok[of True 0 path mk] by (simp add: Archive_createDirectories_def File_createDirectories_def)

lemma unpack_entries_ok:
  assumes "\<forall>(e, bss) \<in> set ebs. ae_size e > 0 \<longrightarrow> answers (ae_read e) 0 bss 0 \<and> 0 < op (dir @ ae_pathname e)"
  shows "unpack_entries mk op dir (map fst ebs) outs calls =
     Some (0, outs @ map (\<lambda>(e, _). dir @ ae_pathname e) (filter (\<lambda>(e, _). ae_size e > 0) ebs),
           calls @ concat (map (unpack_calls op dir) (filter (\<lambda>(e, _). ae_size e > 0) ebs)))"
  using assms
proof (induction ebs arbitrary: outs calls)
  case (Cons eb ebs)
  obtain e bss where eb: "eb = (e, bss)" by (cases eb)
  show ?case
  proof (cases "ae_size e > 0")
    case True
    then have "answers (ae_read e) 0 bss 0" "0 < op (dir @ ae_pathname e)" using Cons.prems eb by auto
    then show ?thesis
      using True Cons.IH Cons.prems
      by (simp add: eb createDirectories_ignores File_defs unpack_loop_answers unpack_calls_def Let_def)
  qed (use Cons eb in simp)
qed simp

lemma unpack_entries_code: "unpack_entries mk op dir es outs calls = Some (r, x) \<Longrightarrow> r = 0 \<or> r = -3"
proof (induction es arbitrary: outs calls)
  case (Cons e es)
  then show ?case
    by (auto simp: createDirectories_ignores Let_def split: if_splits option.splits prod.splits)
qed simp

text \<open>
  Unpacking an archive whose data can be read and whose files can be opened returns 0,
  and for every entry with data, in order and for whatever path the entry names, creates the parent
  directories below the target, opens the file, writes exactly the entry's data in the pieces
  libarchive delivers and closes it; the names are added to the list. Entries without data are left
  out. The failure code -2 for directories is never returned.
\<close>

theorem Archive_decompress_spec:
  assumes "ar_type a = DECOMPRESS"
    and "\<forall>(e, bss) \<in> set ebs. ae_size e > 0 \<longrightarrow> answers (ae_read e) 0 bss 0 \<and> 0 < op (target_dir dir @ ae_pathname e)"
  shows "Archive_decompress mk op (map fst ebs) dir outs a =
     Some (0, outs @ map (\<lambda>(e, _). target_dir dir @ ae_pathname e) (filter (\<lambda>(e, _). ae_size e > 0) ebs),
           concat (map (unpack_calls op (target_dir dir)) (filter (\<lambda>(e, _). ae_size e > 0) ebs)))
     \<and> (\<forall>mk' op' es r x. Archive_decompress mk' op' es dir outs a = Some (r, x) \<longrightarrow> r = 0 \<or> r = -3)"
  using unpack_entries_ok[OF assms(2)] assms(1) unpack_entries_code by (auto simp: Archive_decompress_def)

theorem Archive_decompress_spec_witness:
  "Archive_decompress (\<lambda>_. 0) (\<lambda>_. 5)
      [\<lparr>ae_pathname = ''../d/f'', ae_size = 3, ae_read = (\<lambda>i. if i = 0 then (2, ''ab'') else if i = 1 then (1, ''c'') else (0, []))\<rparr>]
      ''out'' [] \<lparr>ar_type = DECOMPRESS, ar_filePath = ''x.7z'', ar_buffer = 2\<rparr>
    = Some (0, [''out/../d/f''],
        [Make_Dir ''out'', Make_Dir ''out/..'', Make_Dir ''out/../d'', Open_File ''out/../d/f'',
         File_Write 5 2 ''ab'', File_Write 5 1 ''c'', File_Close 5])"
proof -
  let ?e = "\<lparr>ae_pathname = ''../d/f'', ae_size = 3, ae_read = (\<lambda>i. if i = 0 then (2, ''ab'') else if i = 1 then (1, ''c'') else (0, []))\<rparr>"
  have "answers (ae_read ?e) 0 [''ab'', ''c''] 0" by (simp add: answers_Cons) (simp add: answers_def)
  moreover have "target_dir ''out'' = ''out/''" "parents_from 1 ''out/../d/f'' = [''out'', ''out/..'', ''out/../d'']" by code_simp+
  ultimately show ?thesis
    using Archive_decompress_spec[of "\<lparr>ar_type = DECOMPRESS, ar_filePath = ''x.7z'', ar_buffer = 2\<rparr>" "[(?e, [''ab'', ''c''])]"
        "\<lambda>_. 5" "''out''" "\<lambda>_. 0" "[]"]
    by (simp add: unpack_calls_def)
qed

text \<open>
  Adding a file writes its header with the size of \<open>stat\<close> and then what the reads deliver. A file that
  cannot be opened for writing too is added with that size and no data, and 0 is returned. Unpacking
  an entry whose data cannot be read, so that libarchive answers with an error every time, never returns.
\<close>

theorem Archive_losses:
  "(ar_type a = COMPRESS \<and> 0 \<le> g \<and> answers (rd g (ar_buffer a)) 0 bss r \<and> r \<le> 0 \<longrightarrow>
      Archive_compress (Some n) g rd path a =
        Some (0, Write_Header path n # Open_File path # map Write_Data bss @ [File_Close g]))
   \<and> (ar_type a = COMPRESS \<and> g < 0 \<and> fst (rd (-1) (ar_buffer a) 0) = -1 \<longrightarrow>
      Archive_compress (Some n) g rd path a = Some (0, [Write_Header path n, Open_File path]))
   \<and> (ar_type a = DECOMPRESS \<and> ae_size e > 0 \<and> 0 < op (target_dir dir @ ae_pathname e)
        \<and> (\<forall>i. - (2 ^ 63) \<le> fst (ae_read e i) \<and> fst (ae_read e i) < 0) \<longrightarrow>
      Archive_decompress mk op (e # es) dir outs a = None)"
proof -
  have "unpack_loop f (ae_read e) 0 [] = None" if "\<forall>i. - (2 ^ 63) \<le> fst (ae_read e i) \<and> fst (ae_read e i) < 0" for f
  proof (cases "unpack_loop f (ae_read e) 0 []")
    case (Some y)
    obtain j where "(word_of_int (fst (ae_read e j)) :: u64) = 0" using unpack_loop_returns[OF Some] by blast
    then have "(2 :: int) ^ 64 dvd fst (ae_read e j)" by (simp add: word_of_int_eq_0_iff)
    moreover have "\<bar>fst (ae_read e j)\<bar> < 2 ^ 64" "fst (ae_read e j) \<noteq> 0"
      using that[rule_format, of j] by auto
    ultimately show ?thesis using zdvd_not_zless[of "\<bar>fst (ae_read e j)\<bar>" "2 ^ 64"] by auto
  qed simp
  moreover have "pack_loop (rd (-1) (ar_buffer a)) 0 [] = Some []" if "fst (rd (-1) (ar_buffer a) 0) = -1"
    using pack_loop_answers[of "rd (-1) (ar_buffer a)" 0 "[]" "-1" "[]"] that by (simp add: answers_def)
  moreover have "pack_loop (rd g (ar_buffer a)) 0 [] = Some (map Write_Data bss)"
    if "answers (rd g (ar_buffer a)) 0 bss r" "r \<le> 0"
    using pack_loop_answers[OF that, of "[]"] by simp
  ultimately show ?thesis
    by (auto simp: Archive_compress_def Archive_decompress_def File_defs createDirectories_ignores)
qed

end
