(* ===== verification/Shm_Mutex.thy ===== *)
theory Shm_Mutex
  imports Andren_Prelude
begin

text \<open>
  \<open>npsmem.hpp\<close>: \<open>ShmMutex\<close>, a process-shared mutex in named shared memory. The kernel is a record of the names and
  of the mutex each memory object holds; a process that maps an object sees that mutex. The other
  errors of the system calls are arguments. \<open>scope_run\<close> of several processes is a step relation: taking
  the mutex, the body's load and store of the data it guards, and the release.
\<close>

section \<open>Named shared memory\<close>

datatype mutex = Zeroed | Unlocked | Locked nat

record shm_kernel =
  sk_names :: "string \<Rightarrow> nat option"
  sk_mutex :: "nat \<Rightarrow> mutex"
  sk_next :: nat

record shm_answers =
  sa_refused :: bool
  sa_created :: bool
  sa_sized :: bool
  sa_mapped :: bool

text \<open>\<open>shm_open\<close> without \<open>O_CREAT\<close>: no entry, another error, or the object.\<close>

datatype open_result = No_Entry | Refused | Opened nat

definition shm_open :: "shm_answers \<Rightarrow> string \<Rightarrow> shm_kernel \<Rightarrow> open_result" where
  "shm_open ans path k =
     (if sa_refused ans then Refused else case sk_names k path of None \<Rightarrow> No_Entry | Some b \<Rightarrow> Opened b)"

definition shm_create :: "shm_answers \<Rightarrow> string \<Rightarrow> shm_kernel \<Rightarrow> (nat \<times> shm_kernel) option" where
  "shm_create ans path k =
     (if \<not> sa_created ans then None
      else Some (sk_next k, k\<lparr>sk_names := (sk_names k)(path \<mapsto> sk_next k), sk_mutex := (sk_mutex k)(sk_next k := Zeroed),
                  sk_next := sk_next k + 1\<rparr>))"

section \<open>The handle\<close>

record ShmMutex =
  m_shared_mutex :: "nat option"
  m_path :: string

definition ShmMutex_ctor :: ShmMutex where
  "ShmMutex_ctor = \<lparr>m_shared_mutex = None, m_path = []\<rparr>"

text \<open>\<open>ftruncate\<close> keeps what an existing object holds; then the mutex is initialised in any case.\<close>

definition owner_map :: "shm_answers \<Rightarrow> string \<Rightarrow> nat \<Rightarrow> shm_kernel \<Rightarrow> ShmMutex \<times> shm_kernel" where
  "owner_map ans path b k =
     (if \<not> sa_sized ans then (ShmMutex_ctor, k)
      else if \<not> sa_mapped ans then (ShmMutex_ctor, k)
      else (\<lparr>m_shared_mutex = Some b, m_path = path\<rparr>, k\<lparr>sk_mutex := (sk_mutex k)(b := Unlocked)\<rparr>))"

definition ShmMutexOwner_ctor :: "shm_answers \<Rightarrow> string \<Rightarrow> shm_kernel \<Rightarrow> ShmMutex \<times> shm_kernel" where
  "ShmMutexOwner_ctor ans path k =
     (case shm_open ans path k of
        No_Entry \<Rightarrow> (case shm_create ans path k of None \<Rightarrow> (ShmMutex_ctor, k) | Some (b, k') \<Rightarrow> owner_map ans path b k')
      | Refused \<Rightarrow> (ShmMutex_ctor, k)
      | Opened b \<Rightarrow> owner_map ans path b k)"

definition ShmMutexReference_ctor :: "shm_answers \<Rightarrow> string \<Rightarrow> shm_kernel \<Rightarrow> ShmMutex" where
  "ShmMutexReference_ctor ans path k =
     (case shm_open ans path k of
        No_Entry \<Rightarrow> ShmMutex_ctor
      | Refused \<Rightarrow> ShmMutex_ctor
      | Opened b \<Rightarrow> if \<not> sa_mapped ans then ShmMutex_ctor else \<lparr>m_shared_mutex = Some b, m_path = path\<rparr>)"

definition ShmMutex_move_ctor :: "ShmMutex \<Rightarrow> ShmMutex \<times> ShmMutex" where
  "ShmMutex_move_ctor other = (\<lparr>m_shared_mutex = m_shared_mutex other, m_path = m_path other\<rparr>, ShmMutex_ctor)"

definition ShmMutexOwner_dtor :: "bool \<Rightarrow> bool \<Rightarrow> ShmMutex \<Rightarrow> shm_kernel \<Rightarrow> shm_kernel" where
  "ShmMutexOwner_dtor unmapped unlinked m k =
     (if m_shared_mutex m = None then k
      else if \<not> unmapped then k
      else if \<not> unlinked then k
      else k\<lparr>sk_names := (sk_names k)(m_path m := None)\<rparr>)"

definition ShmMutexReference_dtor :: "bool \<Rightarrow> ShmMutex \<Rightarrow> shm_kernel \<Rightarrow> shm_kernel" where
  "ShmMutexReference_dtor unmapped m k = k"

text \<open>
  The move assignments run the destructor by hand on a mapped object, which ends the life of the
  string \<open>m_path\<close>, and then assign to that string.
\<close>

definition ShmMutex_move_assign :: "ShmMutex \<Rightarrow> ShmMutex \<Rightarrow> (ShmMutex \<times> ShmMutex) outcome" where
  "ShmMutex_move_assign self other =
     (if m_shared_mutex self \<noteq> None then Inl Use_After_Free
      else Inr (\<lparr>m_shared_mutex = m_shared_mutex other, m_path = m_path other\<rparr>, ShmMutex_ctor))"

definition ShmMutex_valid :: "ShmMutex \<Rightarrow> bool" where
  "ShmMutex_valid m \<longleftrightarrow> m_shared_mutex m \<noteq> None"

text \<open>
  The class for references repeats the members of the class for owners.
\<close>

definition ShmMutexReference_ctor0 :: ShmMutex where
  "ShmMutexReference_ctor0 = \<lparr>m_shared_mutex = None, m_path = []\<rparr>"

definition ShmMutexReference_move_ctor :: "ShmMutex \<Rightarrow> ShmMutex \<times> ShmMutex" where
  "ShmMutexReference_move_ctor other =
     (\<lparr>m_shared_mutex = m_shared_mutex other, m_path = m_path other\<rparr>, other\<lparr>m_shared_mutex := None, m_path := []\<rparr>)"

definition ShmMutexReference_move_assign :: "ShmMutex \<Rightarrow> ShmMutex \<Rightarrow> (ShmMutex \<times> ShmMutex) outcome" where
  "ShmMutexReference_move_assign self other =
     (if m_shared_mutex self \<noteq> None then Inl Use_After_Free
      else Inr (\<lparr>m_shared_mutex = m_shared_mutex other, m_path = m_path other\<rparr>, other\<lparr>m_shared_mutex := None, m_path := []\<rparr>))"

definition ShmMutexReference_valid :: "ShmMutex \<Rightarrow> bool" where
  "ShmMutexReference_valid m \<longleftrightarrow> m_shared_mutex m \<noteq> None"

section \<open>Locking\<close>

text \<open>
  A lock that another process holds blocks, \<open>None\<close>. A mutex of zeros behaves as an initialised one on
  this platform.
\<close>

definition ShmMutex_lock :: "nat \<Rightarrow> ShmMutex \<Rightarrow> shm_kernel \<Rightarrow> (int \<times> shm_kernel) option" where
  "ShmMutex_lock p m k =
     (case m_shared_mutex m of
        None \<Rightarrow> Some (-1, k)
      | Some b \<Rightarrow> (case sk_mutex k b of
                    Locked _ \<Rightarrow> None
                  | _ \<Rightarrow> Some (0, k\<lparr>sk_mutex := (sk_mutex k)(b := Locked p)\<rparr>)))"

definition ShmMutex_unlock :: "ShmMutex \<Rightarrow> shm_kernel \<Rightarrow> int \<times> shm_kernel" where
  "ShmMutex_unlock m k =
     (case m_shared_mutex m of
        None \<Rightarrow> (-1, k)
      | Some b \<Rightarrow> (0, k\<lparr>sk_mutex := (sk_mutex k)(b := Unlocked)\<rparr>))"

definition ShmMutexReference_lock :: "nat \<Rightarrow> ShmMutex \<Rightarrow> shm_kernel \<Rightarrow> (int \<times> shm_kernel) option" where
  "ShmMutexReference_lock p m k =
     (case m_shared_mutex m of
        Some b \<Rightarrow> (case sk_mutex k b of
                    Locked _ \<Rightarrow> None
                  | _ \<Rightarrow> Some (0, k\<lparr>sk_mutex := (sk_mutex k)(b := Locked p)\<rparr>))
      | None \<Rightarrow> Some (-1, k))"

definition ShmMutexReference_unlock :: "ShmMutex \<Rightarrow> shm_kernel \<Rightarrow> int \<times> shm_kernel" where
  "ShmMutexReference_unlock m k =
     (case m_shared_mutex m of
        Some b \<Rightarrow> (0, k\<lparr>sk_mutex := (sk_mutex k)(b := Unlocked)\<rparr>)
      | None \<Rightarrow> (-1, k))"

text \<open>\<open>scope_run\<close> run without interference: the body \<open>fn\<close> changes the guarded data; the code is returned as a \<open>bool\<close>.\<close>

definition ShmMutex_scope_run ::
  "nat \<Rightarrow> ('d \<Rightarrow> 'd) \<Rightarrow> ShmMutex \<Rightarrow> shm_kernel \<times> 'd \<Rightarrow> (bool \<times> shm_kernel \<times> 'd) option" where
  "ShmMutex_scope_run p fn m st =
     (case ShmMutex_lock p m (fst st) of
        None \<Rightarrow> None
      | Some (ret, k) \<Rightarrow>
          if ret = 0
          then let d = fn (snd st); (ret', k') = ShmMutex_unlock m k in Some (ret' \<noteq> 0, k', d)
          else Some (ret \<noteq> 0, k, snd st))"

definition ShmMutexReference_scope_run ::
  "nat \<Rightarrow> ('d \<Rightarrow> 'd) \<Rightarrow> ShmMutex \<Rightarrow> shm_kernel \<times> 'd \<Rightarrow> (bool \<times> shm_kernel \<times> 'd) option" where
  "ShmMutexReference_scope_run p fn m st =
     (case ShmMutexReference_lock p m (fst st) of
        None \<Rightarrow> None
      | Some (ret, k) \<Rightarrow>
          if ret = 0
          then let d = fn (snd st); (ret', k') = ShmMutexReference_unlock m k in Some (ret' \<noteq> 0, k', d)
          else Some (ret \<noteq> 0, k, snd st))"

text \<open>Both classes lock, unlock and run alike, so that what is shown below for one holds for the other and for mixtures of both.\<close>

lemma ShmMutexReference_as_owner:
  "ShmMutexReference_lock = ShmMutex_lock" "ShmMutexReference_unlock = ShmMutex_unlock"
  "ShmMutexReference_scope_run = ShmMutex_scope_run" "ShmMutexReference_valid = ShmMutex_valid"
  "ShmMutexReference_move_ctor = ShmMutex_move_ctor" "ShmMutexReference_move_assign = ShmMutex_move_assign"
  by (auto simp: fun_eq_iff ShmMutexReference_lock_def ShmMutex_lock_def ShmMutexReference_unlock_def ShmMutex_unlock_def
      ShmMutexReference_scope_run_def ShmMutex_scope_run_def ShmMutexReference_valid_def ShmMutex_valid_def ShmMutex_ctor_def
      ShmMutexReference_move_ctor_def ShmMutex_move_ctor_def ShmMutexReference_move_assign_def ShmMutex_move_assign_def
      split: option.splits)

section \<open>Several processes\<close>

datatype 'd run_pc = Outside | Entered | Loaded 'd | Stored

record 'd smx_sys =
  kern :: shm_kernel
  hnd :: "nat \<Rightarrow> ShmMutex"
  at :: "nat \<Rightarrow> 'd run_pc"
  guarded :: "nat \<Rightarrow> 'd"
  ran :: "nat \<Rightarrow> nat list"

text \<open>\<open>guarded b\<close> is the data the processes guard with the mutex of object \<open>b\<close>, \<open>ran b\<close> who has changed it.\<close>

inductive scope_step :: "(nat \<Rightarrow> 'd \<Rightarrow> 'd) \<Rightarrow> 'd smx_sys \<Rightarrow> 'd smx_sys \<Rightarrow> bool" for fn where
  enter: "at s p = Outside \<Longrightarrow> ShmMutex_lock p (hnd s p) (kern s) = Some (0, k) \<Longrightarrow>
     scope_step fn s (s\<lparr>kern := k, at := (at s)(p := Entered)\<rparr>)"
| load: "at s p = Entered \<Longrightarrow> m_shared_mutex (hnd s p) = Some b \<Longrightarrow>
     scope_step fn s (s\<lparr>at := (at s)(p := Loaded (guarded s b))\<rparr>)"
| store: "at s p = Loaded d \<Longrightarrow> m_shared_mutex (hnd s p) = Some b \<Longrightarrow>
     scope_step fn s (s\<lparr>guarded := (guarded s)(b := fn p d), ran := (ran s)(b := ran s b @ [p]), at := (at s)(p := Stored)\<rparr>)"
| leave: "at s p = Stored \<Longrightarrow> ShmMutex_unlock (hnd s p) (kern s) = (0, k) \<Longrightarrow>
     scope_step fn s (s\<lparr>kern := k, at := (at s)(p := Outside)\<rparr>)"

text \<open>
  Handles made and dropped while others run. The code lets an owner be made at any time; with \<open>fresh\<close> only
  under a name that is not in use.
\<close>

inductive handle_step :: "bool \<Rightarrow> 'd smx_sys \<Rightarrow> 'd smx_sys \<Rightarrow> bool" for fresh where
  own: "at s p = Outside \<Longrightarrow> m_shared_mutex (hnd s p) = None \<Longrightarrow> (fresh \<longrightarrow> sk_names (kern s) path = None) \<Longrightarrow>
     ShmMutexOwner_ctor ans path (kern s) = (m, k) \<Longrightarrow>
     handle_step fresh s (s\<lparr>kern := k, hnd := (hnd s)(p := m)\<rparr>)"
| refer: "at s p = Outside \<Longrightarrow> m_shared_mutex (hnd s p) = None \<Longrightarrow>
     handle_step fresh s (s\<lparr>hnd := (hnd s)(p := ShmMutexReference_ctor ans path (kern s))\<rparr>)"
| disown: "at s p = Outside \<Longrightarrow>
     handle_step fresh s (s\<lparr>kern := ShmMutexOwner_dtor u v (hnd s p) (kern s), hnd := (hnd s)(p := ShmMutex_ctor)\<rparr>)"

inductive_cases scope_stepE: "scope_step fn s t"
inductive_cases handle_stepE: "handle_step fresh s t"

definition inside :: "'d smx_sys \<Rightarrow> nat \<Rightarrow> nat \<Rightarrow> bool" where
  "inside s p b \<longleftrightarrow> at s p \<noteq> Outside \<and> m_shared_mutex (hnd s p) = Some b"

text \<open>Nobody runs, no mutex is held, and handles and names refer to objects that exist.\<close>

definition smx_start :: "'d smx_sys \<Rightarrow> bool" where
  "smx_start s \<longleftrightarrow> (\<forall>p. at s p = Outside) \<and> (\<forall>b. ran s b = [])
     \<and> (\<forall>p b. m_shared_mutex (hnd s p) = Some b \<longrightarrow> b < sk_next (kern s))
     \<and> (\<forall>n b. sk_names (kern s) n = Some b \<longrightarrow> b < sk_next (kern s))"

definition smx_run :: "bool \<Rightarrow> (nat \<Rightarrow> 'd \<Rightarrow> 'd) \<Rightarrow> 'd smx_sys \<Rightarrow> 'd smx_sys \<Rightarrow> bool" where
  "smx_run fresh fn = (\<lambda>s t. scope_step fn s t \<or> handle_step fresh s t)\<^sup>*\<^sup>*"

definition smx_inv :: "(nat \<Rightarrow> 'd \<Rightarrow> 'd) \<Rightarrow> (nat \<Rightarrow> 'd) \<Rightarrow> 'd smx_sys \<Rightarrow> bool" where
  "smx_inv fn d0 s \<longleftrightarrow>
     (\<forall>p. at s p \<noteq> Outside \<longrightarrow> m_shared_mutex (hnd s p) \<noteq> None)
     \<and> (\<forall>p b. inside s p b \<longrightarrow> sk_mutex (kern s) b = Locked p)
     \<and> (\<forall>p b d. at s p = Loaded d \<longrightarrow> m_shared_mutex (hnd s p) = Some b \<longrightarrow> d = guarded s b)
     \<and> (\<forall>b. guarded s b = fold fn (ran s b) (d0 b))
     \<and> (\<forall>p b. m_shared_mutex (hnd s p) = Some b \<longrightarrow> b < sk_next (kern s))
     \<and> (\<forall>n b. sk_names (kern s) n = Some b \<longrightarrow> b < sk_next (kern s))"

lemmas smx_defs =
  ShmMutex_lock_def ShmMutex_unlock_def ShmMutexOwner_ctor_def ShmMutexReference_ctor_def ShmMutexOwner_dtor_def
  ShmMutex_ctor_def owner_map_def shm_open_def shm_create_def inside_def

lemma inv_alone: "smx_inv fn d0 s \<Longrightarrow> inside s p b \<Longrightarrow> inside s q b \<Longrightarrow> p = q"
  unfolding smx_inv_def by (metis mutex.inject)

lemma smx_invI:
  assumes "\<And>p. at s p \<noteq> Outside \<Longrightarrow> m_shared_mutex (hnd s p) \<noteq> None"
    and "\<And>p b. inside s p b \<Longrightarrow> sk_mutex (kern s) b = Locked p"
    and "\<And>p b d. at s p = Loaded d \<Longrightarrow> m_shared_mutex (hnd s p) = Some b \<Longrightarrow> d = guarded s b"
    and "\<And>b. guarded s b = fold fn (ran s b) (d0 b)"
    and "\<And>p b. m_shared_mutex (hnd s p) = Some b \<Longrightarrow> b < sk_next (kern s)"
    and "\<And>n b. sk_names (kern s) n = Some b \<Longrightarrow> b < sk_next (kern s)"
  shows "smx_inv fn d0 s"
  using assms by (simp add: smx_inv_def)

lemma smx_invD:
  assumes "smx_inv fn d0 s"
  shows "at s p \<noteq> Outside \<Longrightarrow> m_shared_mutex (hnd s p) \<noteq> None"
    and "inside s p b \<Longrightarrow> sk_mutex (kern s) b = Locked p"
    and "at s p = Loaded d \<Longrightarrow> m_shared_mutex (hnd s p) = Some b \<Longrightarrow> d = guarded s b"
    and "guarded s b = fold fn (ran s b) (d0 b)"
    and "m_shared_mutex (hnd s p) = Some b \<Longrightarrow> b < sk_next (kern s)"
    and "sk_names (kern s) n = Some b \<Longrightarrow> b < sk_next (kern s)"
  using assms unfolding smx_inv_def by blast+

lemma scope_step_inv: "scope_step fn s t \<Longrightarrow> smx_inv fn d0 s \<Longrightarrow> smx_inv fn d0 t"
proof (induction rule: scope_step.induct)
  case (enter s p k)
  then obtain b where b: "m_shared_mutex (hnd s p) = Some b" "\<forall>q. sk_mutex (kern s) b \<noteq> Locked q"
    "k = (kern s)\<lparr>sk_mutex := (sk_mutex (kern s))(b := Locked p)\<rparr>"
    by (auto simp: ShmMutex_lock_def split: option.splits mutex.splits)
  note d = smx_invD[OF enter(3)]
  have n: "c \<noteq> b" if "inside s q c" for q c using d(2)[OF that] b(2) by auto
  show ?case
  proof (rule smx_invI, goal_cases)
    case (2 q c)
    then show ?case using d(2)[of q c] n[of q c] b by (cases "q = p") (auto simp: inside_def)
  next
    case (4 c)
    then show ?case using d(4)[of c] by simp
  qed (use d(1,3,5,6) b in \<open>auto split: if_splits\<close>)
next
  case (load s p b)
  note d = smx_invD[OF load(3)]
  show ?case
  proof (rule smx_invI, goal_cases)
    case (4 c)
    then show ?case using d(4)[of c] by simp
  qed (use d(1,2,3,5,6) load(1,2) in \<open>auto simp: inside_def split: if_splits\<close>)
next
  case (store s p c b)
  note d = smx_invD[OF store(3)]
  have "q = p" if "at s q = Loaded x" "m_shared_mutex (hnd s q) = Some b" for q x
    using that inv_alone[OF store(3), of q b p] store(1,2) by (simp add: inside_def)
  note alone = this
  show ?case
  proof (rule smx_invI, goal_cases)
    case (3 q e x)
    have q: "q \<noteq> p" "at s q = Loaded x" "m_shared_mutex (hnd s q) = Some e" using 3 by (auto split: if_splits)
    then have "e \<noteq> b" using alone[of q x] by auto
    then show ?case using d(3)[OF q(2,3)] by simp
  next
    case (4 e)
    then show ?case using d(3)[OF store(1,2)] d(4)[of e] by (cases "e = b") simp_all
  qed (use d(1,2,5,6) store(1,2) in \<open>auto simp: inside_def split: if_splits\<close>)
next
  case (leave s p k)
  then obtain b where b: "m_shared_mutex (hnd s p) = Some b"
    "k = (kern s)\<lparr>sk_mutex := (sk_mutex (kern s))(b := Unlocked)\<rparr>"
    by (auto simp: ShmMutex_unlock_def split: option.splits)
  note d = smx_invD[OF leave(3)]
  have n: "q = p" if "inside s q b" for q
    using that inv_alone[OF leave(3), of q b p] leave(1) b(1) by (simp add: inside_def)
  show ?case
  proof (rule smx_invI, goal_cases)
    case (2 q c)
    then have q: "q \<noteq> p" "inside s q c" by (auto simp: inside_def split: if_splits)
    then have "c \<noteq> b" using n by blast
    then show ?case using d(2)[OF q(2)] b(2) by simp
  next
    case (4 c)
    then show ?case using d(4)[of c] by simp
  qed (use d(1,3,5,6) b in \<open>auto split: if_splits\<close>)
qed

text \<open>The owner's constructor under an unused name touches no object that is mapped.\<close>

lemma owner_ctor_fresh:
  assumes "sk_names k path = None" and "ShmMutexOwner_ctor ans path k = (m, k')"
  shows "sk_next k \<le> sk_next k'" and "\<forall>b < sk_next k. sk_mutex k' b = sk_mutex k b"
    and "\<forall>b. m_shared_mutex m = Some b \<longrightarrow> b < sk_next k'"
    and "(\<forall>n b. sk_names k n = Some b \<longrightarrow> b < sk_next k) \<Longrightarrow> \<forall>n b. sk_names k' n = Some b \<longrightarrow> b < sk_next k'"
  using assms by (auto simp: smx_defs less_Suc_eq split: if_splits)

lemma handle_step_inv: "handle_step True s t \<Longrightarrow> smx_inv fn d0 s \<Longrightarrow> smx_inv fn d0 t"
proof (induction rule: handle_step.induct)
  case (own s p path ans m k)
  note o = owner_ctor_fresh[OF own(3)[simplified] own(4)]
  have "sk_mutex k b = Locked q" if "inside s q b" for q b
    using that own(5) o(2) by (auto simp: smx_inv_def inside_def)
  then show ?case using own(1,2,5) o(1,3,4) by (fastforce simp: smx_inv_def inside_def)
next
  case (refer s p ans path)
  then show ?case by (auto simp: smx_inv_def inside_def ShmMutexReference_ctor_def ShmMutex_ctor_def shm_open_def
      split: open_result.splits option.splits if_splits)
next
  case (disown s p u v)
  then show ?case by (auto simp: smx_inv_def inside_def ShmMutexOwner_dtor_def ShmMutex_ctor_def)
qed

lemma smx_run_inv:
  assumes "smx_run True fn s t" and "smx_start s"
  shows "smx_inv fn (guarded s) t"
  using assms unfolding smx_run_def
proof (induction rule: rtranclp_induct)
  case base
  then show ?case by (auto simp: smx_start_def smx_inv_def inside_def)
next
  case (step y z)
  then show ?case using scope_step_inv handle_step_inv by blast
qed

section \<open>Properties\<close>

text \<open>
  Property C15. Mutual exclusion between processes. From a state where nobody is inside, in every
  interleaving of \<open>scope_run\<close> calls, of handles being referred to and dropped, and of owners being made
  under unused names, at most one process is inside \<open>scope_run\<close> on one mutex, and the data it guards
  is what the bodies give when run one after the other: no update is lost.
\<close>

theorem ShmMutex_serialises:
  assumes "smx_start s" and "smx_run True fn s t"
  shows "(\<forall>p q b. inside t p b \<and> inside t q b \<longrightarrow> p = q)
     \<and> (\<forall>b. guarded t b = fold fn (ran t b) (guarded s b))"
  using smx_run_inv[OF assms(2,1)] inv_alone smx_invD(4) by metis

subsection \<open>Schedules\<close>

text \<open>The steps as a function of the process and what it does, so that a schedule can be run.\<close>

datatype move = Enter nat | Load nat | Store nat | Leave nat | Own nat string | Refer nat string | Disown nat

definition all_well :: shm_answers where
  "all_well = \<lparr>sa_refused = False, sa_created = True, sa_sized = True, sa_mapped = True\<rparr>"

fun smx_move :: "bool \<Rightarrow> (nat \<Rightarrow> 'd \<Rightarrow> 'd) \<Rightarrow> move \<Rightarrow> 'd smx_sys \<Rightarrow> 'd smx_sys option" where
  "smx_move fresh fn (Enter p) s =
     (case (at s p, ShmMutex_lock p (hnd s p) (kern s)) of
        (Outside, Some (r, k)) \<Rightarrow> if r = 0 then Some (s\<lparr>kern := k, at := (at s)(p := Entered)\<rparr>) else None
      | _ \<Rightarrow> None)"
| "smx_move fresh fn (Load p) s =
     (case (at s p, m_shared_mutex (hnd s p)) of
        (Entered, Some b) \<Rightarrow> Some (s\<lparr>at := (at s)(p := Loaded (guarded s b))\<rparr>)
      | _ \<Rightarrow> None)"
| "smx_move fresh fn (Store p) s =
     (case (at s p, m_shared_mutex (hnd s p)) of
        (Loaded d, Some b) \<Rightarrow>
          Some (s\<lparr>guarded := (guarded s)(b := fn p d), ran := (ran s)(b := ran s b @ [p]), at := (at s)(p := Stored)\<rparr>)
      | _ \<Rightarrow> None)"
| "smx_move fresh fn (Leave p) s =
     (case (at s p, ShmMutex_unlock (hnd s p) (kern s)) of
        (Stored, (r, k)) \<Rightarrow> if r = 0 then Some (s\<lparr>kern := k, at := (at s)(p := Outside)\<rparr>) else None
      | _ \<Rightarrow> None)"
| "smx_move fresh fn (Own p path) s =
     (case (at s p, m_shared_mutex (hnd s p)) of
        (Outside, None) \<Rightarrow>
          if fresh \<and> sk_names (kern s) path \<noteq> None then None
          else let (m, k) = ShmMutexOwner_ctor all_well path (kern s) in Some (s\<lparr>kern := k, hnd := (hnd s)(p := m)\<rparr>)
      | _ \<Rightarrow> None)"
| "smx_move fresh fn (Refer p path) s =
     (case (at s p, m_shared_mutex (hnd s p)) of
        (Outside, None) \<Rightarrow> Some (s\<lparr>hnd := (hnd s)(p := ShmMutexReference_ctor all_well path (kern s))\<rparr>)
      | _ \<Rightarrow> None)"
| "smx_move fresh fn (Disown p) s =
     (case at s p of
        Outside \<Rightarrow> Some (s\<lparr>kern := ShmMutexOwner_dtor True True (hnd s p) (kern s), hnd := (hnd s)(p := ShmMutex_ctor)\<rparr>)
      | _ \<Rightarrow> None)"

fun smx_exec :: "bool \<Rightarrow> (nat \<Rightarrow> 'd \<Rightarrow> 'd) \<Rightarrow> move list \<Rightarrow> 'd smx_sys \<Rightarrow> 'd smx_sys option" where
  "smx_exec fresh fn [] s = Some s"
| "smx_exec fresh fn (m # ms) s = Option.bind (smx_move fresh fn m s) (smx_exec fresh fn ms)"

lemma smx_move_steps: "smx_move fresh fn m s = Some t \<Longrightarrow> scope_step fn s t \<or> handle_step fresh s t"
proof (cases m)
  case (Own p path)
  assume "smx_move fresh fn m s = Some t"
  then show ?thesis using Own
    by (auto split: run_pc.splits option.splits if_splits prod.splits intro!: handle_step.own)
qed (auto split: run_pc.splits option.splits if_splits prod.splits intro: scope_step.intros handle_step.intros)

lemma smx_exec_run: "smx_exec fresh fn ms s = Some t \<Longrightarrow> smx_run fresh fn s t"
proof (induction ms arbitrary: s)
  case (Cons m ms)
  then show ?case unfolding smx_run_def
    by (auto simp: bind_eq_Some_conv intro: converse_rtranclp_into_rtranclp dest: smx_move_steps)
qed (simp add: smx_run_def)

lemma map_option_eqE:
  assumes "map_option f x = Some y"
  obtains z where "x = Some z" and "f z = y"
  using assms by (cases x) auto

definition demo_smx :: "nat smx_sys" where
  "demo_smx =
     \<lparr>kern = \<lparr>sk_names = Map.empty, sk_mutex = (\<lambda>_. Zeroed), sk_next = 0\<rparr>, hnd = (\<lambda>_. ShmMutex_ctor), at = (\<lambda>_. Outside),
      guarded = (\<lambda>_. 0), ran = (\<lambda>_. [])\<rparr>"

lemma demo_smx_start: "smx_start demo_smx"
  by (simp add: smx_start_def demo_smx_def ShmMutex_ctor_def)

theorem ShmMutex_serialises_witness:
  "\<exists>t. smx_exec True (\<lambda>p d. 10 * d + p) [Own 1 ''m'', Refer 2 ''m'', Enter 2, Load 2, Store 2, Leave 2, Enter 1, Load 1, Store 1] demo_smx = Some t
     \<and> ran t 0 = [2, 1] \<and> guarded t 0 = fold (\<lambda>p d. 10 * d + p) [2, 1] 0"
proof -
  let ?fn = "\<lambda>p d :: nat. 10 * d + p"
  let ?x = "smx_exec True ?fn [Own 1 ''m'', Refer 2 ''m'', Enter 2, Load 2, Store 2, Leave 2, Enter 1, Load 1, Store 1] demo_smx"
  have "map_option (\<lambda>t. ran t 0) ?x = Some [2, 1]" by code_simp
  then obtain t where t: "?x = Some t" "ran t 0 = [2, 1]" by (cases ?x) auto
  then have "guarded t 0 = fold ?fn (ran t 0) (guarded demo_smx 0)"
    using ShmMutex_serialises[OF demo_smx_start smx_exec_run[OF t(1)]] by blast
  then show ?thesis using t by (intro exI[of _ t]) (simp add: demo_smx_def)
qed

text \<open>
  Property C40. Where the mutex does not exclude. An owner made under a name in use initialises the
  mutex another process holds: both come inside and an update is lost. An owner that goes away
  removes the name, so that the next owner gets a second mutex under the same name and both its
  holder and the holder of the first are inside. And \<open>scope_run\<close> answers true exactly when it did \<open>not\<close> run the body.
\<close>

theorem ShmMutex_exclusion_broken:
  "(\<exists>t. smx_run False (\<lambda>p d. d + 1) demo_smx t \<and> ran t 0 = [1, 0] \<and> guarded t 0 = 1 \<and> inside t 0 0 \<and> inside t 1 0)
   \<and> (\<exists>t. smx_run True (\<lambda>p d. d + 1) demo_smx t \<and> inside t 0 1 \<and> inside t 1 0 \<and> m_path (hnd t 0) = m_path (hnd t 1))
   \<and> (\<forall>p fn m k d. ShmMutex_scope_run p fn m (k, d :: nat) =
        (case m_shared_mutex m of
           None \<Rightarrow> Some (True, k, d)
         | Some b \<Rightarrow> if \<exists>q. sk_mutex k b = Locked q then None
                     else Some (False, k\<lparr>sk_mutex := (sk_mutex k)(b := Unlocked)\<rparr>, fn d)))"
proof (intro conjI allI)
  let ?a = "smx_exec False (\<lambda>p d :: nat. d + 1) [Own 0 ''m'', Enter 0, Load 0, Own 1 ''m'', Enter 1, Load 1, Store 1, Store 0] demo_smx"
  have "map_option (\<lambda>t. (ran t 0, guarded t 0, m_shared_mutex (hnd t 0), m_shared_mutex (hnd t 1), at t 0, at t 1)) ?a
     = Some ([1, 0], 1, Some 0, Some 0, Stored, Stored)" by code_simp
  then show "\<exists>t. smx_run False (\<lambda>p d. d + 1) demo_smx t \<and> ran t 0 = [1, 0] \<and> guarded t 0 = 1 \<and> inside t 0 0 \<and> inside t 1 0"
    unfolding inside_def by (elim map_option_eqE) (intro exI conjI, erule smx_exec_run; simp)
  let ?b = "smx_exec True (\<lambda>p d :: nat. d + 1) [Own 0 ''m'', Refer 1 ''m'', Enter 1, Disown 0, Own 0 ''m'', Enter 0] demo_smx"
  have "map_option (\<lambda>t. (hnd t 0, hnd t 1, at t 0, at t 1)) ?b
     = Some (\<lparr>m_shared_mutex = Some 1, m_path = ''m''\<rparr>, \<lparr>m_shared_mutex = Some 0, m_path = ''m''\<rparr>, Entered, Entered)" by code_simp
  then show "\<exists>t. smx_run True (\<lambda>p d. d + 1) demo_smx t \<and> inside t 0 1 \<and> inside t 1 0 \<and> m_path (hnd t 0) = m_path (hnd t 1)"
    unfolding inside_def by (elim map_option_eqE) (intro exI conjI, erule smx_exec_run; simp)
next
  fix p :: nat and fn :: "nat \<Rightarrow> nat" and m k d
  show "ShmMutex_scope_run p fn m (k, d) =
        (case m_shared_mutex m of
           None \<Rightarrow> Some (True, k, d)
         | Some b \<Rightarrow> if \<exists>q. sk_mutex k b = Locked q then None
                     else Some (False, k\<lparr>sk_mutex := (sk_mutex k)(b := Unlocked)\<rparr>, fn d))"
    by (auto simp: ShmMutex_scope_run_def ShmMutex_lock_def ShmMutex_unlock_def split: option.splits mutex.splits)
qed

end
