(* ===== verification/String_Dates.thy ===== *)
theory String_Dates
  imports String_Tools
begin

text \<open>
  \<open>string_tool.cpp\<close>: the date and time conversions. \<open>std::get_time\<close> and \<open>std::put_time\<close> are modelled for the two formats
  the source uses; \<open>mktime\<close> and \<open>localtime\<close> depend on the time zone and are parameters. A conversion
  whose stream fails is \<open>None\<close>: the source does not look at the stream, and the standard does not say what the
  fields then hold.
\<close>

section \<open>Decimal numbers\<close>

definition digit :: "nat \<Rightarrow> char" where
  "digit n = char_of (48 + n mod 10)"

fun decimal :: "nat \<Rightarrow> string" where
  "decimal n = (if n < 10 then [digit n] else decimal (n div 10) @ [digit n])"

declare decimal.simps [simp del]

definition two_digits :: "nat \<Rightarrow> string" where
  "two_digits n = [digit (n div 10), digit n]"

lemma of_char_digit [simp]: "of_char (digit n) = 48 + n mod 10"
  by (simp add: digit_def of_char_mod_256)

lemma is_digit_digit [simp]: "is_digit (digit n)"
  by (simp add: is_digit_def)

lemma digits_value_snoc [simp]: "digits_value (ds @ [digit n]) = 10 * digits_value ds + int (n mod 10)"
  by (simp add: digits_value_def)

lemma digits_value_nil [simp]: "digits_value [] = 0"
  by (simp add: digits_value_def)

lemma decimal_value [simp]: "digits_value (decimal n) = int n"
proof (induction n rule: decimal.induct)
  case (1 n)
  show ?case
    using 1 digits_value_snoc[of "[]" n] by (subst decimal.simps) (auto simp: zmod_int zdiv_int)
qed

lemma decimal_digits [simp]: "list_all is_digit (decimal n)"
  by (induction n rule: decimal.induct) (subst decimal.simps, simp)

lemma decimal_ne [simp]: "decimal n \<noteq> []"
  by (subst decimal.simps) simp

lemma decimal_length: "n < 10 ^ Suc k \<Longrightarrow> length (decimal n) \<le> Suc k"
proof (induction k arbitrary: n)
  case 0
  then show ?case by (subst decimal.simps) simp
next
  case (Suc k)
  have "n div 10 < 10 ^ Suc k" using Suc.prems by (simp add: div_less_iff_less_mult)
  from Suc.IH[OF this] show ?case by (subst decimal.simps) simp
qed

lemma two_digits_value: "n < 100 \<Longrightarrow> digits_value (two_digits n) = int n"
  using digits_value_snoc[of "[digit (n div 10)]" n] digits_value_snoc[of "[]" "n div 10"]
  by (simp add: two_digits_def zmod_int zdiv_int)

lemma two_digits_digits [simp]: "list_all is_digit (two_digits n)" "two_digits n \<noteq> []" "length (two_digits n) = 2"
  by (simp_all add: two_digits_def)

section \<open>Reading a format\<close>

text \<open>A conversion reads at most its number of digits and accepts a range; another character must occur as it is.\<close>

datatype time_item = Num nat int int | Lit char

fun get_fields :: "time_item list \<Rightarrow> string \<Rightarrow> int list option" where
  "get_fields [] s = Some []"
| "get_fields (Lit c # fs) s = (case s of [] \<Rightarrow> None | x # xs \<Rightarrow> if x = c then get_fields fs xs else None)"
| "get_fields (Num n lo hi # fs) s =
     (let ds = takeWhile is_digit (take n s); v = digits_value ds
      in if ds = [] \<or> v < lo \<or> hi < v then None
         else map_option (Cons v) (get_fields fs (drop (length ds) s)))"

definition get_time :: "time_item list \<Rightarrow> string \<Rightarrow> int list option" where
  "get_time fmt s = get_fields fmt (dropWhile is_space s)"

record tm =
  tm_year :: int
  tm_mon :: int
  tm_mday :: int
  tm_hour :: int
  tm_min :: int
  tm_sec :: int

definition tm_zero :: tm where
  "tm_zero = \<lparr>tm_year = 0, tm_mon = 0, tm_mday = 0, tm_hour = 0, tm_min = 0, tm_sec = 0\<rparr>"

section \<open>The conversions\<close>

text \<open>A time point is a number of nanoseconds; \<open>to_time_t\<close> truncates towards zero.\<close>

definition from_time_t :: "int \<Rightarrow> int" where
  "from_time_t t = t * 10 ^ 9"

definition to_time_t :: "int \<Rightarrow> int" where
  "to_time_t tp = (if tp < 0 then - (- tp div 10 ^ 9) else tp div 10 ^ 9)"

definition convertStringToDate :: "(tm \<Rightarrow> int) \<Rightarrow> string \<Rightarrow> int option" where
  "convertStringToDate mktime dateString =
     (case get_time [Num 4 0 9999, Lit (CHR ''-''), Num 2 1 12, Lit (CHR ''-''), Num 2 1 31] dateString of
        Some [y, m, d] \<Rightarrow> Some (from_time_t (mktime (tm_zero\<lparr>tm_year := y - 1900, tm_mon := m - 1, tm_mday := d\<rparr>)))
      | _ \<Rightarrow> None)"

definition convertStringToTime :: "string \<Rightarrow> int option" where
  "convertStringToTime timeString =
     (case get_time [Num 2 0 23, Lit (CHR '':''), Num 2 0 59, Lit (CHR '':''), Num 2 0 60] timeString of
        Some [hours, minutes, seconds] \<Rightarrow> Some (hours * 3600 + minutes * 60 + seconds)
      | _ \<Rightarrow> None)"

definition put_date :: "nat \<Rightarrow> nat \<Rightarrow> nat \<Rightarrow> string" where
  "put_date y m d = decimal y @ ''-'' @ two_digits m @ ''-'' @ two_digits d"

definition convertDateToString :: "(int \<Rightarrow> tm) \<Rightarrow> int \<Rightarrow> string" where
  "convertDateToString localtime timePoint =
     (let t = localtime (to_time_t timePoint) in put_date (nat (tm_year t + 1900)) (nat (tm_mon t + 1)) (nat (tm_mday t)))"

definition convertTimeToString :: "int \<Rightarrow> string" where
  "convertTimeToString duration =
     (if duration < 0 then CHR ''-'' # decimal (nat (- duration)) else decimal (nat duration))"

section \<open>Round trips\<close>

lemma digits_not_space: "list_all is_digit ds \<Longrightarrow> ds \<noteq> [] \<Longrightarrow> dropWhile is_space (ds @ r) = ds @ r"
  by (cases ds) (auto simp: is_digit_def is_space_def)

lemma takeWhile_digits: "list_all is_digit ds \<Longrightarrow> r = [] \<or> \<not> is_digit (hd r) \<Longrightarrow> takeWhile is_digit (ds @ r) = ds"
  by (induction ds) (cases r; simp)+

lemma get_fields_num:
  assumes "list_all is_digit ds" "ds \<noteq> []" "length ds \<le> n" "lo \<le> digits_value ds" "digits_value ds \<le> hi"
    and "r = [] \<or> \<not> is_digit (hd r)"
  shows "get_fields (Num n lo hi # fs) (ds @ r) = map_option (Cons (digits_value ds)) (get_fields fs r)"
proof -
  have "take (n - length ds) r = [] \<or> \<not> is_digit (hd (take (n - length ds) r))"
    using assms(6) by (cases r; cases "n - length ds") auto
  then have "takeWhile is_digit (take n (ds @ r)) = ds"
    using assms(1,3) by (simp add: takeWhile_digits)
  then show ?thesis using assms by (simp add: Let_def)
qed

lemma not_digit_sep [simp]: "\<not> is_digit (CHR ''-'')" "\<not> is_digit (CHR '':'')"
  by (simp_all add: is_digit_def)

text \<open>
  A date with a four-digit year that exists in the time zone, that is one whose midnight \<open>localtime\<close> turns back into the
  fields \<open>mktime\<close> took, is printed as the text it was read from.
\<close>

theorem convertDate_roundtrip:
  assumes "1000 \<le> y" "y \<le> 9999" "1 \<le> m" "m \<le> 12" "1 \<le> d" "d \<le> 31"
    and tz: "localtime (mktime (tm_zero\<lparr>tm_year := int y - 1900, tm_mon := int m - 1, tm_mday := int d\<rparr>))
       = tm_zero\<lparr>tm_year := int y - 1900, tm_mon := int m - 1, tm_mday := int d\<rparr>"
  shows "map_option (convertDateToString localtime) (convertStringToDate mktime (put_date y m d)) = Some (put_date y m d)"
proof -
  have v: "digits_value (two_digits m) = int m" "digits_value (two_digits d) = int d"
    using assms by (simp_all add: two_digits_value)
  have "length (decimal y) \<le> 4" using decimal_length[of y 3] assms(2) by simp
  then have "get_time [Num 4 0 9999, Lit (CHR ''-''), Num 2 1 12, Lit (CHR ''-''), Num 2 1 31] (put_date y m d) = Some [int y, int m, int d]"
    using assms v get_fields_num[of "two_digits d" 2 1 31 "[]" "[]"]
    by (simp add: get_time_def put_date_def digits_not_space get_fields_num del: get_fields.simps(3))
  moreover have "to_time_t (from_time_t t) = t" for t
    by (auto simp: to_time_t_def from_time_t_def)
  ultimately show ?thesis
    by (simp add: convertStringToDate_def convertDateToString_def tz)
qed

text \<open>
  Times are read from hours, minutes and seconds, but printed as a number of seconds, so that no printed
  time can be read again.
\<close>

theorem convertTime_one_way:
  "(\<forall>h < 24. \<forall>m < 60. \<forall>s < 60.
      convertStringToTime (two_digits h @ '':'' @ two_digits m @ '':'' @ two_digits s) = Some (int (h * 3600 + m * 60 + s)))
   \<and> convertStringToTime (convertTimeToString t) = None"
proof (intro conjI allI impI)
  fix h m s :: nat
  assume "h < 24" "m < 60" "s < 60"
  then have "digits_value (two_digits h) = int h" "digits_value (two_digits m) = int m" "digits_value (two_digits s) = int s"
    by (simp_all add: two_digits_value)
  then show "convertStringToTime (two_digits h @ '':'' @ two_digits m @ '':'' @ two_digits s) = Some (int (h * 3600 + m * 60 + s))"
    using \<open>h < 24\<close> \<open>m < 60\<close> \<open>s < 60\<close> get_fields_num[of "two_digits s" 2 0 60 "[]" "[]"]
    by (simp add: convertStringToTime_def get_time_def digits_not_space get_fields_num del: get_fields.simps(3))
next
  have no: "CHR '':'' \<notin> set r \<Longrightarrow> get_fields (Lit (CHR '':'') # fs) r = None" for r fs
    by (cases r) auto
  have "CHR '':'' \<notin> set (convertTimeToString t)"
    using decimal_digits[of "nat t"] decimal_digits[of "nat (- t)"] by (auto simp: convertTimeToString_def list_all_iff)
  then have "CHR '':'' \<notin> set (drop k (dropWhile is_space (convertTimeToString t)))" for k
    by (meson in_set_dropD set_dropWhileD)
  then show "convertStringToTime (convertTimeToString t) = None"
    by (simp add: convertStringToTime_def get_time_def Let_def no del: get_fields.simps(2))
qed

end
