(* ===== verification/Mysql_Statement.thy ===== *)
theory Mysql_Statement
  imports Unique_Owner String_Dates "HOL-Library.AList"
begin

text \<open>
  \<open>mysql_statement.hh\<close> and \<open>mysql_statement.cpp\<close>: connections, the executor, and result sets copied out of the MySQL
  client library. What the library answers is an argument: the code of a query and the stored
  result as a list of fields and rows of cells, \<open>None\<close> for a database null. Reading floating point
  numbers and the time zone are parameters; dates and times are read by the conversions of \<open>string_tool.cpp\<close>,
  \<open>None\<close> where these leave the value unspecified.
\<close>

section \<open>Values\<close>

datatype mysql_type =
    TINY | SHORT | LONG | LONGLONG | FLOAT | DOUBLE | DECIMAL | STRING | VAR_STRING
  | DATE | TIME | DATETIME | YEAR | BLOB | TINY_BLOB | LONG_BLOB | MEDIUM_BLOB | OTHER_TYPE

datatype time_value = Time_Point "int option" | Seconds "int option" | Text string

datatype Level = L_DATE | L_TIME | L_DATETIME | L_YEAR

text \<open>The constructor does not set \<open>level\<close>.\<close>

record MySQLDateTime =
  timeValue :: time_value
  level :: "Level option"

datatype 'f Value =
    V_Int int
  | V_UInt u64
  | V_Double 'f
  | V_Str string
  | V_DateTime MySQLDateTime
  | V_Decimal string

text \<open>What depends on the floating-point type and on the time zone: \<open>std::stod\<close>, with an exception of its own, and \<open>mktime\<close>.\<close>

record 'f readers =
  stod :: "string \<Rightarrow> 'f outcome"
  rd_mktime :: "tm \<Rightarrow> int"

definition MySQLDateTime_ctor :: "'f readers \<Rightarrow> string \<Rightarrow> Level \<Rightarrow> MySQLDateTime" where
  "MySQLDateTime_ctor rd v lv =
     \<lparr>timeValue = (case lv of
          L_DATE \<Rightarrow> Time_Point (convertStringToDate (rd_mktime rd) v)
        | L_TIME \<Rightarrow> Seconds (convertStringToTime v)
        | L_DATETIME \<Rightarrow> Text v
        | L_YEAR \<Rightarrow> Text v),
      level = None\<rparr>"

text \<open>\<open>std::stoll\<close>: white space, a sign, digits; what follows is ignored.\<close>

definition stoll :: "string \<Rightarrow> int outcome" where
  "stoll str =
     (let s = dropWhile is_space str;
          neg = (s \<noteq> [] \<and> hd s = CHR ''-'');
          t = (if s \<noteq> [] \<and> (hd s = CHR ''-'' \<or> hd s = CHR ''+'') then tl s else s);
          ds = takeWhile is_digit t;
          v = (if neg then - digits_value ds else digits_value ds)
      in if ds = [] then Inl (Thrown ''std::invalid_argument'')
         else if v < - (2 ^ 63) \<or> v \<ge> 2 ^ 63 then Inl (Thrown ''std::out_of_range'')
         else Inr v)"

text \<open>A value that has been moved from: numbers stay, strings are left empty.\<close>

fun moved_from :: "'f Value \<Rightarrow> 'f Value" where
  "moved_from (V_Str s) = V_Str []"
| "moved_from (V_Decimal s) = V_Decimal []"
| "moved_from (V_DateTime d) = V_DateTime (case timeValue d of Text _ \<Rightarrow> d\<lparr>timeValue := Text []\<rparr> | _ \<Rightarrow> d)"
| "moved_from v = v"

section \<open>Copying a result set\<close>

text \<open>
  The switch over the column type; a type it does not name leaves the variable as it was, moved from
  after the column before.
\<close>

fun cell_value :: "'f readers \<Rightarrow> mysql_type \<Rightarrow> string \<Rightarrow> 'f Value \<Rightarrow> 'f Value outcome" where
  "cell_value rd ty buffer prev =
     (if ty \<in> {TINY, SHORT, LONG, LONGLONG} then bind_out (stoll buffer) (\<lambda>i. Inr (V_Int i))
      else if ty \<in> {FLOAT, DOUBLE} then bind_out (stod rd buffer) (\<lambda>d. Inr (V_Double d))
      else if ty = DECIMAL then Inr (V_Decimal buffer)
      else if ty \<in> {STRING, VAR_STRING} then Inr (V_Str buffer)
      else if ty = DATE then Inr (V_DateTime (MySQLDateTime_ctor rd buffer L_DATE))
      else if ty = TIME then Inr (V_DateTime (MySQLDateTime_ctor rd buffer L_TIME))
      else if ty = DATETIME then Inr (V_DateTime (MySQLDateTime_ctor rd buffer L_DATETIME))
      else if ty = YEAR then Inr (V_DateTime (MySQLDateTime_ctor rd buffer L_YEAR))
      else if ty \<in> {BLOB, TINY_BLOB, LONG_BLOB, MEDIUM_BLOB} then Inr (V_Str buffer)
      else Inr prev)"

declare cell_value.simps [simp del]

fun cover_row ::
  "'f readers \<Rightarrow> (mysql_type \<times> bytes option) list \<Rightarrow> 'f Value \<Rightarrow> ('f Value list \<times> 'f Value) outcome" where
  "cover_row rd [] v = Inr ([], v)"
| "cover_row rd ((ty, cell) # cs) v =
     bind_out (cell_value rd ty (case cell of None \<Rightarrow> [] | Some s \<Rightarrow> s) v) (\<lambda>v'.
     bind_out (cover_row rd cs (moved_from v')) (\<lambda>(row, v''). Inr (v' # row, v'')))"

fun cover_rows ::
  "'f readers \<Rightarrow> mysql_type list \<Rightarrow> bytes option list list \<Rightarrow> 'f Value \<Rightarrow> 'f Value list list outcome" where
  "cover_rows rd tys [] v = Inr []"
| "cover_rows rd tys (r # rs) v =
     bind_out (cover_row rd (zip tys r) v) (\<lambda>(row, v').
     bind_out (cover_rows rd tys rs v') (\<lambda>rows. Inr (row # rows)))"

record MYSQL_RES =
  res_fields :: "(string \<times> mysql_type) list"
  res_rows :: "bytes option list list"

text \<open>The map of names is an association list; the order in which it is iterated does not matter below.\<close>

record 'f MySQLResult =
  fieldMap :: "(string \<times> nat) list"
  rows :: "'f Value list list"

definition MySQLResult_ctor_empty :: "'f MySQLResult" where
  "MySQLResult_ctor_empty = \<lparr>fieldMap = [], rows = []\<rparr>"

definition field_map :: "string list \<Rightarrow> (string \<times> nat) list" where
  "field_map names = fold (\<lambda>(i, n) m. AList.update n i m) (enumerate 0 names) []"

definition MySQLResult_cover :: "'f readers \<Rightarrow> MYSQL_RES \<Rightarrow> 'f MySQLResult outcome" where
  "MySQLResult_cover rd res =
     bind_out (cover_rows rd (map snd (res_fields res)) (res_rows res) (V_Int 0)) (\<lambda>rs.
     Inr \<lparr>fieldMap = field_map (map fst (res_fields res)), rows = rs\<rparr>)"

definition MySQLResult_fieldPos :: "string \<Rightarrow> 'f MySQLResult \<Rightarrow> int" where
  "MySQLResult_fieldPos n r = (case map_of (fieldMap r) n of None \<Rightarrow> -1 | Some i \<Rightarrow> int i)"

definition MySQLResult_fields :: "'f MySQLResult \<Rightarrow> string list outcome" where
  "MySQLResult_fields r =
     (if fieldMap r = [] then Inr []
      else fold_out (\<lambda>(n, i) v. if i < length v then Inr (v[i := n]) else Inl Out_Of_Range) (fieldMap r)
             (replicate (length (fieldMap r)) []))"

definition MySQLResult_fetchOneRow :: "'f MySQLResult \<Rightarrow> ('f Value list \<times> 'f MySQLResult) outcome" where
  "MySQLResult_fetchOneRow r =
     (case rows r of [] \<Rightarrow> Inl Out_Of_Range | row # rs \<Rightarrow> Inr (row, r\<lparr>rows := rs\<rparr>))"

definition MySQLResult_hasNextRow :: "'f MySQLResult \<Rightarrow> bool" where
  "MySQLResult_hasNextRow r \<longleftrightarrow> rows r \<noteq> []"

definition MySQLResult_move_assign :: "'f MySQLResult \<Rightarrow> 'f MySQLResult \<times> 'f MySQLResult" where
  "MySQLResult_move_assign other = (\<lparr>fieldMap = fieldMap other, rows = rows other\<rparr>, MySQLResult_ctor_empty)"

definition MySQLResult_ctor :: "'f readers \<Rightarrow> MYSQL_RES \<Rightarrow> 'f MySQLResult outcome" where
  "MySQLResult_ctor rd mysqlResult = MySQLResult_cover rd mysqlResult"

text \<open>The copy assignment moves from constant members, which copies them.\<close>

definition MySQLResult_copy_assign :: "'f MySQLResult \<Rightarrow> 'f MySQLResult \<Rightarrow> 'f MySQLResult \<times> 'f MySQLResult" where
  "MySQLResult_copy_assign self other = (self\<lparr>fieldMap := fieldMap other, rows := rows other\<rparr>, other)"

section \<open>Connections and the executor\<close>

record MySQLConn =
  my_handle :: "nat option"

definition MySQLConn_move_ctor :: "MySQLConn \<Rightarrow> MySQLConn \<times> MySQLConn" where
  "MySQLConn_move_ctor other = (\<lparr>my_handle = my_handle other\<rparr>, other\<lparr>my_handle := None\<rparr>)"

text \<open>Handles given to \<open>mysql_close\<close> are returned first.\<close>

definition MySQLConn_close :: "MySQLConn \<Rightarrow> nat list \<times> MySQLConn" where
  "MySQLConn_close c = (case my_handle c of None \<Rightarrow> ([], c) | Some h \<Rightarrow> ([h], c\<lparr>my_handle := None\<rparr>))"

definition MySQLConn_move_assign :: "MySQLConn \<Rightarrow> MySQLConn \<Rightarrow> nat list \<times> MySQLConn \<times> MySQLConn" where
  "MySQLConn_move_assign self other =
     (fst (MySQLConn_close self), \<lparr>my_handle = my_handle other\<rparr>, other\<lparr>my_handle := None\<rparr>)"

definition MySQLConn_ctor :: "nat option \<Rightarrow> MySQLConn" where
  "MySQLConn_ctor mysql_init = \<lparr>my_handle = mysql_init\<rparr>"

definition MySQLConn_ctor_handle :: "nat option \<Rightarrow> MySQLConn" where
  "MySQLConn_ctor_handle handle = \<lparr>my_handle = handle\<rparr>"

definition MySQLConn_dtor :: "MySQLConn \<Rightarrow> nat list" where
  "MySQLConn_dtor c = fst (MySQLConn_close c)"

interpretation my_conn: unique_owner "\<lambda>c. pointee (my_handle c)" "\<lambda>_. True" "\<lambda>h. MySQLConn_ctor (Some h)" MySQLConn_dtor MySQLConn_move_ctor MySQLConn_move_assign
  by unfold_locales
    (auto simp: MySQLConn_dtor_def MySQLConn_close_def MySQLConn_ctor_def MySQLConn_move_ctor_def MySQLConn_move_assign_def split: option.splits)

definition MySQLConn_valid :: "MySQLConn \<Rightarrow> bool" where
  "MySQLConn_valid c \<longleftrightarrow> my_handle c \<noteq> None"

definition MySQLConn_handle :: "MySQLConn \<Rightarrow> nat option" where
  "MySQLConn_handle c = my_handle c"

record my_login =
  my_host :: string
  my_user :: string
  my_pswd :: string
  my_db :: string
  my_port :: u32

text \<open>\<open>mysql_real_connect\<close> answers the handle, or null when the connection fails.\<close>

definition MySQLConn_connect :: "(nat option \<Rightarrow> my_login \<Rightarrow> nat option) \<Rightarrow> my_login \<Rightarrow> MySQLConn \<Rightarrow> bool" where
  "MySQLConn_connect real_connect login c \<longleftrightarrow> real_connect (my_handle c) login \<noteq> None"

text \<open>The executor keeps a pointer to the connection.\<close>

definition MySQLConn_executor :: "MySQLConn \<Rightarrow> MySQLConn option" where
  "MySQLConn_executor c = Some c"

definition MySQLConn_take_handle :: "MySQLConn \<Rightarrow> nat option \<times> MySQLConn" where
  "MySQLConn_take_handle c = (my_handle c, c\<lparr>my_handle := None\<rparr>)"

definition MySQLExecutor_executeNoReturn :: "(nat \<Rightarrow> int) \<Rightarrow> MySQLConn option \<Rightarrow> int" where
  "MySQLExecutor_executeNoReturn query conn =
     (case conn of None \<Rightarrow> -1
      | Some c \<Rightarrow> (case my_handle c of None \<Rightarrow> -1 | Some h \<Rightarrow> query h))"

text \<open>
  \<open>onResult\<close>, when there is one, is given the copied result or null, and changes the user's state. \<open>return {}\<close>
  is \<open>return 0\<close>.
\<close>

definition MySQLExecutor_execute ::
  "'f readers \<Rightarrow> (nat \<Rightarrow> int) \<Rightarrow> (nat \<Rightarrow> MYSQL_RES option) \<Rightarrow> ('f MySQLResult option \<Rightarrow> 's \<Rightarrow> 's) option
     \<Rightarrow> MySQLConn option \<Rightarrow> 's \<Rightarrow> (int \<times> 's) outcome" where
  "MySQLExecutor_execute rd query store onResult conn s =
     (case conn of None \<Rightarrow> Inr (-1, s)
      | Some c \<Rightarrow>
          (case my_handle c of None \<Rightarrow> Inr (-1, s)
           | Some h \<Rightarrow>
               if query h \<noteq> 0 then Inr (0, s)
               else (case onResult of
                       None \<Rightarrow> Inr (0, s)
                     | Some f \<Rightarrow>
                         (case store h of
                            None \<Rightarrow> Inr (0, f None s)
                          | Some res \<Rightarrow> bind_out (MySQLResult_cover rd res) (\<lambda>r. Inr (0, f (Some r) s))))))"

section \<open>Names of fields\<close>

lemma update_new: "k \<notin> fst ` set al \<Longrightarrow> AList.update k v al = al @ [(k, v)]"
  by (induction al) auto

lemma field_map_snoc: "field_map (ns @ [n]) = AList.update n (length ns) (field_map ns)"
  by (simp add: field_map_def enumerate_append_eq)

lemma field_map_keys: "distinct (map fst (field_map ns))" "fst ` set (field_map ns) = set ns"
proof (induction ns rule: rev_induct)
  case Nil
  case 1 show ?case by (simp add: field_map_def)
  case 2 show ?case by (simp add: field_map_def)
next
  case (snoc n ns)
  case 1 show ?case using snoc(1) by (simp add: field_map_snoc distinct_update)
  case 2 show ?case using snoc(2) by (simp add: field_map_snoc dom_update)
qed

lemma field_map_length: "length (field_map ns) = card (set ns)"
  using field_map_keys[of ns] distinct_card[of "map fst (field_map ns)"] by simp

lemma field_map_last: "ns \<noteq> [] \<Longrightarrow> map_of (field_map ns) (last ns) = Some (length ns - 1)"
  by (cases ns rule: rev_cases) (simp_all add: field_map_snoc update_conv')

lemma field_map_distinct: "distinct ns \<Longrightarrow> field_map ns = zip ns [0..<length ns]"
proof (induction ns rule: rev_induct)
  case (snoc n ns)
  have "n \<notin> fst ` set (field_map ns)" using snoc.prems field_map_keys(2)[of ns] by simp
  then show ?case using snoc update_new[of n "field_map ns" "length ns"] by (simp add: field_map_snoc)
qed (simp add: field_map_def)

definition put_name :: "string \<times> nat \<Rightarrow> string list \<Rightarrow> string list outcome" where
  "put_name = (\<lambda>(n, i) v. if i < length v then Inr (v[i := n]) else Inl Out_Of_Range)"

lemma put_names_all:
  "length pre = k \<Longrightarrow> fold_out put_name (zip ns [k..<k + length ns]) (pre @ replicate (length ns) []) = Inr (pre @ ns)"
proof (induction ns arbitrary: pre k)
  case (Cons n ns)
  have "[k..<k + length (n # ns)] = k # [Suc k..<Suc k + length ns]" by (simp add: upt_conv_Cons del: upt_Suc)
  moreover have "put_name (n, k) (pre @ replicate (length (n # ns)) []) = Inr ((pre @ [n]) @ replicate (length ns) [])"
    using Cons.prems by (simp add: put_name_def list_update_append)
  ultimately show ?case using Cons.IH[of "pre @ [n]" "Suc k"] Cons.prems by simp
qed simp

lemma put_names_out: "\<exists>(n, i) \<in> set l. length v \<le> i \<Longrightarrow> fold_out put_name l v = Inl Out_Of_Range"
proof (induction l arbitrary: v)
  case (Cons x l)
  obtain n i where x: "x = (n, i)" by (cases x)
  show ?case
  proof (cases "i < length v")
    case True
    then have "\<exists>(n, j) \<in> set l. length (v[i := n]) \<le> j" using Cons.prems x by auto
    then have "fold_out put_name l (v[i := n]) = Inl Out_Of_Range" using Cons.IH[of "v[i := n]"] by auto
    then show ?thesis using True x by (simp add: put_name_def)
  qed (simp add: x put_name_def)
qed simp

lemma fields_names:
  "MySQLResult_fields \<lparr>fieldMap = field_map ns, rows = rs\<rparr> = (if distinct ns then Inr ns else Inl Out_Of_Range)"
proof (cases "distinct ns")
  case True
  then show ?thesis
    using put_names_all[of "[]" 0 ns] field_map_length[of ns] distinct_card[OF True]
    by (auto simp: MySQLResult_fields_def field_map_distinct put_name_def)
next
  case False
  then have ne: "ns \<noteq> []" by auto
  have "card (set ns) < length ns"
    using False card_length[of ns] card_distinct[of ns] by linarith
  then have "length (field_map ns) \<le> length ns - 1" by (simp add: field_map_length)
  moreover have "(last ns, length ns - 1) \<in> set (field_map ns)" using field_map_last[OF ne] by (rule map_of_SomeD)
  ultimately have "fold_out put_name (field_map ns) (replicate (length (field_map ns)) []) = Inl Out_Of_Range"
    by (intro put_names_out) auto
  moreover have "field_map ns \<noteq> []" using field_map_last[OF ne] by auto
  ultimately show ?thesis using False by (simp add: MySQLResult_fields_def put_name_def)
qed

section \<open>Values of rows\<close>

definition plain_cell :: "'f readers \<Rightarrow> mysql_type \<Rightarrow> bytes option \<Rightarrow> 'f Value \<Rightarrow> bool" where
  "plain_cell rd ty cell v \<longleftrightarrow> ty \<noteq> OTHER_TYPE \<and> cell_value rd ty (case cell of None \<Rightarrow> [] | Some s \<Rightarrow> s) (V_Int 0) = Inr v"

lemma cell_value_prev: "ty \<noteq> OTHER_TYPE \<Longrightarrow> cell_value rd ty s v = cell_value rd ty s w"
  by (cases ty) (simp_all add: cell_value.simps)

lemma cover_row_plain:
  assumes "list_all2 (\<lambda>(ty, cell) v. plain_cell rd ty cell v) cs row"
  shows "\<exists>w'. cover_row rd cs w = Inr (row, w')"
  using assms
proof (induction cs row arbitrary: w rule: list_all2_induct)
  case (Cons x xs v vs)
  obtain ty cell where x: "x = (ty, cell)" by (cases x)
  then have "cell_value rd ty (case cell of None \<Rightarrow> [] | Some s \<Rightarrow> s) w = Inr v"
    using Cons(1) cell_value_prev[of ty rd _ w "V_Int 0"] by (auto simp: plain_cell_def)
  then show ?case using Cons(3)[of "moved_from v"] x by auto
qed simp

lemma cover_rows_plain:
  assumes "list_all2 (\<lambda>r row. list_all2 (\<lambda>(ty, cell) v. plain_cell rd ty cell v) (zip tys r) row) rs out"
  shows "cover_rows rd tys rs w = Inr out"
  using assms
proof (induction rs out arbitrary: w rule: list_all2_induct)
  case (Cons r rs row out)
  then obtain w' where "cover_row rd (zip tys r) w = Inr (row, w')" using cover_row_plain by blast
  then show ?case using Cons(3)[of w'] by simp
qed simp

fun fetch_all :: "nat \<Rightarrow> 'f MySQLResult \<Rightarrow> 'f Value list list outcome" where
  "fetch_all 0 r = Inr []"
| "fetch_all (Suc n) r = bind_out (MySQLResult_fetchOneRow r) (\<lambda>(row, r'). bind_out (fetch_all n r') (\<lambda>rs. Inr (row # rs)))"

lemma fetch_all_rows: "fetch_all (length (rows r)) r = Inr (rows r)"
proof (induction "rows r" arbitrary: r)
  case (Cons row rs)
  then show ?case using Cons(1)[of "r\<lparr>rows := rs\<rparr>"] Cons(2)[symmetric] by (simp add: MySQLResult_fetchOneRow_def)
qed simp

text \<open>
  Property C36. Copying a result set. When the columns are of the types the switch names and their
  texts can be read, the copy holds one value per cell, the value of that cell alone, and fetching row after row
  returns them in order until \<open>hasNextRow\<close> is false, after which \<open>fetchOneRow\<close> reads an empty deque. If the names are
  distinct, \<open>fields\<close> returns them in order and \<open>fieldPos\<close> their positions; if two columns share a
  name, \<open>fields\<close> writes outside its vector.
\<close>

theorem MySQLResult_copies:
  assumes "list_all2 (\<lambda>r row. list_all2 (\<lambda>(ty, cell) v. plain_cell rd ty cell v) (zip (map snd (res_fields res)) r) row)
      (res_rows res) out"
  shows "\<exists>r. MySQLResult_cover rd res = Inr r
     \<and> fetch_all (length out) r = Inr out
     \<and> (MySQLResult_hasNextRow r \<longleftrightarrow> out \<noteq> [])
     \<and> (out = [] \<longrightarrow> MySQLResult_fetchOneRow r = Inl Out_Of_Range)
     \<and> MySQLResult_fields r =
         (if distinct (map fst (res_fields res)) then Inr (map fst (res_fields res)) else Inl Out_Of_Range)
     \<and> (distinct (map fst (res_fields res)) \<longrightarrow>
          (\<forall>i < length (res_fields res). MySQLResult_fieldPos (fst (res_fields res ! i)) r = int i))
     \<and> (\<forall>n. n \<notin> fst ` set (res_fields res) \<longrightarrow> MySQLResult_fieldPos n r = -1)"
proof -
  let ?ns = "map fst (res_fields res)"
  let ?r = "\<lparr>fieldMap = field_map ?ns, rows = out\<rparr>"
  have "MySQLResult_cover rd res = Inr ?r"
    using cover_rows_plain[OF assms] by (simp add: MySQLResult_cover_def)
  moreover have "MySQLResult_fieldPos (?ns ! i) ?r = int i" if "distinct ?ns" "i < length (res_fields res)" for i
    using that map_of_zip_nth[of ?ns "[0..<length ?ns]" i] by (simp add: MySQLResult_fieldPos_def field_map_distinct)
  moreover have "map_of (field_map ?ns) n = None" if "n \<notin> fst ` set (res_fields res)" for n
    using that field_map_keys(2)[of ?ns] by (simp add: map_of_eq_None_iff)
  ultimately show ?thesis
    using fetch_all_rows[of ?r] fields_names[of ?ns out]
    by (intro exI[of _ ?r])
      (auto simp: MySQLResult_hasNextRow_def MySQLResult_fetchOneRow_def MySQLResult_fieldPos_def)
qed

definition demo_readers :: "unit readers" where
  "demo_readers = \<lparr>stod = (\<lambda>_. Inr ()), rd_mktime = (\<lambda>_. 0)\<rparr>"

theorem MySQLResult_copies_witness:
  "\<exists>r. MySQLResult_cover demo_readers \<lparr>res_fields = [(''id'', LONG), (''id'', STRING)], res_rows = [[Some ''-42'', Some ''x'']]\<rparr> = Inr r
     \<and> fetch_all 1 r = Inr [[V_Int (-42), V_Str ''x'']] \<and> MySQLResult_fields r = Inl Out_Of_Range"
proof -
  let ?res = "\<lparr>res_fields = [(''id'', LONG), (''id'', STRING)], res_rows = [[Some ''-42'', Some ''x'']]\<rparr>"
  have "stoll ''-42'' = Inr (-42)" by code_simp
  then have "list_all2 (\<lambda>r row. list_all2 (\<lambda>(ty, cell) v. plain_cell demo_readers ty cell v) (zip (map snd (res_fields ?res)) r) row)
      (res_rows ?res) [[V_Int (-42), V_Str ''x'']]"
    by (simp add: plain_cell_def cell_value.simps)
  from MySQLResult_copies[OF this] show ?thesis by auto
qed

text \<open>
  What goes wrong without notice or with an exception: a failed query is answered with 0 and the
  callback is not called; a database null in an integer column, and an unsigned number of \<open>2 ^ 63\<close> or
  more, throw; a column of a type the switch does not name repeats the number before it.
\<close>

theorem MySQL_silent_errors:
  "(query h \<noteq> 0 \<longrightarrow> MySQLExecutor_execute rd query st cb (Some \<lparr>my_handle = Some h\<rparr>) s = Inr (0, s))
   \<and> cover_row rd [(LONG, None)] v = Inl (Thrown ''std::invalid_argument'')
   \<and> cover_row rd [(LONGLONG, Some ''9223372036854775808'')] v = Inl (Thrown ''std::out_of_range'')
   \<and> cover_row rd [(LONG, Some ''7''), (OTHER_TYPE, Some ''9.5'')] v = Inr ([V_Int 7, V_Int 7], V_Int 7)"
proof -
  have "stoll [] = Inl (Thrown ''std::invalid_argument'')"
    "stoll ''9223372036854775808'' = Inl (Thrown ''std::out_of_range'')" "stoll ''7'' = Inr 7" by code_simp+
  then show ?thesis by (simp add: MySQLExecutor_execute_def cell_value.simps)
qed

text \<open>A connection is closed once by its last owner, through moves and \<open>take_handle\<close>.\<close>

theorem MySQLConn_owned_once:
  "let (b, a') = MySQLConn_move_ctor a in
     fst (MySQLConn_close b) @ fst (MySQLConn_close a') = fst (MySQLConn_close a)
     \<and> fst (MySQLConn_close (snd (MySQLConn_close b))) = []
     \<and> fst (MySQLConn_close (snd (MySQLConn_take_handle a))) = []
     \<and> (let (cl, c, a'') = MySQLConn_move_assign self a in
          cl @ fst (MySQLConn_close c) @ fst (MySQLConn_close a'') = fst (MySQLConn_close self) @ fst (MySQLConn_close a))"
  by (cases a; cases self)
    (simp add: MySQLConn_move_ctor_def MySQLConn_close_def MySQLConn_take_handle_def MySQLConn_move_assign_def split: option.splits)

section \<open>The life of a connection\<close>

text \<open>
  A connection made by \<open>mysql_init\<close> is closed once, when it is destroyed, unless its handle was taken; whether \<open>connect\<close> succeeded does
  not matter. After \<open>close\<close>, \<open>take_handle\<close> or a move the executor of the object answers -1 and queries nothing.
\<close>

theorem MySQLConn_life:
  assumes "c' \<in> {snd (MySQLConn_close c), snd (MySQLConn_take_handle c), snd (MySQLConn_move_ctor c)}"
  shows "MySQLConn_dtor (MySQLConn_ctor (Some h)) = [h] \<and> \<not> MySQLConn_valid c' \<and> MySQLConn_dtor c' = []
     \<and> MySQLExecutor_executeNoReturn query (MySQLConn_executor c') = -1
     \<and> MySQLExecutor_execute rd query store onResult (MySQLConn_executor c') s = Inr (-1, s)
     \<and> fst (MySQLConn_close c) @ MySQLConn_dtor (snd (MySQLConn_close c)) = MySQLConn_dtor c"
proof -
  have "my_handle c' = None"
    using assms by (auto simp: MySQLConn_close_def MySQLConn_take_handle_def MySQLConn_move_ctor_def split: option.splits)
  then show ?thesis
    by (simp add: MySQLConn_dtor_def MySQLConn_close_def MySQLConn_ctor_def MySQLConn_valid_def MySQLExecutor_executeNoReturn_def
        MySQLConn_executor_def MySQLExecutor_execute_def split: option.splits)
qed

end
