(* ===== verification/Posix_Signal.thy ===== *)
theory Posix_Signal
  imports Andren_Prelude
begin

text \<open>
  \<open>signal.hh\<close> and \<open>signal.cpp\<close>: named and unnamed POSIX semaphores and the borrowing wrapper \<open>PosixSignal\<close>. Semaphores are
  numbers in a store of values; what \<open>sem_open\<close>, \<open>sem_init\<close> and the clocks answer is an argument. The two
  deadline computations are done at their width.
\<close>

section \<open>Handles\<close>

type_synonym sem = nat

record PosixNamedSignal =
  n_sem :: "sem option"
  n_name :: string

datatype sem_effect = Sem_Unlink string | Sem_Close sem | Sem_Destroy sem | Report_Error

definition PosixNamedSignal_ctor :: PosixNamedSignal where
  "PosixNamedSignal_ctor = \<lparr>n_sem = None, n_name = []\<rparr>"

definition PosixNamedSignal_unlink :: "PosixNamedSignal \<Rightarrow> sem_effect list" where
  "PosixNamedSignal_unlink s = (case n_sem s of None \<Rightarrow> [] | Some _ \<Rightarrow> [Sem_Unlink (n_name s)])"

definition PosixNamedSignal_dtor :: "PosixNamedSignal \<Rightarrow> sem_effect list" where
  "PosixNamedSignal_dtor s = PosixNamedSignal_unlink s"

definition PosixNamedSignal_move_ctor :: "PosixNamedSignal \<Rightarrow> PosixNamedSignal \<times> PosixNamedSignal" where
  "PosixNamedSignal_move_ctor other = (\<lparr>n_sem = n_sem other, n_name = n_name other\<rparr>, PosixNamedSignal_ctor)"

definition PosixNamedSignal_move_assign ::
  "PosixNamedSignal \<Rightarrow> PosixNamedSignal \<Rightarrow> sem_effect list \<times> PosixNamedSignal \<times> PosixNamedSignal" where
  "PosixNamedSignal_move_assign self other =
     (PosixNamedSignal_unlink self, \<lparr>n_sem = n_sem other, n_name = n_name other\<rparr>, PosixNamedSignal_ctor)"

text \<open>\<open>SEM_FAILED\<close> is the null pointer here: a failed open with a handler answers true.\<close>

definition PosixNamedSignal_open ::
  "sem option \<Rightarrow> string \<Rightarrow> bool \<Rightarrow> PosixNamedSignal \<Rightarrow> bool \<times> sem_effect list \<times> PosixNamedSignal" where
  "PosixNamedSignal_open ret name has_handler s =
     (case ret of
        None \<Rightarrow> if has_handler then (True, [Report_Error], s\<lparr>n_sem := None, n_name := name\<rparr>)
                else (False, [Sem_Unlink name], s\<lparr>n_sem := None\<rparr>)
      | Some p \<Rightarrow> (True, [], s\<lparr>n_sem := Some p, n_name := name\<rparr>))"

text \<open>Which form of \<open>sem_open\<close> is called: without mode and value if one of them has the default.\<close>

definition open_creates :: "u32 \<Rightarrow> u32 \<Rightarrow> bool" where
  "open_creates mode value \<longleftrightarrow> \<not> (mode = - 1 \<or> value = - 1)"

definition PosixNamedSignal_close :: "PosixNamedSignal \<Rightarrow> sem_effect list" where
  "PosixNamedSignal_close s = (case n_sem s of None \<Rightarrow> [] | Some p \<Rightarrow> [Sem_Close p])"

record PosixUnnamedSignal =
  u_sem :: "sem option"

definition PosixUnnamedSignal_ctor :: "sem \<Rightarrow> int \<Rightarrow> PosixUnnamedSignal" where
  "PosixUnnamedSignal_ctor fresh ret = \<lparr>u_sem = if ret \<noteq> 0 then None else Some fresh\<rparr>"

definition PosixUnnamedSignal_dtor :: "PosixUnnamedSignal \<Rightarrow> sem_effect list" where
  "PosixUnnamedSignal_dtor s = (case u_sem s of None \<Rightarrow> [] | Some p \<Rightarrow> [Sem_Destroy p])"

text \<open>
  The move constructor tests a pointer that was never set and copies the semaphore to where it points:
  defined only if the memory happened to hold null and the source has a semaphore. The assignment copies the
  size of a semaphore over a member that is a pointer.
\<close>

definition PosixUnnamedSignal_move_ctor ::
  "sem option \<Rightarrow> sem \<Rightarrow> PosixUnnamedSignal \<Rightarrow> (PosixUnnamedSignal \<times> PosixUnnamedSignal) outcome" where
  "PosixUnnamedSignal_move_ctor unset fresh other =
     (case unset of
        Some _ \<Rightarrow> Inl Out_Of_Range
      | None \<Rightarrow> (case u_sem other of
                   None \<Rightarrow> Inl Null_Deref
                 | Some _ \<Rightarrow> Inr (\<lparr>u_sem = Some fresh\<rparr>, \<lparr>u_sem = None\<rparr>)))"

definition PosixUnnamedSignal_move_assign ::
  "PosixUnnamedSignal \<Rightarrow> PosixUnnamedSignal \<Rightarrow> (PosixUnnamedSignal \<times> PosixUnnamedSignal) outcome" where
  "PosixUnnamedSignal_move_assign self other = Inl Out_Of_Range"

section \<open>The borrowing wrapper\<close>

datatype PosixSigHandle = Named PosixNamedSignal | Unnamed PosixUnnamedSignal

definition PosixSigHandle_sem :: "PosixSigHandle \<Rightarrow> sem option" where
  "PosixSigHandle_sem h = (case h of Named s \<Rightarrow> n_sem s | Unnamed s \<Rightarrow> u_sem s)"

definition typeno :: "PosixSigHandle \<Rightarrow> int" where
  "typeno h = (case h of Named _ \<Rightarrow> 1 | Unnamed _ \<Rightarrow> 2)"

record PosixSignal =
  ps_handle :: "PosixSigHandle option"
  ps_type :: int

definition PosixSignal_ctor :: PosixSignal where
  "PosixSignal_ctor = \<lparr>ps_handle = None, ps_type = 0\<rparr>"

definition PosixSignal_move_ctor :: "PosixSignal \<Rightarrow> PosixSignal \<times> PosixSignal" where
  "PosixSignal_move_ctor other = (\<lparr>ps_handle = ps_handle other, ps_type = ps_type other\<rparr>, PosixSignal_ctor)"

definition PosixSignal_move_assign :: "PosixSignal \<Rightarrow> PosixSignal \<Rightarrow> PosixSignal \<times> PosixSignal" where
  "PosixSignal_move_assign self other = (self, other)"

definition PosixSignal_borrow_by :: "PosixSigHandle option \<Rightarrow> PosixSignal \<Rightarrow> PosixSignal" where
  "PosixSignal_borrow_by h s = s\<lparr>ps_handle := h\<rparr>"

definition PosixSignal_valid :: "PosixSignal \<Rightarrow> bool outcome" where
  "PosixSignal_valid s =
     (case ps_handle s of None \<Rightarrow> Inl Null_Deref | Some h \<Rightarrow> Inr (PosixSigHandle_sem h \<noteq> None))"

text \<open>The semaphore a call works on: both the wrapper's pointer and the handle's are used without a test.\<close>

definition the_sem :: "PosixSignal \<Rightarrow> sem outcome" where
  "the_sem s =
     (case ps_handle s of None \<Rightarrow> Inl Null_Deref
      | Some h \<Rightarrow> (case PosixSigHandle_sem h of None \<Rightarrow> Inl Null_Deref | Some p \<Rightarrow> Inr p))"

type_synonym sem_store = "sem \<Rightarrow> nat"

definition SEM_VALUE_MAX :: nat where "SEM_VALUE_MAX = 2147483647"

text \<open>A wait on a semaphore of value 0 blocks, \<open>None\<close>.\<close>

definition PosixSignal_wait :: "PosixSignal \<Rightarrow> sem_store \<Rightarrow> (int \<times> sem_store) outcome option" where
  "PosixSignal_wait s m =
     (case the_sem s of
        Inl e \<Rightarrow> Some (Inl e)
      | Inr p \<Rightarrow> if m p = 0 then None else Some (Inr (0, m(p := m p - 1))))"

definition PosixSignal_tryWait :: "PosixSignal \<Rightarrow> sem_store \<Rightarrow> (int \<times> sem_store) outcome" where
  "PosixSignal_tryWait s m =
     bind_out (the_sem s) (\<lambda>p. if m p = 0 then Inr (-1, m) else Inr (0, m(p := m p - 1)))"

definition PosixSignal_post :: "PosixSignal \<Rightarrow> sem_store \<Rightarrow> (int \<times> sem_store) outcome" where
  "PosixSignal_post s m =
     bind_out (the_sem s) (\<lambda>p. if m p = SEM_VALUE_MAX then Inr (-1, m) else Inr (0, m(p := m p + 1)))"

definition PosixSignal_value :: "PosixSignal \<Rightarrow> sem_store \<Rightarrow> nat outcome" where
  "PosixSignal_value s m = bind_out (the_sem s) (\<lambda>p. Inr (m p))"

section \<open>Deadlines\<close>

text \<open>
  \<open>timeWait\<close>: seconds and nanoseconds of the clock have 64 bits, \<open>msec * 1000 * 1000\<close> is computed in 32 bits and then
  extended.
\<close>

definition timeWait_deadline :: "int \<Rightarrow> int \<Rightarrow> u32 \<Rightarrow> u64 \<times> u64" where
  "timeWait_deadline tv_sec tv_nsec msec =
     (let nsec = word_of_int tv_sec * 1000 * 1000 * 1000 + word_of_int tv_nsec + (scast (msec * 1000 * 1000) :: u64)
      in (nsec div 1000000000, nsec mod 1000000000))"

text \<open>\<open>clockWait\<close> adds seconds and nanoseconds apart; there is no carry.\<close>

definition clockWait_deadline :: "int \<Rightarrow> int \<Rightarrow> u32 \<Rightarrow> int \<times> int" where
  "clockWait_deadline tv_sec tv_nsec msec =
     (tv_sec + uint (msec div 1000), tv_nsec + uint ((msec mod 1000) * 1000 * 1000))"

lemma sint_of_small: "- (2 ^ 31) \<le> k \<Longrightarrow> k < 2 ^ 31 \<Longrightarrow> sint (word_of_int k :: u32) = k"
  by (subst signed_of_int) (simp add: signed_take_bit_int_eq_self)

lemma timeWait_word:
  assumes "- (2 ^ 31) \<le> ms * 1000000 + k * 2 ^ 32" and "ms * 1000000 + k * 2 ^ 32 < 2 ^ 31"
  shows "timeWait_deadline s n (word_of_int ms) =
     (let t = word_of_int (s * 1000000000 + n + (ms * 1000000 + k * 2 ^ 32)) :: u64 in (t div 1000000000, t mod 1000000000))"
proof -
  have z: "(4294967296 :: u32) = 0" using word_exp_length_eq_0[where 'a = 32] by simp
  have "(word_of_int ms * 1000 * 1000 :: u32) = word_of_int (ms * 1000000 + k * 2 ^ 32)"
    by (simp add: z)
  then have "scast (word_of_int ms * 1000 * 1000 :: u32) = (word_of_int (ms * 1000000 + k * 2 ^ 32) :: u64)"
    by (simp only: scast_eq sint_of_small[OF assms])
  then show ?thesis by (simp add: timeWait_deadline_def Let_def mult.commute)
qed

lemma uint_of_small: "0 \<le> k \<Longrightarrow> k < 2 ^ 64 \<Longrightarrow> uint (word_of_int k :: u64) = k"
  by (subst unsigned_of_int) (simp add: take_bit_int_eq_self)

lemma split_second:
  assumes "0 \<le> t" and "t < 2 ^ 64"
  shows "uint ((word_of_int t :: u64) div 1000000000) = t div 1000000000"
    and "uint ((word_of_int t :: u64) mod 1000000000) = t mod 1000000000"
  using uint_of_small[OF assms] by (simp_all add: uint_div uint_mod)

text \<open>
  Property C37. Deadlines of timed waits. Up to 2147 milliseconds \<open>timeWait\<close> hands the kernel exactly the
  time of the clock plus the time asked for, as seconds and nanoseconds below a second; for every
  time from 2148 to 4294 milliseconds the 32-bit product has wrapped and the deadline lies before
  the time of the call, so that it does not wait. \<open>clockWait\<close> always adds the right amount in total,
  but hands over a valid number of nanoseconds exactly when no carry into the seconds is needed.
\<close>

theorem PosixSignal_deadlines:
  assumes "0 < s" and "s < 9 * 10 ^ 9" and "0 \<le> n" and "n < 10 ^ 9"
  shows "(0 \<le> ms \<and> ms \<le> 2147 \<longrightarrow>
        (let (ds, dn) = timeWait_deadline s n (word_of_int ms) in
           uint ds * 10 ^ 9 + uint dn = s * 10 ^ 9 + n + ms * 10 ^ 6 \<and> uint dn < 10 ^ 9))
     \<and> (2148 \<le> ms \<and> ms \<le> 4294 \<and> 3 \<le> s \<longrightarrow>
        (let (ds, dn) = timeWait_deadline s n (word_of_int ms) in uint ds * 10 ^ 9 + uint dn < s * 10 ^ 9 + n))
     \<and> (let (ds, dn) = clockWait_deadline s n m in
          ds * 10 ^ 9 + dn = s * 10 ^ 9 + n + uint m * 10 ^ 6
          \<and> (dn < 10 ^ 9 \<longleftrightarrow> n + (uint m mod 1000) * 10 ^ 6 < 10 ^ 9))"
proof (intro conjI impI)
  assume m: "0 \<le> ms \<and> ms \<le> 2147"
  let ?t = "s * 1000000000 + n + ms * 1000000"
  have "timeWait_deadline s n (word_of_int ms) =
      (let t = word_of_int ?t :: u64 in (t div 1000000000, t mod 1000000000))"
    using timeWait_word[of ms 0 s n] m by simp
  moreover have "0 \<le> ?t" "?t < 2 ^ 64" using assms m by simp_all
  ultimately show "let (ds, dn) = timeWait_deadline s n (word_of_int ms) in
      uint ds * 10 ^ 9 + uint dn = s * 10 ^ 9 + n + ms * 10 ^ 6 \<and> uint dn < 10 ^ 9"
    using split_second[of ?t] by (simp add: Let_def del: of_int_add of_int_mult)
next
  assume m: "2148 \<le> ms \<and> ms \<le> 4294 \<and> 3 \<le> s"
  let ?t = "s * 1000000000 + n + (ms * 1000000 + - 1 * 2 ^ 32)"
  have "timeWait_deadline s n (word_of_int ms) =
      (let t = word_of_int ?t :: u64 in (t div 1000000000, t mod 1000000000))"
    using m by (intro timeWait_word) simp_all
  moreover have "0 \<le> ?t" "?t < 2 ^ 64" "?t < s * 1000000000 + n" using assms m by simp_all
  ultimately show "let (ds, dn) = timeWait_deadline s n (word_of_int ms) in
      uint ds * 10 ^ 9 + uint dn < s * 10 ^ 9 + n"
    using split_second[of ?t] by (simp add: Let_def del: of_int_add of_int_mult)
next
  have "uint (m mod 1000) * uint (1000000 :: u32) < 2 ^ LENGTH(32)" by (simp add: uint_mod)
  then have "uint ((m mod 1000) * 1000000) = uint (m mod 1000) * uint (1000000 :: u32)" by (simp only: uint_mult_lem)
  moreover have "(m mod 1000) * 1000 * 1000 = (m mod 1000) * 1000000" by simp
  ultimately have "uint ((m mod 1000) * 1000 * 1000) = (uint m mod 1000) * 1000000"
    by (simp only: uint_mod) simp
  moreover have "uint m div 1000 * 1000000000 + uint m mod 1000 * 1000000 = uint m * 1000000"
    using div_mult_mod_eq[of "uint m" 1000] by linarith
  ultimately show "let (ds, dn) = clockWait_deadline s n m in
          ds * 10 ^ 9 + dn = s * 10 ^ 9 + n + uint m * 10 ^ 6
          \<and> (dn < 10 ^ 9 \<longleftrightarrow> n + (uint m mod 1000) * 10 ^ 6 < 10 ^ 9)"
    by (simp add: clockWait_deadline_def uint_div)
qed

theorem PosixSignal_deadlines_witness:
  "(let (ds, dn) = timeWait_deadline 1700000000 999999999 2147 in uint ds * 10 ^ 9 + uint dn = 1700000003146999999)
   \<and> (let (ds, dn) = timeWait_deadline 1700000000 0 3000 in uint ds * 10 ^ 9 + uint dn < 1700000000 * 10 ^ 9)
   \<and> \<not> snd (clockWait_deadline 1700000000 600000000 500) < 10 ^ 9"
proof -
  have a: "0 < (1700000000 :: int)" "(1700000000 :: int) < 9 * 10 ^ 9" "0 \<le> (999999999 :: int)" "(999999999 :: int) < 10 ^ 9"
    "0 \<le> (0 :: int)" "(0 :: int) < 10 ^ 9" "0 \<le> (600000000 :: int)" "(600000000 :: int) < 10 ^ 9" by simp_all
  have "uint (500 :: u32) = 500" by simp
  then show ?thesis
    using PosixSignal_deadlines[OF a(1,2) a(3,4), of 2147 0] PosixSignal_deadlines[OF a(1,2) a(5,6), of 3000 0]
      PosixSignal_deadlines[OF a(1,2) a(7,8), of 0 500]
    by (simp add: split_beta Let_def)
qed

section \<open>Semaphore values\<close>

text \<open>
  The value of a semaphore counts: after any calls it is the value before plus the successful posts less the
  successful waits, so no more waits return than were paid for. A borrower without a handle, or
  with one that could not be opened, dereferences null in every call.
\<close>

datatype sem_op = Op_TryWait | Op_Post

fun sem_run :: "PosixSignal \<Rightarrow> sem_op list \<Rightarrow> sem_store \<Rightarrow> (int list \<times> sem_store) outcome" where
  "sem_run s [] m = Inr ([], m)"
| "sem_run s (c # cs) m =
     bind_out (case c of Op_TryWait \<Rightarrow> PosixSignal_tryWait s m | Op_Post \<Rightarrow> PosixSignal_post s m) (\<lambda>(r, m').
     bind_out (sem_run s cs m') (\<lambda>(rs, m''). Inr (r # rs, m'')))"

definition successes :: "sem_op \<Rightarrow> sem_op list \<Rightarrow> int list \<Rightarrow> nat" where
  "successes c cs rs = length (filter (\<lambda>(c', r). c' = c \<and> r = 0) (zip cs rs))"

lemma successes_simps [simp]:
  "successes c [] rs = 0"
  "successes c (d # cs) (r # rs) = (if d = c \<and> r = 0 then 1 else 0) + successes c cs rs"
  by (simp_all add: successes_def)

lemma sem_call_counts:
  assumes "the_sem s = Inr p"
  shows "\<exists>r m1. (case c of Op_TryWait \<Rightarrow> PosixSignal_tryWait s m | Op_Post \<Rightarrow> PosixSignal_post s m) = Inr (r, m1)
     \<and> m1 p + (if c = Op_TryWait \<and> r = 0 then 1 else 0) = m p + (if c = Op_Post \<and> r = 0 then 1 else 0)
     \<and> (\<forall>q. q \<noteq> p \<longrightarrow> m1 q = m q) \<and> (m p \<le> SEM_VALUE_MAX \<longrightarrow> m1 p \<le> SEM_VALUE_MAX)"
  using assms by (cases c) (auto simp: PosixSignal_tryWait_def PosixSignal_post_def)

theorem PosixSignal_counts:
  assumes "the_sem s = Inr p"
  shows "\<exists>rs m'. sem_run s cs m = Inr (rs, m') \<and> m' p + successes Op_TryWait cs rs = m p + successes Op_Post cs rs
     \<and> (\<forall>q. q \<noteq> p \<longrightarrow> m' q = m q) \<and> (m p \<le> SEM_VALUE_MAX \<longrightarrow> m' p \<le> SEM_VALUE_MAX)"
proof (induction cs arbitrary: m)
  case (Cons c cs)
  obtain r m1 where 1: "(case c of Op_TryWait \<Rightarrow> PosixSignal_tryWait s m | Op_Post \<Rightarrow> PosixSignal_post s m) = Inr (r, m1)"
    "m1 p + (if c = Op_TryWait \<and> r = 0 then 1 else 0) = m p + (if c = Op_Post \<and> r = 0 then 1 else 0)"
    "\<forall>q. q \<noteq> p \<longrightarrow> m1 q = m q" "m p \<le> SEM_VALUE_MAX \<longrightarrow> m1 p \<le> SEM_VALUE_MAX"
    using sem_call_counts[OF assms, where c = c and m = m] by (elim exE conjE) (rule that; assumption)
  obtain rs m' where 2: "sem_run s cs m1 = Inr (rs, m')"
    "m' p + successes Op_TryWait cs rs = m1 p + successes Op_Post cs rs"
    "\<forall>q. q \<noteq> p \<longrightarrow> m' q = m1 q" "m1 p \<le> SEM_VALUE_MAX \<longrightarrow> m' p \<le> SEM_VALUE_MAX"
    using Cons.IH[of m1] by (elim exE conjE) (rule that; assumption)
  show ?case
    using 1 2 by (intro exI[of _ "r # rs"] exI[of _ m'] conjI) auto
qed simp

theorem PosixSignal_misuse:
  "PosixSignal_valid PosixSignal_ctor = Inl Null_Deref
   \<and> PosixSignal_wait PosixSignal_ctor m = Some (Inl Null_Deref)
   \<and> (let (ok, eff, ns) = PosixNamedSignal_open None name has_handler PosixNamedSignal_ctor in
        ok = has_handler \<and> (\<not> has_handler \<longrightarrow> eff = [Sem_Unlink name])
        \<and> PosixSignal_post (PosixSignal_borrow_by (Some (Named ns)) PosixSignal_ctor) m = Inl Null_Deref)
   \<and> fst (PosixSignal_move_assign self other) = self
   \<and> PosixUnnamedSignal_move_assign u v = Inl Out_Of_Range"
  by (simp add: PosixSignal_valid_def PosixSignal_ctor_def PosixSignal_wait_def the_sem_def PosixNamedSignal_open_def
      PosixSignal_post_def PosixSignal_borrow_by_def PosixSigHandle_sem_def PosixSignal_move_assign_def
      PosixUnnamedSignal_move_assign_def)

end
