(* ===== verification/Pgsql_Api.thy ===== *)
theory Pgsql_Api
  imports Unique_Owner
begin

unbundle bit_operations_syntax

text \<open>
  \<open>pgsql_api.hh\<close> and \<open>pgsql_api.cpp\<close>: ownership of libpq connections and results, the reading of libpq's answers, the
  notice callbacks, and the conversion to network byte order. libpq's answers are arguments; what is
  given to \<open>PQfinish\<close> and \<open>PQclear\<close> is returned as a list.
\<close>

section \<open>Connections\<close>

record PostgresQLConn =
  pq_handle :: "nat option"

definition PostgresQLConn_ctor :: PostgresQLConn where
  "PostgresQLConn_ctor = \<lparr>pq_handle = None\<rparr>"

definition PostgresQLConn_ctor_ptr :: "nat option \<Rightarrow> PostgresQLConn" where
  "PostgresQLConn_ctor_ptr conn = \<lparr>pq_handle = conn\<rparr>"

definition PostgresQLConn_move_ctor :: "PostgresQLConn \<Rightarrow> PostgresQLConn \<times> PostgresQLConn" where
  "PostgresQLConn_move_ctor other = (\<lparr>pq_handle = pq_handle other\<rparr>, other\<lparr>pq_handle := None\<rparr>)"

definition PostgresQLConn_dtor :: "PostgresQLConn \<Rightarrow> nat list" where
  "PostgresQLConn_dtor c = (case pq_handle c of None \<Rightarrow> [] | Some h \<Rightarrow> [h])"

definition PostgresQLConn_move_assign :: "PostgresQLConn \<Rightarrow> PostgresQLConn \<Rightarrow> nat list \<times> PostgresQLConn \<times> PostgresQLConn" where
  "PostgresQLConn_move_assign self other =
     (PostgresQLConn_dtor self, \<lparr>pq_handle = pq_handle other\<rparr>, other\<lparr>pq_handle := None\<rparr>)"

text \<open>The four ways to connect store the pointer libpq returns over the one held.\<close>

definition PostgresQLConn_connect :: "nat option \<Rightarrow> PostgresQLConn \<Rightarrow> bool \<times> PostgresQLConn" where
  "PostgresQLConn_connect ret c = (ret \<noteq> None, c\<lparr>pq_handle := ret\<rparr>)"

definition PostgresQLConn_valid :: "PostgresQLConn \<Rightarrow> bool" where
  "PostgresQLConn_valid c \<longleftrightarrow> pq_handle c \<noteq> None"

text \<open>Requests sent without waiting, and the other calls for which libpq answers 1 on success.\<close>

definition PostgresQLConn_send :: "(nat option \<Rightarrow> 'q \<Rightarrow> int) \<Rightarrow> 'q \<Rightarrow> PostgresQLConn \<Rightarrow> bool" where
  "PostgresQLConn_send lib q c \<longleftrightarrow> lib (pq_handle c) q = 1"

definition PostgresQLConn_isBusy :: "(nat option \<Rightarrow> int) \<Rightarrow> PostgresQLConn \<Rightarrow> bool" where
  "PostgresQLConn_isBusy lib c \<longleftrightarrow> lib (pq_handle c) = 1"

text \<open>\<open>PQsetnonblocking\<close> answers 0 on success and -1 on failure; the answer becomes a \<open>bool\<close>.\<close>

definition PostgresQLConn_setNonblocking :: "(nat option \<Rightarrow> int \<Rightarrow> int) \<Rightarrow> bool \<Rightarrow> PostgresQLConn \<Rightarrow> bool" where
  "PostgresQLConn_setNonblocking lib arg c \<longleftrightarrow> lib (pq_handle c) (if arg then 1 else 0) \<noteq> 0"

section \<open>Results\<close>

record PostgresQLResult =
  pq_res :: "nat option"

definition PostgresQLResult_ctor :: "nat option \<Rightarrow> PostgresQLResult" where
  "PostgresQLResult_ctor res = \<lparr>pq_res = res\<rparr>"

definition PostgresQLResult_move_ctor :: "PostgresQLResult \<Rightarrow> PostgresQLResult \<times> PostgresQLResult" where
  "PostgresQLResult_move_ctor other = (\<lparr>pq_res = pq_res other\<rparr>, other\<lparr>pq_res := None\<rparr>)"

definition PostgresQLResult_dtor :: "PostgresQLResult \<Rightarrow> nat list" where
  "PostgresQLResult_dtor r = (case pq_res r of None \<Rightarrow> [] | Some p \<Rightarrow> [p])"

definition PostgresQLResult_move_assign ::
  "PostgresQLResult \<Rightarrow> PostgresQLResult \<Rightarrow> nat list \<times> PostgresQLResult \<times> PostgresQLResult" where
  "PostgresQLResult_move_assign self other =
     (PostgresQLResult_dtor self, \<lparr>pq_res = pq_res other\<rparr>, other\<lparr>pq_res := None\<rparr>)"

definition PostgresQLResult_assign :: "PostgresQLResult \<Rightarrow> nat option \<Rightarrow> nat list \<times> PostgresQLResult" where
  "PostgresQLResult_assign self res = (PostgresQLResult_dtor self, \<lparr>pq_res = res\<rparr>)"

interpretation pq_conn: unique_owner "\<lambda>c. pointee (pq_handle c)" "\<lambda>_. True" "\<lambda>h. PostgresQLConn_ctor_ptr (Some h)" PostgresQLConn_dtor
  PostgresQLConn_move_ctor PostgresQLConn_move_assign
  by unfold_locales
    (auto simp: PostgresQLConn_dtor_def PostgresQLConn_move_ctor_def PostgresQLConn_move_assign_def PostgresQLConn_ctor_ptr_def split: option.splits)

interpretation pq_result: unique_owner "\<lambda>r. pointee (pq_res r)" "\<lambda>_. True" "\<lambda>h. PostgresQLResult_ctor (Some h)" PostgresQLResult_dtor
  PostgresQLResult_move_ctor PostgresQLResult_move_assign
  by unfold_locales
    (auto simp: PostgresQLResult_dtor_def PostgresQLResult_move_ctor_def PostgresQLResult_move_assign_def PostgresQLResult_ctor_def split: option.splits)

section \<open>Notices\<close>

text \<open>
  \<open>setNoticeReceiver\<close> and \<open>setNoticeProcessor\<close> hand libpq a pointer to a function object on the heap; the
  closure libpq calls with it calls the function and deletes it. \<open>heap\<close> holds the live objects.
\<close>

record 'f notice_sys =
  heap :: "nat \<Rightarrow> 'f option option"
  next_ptr :: nat
  receiver :: "nat option"

definition setNoticeReceiver :: "'f option \<Rightarrow> 'f notice_sys \<Rightarrow> 'f notice_sys" where
  "setNoticeReceiver func s =
     s\<lparr>heap := (heap s)(next_ptr s := Some func), next_ptr := next_ptr s + 1, receiver := Some (next_ptr s)\<rparr>"

definition receive_notice :: "('f \<Rightarrow> 'm \<Rightarrow> 's \<Rightarrow> 's) \<Rightarrow> 'm \<Rightarrow> 'f notice_sys \<times> 's \<Rightarrow> ('f notice_sys \<times> 's) outcome" where
  "receive_notice call msg st =
     (case receiver (fst st) of
        None \<Rightarrow> Inr st
      | Some p \<Rightarrow>
          (case heap (fst st) p of
             None \<Rightarrow> Inl Use_After_Free
           | Some func \<Rightarrow>
               Inr ((fst st)\<lparr>heap := (heap (fst st))(p := None)\<rparr>,
                    case func of None \<Rightarrow> snd st | Some f \<Rightarrow> call f msg (snd st))))"

section \<open>Byte order\<close>

definition htobe64 :: "u64 \<Rightarrow> u64" where
  "htobe64 l =
     (drop_bit 56 l AND 0x00000000000000FF) OR
     (drop_bit 40 l AND 0x000000000000FF00) OR
     (drop_bit 24 l AND 0x0000000000FF0000) OR
     (drop_bit 8 l AND 0x00000000FF000000) OR
     (push_bit 8 l AND 0x000000FF00000000) OR
     (push_bit 24 l AND 0x0000FF0000000000) OR
     (push_bit 40 l AND 0x00FF000000000000) OR
     (push_bit 56 l AND 0xFF00000000000000)"

definition htobe32 :: "u32 \<Rightarrow> u32" where
  "htobe32 x =
     drop_bit 24 (x AND 0xFF000000) OR drop_bit 8 (x AND 0x00FF0000) OR
     push_bit 8 (x AND 0x0000FF00) OR push_bit 24 (x AND 0x000000FF)"

text \<open>Floating point values are converted through their bit patterns.\<close>

definition htobeF64 :: "u64 \<Rightarrow> u64" where
  "htobeF64 value = (let pf64 = value; res = htobe64 pf64 in res)"

definition htonf32 :: "u32 \<Rightarrow> u32" where
  "htonf32 value = (let pf32 = value; res = htobe32 pf32 in res)"

lemma byte_masks64:
  "(0x00000000000000FF :: u64) = push_bit 0 (mask 8)" "(0x000000000000FF00 :: u64) = push_bit 8 (mask 8)"
  "(0x0000000000FF0000 :: u64) = push_bit 16 (mask 8)" "(0x00000000FF000000 :: u64) = push_bit 24 (mask 8)"
  "(0x000000FF00000000 :: u64) = push_bit 32 (mask 8)" "(0x0000FF0000000000 :: u64) = push_bit 40 (mask 8)"
  "(0x00FF000000000000 :: u64) = push_bit 48 (mask 8)" "(0xFF00000000000000 :: u64) = push_bit 56 (mask 8)"
  by code_simp+

lemma byte_masks32:
  "(0x000000FF :: u32) = push_bit 0 (mask 8)" "(0x0000FF00 :: u32) = push_bit 8 (mask 8)"
  "(0x00FF0000 :: u32) = push_bit 16 (mask 8)" "(0xFF000000 :: u32) = push_bit 24 (mask 8)"
  by code_simp+

lemma bit_htobe64:
  assumes "q < 8" and "r < 8"
  shows "bit (htobe64 x) (8 * q + r) = bit x (8 * (7 - q) + r)"
proof -
  have "q \<in> {0, 1, 2, 3, 4, 5, 6, 7}" using assms(1) by auto
  then show ?thesis
    using assms(2) unfolding htobe64_def byte_masks64
    by (elim insertE emptyE) (simp_all add: bit_or_iff bit_and_iff bit_mask_iff bit_drop_bit_eq bit_push_bit_iff add.commute)
qed

lemma bit_htobe32:
  assumes "q < 4" and "r < 8"
  shows "bit (htobe32 x) (8 * q + r) = bit x (8 * (3 - q) + r)"
proof -
  have "q \<in> {0, 1, 2, 3}" using assms(1) by auto
  then show ?thesis
    using assms(2) unfolding htobe32_def byte_masks32
    by (elim insertE emptyE) (simp_all add: bit_or_iff bit_and_iff bit_mask_iff bit_drop_bit_eq bit_push_bit_iff add.commute)
qed

definition byte64 :: "u64 \<Rightarrow> nat \<Rightarrow> u8" where
  "byte64 w i = ucast (drop_bit (8 * i) w)"

definition byte32 :: "u32 \<Rightarrow> nat \<Rightarrow> u8" where
  "byte32 w i = ucast (drop_bit (8 * i) w)"

lemma htobe64_involution: "htobe64 (htobe64 x) = x"
proof (rule bit_word_eqI)
  fix n assume "n < LENGTH(64)"
  then have "n div 8 < 8" by simp
  then show "bit (htobe64 (htobe64 x)) n = bit x n"
    using bit_htobe64[of "n div 8" "n mod 8" "htobe64 x"] bit_htobe64[of "7 - n div 8" "n mod 8" x] by simp
qed

lemma htobe32_involution: "htobe32 (htobe32 x) = x"
proof (rule bit_word_eqI)
  fix n assume "n < LENGTH(32)"
  then have "n div 8 < 4" by simp
  then show "bit (htobe32 (htobe32 x)) n = bit x n"
    using bit_htobe32[of "n div 8" "n mod 8" "htobe32 x"] bit_htobe32[of "3 - n div 8" "n mod 8" x] by simp
qed

text \<open>
  Network byte order. The conversions reverse the bytes of a value, for doubles and
  floats of their bit pattern, and converting twice gives the value back.
\<close>

theorem byte_order_conversions:
  "htobe64 (htobe64 x) = x \<and> htobe32 (htobe32 y) = y \<and> htobeF64 (htobeF64 x) = x \<and> htonf32 (htonf32 y) = y
   \<and> (\<forall>i < 8. byte64 (htobe64 x) i = byte64 x (7 - i))
   \<and> (\<forall>i < 4. byte32 (htobe32 y) i = byte32 y (3 - i))"
proof -
  have "byte64 (htobe64 x) i = byte64 x (7 - i)" if "i < 8" for i
    using bit_htobe64[OF that] by (intro bit_word_eqI) (simp add: byte64_def bit_simps)
  moreover have "byte32 (htobe32 y) i = byte32 y (3 - i)" if "i < 4" for i
    using bit_htobe32[OF that] by (intro bit_word_eqI) (simp add: byte32_def bit_simps)
  ultimately show ?thesis
    by (simp add: htobe64_involution htobe32_involution htobeF64_def htonf32_def)
qed

theorem byte_order_conversions_witness:
  "byte64 (htobe64 0x0102030405060708) 0 = 1 \<and> byte32 (htobe32 0x01020304) 3 = 4
   \<and> htobeF64 (htobeF64 0x3FF0000000000000) = 0x3FF0000000000000"
proof -
  have "byte64 0x0102030405060708 7 = 1" "byte32 0x01020304 0 = 4" by code_simp+
  then show ?thesis
    using byte_order_conversions[of "0x0102030405060708" "0x01020304"] byte_order_conversions[of "0x3FF0000000000000"]
    by simp
qed

section \<open>Ownership and answers\<close>

text \<open>
  A connection or result is released once by its last owner; a move assignment releases what the
  object held. But connecting again loses the connection held, assigning a result its own
  pointer keeps a released one, and \<open>setNonblocking\<close> answers true exactly on failure.
\<close>

theorem PostgresQL_ownership:
  "(let (b, a') = PostgresQLConn_move_ctor a in PostgresQLConn_dtor b = PostgresQLConn_dtor a \<and> PostgresQLConn_dtor a' = [])
   \<and> (let (cl, c, a') = PostgresQLConn_move_assign self a in
        cl @ PostgresQLConn_dtor c = PostgresQLConn_dtor self @ PostgresQLConn_dtor a \<and> PostgresQLConn_dtor a' = [])
   \<and> (let (cl, c, r') = PostgresQLResult_move_assign rself r in
        cl @ PostgresQLResult_dtor c = PostgresQLResult_dtor rself @ PostgresQLResult_dtor r \<and> PostgresQLResult_dtor r' = [])
   \<and> (pq_handle a = Some h \<longrightarrow> PostgresQLConn_dtor (snd (PostgresQLConn_connect (Some g) a)) = [g])
   \<and> (pq_res r = Some p \<longrightarrow> (let (cl, r') = PostgresQLResult_assign r (pq_res r) in cl = [p] \<and> PostgresQLResult_dtor r' = [p]))
   \<and> (lib (pq_handle a) (if arg then 1 else 0) = (0 :: int) \<longrightarrow> \<not> PostgresQLConn_setNonblocking lib arg a)"
  by (simp add: PostgresQLConn_move_ctor_def PostgresQLConn_dtor_def PostgresQLConn_move_assign_def
      PostgresQLResult_move_assign_def PostgresQLResult_dtor_def PostgresQLConn_connect_def PostgresQLResult_assign_def
      PostgresQLConn_setNonblocking_def split: option.splits)

text \<open>
  A notice callback works once. The first notice after \<open>setNoticeReceiver\<close> reaches the
  function that was set; the closure deletes it, and the next notice on the connection, whatever it
  is, uses the deleted object.
\<close>

theorem notice_receiver_once:
  "receive_notice call msg (setNoticeReceiver (Some f) s, u) =
       Inr ((setNoticeReceiver (Some f) s)\<lparr>heap := (heap s)(next_ptr s := None)\<rparr>, call f msg u)
   \<and> bind_out (receive_notice call msg (setNoticeReceiver fo s, u)) (receive_notice call msg') = Inl Use_After_Free"
  by (simp add: receive_notice_def setNoticeReceiver_def)

end
