(* ===== verification/Co_Task.thy ===== *)
theory Co_Task
  imports Unique_Owner
begin

text \<open>
  \<open>co_task.hpp\<close>: results, tasks and promises of coroutines. A coroutine body is the list of what it does between
  suspensions; its frame holds what is left of it and the value of its promise. Frames are numbers
  for the tasks that own them, and what a task destroys is returned as a list.
\<close>

section \<open>Results\<close>

record ('a, 'e) co_result =
  co_val :: 'a
  except_ptr :: "'e option"

definition co_result_ctor :: "'a \<Rightarrow> ('a, 'e) co_result" where
  "co_result_ctor v = \<lparr>co_val = v, except_ptr = None\<rparr>"

text \<open>The constructor from an exception initialises the pointer with null.\<close>

definition co_result_ctor_exc :: "'a \<Rightarrow> 'e \<Rightarrow> ('a, 'e) co_result" where
  "co_result_ctor_exc dflt ptr = \<lparr>co_val = dflt, except_ptr = None\<rparr>"

definition co_result_move_ctor :: "('a \<Rightarrow> 'a) \<Rightarrow> ('a, 'e) co_result \<Rightarrow> ('a, 'e) co_result \<times> ('a, 'e) co_result" where
  "co_result_move_ctor left other =
     (\<lparr>co_val = co_val other, except_ptr = except_ptr other\<rparr>, \<lparr>co_val = left (co_val other), except_ptr = None\<rparr>)"

section \<open>Promises and bodies\<close>

datatype 'a co_act = Co_Yield 'a | Co_Return 'a | Co_Raise string

datatype co_phase = Suspended | At_Final

record 'a co_frame =
  acts :: "'a co_act list"
  m_value :: 'a
  phase :: co_phase

text \<open>\<open>initial_suspend\<close> suspends always: creating the coroutine runs nothing of the body.\<close>

definition co_promise_create :: "'a \<Rightarrow> 'a co_act list \<Rightarrow> 'a co_frame" where
  "co_promise_create dflt body = \<lparr>acts = body, m_value = dflt, phase = Suspended\<rparr>"

definition yield_value :: "'a \<Rightarrow> 'a co_frame \<Rightarrow> 'a co_frame" where
  "yield_value v f = f\<lparr>m_value := v, phase := Suspended\<rparr>"

definition return_value :: "'a \<Rightarrow> 'a co_frame \<Rightarrow> 'a co_frame" where
  "return_value v f = f\<lparr>m_value := v\<rparr>"

text \<open>
  \<open>resume\<close> of a handle: the body runs to its next suspension. \<open>final_suspend\<close> keeps the frame. An exception of
  the body is replaced by \<open>unhandled_exception_t\<close>, which leaves the call. Resuming at the final suspension or
  running off the end without a value is undefined.
\<close>

definition co_resume :: "'a co_frame \<Rightarrow> fault option \<times> 'a co_frame" where
  "co_resume f =
     (case phase f of
        At_Final \<Rightarrow> (Some Bad_Function_Call, f)
      | Suspended \<Rightarrow>
          (case acts f of
             [] \<Rightarrow> (Some Bad_Function_Call, f)
           | Co_Yield v # as \<Rightarrow> (None, yield_value v (f\<lparr>acts := as\<rparr>))
           | Co_Return v # as \<Rightarrow> (None, (return_value v f)\<lparr>acts := [], phase := At_Final\<rparr>)
           | Co_Raise what # as \<Rightarrow> (Some (Thrown ''unhandled''), f\<lparr>acts := [], phase := At_Final\<rparr>)))"

section \<open>Tasks\<close>

record co_task =
  co_handle :: "nat option"

definition co_task_ctor :: co_task where
  "co_task_ctor = \<lparr>co_handle = None\<rparr>"

definition co_task_ctor_handle :: "nat \<Rightarrow> co_task" where
  "co_task_ctor_handle h = \<lparr>co_handle = Some h\<rparr>"

definition co_task_move_ctor :: "co_task \<Rightarrow> co_task \<times> co_task" where
  "co_task_move_ctor other = (\<lparr>co_handle = co_handle other\<rparr>, other\<lparr>co_handle := None\<rparr>)"

definition co_task_dtor :: "co_task \<Rightarrow> nat list" where
  "co_task_dtor t = (case co_handle t of None \<Rightarrow> [] | Some h \<Rightarrow> [h])"

text \<open>Construction from a function that returns a task; the temporary is destroyed empty.\<close>

definition co_task_ctor_fn :: "(unit \<Rightarrow> co_task) \<Rightarrow> nat list \<times> co_task" where
  "co_task_ctor_fn fn =
     (let tmp = fn (); self = \<lparr>co_handle = co_handle tmp\<rparr>; tmp' = tmp\<lparr>co_handle := None\<rparr>
      in (co_task_dtor tmp', self))"

definition co_task_move_assign :: "co_task \<Rightarrow> co_task \<Rightarrow> nat list \<times> co_task \<times> co_task" where
  "co_task_move_assign self other = (co_task_dtor self, \<lparr>co_handle = co_handle other\<rparr>, other\<lparr>co_handle := None\<rparr>)"

interpretation co_owner: unique_owner "\<lambda>t. pointee (co_handle t)" "\<lambda>_. True" co_task_ctor_handle co_task_dtor co_task_move_ctor co_task_move_assign
  by unfold_locales
    (auto simp: co_task_dtor_def co_task_move_ctor_def co_task_move_assign_def co_task_ctor_handle_def split: option.splits)

section \<open>Properties\<close>

fun resumes :: "nat \<Rightarrow> 'a co_frame \<Rightarrow> 'a list \<times> fault option \<times> 'a co_frame" where
  "resumes 0 f = ([], None, f)"
| "resumes (Suc n) f =
     (case co_resume f of
        (Some e, f') \<Rightarrow> ([], Some e, f')
      | (None, f') \<Rightarrow> (let (vs, e, f'') = resumes n f' in (m_value f' # vs, e, f'')))"

lemma resumes_yields:
  assumes "phase f = Suspended" and "acts f = map Co_Yield vs @ rest"
  shows "resumes (length vs) f =
     (vs, None, f\<lparr>acts := rest, m_value := if vs = [] then m_value f else last vs\<rparr>)"
  using assms
proof (induction vs arbitrary: f)
  case (Cons v vs)
  let ?f = "yield_value v (f\<lparr>acts := map Co_Yield vs @ rest\<rparr>)"
  have "co_resume f = (None, ?f)" using Cons.prems by (simp add: co_resume_def)
  then show ?case using Cons.IH[of ?f] Cons.prems(1) by (cases f) (simp add: yield_value_def)
qed (cases f; simp)

lemma resumes_add:
  "resumes (m + n) f =
     (case resumes m f of (vs, Some e, f') \<Rightarrow> (vs, Some e, f')
      | (vs, None, f') \<Rightarrow> (let (ws, e, f'') = resumes n f' in (vs @ ws, e, f'')))"
  by (induction m arbitrary: f) (auto simp: Let_def split: prod.splits option.splits)

text \<open>
  A coroutine delivers its values in order. Created, it runs nothing; resumed once per
  value, the promise holds each yielded value after its resumption and then the value
  returned, after which it stands at its final suspension and must not be resumed. If the body throws
  instead, the resumption throws the same \<open>unhandled\<close> whatever was thrown.
\<close>

theorem co_task_generates:
  "resumes (length vs) (co_promise_create d (map Co_Yield vs @ rest)) =
     (vs, None, \<lparr>acts = rest, m_value = if vs = [] then d else last vs, phase = Suspended\<rparr>)
   \<and> resumes (length vs + 1) (co_promise_create d (map Co_Yield vs @ Co_Return r # as)) =
       (vs @ [r], None, \<lparr>acts = [], m_value = r, phase = At_Final\<rparr>)
   \<and> fst (snd (resumes (length vs + 2) (co_promise_create d (map Co_Yield vs @ Co_Return r # as)))) = Some Bad_Function_Call
   \<and> fst (snd (resumes (length vs + 1) (co_promise_create d (map Co_Yield vs @ Co_Raise what # as)))) = Some (Thrown ''unhandled'')"
proof -
  have "resumes (length vs) (co_promise_create d (map Co_Yield vs @ q)) =
     (vs, None, \<lparr>acts = q, m_value = if vs = [] then d else last vs, phase = Suspended\<rparr>)" for q
    using resumes_yields[of "co_promise_create d (map Co_Yield vs @ q)" vs q] by (simp add: co_promise_create_def)
  then show ?thesis
    unfolding resumes_add[of "length vs" 1] resumes_add[of "length vs" 2]
    by (simp add: co_resume_def return_value_def numeral_2_eq_2)
qed

text \<open>A frame is destroyed once by its last owner; a result made from an exception does not hold it.\<close>

theorem co_task_owns_once:
  "(let (b, a') = co_task_move_ctor a in co_task_dtor b = co_task_dtor a \<and> co_task_dtor a' = [])
   \<and> (let (cl, t) = co_task_ctor_fn (\<lambda>_. a) in cl = [] \<and> co_task_dtor t = co_task_dtor a)
   \<and> (let (cl, c, a') = co_task_move_assign self a in
        cl @ co_task_dtor c @ co_task_dtor a' = co_task_dtor self @ co_task_dtor a)
   \<and> except_ptr (co_result_ctor_exc d e) = None"
  by (simp add: co_task_move_ctor_def co_task_dtor_def co_task_ctor_fn_def co_task_move_assign_def co_result_ctor_exc_def
      split: option.splits)

section \<open>Coroutines without a value\<close>

text \<open>
  The specialisations for \<open>void\<close>. \<open>yield_value\<close> drops its argument, and running off the end is \<open>return_void\<close>.
\<close>

record 'e co_void_result =
  v_except_ptr :: "'e option"

definition co_void_result_ctor :: "'e co_void_result" where
  "co_void_result_ctor = \<lparr>v_except_ptr = None\<rparr>"

definition co_void_result_ctor_exc :: "'e \<Rightarrow> 'e co_void_result" where
  "co_void_result_ctor_exc ptr = \<lparr>v_except_ptr = None\<rparr>"

definition co_void_result_move :: "'e co_void_result \<Rightarrow> 'e co_void_result \<times> 'e co_void_result" where
  "co_void_result_move other = (\<lparr>v_except_ptr = v_except_ptr other\<rparr>, other\<lparr>v_except_ptr := None\<rparr>)"

definition co_result_move_assign ::
  "('a \<Rightarrow> 'a) \<Rightarrow> ('a, 'e) co_result \<Rightarrow> ('a, 'e) co_result \<Rightarrow> ('a, 'e) co_result \<times> ('a, 'e) co_result" where
  "co_result_move_assign left self other =
     (self\<lparr>co_val := co_val other, except_ptr := except_ptr other\<rparr>, other\<lparr>co_val := left (co_val other), except_ptr := None\<rparr>)"

text \<open>Construction from a function and its arguments.\<close>

definition co_task_ctor_args :: "('x \<Rightarrow> co_task) \<Rightarrow> 'x \<Rightarrow> nat list \<times> co_task" where
  "co_task_ctor_args fn args =
     (let tmp = fn args; self = \<lparr>co_handle = co_handle tmp\<rparr>; tmp' = tmp\<lparr>co_handle := None\<rparr>
      in (co_task_dtor tmp', self))"

datatype co_void_act = Void_Yield int | Void_Raise string

record co_void_frame =
  v_acts :: "co_void_act list"
  v_phase :: co_phase

definition co_void_create :: "co_void_act list \<Rightarrow> co_void_frame" where
  "co_void_create body = \<lparr>v_acts = body, v_phase = Suspended\<rparr>"

definition co_void_resume :: "co_void_frame \<Rightarrow> fault option \<times> co_void_frame" where
  "co_void_resume f =
     (case v_phase f of
        At_Final \<Rightarrow> (Some Bad_Function_Call, f)
      | Suspended \<Rightarrow>
          (case v_acts f of
             [] \<Rightarrow> (None, f\<lparr>v_phase := At_Final\<rparr>)
           | Void_Yield _ # as \<Rightarrow> (None, f\<lparr>v_acts := as\<rparr>)
           | Void_Raise what # as \<Rightarrow> (Some (Thrown ''unhandled''), f\<lparr>v_acts := [], v_phase := At_Final\<rparr>)))"

fun void_resumes :: "nat \<Rightarrow> co_void_frame \<Rightarrow> fault option \<times> co_void_frame" where
  "void_resumes 0 f = (None, f)"
| "void_resumes (Suc n) f = (case co_void_resume f of (Some e, f') \<Rightarrow> (Some e, f') | (None, f') \<Rightarrow> void_resumes n f')"

lemma void_resumes_yields:
  "v_phase f = Suspended \<Longrightarrow> v_acts f = map Void_Yield vs @ rest \<Longrightarrow>
     void_resumes (length vs + n) f = void_resumes n (f\<lparr>v_acts := rest\<rparr>)"
proof (induction vs arbitrary: f)
  case Nil
  then show ?case by (cases f) simp
qed (simp add: co_void_resume_def)

text \<open>
  A coroutine without a value that yields \<open>length vs\<close> times is resumed that often and once more to reach its end; the next
  resumption is undefined. A body that throws leaves the resumption with \<open>unhandled\<close>, and is at its end.
\<close>

theorem co_void_task_runs:
  "void_resumes (length vs + 1) (co_void_create (map Void_Yield vs)) = (None, \<lparr>v_acts = [], v_phase = At_Final\<rparr>)
   \<and> fst (void_resumes (length vs + 2) (co_void_create (map Void_Yield vs))) = Some Bad_Function_Call
   \<and> void_resumes (length vs + Suc n) (co_void_create (map Void_Yield vs @ Void_Raise what # rest))
       = (Some (Thrown ''unhandled''), \<lparr>v_acts = [], v_phase = At_Final\<rparr>)"
proof -
  let ?f = "co_void_create (map Void_Yield vs)" and ?g = "co_void_create (map Void_Yield vs @ Void_Raise what # rest)"
  have "void_resumes (length vs + m) ?f = void_resumes m \<lparr>v_acts = [], v_phase = Suspended\<rparr>" for m
    using void_resumes_yields[of ?f vs "[]" m] by (simp add: co_void_create_def)
  moreover have "void_resumes (length vs + Suc n) ?g = void_resumes (Suc n) \<lparr>v_acts = Void_Raise what # rest, v_phase = Suspended\<rparr>"
    using void_resumes_yields[of ?g vs "Void_Raise what # rest" "Suc n"] by (simp add: co_void_create_def)
  ultimately show ?thesis by (simp only: One_nat_def numeral_2_eq_2 void_resumes.simps) (simp add: co_void_resume_def)
qed

lemma co_void_results:
  "v_except_ptr (co_void_result_ctor_exc e) = None" "co_void_result_move r = (r, co_void_result_ctor)"
  "fst (co_result_move_assign left self other) = other" "co_task_ctor_args fn x = co_task_ctor_fn (\<lambda>_. fn x)"
  by (simp_all add: co_void_result_ctor_exc_def co_void_result_move_def co_void_result_ctor_def co_result_move_assign_def
      co_task_ctor_args_def co_task_ctor_fn_def)

end
