(* ===== verification/Net_Ops.thy ===== *)
theory Net_Ops
  imports Stream_Model
begin

text \<open>
  The remaining operations of the network wrappers: \<open>SelectOperator\<close> and the copies of end points (\<open>socket.cpp\<close>,
  \<open>end_point.cpp\<close>), the settings and moves of TLS objects and streams (\<open>ssl.cpp\<close>, \<open>sslstream.cpp\<close>), and
  datagrams to named and IPv4 addresses (\<open>datagram.cpp\<close>).
\<close>

unbundle bit_operations_syntax

section \<open>Sets of descriptors\<close>

text \<open>An \<open>fd_set\<close> has 1024 bits; the macros index it without a test.\<close>

type_synonym fd_set = "1024 word"

definition FD_SETSIZE :: int where "FD_SETSIZE = 1024"

definition SelectOperator_fdZero :: fd_set where
  "SelectOperator_fdZero = 0"

definition SelectOperator_fdSet :: "fd \<Rightarrow> fd_set \<Rightarrow> fd_set outcome" where
  "SelectOperator_fdSet f s = (if 0 \<le> f \<and> f < FD_SETSIZE then Inr (set_bit (nat f) s) else Inl Out_Of_Range)"

definition SelectOperator_fdClear :: "fd \<Rightarrow> fd_set \<Rightarrow> fd_set outcome" where
  "SelectOperator_fdClear f s = (if 0 \<le> f \<and> f < FD_SETSIZE then Inr (unset_bit (nat f) s) else Inl Out_Of_Range)"

definition SelectOperator_fdInSet :: "fd \<Rightarrow> fd_set \<Rightarrow> bool outcome" where
  "SelectOperator_fdInSet f s = (if 0 \<le> f \<and> f < FD_SETSIZE then Inr (bit s (nat f)) else Inl Out_Of_Range)"

text \<open>
  A set built with \<open>fdSet\<close> and \<open>fdClear\<close> reports exactly what it was told, for descriptors below 1024; any
  other descriptor reads or writes outside the set.
\<close>

theorem SelectOperator_sets:
  assumes "0 \<le> f" and "f < 1024" and "0 \<le> g" and "g < 1024"
  shows "SelectOperator_fdInSet g SelectOperator_fdZero = Inr False
     \<and> bind_out (SelectOperator_fdSet f s) (SelectOperator_fdInSet g) = (if f = g then Inr True else SelectOperator_fdInSet g s)
     \<and> bind_out (SelectOperator_fdClear f s) (SelectOperator_fdInSet g) = (if f = g then Inr False else SelectOperator_fdInSet g s)
     \<and> SelectOperator_fdSet 1024 s = Inl Out_Of_Range \<and> SelectOperator_fdSet (-1) s = Inl Out_Of_Range"
  using assms
  by (auto simp: SelectOperator_fdInSet_def SelectOperator_fdZero_def SelectOperator_fdSet_def SelectOperator_fdClear_def
      FD_SETSIZE_def bit_set_bit_iff bit_unset_bit_iff)

section \<open>End points\<close>

definition EndPointIPV4_ctor_addr :: "sockaddr_in \<Rightarrow> EndPointIPV4" where
  "EndPointIPV4_ctor_addr another = \<lparr>ep_handle = Some another\<rparr>"

definition EndPointIPV4_copy_ctor :: "EndPointIPV4 \<Rightarrow> EndPointIPV4 outcome" where
  "EndPointIPV4_copy_ctor ep = (case ep_handle ep of None \<Rightarrow> Inl Null_Deref | Some h \<Rightarrow> Inr \<lparr>ep_handle = Some h\<rparr>)"

text \<open>The move constructor takes the address and leaves the source a zeroed one.\<close>

definition EndPointIPV4_move_ctor :: "EndPointIPV4 \<Rightarrow> EndPointIPV4 \<times> EndPointIPV4" where
  "EndPointIPV4_move_ctor ep = (\<lparr>ep_handle = ep_handle ep\<rparr>, EndPointIPV4_ctor0)"

definition EndPointIPV4_copy_assign :: "EndPointIPV4 \<Rightarrow> EndPointIPV4 \<Rightarrow> EndPointIPV4 outcome" where
  "EndPointIPV4_copy_assign self ep =
     (case (ep_handle self, ep_handle ep) of (Some _, Some h) \<Rightarrow> Inr (self\<lparr>ep_handle := Some h\<rparr>) | _ \<Rightarrow> Inl Null_Deref)"

text \<open>\<open>sockaddr_in\<close> as the kernel reads it: family, port, address and padding, 16 bytes.\<close>

definition le_bytes :: "nat \<Rightarrow> nat \<Rightarrow> bytes" where
  "le_bytes n x = map (\<lambda>i. char_of (x div 256 ^ i mod 256)) [0..<n]"

definition sockaddr_in_bytes :: "sockaddr_in \<Rightarrow> bytes" where
  "sockaddr_in_bytes a = le_bytes 2 (unat (sin_family a)) @ le_bytes 2 (unat (sin_port a)) @ le_bytes 4 (unat (s_addr a)) @ replicate 8 (char_of (0 :: nat))"

section \<open>Datagrams\<close>

definition DataGram_ctor_sock :: "Socket \<Rightarrow> DataGram \<times> Socket" where
  "DataGram_ctor_sock sock =
     (let (_, s, old) = Socket_move_assign Socket_ctor0 sock
      in (\<lparr>ss_sock = s, ss_onClose = False, ss_onRead = False, ss_onWrite = False\<rparr>, old))"

definition DataGram_ctor :: "fd \<Rightarrow> DataGram" where
  "DataGram_ctor new_fd = \<lparr>ss_sock = Socket_ctor new_fd, ss_onClose = False, ss_onRead = False, ss_onWrite = False\<rparr>"

definition DataGram_asend_ipv4 :: "DataGram \<Rightarrow> EndPointIPV4 \<Rightarrow> bytes \<Rightarrow> loop_ref \<Rightarrow> (bool \<times> loop_ref) outcome" where
  "DataGram_asend_ipv4 d remote message lr =
     (case ep_handle remote of None \<Rightarrow> Inl Null_Deref | Some a \<Rightarrow> Inr (DataGram_asend d (sockaddr_in_bytes a) message lr))"

text \<open>
  The address of a name: the family and 108 characters. The size handed on is that of the name, its
  terminator and the family, and so many bytes are copied once the poller and its distributor
  are there.
\<close>

definition sockaddr_un_bytes :: "string \<Rightarrow> bytes" where
  "sockaddr_un_bytes name = le_bytes 2 1 @ take 108 name @ replicate (108 - length name) (char_of (0 :: nat))"

definition DataGram_asend_domain :: "DataGram \<Rightarrow> string \<Rightarrow> bytes \<Rightarrow> loop_ref \<Rightarrow> (bool \<times> loop_ref) outcome" where
  "DataGram_asend_domain d domainName message lr =
     (let saddr = sockaddr_un_bytes domainName; sz = length domainName + 1 + 2
      in if \<not> Socket_valid (ss_sock d) \<or> \<not> poller_alive lr \<or> loop_dist lr = None then Inr (False, lr)
         else if sz > length saddr then Inl Out_Of_Range
         else Inr (DataGram_asend d (take sz saddr) message lr))"

lemma length_le_bytes [simp]: "length (le_bytes n x) = n"
  by (simp add: le_bytes_def)

text \<open>
  A datagram to a name of at most 107 characters is queued on the IO worker with exactly family, name and
  terminator as its address; with a longer name the address is read beyond its structure.
\<close>

theorem DataGram_asend_domain_spec:
  assumes "Socket_valid (ss_sock d)" and "poller_alive lr" and "loop_dist lr = Some ev"
  shows "(length name \<le> 107 \<longrightarrow>
        DataGram_asend_domain d name msg lr = Inr (submit_io (Send_To (le_bytes 2 1 @ name @ [char_of (0 :: nat)]) msg) lr))
     \<and> (length name \<ge> 108 \<longrightarrow> DataGram_asend_domain d name msg lr = Inl Out_Of_Range)"
proof -
  have "take (length name + 3) (sockaddr_un_bytes name) = le_bytes 2 1 @ name @ [char_of (0 :: nat)]" if "length name \<le> 107"
  proof -
    have "108 - length name = Suc (107 - length name)" using that by simp
    then show ?thesis using that by (simp add: sockaddr_un_bytes_def)
  qed
  moreover have "length (sockaddr_un_bytes name) = 110" by (simp add: sockaddr_un_bytes_def min_def)
  ultimately show ?thesis
    using assms by (auto simp: DataGram_asend_domain_def DataGram_asend_def Let_def numeral_3_eq_3 add.commute)
qed

section \<open>TLS objects\<close>

definition aSSLContext_valid :: "aSSLContext \<Rightarrow> bool" where
  "aSSLContext_valid c \<longleftrightarrow> m_ctx c \<noteq> None"

definition aSSLSocketIO_ctor :: aSSLSocketIO where
  "aSSLSocketIO_ctor = \<lparr>io_ssl = aSSL_ctor, io_endType = 0\<rparr>"

definition aSSLSocketIO_move_ctor :: "aSSLSocketIO \<Rightarrow> aSSLSocketIO \<times> aSSLSocketIO" where
  "aSSLSocketIO_move_ctor io =
     (let (_, s, old) = aSSL_move_assign aSSL_ctor (io_ssl io)
      in (\<lparr>io_ssl = s, io_endType = io_endType io\<rparr>, io\<lparr>io_ssl := old\<rparr>))"

text \<open>The assignment destroys the object by hand first, which shuts the connection down and gives its handle away.\<close>

definition aSSLSocketIO_move_assign :: "int \<Rightarrow> aSSLSocketIO \<Rightarrow> aSSLSocketIO \<Rightarrow> ssl_effect list \<times> aSSLSocketIO \<times> aSSLSocketIO" where
  "aSSLSocketIO_move_assign ret self io =
     (let (_, _, self') = aSSLSocketIO_shutdown ret self;
          eff = aSSLSocketIO_dtor ret self;
          (eff', s, old) = aSSL_move_assign (io_ssl self') (io_ssl io)
      in (eff @ eff', \<lparr>io_ssl = s, io_endType = io_endType io\<rparr>, io\<lparr>io_ssl := old\<rparr>))"

definition aSSLSocketIO_valid :: "aSSLSocketIO \<Rightarrow> bool" where
  "aSSLSocketIO_valid io \<longleftrightarrow> aSSL_valid (io_ssl io)"

definition aSSLSocketIO_setEndType :: "int \<Rightarrow> aSSLSocketIO \<Rightarrow> aSSLSocketIO" where
  "aSSLSocketIO_setEndType t io = io\<lparr>io_endType := t\<rparr>"

definition O_NONBLOCK :: u32 where "O_NONBLOCK = 0x800"

text \<open>\<open>get\<close> and \<open>set\<close> are the two \<open>fcntl\<close> calls; \<open>flags\<close> is what the first answers.\<close>

definition aSSLSocketIO_enableNonBlock :: "fd \<Rightarrow> (fd \<Rightarrow> u32) \<Rightarrow> (fd \<Rightarrow> u32 \<Rightarrow> int) \<Rightarrow> bool \<Rightarrow> bool" where
  "aSSLSocketIO_enableNonBlock f getfl setfl enabled =
     (if f > 0
      then let flags = getfl f;
               flags' = (if enabled then flags OR O_NONBLOCK else flags AND NOT O_NONBLOCK)
           in setfl f flags' = 0
      else False)"

text \<open>A connection object that is moved over loses its handle without freeing it: the shutdown is sent, nothing is freed.\<close>

theorem aSSLSocketIO_moves:
  "(let (b, a') = aSSLSocketIO_move_ctor a in
      io_ssl b = io_ssl a \<and> io_endType b = io_endType a \<and> \<not> aSSLSocketIO_valid a')
   \<and> (m_ssl (io_ssl self) = Some h \<longrightarrow>
        (let (eff, s, a') = aSSLSocketIO_move_assign ret self a in
           eff = [SSL_shutdown h] \<and> io_ssl s = io_ssl a \<and> \<not> aSSLSocketIO_valid a'))
   \<and> (aSSLSocketIO_enableNonBlock f getfl setfl True \<longleftrightarrow> f > 0 \<and> setfl f (getfl f OR O_NONBLOCK) = 0)"
  by (simp add: aSSLSocketIO_move_ctor_def aSSL_move_assign_def aSSLSocketIO_valid_def aSSL_valid_def aSSLSocketIO_move_assign_def
      aSSLSocketIO_dtor_def aSSLSocketIO_shutdown_def aSSL_take_ssl_def aSSL_dtor_def aSSLSocketIO_enableNonBlock_def aSSL_ctor_def Let_def)

section \<open>TLS streams\<close>

text \<open>The stream is a pointer to its members, null when default constructed or moved from; every other operation uses it without a test.\<close>

definition SSLStream_ctor :: "Socket \<Rightarrow> SSLStream option" where
  "SSLStream_ctor sock =
     Some \<lparr>ss_sock = fst (snd (Socket_move_assign Socket_ctor0 sock)), ss_onClose = False, ss_onRead = False, ss_onWrite = False,
      st_sslio = aSSLSocketIO_ctor, st_usedSSL = False, st_sslshutdown = False\<rparr>"

definition SSLStream_move_ctor :: "SSLStream option \<Rightarrow> SSLStream option \<times> SSLStream option" where
  "SSLStream_move_ctor other = (other, None)"

definition SSLStream_move_assign :: "SSLStream option \<Rightarrow> SSLStream option \<Rightarrow> SSLStream option \<times> SSLStream option" where
  "SSLStream_move_assign self other = (other, None)"

definition SSLStream_setOnClose :: "bool \<Rightarrow> SSLStream option \<Rightarrow> SSLStream option outcome" where
  "SSLStream_setOnClose cb st =
     (if \<not> cb then Inr st else case st of None \<Rightarrow> Inl Null_Deref | Some s \<Rightarrow> Inr (Some (s\<lparr>ss_onClose := True\<rparr>)))"

definition SSLStream_setOnRead :: "bool \<Rightarrow> SSLStream option \<Rightarrow> SSLStream option outcome" where
  "SSLStream_setOnRead cb st =
     (if \<not> cb then Inr st else case st of None \<Rightarrow> Inl Null_Deref | Some s \<Rightarrow> Inr (Some (s\<lparr>ss_onRead := True\<rparr>)))"

definition SSLStream_setOnWrite :: "bool \<Rightarrow> SSLStream option \<Rightarrow> SSLStream option outcome" where
  "SSLStream_setOnWrite cb st =
     (if \<not> cb then Inr st else case st of None \<Rightarrow> Inl Null_Deref | Some s \<Rightarrow> Inr (Some (s\<lparr>ss_onWrite := True\<rparr>)))"

definition SSLStream_enabledSSL :: "SSLStream option \<Rightarrow> bool outcome" where
  "SSLStream_enabledSSL st = (case st of None \<Rightarrow> Inl Null_Deref | Some s \<Rightarrow> Inr (st_usedSSL s))"

definition SSLStream_reference_sslio :: "SSLStream option \<Rightarrow> aSSLSocketIO option outcome" where
  "SSLStream_reference_sslio st =
     (case st of None \<Rightarrow> Inl Null_Deref | Some s \<Rightarrow> Inr (if st_usedSSL s then Some (st_sslio s) else None))"

text \<open>A moved-from stream faults in every call; a fresh one has no TLS until \<open>usingSSL\<close>.\<close>

theorem SSLStream_pointer:
  "SSLStream_reference_sslio (SSLStream_ctor sock) = Inr None
   \<and> (let (_, _, s') = SSLStream_usingSSL assl e s in
        SSLStream_reference_sslio (Some s') = Inr (Some (st_sslio s')) \<and> io_ssl (st_sslio s') = assl \<and> io_endType (st_sslio s') = e)
   \<and> SSLStream_setOnRead True (snd (SSLStream_move_ctor other)) = Inl Null_Deref
   \<and> SSLStream_enabledSSL (snd (SSLStream_move_assign self other)) = Inl Null_Deref"
  by (simp add: SSLStream_reference_sslio_def SSLStream_ctor_def SSLStream_usingSSL_def aSSLSocketIO_upgradeFromSSL_def
      aSSL_move_assign_def SSLStream_setOnRead_def SSLStream_move_ctor_def SSLStream_enabledSSL_def SSLStream_move_assign_def Let_def)

end
