(* ===== verification/Session_Moves.thy ===== *)
theory Session_Moves
  imports Http2_Session IO_Service
begin

text \<open>
  Moves of objects whose closures keep a pointer to them: HTTP/2 sessions (\<open>http2.cpp\<close>), whose stream callbacks and
  nghttp2 user pointer capture \<open>this\<close>, and the io_uring service (\<open>io_service.cpp\<close>). Sessions live at addresses of a store; an
  object holds its members through a pointer that a move takes away.
\<close>

section \<open>HTTP/2 sessions in memory\<close>

text \<open>
  The members of a session: what \<open>Http2_Session\<close> models, the callbacks with \<open>onSessionClose\<close> as whether it is set, and the
  address the closures of the constructor captured.
\<close>

record 's h2_member =
  h2_core :: Http2ndSession
  h2_callbacks :: "'s CBGroup"
  h2_onSessionClose :: bool
  h2_this :: nat

type_synonym 's h2_store = "nat \<rightharpoonup> 's h2_member option"

definition no_callbacks :: "'s CBGroup" where
  "no_callbacks = \<lparr>onReqRecvDone = None, onStreamClosed = None, onHeadDone = None, onNewHead = None,
     onDataChunkRecv = None, onPushPromiseFrame = None\<rparr>"

definition Http2ndSession_create :: "nat \<Rightarrow> int \<Rightarrow> 's h2_store \<Rightarrow> 's h2_store" where
  "Http2ndSession_create this endType h =
     h(this \<mapsto> Some \<lparr>h2_core = Http2ndSession_ctor endType, h2_callbacks = no_callbacks, h2_onSessionClose = False, h2_this = this\<rparr>)"

text \<open>The object at an address: one whose life has ended is a fault.\<close>

definition object_at :: "nat \<Rightarrow> 's h2_store \<Rightarrow> 's h2_member option outcome" where
  "object_at p h = (case h p of None \<Rightarrow> Inl Use_After_Free | Some ob \<Rightarrow> Inr ob)"

definition member_at :: "nat \<Rightarrow> 's h2_store \<Rightarrow> 's h2_member outcome" where
  "member_at p h = bind_out (object_at p h) (\<lambda>ob. case ob of None \<Rightarrow> Inl Null_Deref | Some mb \<Rightarrow> Inr mb)"

definition Http2ndSession_move_ctor :: "nat \<Rightarrow> nat \<Rightarrow> 's h2_store \<Rightarrow> 's h2_store outcome" where
  "Http2ndSession_move_ctor this other h = bind_out (object_at other h) (\<lambda>ob. Inr (h(other \<mapsto> None, this \<mapsto> ob)))"

text \<open>The sessions of nghttp2 that are deleted are listed.\<close>

definition Http2ndSession_dtor :: "nat \<Rightarrow> 's h2_store \<Rightarrow> (nghttp2_session list \<times> 's h2_store) outcome" where
  "Http2ndSession_dtor this h =
     bind_out (object_at this h) (\<lambda>ob.
       Inr (case ob of None \<Rightarrow> [] | Some mb \<Rightarrow> [h2_session (h2_core mb)], h(this := None)))"

text \<open>The assignment destroys the object by hand and then assigns to its pointer; only an empty session survives that.\<close>

definition Http2ndSession_move_assign :: "nat \<Rightarrow> nat \<Rightarrow> 's h2_store \<Rightarrow> 's h2_store outcome" where
  "Http2ndSession_move_assign this other h =
     bind_out (object_at this h) (\<lambda>ob.
       bind_out (object_at other h) (\<lambda>ob'.
         case ob of Some _ \<Rightarrow> Inl Use_After_Free | None \<Rightarrow> Inr (h(other \<mapsto> None, this \<mapsto> ob'))))"

definition Http2ndSession_valid :: "nat \<Rightarrow> 's h2_store \<Rightarrow> bool outcome" where
  "Http2ndSession_valid this h = bind_out (object_at this h) (\<lambda>ob. Inr (ob \<noteq> None))"

definition Http2ndSession_setOnCallback :: "nat \<Rightarrow> 's CBGroup \<Rightarrow> bool \<Rightarrow> 's h2_store \<Rightarrow> 's h2_store outcome" where
  "Http2ndSession_setOnCallback this cbg close h =
     bind_out (member_at this h) (\<lambda>mb.
       Inr (h(this \<mapsto> Some (mb\<lparr>h2_callbacks := cbg, h2_onSessionClose := close\<rparr>))))"

text \<open>Both send functions answer that they succeeded and send nothing.\<close>

definition Http2ndSession_asendResponse :: "derive_data \<Rightarrow> 's h2_store \<Rightarrow> bool \<times> 's h2_store" where
  "Http2ndSession_asendResponse r h = (True, h)"

definition Http2ndSession_asendRequeste :: "derive_data \<Rightarrow> 's h2_store \<Rightarrow> bool \<times> 's h2_store" where
  "Http2ndSession_asendRequeste r h = (True, h)"

section \<open>The callbacks of the stream\<close>

text \<open>
  The closures run on the address they captured. \<open>recv\<close> and \<open>send\<close> are the answers of \<open>nghttp2_session_mem_recv\<close> and
  \<open>nghttp2_session_send\<close> for the members' session; \<open>None\<close> is a read that does nothing.
\<close>

definition h2_on_read :: "(Http2ndSession \<Rightarrow> bytes \<Rightarrow> int) \<Rightarrow> (Http2ndSession \<Rightarrow> int) \<Rightarrow> nat \<Rightarrow> int \<Rightarrow> bytes \<Rightarrow> 's h2_store \<Rightarrow> int option outcome" where
  "h2_on_read recv send this ret d h =
     (if ret > 0
      then bind_out (member_at this h) (\<lambda>mb. Inr (Some (nghttp2RealRecv (recv (h2_core mb) d) (send (h2_core mb)))))
      else Inr None)"

definition h2_on_close :: "(Http2ndSession \<Rightarrow> bytes \<Rightarrow> int) \<Rightarrow> (Http2ndSession \<Rightarrow> int) \<Rightarrow> nat \<Rightarrow> 's h2_store \<Rightarrow> int outcome" where
  "h2_on_close recv send this h =
     bind_out (member_at this h) (\<lambda>mb.
       let r = nghttp2RealRecv (recv (h2_core mb) []) (send (h2_core mb))
       in if h2_onSessionClose mb then Inr r else Inl Bad_Function_Call)"

lemmas h2_store_defs = Http2ndSession_create_def object_at_def member_at_def Http2ndSession_move_ctor_def Http2ndSession_dtor_def
  Http2ndSession_move_assign_def Http2ndSession_valid_def Http2ndSession_setOnCallback_def h2_on_read_def h2_on_close_def

text \<open>A session is pinned when the pointer its closures captured is where it is.\<close>

definition h2_pinned :: "'s h2_store \<Rightarrow> bool" where
  "h2_pinned h \<longleftrightarrow> (\<forall>p mb. h p = Some (Some mb) \<longrightarrow> h2_this mb = p)"

text \<open>
  Construction, callbacks and destruction keep every session pinned, and a pinned session answers
  incoming data with what nghttp2 says.
\<close>

theorem h2_pinned_serves:
  assumes "h2_pinned h"
  shows "h2_pinned (Http2ndSession_create p e h)"
    and "Http2ndSession_setOnCallback p cbg c h = Inr h' \<Longrightarrow> h2_pinned h'"
    and "Http2ndSession_dtor p h = Inr (del, h'') \<Longrightarrow> h2_pinned h''"
    and "member_at p h = Inr mb \<Longrightarrow> 0 < ret \<Longrightarrow>
      h2_on_read recv send (h2_this mb) ret d h = Inr (Some (nghttp2RealRecv (recv (h2_core mb) d) (send (h2_core mb))))"
  using assms by (auto simp: h2_pinned_def h2_store_defs split: option.splits if_splits)

text \<open>
  Moving a session breaks it: its stream goes on calling the address it was moved from, where the members are a
  null pointer, or memory that is no longer an object once that one is destroyed. Assigning over a
  session uses its pointer after its end.
\<close>

theorem h2_move_breaks:
  assumes "p \<noteq> q" and "h p = Some (Some mb)" and "h2_this mb = p" and "0 < ret"
  shows "\<exists>h'. Http2ndSession_move_ctor q p h = Inr h' \<and> member_at q h' = Inr mb
       \<and> h2_on_read recv send (h2_this mb) ret d h' = Inl Null_Deref
       \<and> (\<exists>h''. Http2ndSession_dtor p h' = Inr ([], h'') \<and> member_at q h'' = Inr mb
            \<and> h2_on_read recv send (h2_this mb) ret d h'' = Inl Use_After_Free
            \<and> h2_on_close recv send (h2_this mb) h'' = Inl Use_After_Free)"
    and "h q = Some ob \<Longrightarrow> Http2ndSession_move_assign p q h = Inl Use_After_Free"
  using assms by (auto simp: h2_store_defs)

section \<open>The io_uring service\<close>

definition IOService_dtor :: "'cb IOService \<Rightarrow> 'cb IOService" where
  "IOService_dtor s = IOService_deinit s"

text \<open>
  The move assignment destroys the service by hand. Contexts, queue and ring it had are released and then
  assigned to; a service with none of them takes the contexts and the ring of the other, but not
  its queue, its size and its count.
\<close>

definition IOService_move_assign :: "'cb IOService \<Rightarrow> 'cb IOService \<Rightarrow> ('cb IOService \<times> 'cb IOService) outcome" where
  "IOService_move_assign self ios =
     (if ios_uring self \<or> ios_queue self \<noteq> None \<or> \<not> RBT.is_empty (ios_contexts self) then Inl Use_After_Free
      else Inr ((IOService_dtor self)\<lparr>ios_contexts := ios_contexts ios, ios_uring := ios_uring ios, ios_ring := ios_ring ios\<rparr>,
                ios\<lparr>ios_contexts := RBT.empty, ios_uring := False, ios_ring := []\<rparr>))"

text \<open>
  After a move construction the new service accepts what the old one did, and the old one refuses. After a
  move assignment that does not fault neither accepts a request again.
\<close>

theorem IOService_moves:
  "(let (new, old) = IOService_move_ctor s in
      fst (IOService_submitRequest uid c new) = fst (IOService_submitRequest uid c s)
      \<and> fst (IOService_submitRequest uid c old) = False)
   \<and> (\<forall>self' ios'. IOService_move_assign self ios = Inr (self', ios') \<longrightarrow>
        IOService_submitRequest uid c self' = (False, self') \<and> IOService_submitRequest uid c ios' = (False, ios'))
   \<and> IOService_move_assign (IOService_ctor n) ios = Inl Use_After_Free"
  by (auto simp: IOService_move_ctor_def IOService_move_assign_def IOService_dtor_def IOService_deinit_def IOService_ctor_def
      IOService_submitRequest_def split: option.splits if_splits)

end
