(* ===== verification/Stream_Channel.thy ===== *)
theory Stream_Channel
  imports Stream_Model
begin

text \<open>
  Two connected \<open>SockStream\<close>s (\<open>sockstream.cpp\<close>), one sending and one receiving, with the sender's task distributor
  (\<open>task_distributor.cpp\<close>) and the kernel's byte stream between them: what \<open>asend\<close> accepts, what the closures on the IO worker
  write, and what the reader's callback gets. The steps interleave freely; the whole is shown to implement a pipe of
  bytes.
\<close>

section \<open>The system\<close>

text \<open>
  \<open>ch_wire\<close> holds the bytes the kernel has taken and not yet handed over. \<open>ch_handed\<close> collects what the reader's
  callback was given and \<open>ch_asked\<close> what \<open>asend\<close> accepted.
\<close>

record ch_sys =
  ch_td :: "stream_task td_sys"
  ch_from :: SockStream
  ch_wire :: bytes
  ch_to :: SockStream
  ch_handed :: bytes
  ch_asked :: bytes

definition ch_loop :: "ch_sys \<Rightarrow> loop_ref" where
  "ch_loop s = \<lparr>poller_alive = True, loop_dist = Some (dist (ch_td s))\<rparr>"

definition ch_submitted :: "loop_ref \<Rightarrow> stream_task \<Rightarrow> ch_sys \<Rightarrow> ch_sys" where
  "ch_submitted lr t s =
     s\<lparr>ch_td := (ch_td s)\<lparr>dist := the (loop_dist lr), submitted := (submitted (ch_td s))(0 := submitted (ch_td s) 0 @ [Some t])\<rparr>\<rparr>"

text \<open>The bytes a run of a closure hands to the kernel, which takes \<open>ret\<close> of them, and the bytes a callback gets.\<close>

definition sent :: "int \<Rightarrow> net_effect list \<Rightarrow> bytes" where
  "sent ret eff = concat (map (\<lambda>e. case e of Send_FD f m \<Rightarrow> take (nat ret) m | _ \<Rightarrow> []) eff)"

definition received :: "net_effect list \<Rightarrow> bytes" where
  "received eff = concat (map (\<lambda>e. case e of On_Read n d \<Rightarrow> d | _ \<Rightarrow> []) eff)"

text \<open>
  Any thread sends or starts listening; the IO worker takes a batch and runs its closures one by one; the poller
  calls the reader whenever bytes have arrived, with any part of those under way, in chunks. \<open>takes m r\<close> says
  that the kernel may answer \<open>send\<close> of \<open>m\<close> with \<open>r\<close>.
\<close>

inductive ch_step :: "(bytes \<Rightarrow> int \<Rightarrow> bool) \<Rightarrow> ch_sys \<Rightarrow> ch_sys \<Rightarrow> bool" for takes where
  ch_send: "SockStream_asend (ch_from s) msg (ch_loop s) = (True, lr) \<Longrightarrow>
     ch_step takes s ((ch_submitted lr (Send_Msg msg) s)\<lparr>ch_asked := ch_asked s @ msg\<rparr>)"
| ch_listen: "SockStream_startListenReadEvent (ch_from s) (ch_loop s) = (True, lr) \<Longrightarrow>
     ch_step takes s (ch_submitted lr (Listen_Read (Socket_handle (ss_sock (ch_from s)))) s)"
| ch_fetch: "\<not> td_exit (dist (ch_td s)) \<Longrightarrow> batch (ch_td s) 0 = [] \<Longrightarrow> work_take 0 (dist (ch_td s)) = (b, d) \<Longrightarrow>
     ch_step takes s (s\<lparr>ch_td := (ch_td s)\<lparr>dist := d, batch := (batch (ch_td s))(0 := b)\<rparr>\<rparr>)"
| ch_call: "batch (ch_td s) 0 = Some t # ts \<Longrightarrow> SockStream_run ret so_domain True t (ch_from s) = (eff, from') \<Longrightarrow>
     (\<forall>f m. Send_FD f m \<in> set eff \<longrightarrow> takes m ret) \<Longrightarrow>
     ch_step takes s (s\<lparr>ch_td := (ch_td s)\<lparr>batch := (batch (ch_td s))(0 := ts),
                                       called := (called (ch_td s))(0 := called (ch_td s) 0 @ [Some t])\<rparr>,
                     ch_from := from', ch_wire := ch_wire s @ sent ret eff\<rparr>)"
| ch_wake: "bss \<noteq> [] \<Longrightarrow> list_all (\<lambda>bs. bs \<noteq> [] \<and> length bs \<le> 128) bss \<Longrightarrow> ch_wire s = concat bss @ rest \<Longrightarrow>
     SockStream_on_event f EPOLLIN (map Got bss @ [Would_Block]) True (ch_to s) = Some eff \<Longrightarrow>
     ch_step takes s (s\<lparr>ch_wire := rest, ch_handed := ch_handed s @ received eff\<rparr>)"

inductive_cases ch_stepE: "ch_step takes s t"

definition ch_init :: "nat \<Rightarrow> (nat \<Rightarrow> thread_id) \<Rightarrow> SockStream \<Rightarrow> SockStream \<Rightarrow> ch_sys" where
  "ch_init n ids src dst =
     \<lparr>ch_td = td_init n ids, ch_from = src, ch_wire = [], ch_to = dst, ch_handed = [], ch_asked = []\<rparr>"

inductive ch_reachable :: "(bytes \<Rightarrow> int \<Rightarrow> bool) \<Rightarrow> nat \<Rightarrow> SockStream \<Rightarrow> SockStream \<Rightarrow> ch_sys \<Rightarrow> bool" for takes n src dst where
  ch_start: "ch_reachable takes n src dst (ch_init n ids src dst)"
| ch_next: "ch_reachable takes n src dst s \<Longrightarrow> ch_step takes s t \<Longrightarrow> ch_reachable takes n src dst t"

section \<open>The pipe it implements\<close>

text \<open>An abstract pipe: bytes put in at one end, in their order, come out in pieces at the other.\<close>

datatype byte_pipe = Pipe (unread: bytes) (handed: bytes)

inductive pipe_step :: "byte_pipe \<Rightarrow> byte_pipe \<Rightarrow> bool" where
  pipe_put: "pipe_step (Pipe u h) (Pipe (u @ m) h)"
| pipe_get: "m \<noteq> [] \<Longrightarrow> pipe_step (Pipe (m @ u) h) (Pipe u (h @ m))"

fun task_payload :: "stream_task option \<Rightarrow> bytes" where
  "task_payload (Some (Send_Msg m)) = m"
| "task_payload _ = []"

definition payload :: "stream_task option list \<Rightarrow> bytes" where
  "payload ts = concat (map task_payload ts)"

definition ch_queue :: "ch_sys \<Rightarrow> stream_task option list" where
  "ch_queue s = MutexQue_contents (td_bqueForTask (dist (ch_td s)) ! 0)"

definition ch_abs :: "ch_sys \<Rightarrow> byte_pipe" where
  "ch_abs s = Pipe (ch_wire s @ payload (batch (ch_td s) 0) @ payload (ch_queue s)) (ch_handed s)"

text \<open>The work left: bytes on the wire, and for every closure its bytes and itself, weighted by how far it is from the wire.\<close>

definition task_weight :: "stream_task option list \<Rightarrow> nat" where
  "task_weight ts = sum_list (map (\<lambda>t. Suc (length (task_payload t))) ts)"

definition ch_work :: "ch_sys \<Rightarrow> nat" where
  "ch_work s = length (ch_wire s) + 2 * task_weight (batch (ch_td s) 0) + 3 * task_weight (ch_queue s)"

lemma payload_simps [simp]: "payload [] = []" "payload (t # ts) = task_payload t @ payload ts" "payload (as @ bs) = payload as @ payload bs"
  by (simp_all add: payload_def)

lemma task_weight_simps [simp]: "task_weight [] = 0" "task_weight (t # ts) = Suc (length (task_payload t)) + task_weight ts"
  "task_weight (as @ bs) = task_weight as + task_weight bs"
  by (simp_all add: task_weight_def)

section \<open>Invariant\<close>

text \<open>The tasks of the channel: sends and registrations.\<close>

fun ch_task :: "stream_task option \<Rightarrow> bool" where
  "ch_task (Some (Send_Msg m)) = True"
| "ch_task (Some (Listen_Read f)) = True"
| "ch_task _ = False"

definition ch_inv :: "ch_sys \<Rightarrow> bool" where
  "ch_inv s \<longleftrightarrow> TaskDistributor_inv (dist (ch_td s)) \<and> td_tpool (dist (ch_td s)) \<noteq> None \<and> \<not> td_exit (dist (ch_td s))
     \<and> Socket_valid (ss_sock (ch_from s)) \<and> ss_onRead (ch_to s)
     \<and> list_all ch_task (batch (ch_td s) 0 @ ch_queue s)
     \<and> ch_handed s @ unread (ch_abs s) = ch_asked s"

abbreviation takes_all :: "bytes \<Rightarrow> int \<Rightarrow> bool" where
  "takes_all m r \<equiv> r = int (length m)"

lemma ch_take:
  assumes "ch_inv s"
  obtains us vs d where "work_take 0 (dist (ch_td s)) = (map Some us, d)" and "ch_queue s = map Some us @ map Some vs"
    and "io_queue d vs" and "us = [] \<Longrightarrow> ch_queue s = []"
proof -
  have "list_all ch_task (ch_queue s)" using assms by (simp add: ch_inv_def)
  then have m: "ch_queue s = map Some (map the (ch_queue s))"
    by (auto simp: list_all_iff intro!: map_idI[symmetric] elim!: ch_task.elims)
  then obtain ts where ts: "ch_queue s = map Some ts" by blast
  then have "io_queue (dist (ch_td s)) ts" using assms by (simp add: ch_inv_def io_queue_def ch_queue_def)
  then show thesis by (rule io_take) (rule that; auto simp: ts)
qed

lemma submit_io_queue:
  assumes "TaskDistributor_inv ev" and "td_tpool ev \<noteq> None"
  obtains ev' where "submit_io t \<lparr>poller_alive = True, loop_dist = Some ev\<rparr> = (True, \<lparr>poller_alive = True, loop_dist = Some ev'\<rparr>)"
    and "TaskDistributor_inv ev'" and "td_tpool ev' \<noteq> None" and "td_exit ev' = td_exit ev"
    and "MutexQue_contents (td_bqueForTask ev' ! 0) = MutexQue_contents (td_bqueForTask ev ! 0) @ [Some t]"
proof -
  obtain ev' where e: "add_io t ev = (True, Some ev')" "TaskDistributor_inv ev'" "td_tpool ev' \<noteq> None"
    "MutexQue_contents (td_bqueForTask ev' ! 0) = MutexQue_contents (td_bqueForTask ev ! 0) @ [Some t]"
    by (rule add_io_queue[OF assms, of t]) (use that in simp)
  have "td_exit ev' = td_exit ev"
    using e(1) addTask_accepts(1)[OF assms, of t 0]
    by (auto simp: add_io_def TaskDistributor_addTask_type_def push_task_def split: prod.splits)
  moreover have "submit_io t \<lparr>poller_alive = True, loop_dist = Some ev\<rparr> = (True, \<lparr>poller_alive = True, loop_dist = Some ev'\<rparr>)"
    using e(1) by (auto simp: submit_io_def add_io_def split: prod.splits)
  ultimately show thesis using that e by blast
qed

lemma ch_submit_inv:
  assumes "ch_inv s" and "submit_io t (ch_loop s) = (b, lr)" and "ch_task (Some t)"
  shows "b" and "ch_inv ((ch_submitted lr t s)\<lparr>ch_asked := ch_asked s @ task_payload (Some t)\<rparr>)"
    and "ch_queue (ch_submitted lr t s) = ch_queue s @ [Some t]"
proof -
  obtain ev' where e: "submit_io t (ch_loop s) = (True, \<lparr>poller_alive = True, loop_dist = Some ev'\<rparr>)"
    "TaskDistributor_inv ev'" "td_tpool ev' \<noteq> None" "td_exit ev' = td_exit (dist (ch_td s))"
    "MutexQue_contents (td_bqueForTask ev' ! 0) = ch_queue s @ [Some t]"
    using assms(1) unfolding ch_inv_def ch_loop_def ch_queue_def by (auto elim: submit_io_queue)
  show b using assms(2) e(1) by simp
  show "ch_queue (ch_submitted lr t s) = ch_queue s @ [Some t]"
    using assms(2) e by (auto simp: ch_submitted_def ch_queue_def)
  then show "ch_inv ((ch_submitted lr t s)\<lparr>ch_asked := ch_asked s @ task_payload (Some t)\<rparr>)"
    using assms e by (auto simp: ch_inv_def ch_submitted_def ch_abs_def ch_queue_def)
qed

lemma ch_run:
  assumes "ch_task (Some t)" and "Socket_valid (ss_sock s)" and "SockStream_run ret so_domain True t s = (eff, s')"
    and "\<forall>f m. Send_FD f m \<in> set eff \<longrightarrow> takes_all m ret"
  shows "s' = s" and "sent ret eff = task_payload (Some t)"
  using assms by (cases t; auto simp: SockStream_run_def SockStream_listenReadEvent_def sent_def split: if_splits)+

lemma ch_read:
  assumes "bss \<noteq> []" and "list_all (\<lambda>bs. bs \<noteq> [] \<and> length bs \<le> 128) bss" and "ss_onRead s"
  shows "SockStream_on_event f EPOLLIN (map Got bss @ [Would_Block]) True s
     = Some [On_Read (int (length (concat bss))) (concat bss)]" and "concat bss \<noteq> []"
proof -
  show ne: "concat bss \<noteq> []" using assms(1,2) by (cases bss) auto
  have "list_all (\<lambda>bs. length bs \<le> 128) bss" using assms(2) by (simp add: list_all_iff)
  from tryRead_loop_got[OF this] ne assms(3) show "SockStream_on_event f EPOLLIN (map Got bss @ [Would_Block]) True s
     = Some [On_Read (int (length (concat bss))) (concat bss)]"
    by (simp add: SockStream_on_event_def SockStream_tryRead_def EPOLLIN_def heap_defs)
qed

text \<open>Every step keeps the invariant and is a step of the pipe or none.\<close>

lemma ch_step_refines:
  assumes "ch_step takes_all s t" and "ch_inv s"
  shows "ch_inv t \<and> (ch_abs t = ch_abs s \<or> pipe_step (ch_abs s) (ch_abs t))"
  using assms
proof (cases rule: ch_step.cases)
  case (ch_send msg lr)
  have "submit_io (Send_Msg msg) (ch_loop s) = (True, lr)"
    using ch_send(2) by (auto simp: SockStream_asend_def split: if_splits)
  note s = ch_submit_inv[OF assms(2) this]
  have "ch_abs t = Pipe (unread (ch_abs s) @ msg) (ch_handed s)"
    using s(3) unfolding ch_send(1) by (simp add: ch_abs_def ch_queue_def ch_submitted_def)
  then have "pipe_step (ch_abs s) (ch_abs t)" using pipe_put[of "unread (ch_abs s)" "ch_handed s" msg] by (simp add: ch_abs_def)
  then show ?thesis using s(2) ch_send(1) by simp
next
  case (ch_listen lr)
  have "submit_io (Listen_Read (Socket_handle (ss_sock (ch_from s)))) (ch_loop s) = (True, lr)"
    using ch_listen(2) by (simp add: SockStream_startListenReadEvent_def)
  note s = ch_submit_inv[OF assms(2) this]
  have "ch_abs t = ch_abs s" using s(3) unfolding ch_listen(1) by (simp add: ch_abs_def ch_queue_def ch_submitted_def)
  moreover have "t = (ch_submitted lr (Listen_Read (Socket_handle (ss_sock (ch_from s)))) s)
      \<lparr>ch_asked := ch_asked s @ task_payload (Some (Listen_Read (Socket_handle (ss_sock (ch_from s)))))\<rparr>"
    unfolding ch_listen(1) by (simp add: ch_submitted_def)
  ultimately show ?thesis using s(2) by simp
next
  case (ch_fetch b d)
  obtain us vs where u: "work_take 0 (dist (ch_td s)) = (map Some us, d)" "ch_queue s = map Some us @ map Some vs" "io_queue d vs"
    by (rule ch_take[OF assms(2)]) (use ch_fetch(4) in auto)
  moreover from this have "b = map Some us" "ch_queue t = map Some vs"
    using ch_fetch(1,4) by (simp_all add: ch_queue_def io_queue_def)
  ultimately have "ch_abs t = ch_abs s" "batch (ch_td t) 0 @ ch_queue t = ch_queue s"
    using ch_fetch by (simp_all add: ch_abs_def)
  then show ?thesis using assms(2) u(3) ch_fetch(1,3) by (simp add: ch_inv_def io_queue_def)
next
  case (ch_call u ts ret so_domain eff from')
  have u: "ch_task (Some u)" "Socket_valid (ss_sock (ch_from s))" using assms(2) ch_call(2) by (auto simp: ch_inv_def)
  note r = ch_run[OF u ch_call(3,4)]
  have "ch_abs t = ch_abs s" using ch_call r by (simp add: ch_abs_def ch_queue_def)
  then show ?thesis using assms(2) ch_call r by (simp add: ch_inv_def ch_queue_def)
next
  case (ch_wake bss rest f eff)
  have o: "ss_onRead (ch_to s)" using assms(2) by (simp add: ch_inv_def)
  note r = ch_read[OF ch_wake(2,3) o]
  have e: "received eff = concat bss" using r(1)[of f] ch_wake(5) by (simp add: received_def)
  then have "ch_abs s = Pipe (concat bss @ rest @ payload (batch (ch_td s) 0) @ payload (ch_queue s)) (ch_handed s)"
    "ch_abs t = Pipe (rest @ payload (batch (ch_td s) 0) @ payload (ch_queue s)) (ch_handed s @ concat bss)"
    using ch_wake(1,4) by (simp_all add: ch_abs_def ch_queue_def)
  then show ?thesis using assms(2) ch_wake(1) e pipe_get[OF r(2)] by (auto simp: ch_inv_def ch_queue_def)
qed

lemma ch_reachable_inv:
  assumes "ch_reachable takes_all n src dst s" and "Socket_valid (ss_sock src)" and "ss_onRead dst"
  shows "ch_inv s"
  using assms(1)
proof (induction rule: ch_reachable.induct)
  case (ch_start ids)
  have "td_sys_inv (td_init n ids :: stream_task td_sys)" by (rule td_sys_inv_init)
  then show ?case
    using assms(2,3)
    by (auto simp: ch_inv_def ch_init_def td_sys_inv_def td_init_def ch_abs_def ch_queue_def loop_defs queue_defs)
qed (use ch_step_refines in blast)

section \<open>Progress\<close>

lemma ch_work_zero: "ch_work s = 0 \<longleftrightarrow> ch_wire s = [] \<and> batch (ch_td s) 0 = [] \<and> ch_queue s = []"
  by (cases "batch (ch_td s) 0"; cases "ch_queue s") (auto simp: ch_work_def)

text \<open>While there is work left, the worker or the reader can take a step that does some of it.\<close>

lemma ch_progress:
  assumes "ch_inv s" and "ch_work s \<noteq> 0"
  shows "\<exists>t. ch_step takes_all s t \<and> ch_work t < ch_work s \<and> ch_asked t = ch_asked s"
proof (cases "batch (ch_td s) 0")
  case (Cons b ts)
  obtain u where u: "b = Some u" "ch_task (Some u)" using assms(1) Cons by (cases b) (auto simp: ch_inv_def)
  define ret where "ret = int (length (task_payload (Some u)))"
  obtain eff from' where r: "SockStream_run ret None True u (ch_from s) = (eff, from')" by fastforce
  have v: "Socket_valid (ss_sock (ch_from s))" using assms(1) by (simp add: ch_inv_def)
  have k: "\<forall>f m. Send_FD f m \<in> set eff \<longrightarrow> takes_all m ret"
    using r u(2) v by (cases u) (auto simp: SockStream_run_def SockStream_listenReadEvent_def ret_def split: if_splits)
  note run = ch_run[OF u(2) v r k]
  show ?thesis
    by (rule exI, rule conjI, rule ch_step.ch_call[where takes = takes_all, OF Cons[unfolded u(1)] r k])
      (simp add: ch_work_def ch_queue_def Cons u(1) run(2))
next
  case Nil
  show ?thesis
  proof (cases "ch_wire s")
    case (Cons c cs)
    have o: "ss_onRead (ch_to s)" using assms(1) by (simp add: ch_inv_def)
    have w: "[[c]] \<noteq> []" "list_all (\<lambda>bs. bs \<noteq> [] \<and> length bs \<le> 128) [[c]]" "ch_wire s = concat [[c]] @ cs" using Cons by simp_all
    show ?thesis
      by (rule exI, rule conjI, rule ch_step.ch_wake[where takes = takes_all, OF w ch_read(1)[OF w(1,2) o, of 0]])
        (simp add: ch_work_def ch_queue_def Cons)
  next
    case wire: Nil
    obtain us vs d where u: "work_take 0 (dist (ch_td s)) = (map Some us, d)" "ch_queue s = map Some us @ map Some vs"
      "io_queue d vs" "us = [] \<Longrightarrow> ch_queue s = []"
      by (rule ch_take[OF assms(1)]) (use that in blast)
    have "us \<noteq> []" using assms(2) u(4) Nil wire by (auto simp: ch_work_zero)
    then have "0 < task_weight (map Some us)" by (cases us) simp_all
    moreover have "MutexQue_contents (td_bqueForTask d ! 0) = map Some vs" using u(3) by (simp add: io_queue_def)
    moreover have x: "\<not> td_exit (dist (ch_td s))" using assms(1) by (simp add: ch_inv_def)
    let ?t = "s\<lparr>ch_td := (ch_td s)\<lparr>dist := d, batch := (batch (ch_td s))(0 := map Some us)\<rparr>\<rparr>"
    have "ch_step takes_all s ?t" by (rule ch_step.ch_fetch[OF x Nil u(1)])
    moreover have "ch_queue ?t = map Some vs" using u(3) by (simp add: ch_queue_def io_queue_def)
    ultimately show ?thesis by (intro exI[of _ ?t]) (simp add: ch_work_def Nil wire u(2))
  qed
qed

text \<open>Without new submissions every step does some work, unless the worker found nothing.\<close>

lemma ch_step_work:
  assumes "ch_step takes_all s t" and "ch_inv s" and "submitted (ch_td t) = submitted (ch_td s)"
  shows "ch_work t < ch_work s \<or> (ch_work s = ch_work t \<and> ch_handed t = ch_handed s \<and> batch (ch_td s) 0 = [] \<and> ch_queue s = [])"
  using assms(1)
proof (cases rule: ch_step.cases)
  case (ch_fetch b d)
  obtain us vs where u: "work_take 0 (dist (ch_td s)) = (map Some us, d)" "ch_queue s = map Some us @ map Some vs" "io_queue d vs"
    "us = [] \<Longrightarrow> ch_queue s = []"
    by (rule ch_take[OF assms(2)]) (use ch_fetch(4) that in auto)
  moreover from this have "b = map Some us" "ch_queue t = map Some vs"
    using ch_fetch(1,4) by (simp_all add: ch_queue_def io_queue_def)
  ultimately have "ch_work s = ch_work t + task_weight (map Some us)" using ch_fetch by (simp add: ch_work_def)
  moreover have "us \<noteq> [] \<Longrightarrow> 0 < task_weight (map Some us)" by (cases us) simp_all
  ultimately show ?thesis using ch_fetch u(2,4) by (cases "us = []") auto
next
  case (ch_call u ts ret so_domain eff from')
  have u: "ch_task (Some u)" "Socket_valid (ss_sock (ch_from s))" using assms(2) ch_call(2) by (auto simp: ch_inv_def)
  show ?thesis using ch_call ch_run(2)[OF u ch_call(3,4)] by (simp add: ch_work_def ch_queue_def)
next
  case (ch_wake bss rest f eff)
  have "concat bss \<noteq> []" using ch_wake(2,3) by (cases bss) auto
  then show ?thesis using ch_wake by (simp add: ch_work_def ch_queue_def)
qed (use assms(3) in \<open>auto simp: ch_submitted_def fun_eq_iff dest: spec[of _ 0]\<close>)

section \<open>Properties\<close>

text \<open>
  Property C11. A stream is a pipe. Take a sender with a valid socket and a reader with a read callback, connected by a kernel that
  takes every \<open>send\<close> whole, as it does on a blocking stream socket. However the sending threads, the IO worker of the
  sender's distributor and the reader's wake-ups interleave: every step is a step of the abstract pipe or invisible;
  what the callback got, followed by what is on the wire, in the worker's batch and in its queue, are exactly the
  bytes \<open>asend\<close> accepted, in order. As long as bytes are under way some step brings them nearer; without new
  submissions every step does, or is a worker finding its queue empty; and when nothing is left, the callback has got
  everything.
\<close>

theorem SockStream_refines_pipe:
  assumes "ch_reachable takes_all n src dst s" and "Socket_valid (ss_sock src)" and "ss_onRead dst"
  shows "(\<forall>t. ch_step takes_all s t \<longrightarrow> ch_abs t = ch_abs s \<or> pipe_step (ch_abs s) (ch_abs t))
     \<and> handed (ch_abs s) @ unread (ch_abs s) = ch_asked s
     \<and> (ch_work s \<noteq> 0 \<longrightarrow> (\<exists>t. ch_step takes_all s t \<and> ch_work t < ch_work s \<and> ch_asked t = ch_asked s))
     \<and> (\<forall>t. ch_step takes_all s t \<and> submitted (ch_td t) = submitted (ch_td s) \<longrightarrow>
           ch_work t < ch_work s \<or> (ch_work t = ch_work s \<and> ch_handed t = ch_handed s \<and> ch_queue s = []))
     \<and> (ch_work s = 0 \<longrightarrow> ch_handed s = ch_asked s)"
proof -
  have inv: "ch_inv s" by (rule ch_reachable_inv[OF assms])
  then have e: "handed (ch_abs s) @ unread (ch_abs s) = ch_asked s" by (simp add: ch_inv_def ch_abs_def)
  moreover have "ch_handed s = ch_asked s" if "ch_work s = 0" using e that by (simp add: ch_work_zero ch_abs_def)
  moreover have "\<forall>t. ch_step takes_all s t \<longrightarrow> ch_abs t = ch_abs s \<or> pipe_step (ch_abs s) (ch_abs t)"
    using ch_step_refines[OF _ inv] by blast
  moreover have "\<forall>t. ch_step takes_all s t \<and> submitted (ch_td t) = submitted (ch_td s) \<longrightarrow>
      ch_work t < ch_work s \<or> (ch_work t = ch_work s \<and> ch_handed t = ch_handed s \<and> ch_queue s = [])"
    using ch_step_work[OF _ inv] by fastforce
  ultimately show ?thesis using ch_progress[OF inv] by (intro conjI impI) assumption+
qed

text \<open>One message sent, on a distributor of one worker.\<close>

lemma demo_sent:
  "\<exists>s. ch_reachable takes_all 1 demo_stream demo_stream s \<and> ch_asked s = ''ab'' \<and> ch_handed s = [] \<and> ch_work s \<noteq> 0"
proof -
  let ?s = "ch_init 1 Suc demo_stream demo_stream"
  have i: "ch_inv ?s" by (rule ch_reachable_inv[OF ch_start]) (simp_all add: demo_stream_def net_defs)
  obtain b lr where r: "submit_io (Send_Msg ''ab'') (ch_loop ?s) = (b, lr)" by fastforce
  note sub = ch_submit_inv[OF i r, simplified]
  let ?t = "(ch_submitted lr (Send_Msg ''ab'') ?s)\<lparr>ch_asked := ch_asked ?s @ ''ab''\<rparr>"
  have "SockStream_asend (ch_from ?s) ''ab'' (ch_loop ?s) = (True, lr)"
    using r sub(1) by (simp add: SockStream_asend_def ch_init_def demo_stream_def net_defs)
  from ch_next[OF ch_start ch_step.ch_send[OF this]] have "ch_reachable takes_all 1 demo_stream demo_stream ?t" by simp
  moreover have "ch_queue ?t \<noteq> []" using sub(3) by (simp add: ch_queue_def ch_submitted_def)
  then have "ch_work ?t \<noteq> 0" unfolding ch_work_zero by blast
  ultimately show ?thesis by (intro exI[of _ ?t]) (simp add: ch_submitted_def ch_init_def)
qed

theorem SockStream_refines_pipe_witness:
  "\<exists>s t. ch_reachable takes_all 1 demo_stream demo_stream s \<and> ch_step takes_all s t \<and> ch_work t < ch_work s
     \<and> handed (ch_abs s) @ unread (ch_abs s) = ''ab''"
proof -
  obtain s where s: "ch_reachable takes_all 1 demo_stream demo_stream s" "ch_asked s = ''ab''" "ch_work s \<noteq> 0"
    using demo_sent by blast
  have v: "Socket_valid (ss_sock demo_stream)" "ss_onRead demo_stream" by (simp_all add: demo_stream_def net_defs)
  note p = SockStream_refines_pipe[OF s(1) v]
  have "\<exists>t. ch_step takes_all s t \<and> ch_work t < ch_work s" using p s(3) by blast
  moreover have "handed (ch_abs s) @ unread (ch_abs s) = ''ab''" using p s(2) by simp
  ultimately show ?thesis using s(1) by blast
qed

text \<open>
  A kernel that takes less than a message, as one does for a non-blocking socket with a full buffer, loses the rest: the
  closure only hands the answer to the write callback, and what was not taken is never sent before the messages behind it.
\<close>

theorem SockStream_partial_send_loses:
  assumes "batch (ch_td s) 0 = [Some (Send_Msg m)]" and "ch_queue s = []" and "Socket_valid (ss_sock (ch_from s))"
    and "0 \<le> k" and "k < int (length m)" and "takes m k"
  shows "\<exists>t. ch_step takes s t \<and> batch (ch_td t) 0 = [] \<and> ch_queue t = [] \<and> ch_wire t = ch_wire s @ take (nat k) m
     \<and> ch_handed t @ unread (ch_abs t) \<noteq> ch_handed s @ unread (ch_abs s)"
proof -
  obtain eff from' where r: "SockStream_run k None True (Send_Msg m) (ch_from s) = (eff, from')" by fastforce
  then have e: "\<forall>f m'. Send_FD f m' \<in> set eff \<longrightarrow> takes m' k" "sent k eff = take (nat k) m"
    using assms(3,6) by (auto simp: SockStream_run_def sent_def split: if_splits)
  have "length (take (nat k) m) < length m" using assms(4,5) by simp
  then have "take (nat k) m \<noteq> m" by fastforce
  then show ?thesis
    using ch_step.ch_call[where takes = takes, OF assms(1) r e(1)] assms(1,2) e(2)
    by (intro exI) (auto simp: ch_abs_def ch_queue_def)
qed

end
