(* ===== verification/Uring_Life.thy ===== *)
theory Uring_Life
  imports IO_Service
begin

text \<open>
  The io_uring service (\<open>io_service.cpp\<close>) over its whole life: clients and callbacks submit requests, rounds of the service
  put them in flight or drop them, and call the callbacks of those the kernel reports. Callbacks answer what they like.
\<close>

section \<open>Clients and rounds interleaved\<close>

text \<open>
  \<open>us_state\<close> is the state of the program the callbacks belong to. The ghost sequences hold the ids of the accepted
  requests, those called back with their result, and those of the requests the service dropped.
\<close>

record ('cb, 'u) us_sys =
  us_svc :: "'cb IOService"
  us_state :: 'u
  us_asked :: "u64 list"
  us_log :: "(u64 \<times> u32) list"
  us_lost :: "u64 list"

type_synonym ('cb, 'u) action =
  "'cb \<Rightarrow> 'cb io_context \<Rightarrow> u32 \<Rightarrow> 'u \<Rightarrow> bool \<times> 'cb io_context \<times> (u64 \<times> 'cb io_context) list \<times> 'u"

text \<open>The callbacks do what \<open>act\<close> says; noted beside it are the call and the requests they submit.\<close>

definition noted :: "('cb, 'u) action \<Rightarrow> ('cb, 'u \<times> (u64 \<times> u32) list \<times> u64 list) action" where
  "noted act cb c res st =
     (case st of (u, log, asked) \<Rightarrow>
        let (fin, c', reqs, u') = act cb c res u in (fin, c', reqs, u', log @ [(ic_uid c, res)], asked @ map fst reqs))"

text \<open>A callback may change its context, but not the id in it.\<close>

definition keeps_id :: "('cb, 'u) action \<Rightarrow> bool" where
  "keeps_id act \<longleftrightarrow> (\<forall>cb c res u. ic_uid (fst (snd (act cb c res u))) = ic_uid c)"

text \<open>A callback that submits nothing, and one that is always finished with its context.\<close>

definition quiet :: "('cb, 'u) action \<Rightarrow> bool" where
  "quiet act \<longleftrightarrow> (\<forall>cb c res u. fst (snd (snd (act cb c res u))) = [])"

definition finishing :: "('cb, 'u) action \<Rightarrow> bool" where
  "finishing act \<longleftrightarrow> (\<forall>cb c res u. fst (act cb c res u))"

text \<open>What a round is told of completions: none when submitting fails or the wait fails other than by its timeout.\<close>

definition reported :: "uring_env \<Rightarrow> (u64 \<times> u32) list" where
  "reported env = (if submit_ret env < 0 \<or> (wait_ret env \<noteq> 0 \<and> \<not> wait_etime env) then [] else cqes env)"

text \<open>The kernel reports only entries in flight, each once; the allocator can still find addresses. The ring may be full.\<close>

definition kernel_ok :: "(u64 list \<Rightarrow> u64) \<Rightarrow> uring_env \<Rightarrow> 'cb IOService \<Rightarrow> bool" where
  "kernel_ok alloc env s \<longleftrightarrow> distinct (map fst (reported env))
     \<and> fst ` set (reported env) \<subseteq> fst ` set (ios_ring (working_request alloc env s))
     \<and> contexts_count s + length (MutexQue_contents (the (ios_queue s))) \<le> 2 ^ 32"

text \<open>The queued requests of which \<open>submitRequest_Private\<close> answers false in a round.\<close>

fun refused_in :: "(u64 list \<Rightarrow> u64) \<Rightarrow> uring_env \<Rightarrow> (u64 \<times> 'cb io_context) list \<Rightarrow> 'cb IOService \<Rightarrow> u64 list" where
  "refused_in alloc env [] s = []"
| "refused_in alloc env ((uid, ctx) # rs) s =
     (let (b, s') = submitRequest_Private alloc env uid ctx s in (if b then [] else [uid]) @ refused_in alloc env rs s')"

definition refused :: "(u64 list \<Rightarrow> u64) \<Rightarrow> uring_env \<Rightarrow> 'cb IOService \<Rightarrow> u64 list" where
  "refused alloc env s =
     (case ios_queue s of
        None \<Rightarrow> []
      | Some q \<Rightarrow> let (rs, q') = MutexQue_takeMulti q [] in refused_in alloc env rs (s\<lparr>ios_queue := Some q'\<rparr>))"

definition queued :: "'cb IOService \<Rightarrow> (u64 \<times> 'cb io_context) list" where
  "queued s = (case ios_queue s of None \<Rightarrow> [] | Some q \<Rightarrow> MutexQue_contents q)"

text \<open>The id of the context at an address, and the ids of the requests in flight.\<close>

definition owner :: "'cb IOService \<Rightarrow> u64 \<Rightarrow> u64" where
  "owner s p = fst (the (node_at p s))"

definition ring_ids :: "'cb IOService \<Rightarrow> u64 list" where
  "ring_ids s = map (owner s \<circ> fst) (ios_ring s)"

text \<open>
  What the users of the service must see to: no id is outstanding twice (two entries would share one context), and a
  request carries the id it is submitted under, and a callback.
\<close>

definition proper :: "u64 \<times> 'cb io_context \<Rightarrow> bool" where
  "proper r \<longleftrightarrow> ic_uid (snd r) = fst r \<and> ic_onEvents (snd r) \<noteq> None"

definition orderly :: "'cb IOService \<Rightarrow> bool" where
  "orderly s \<longleftrightarrow> distinct (ring_ids s @ map fst (queued s))
     \<and> (\<forall>r \<in> set (queued s). proper r)"

inductive us_step ::
  "('cb, 'u) action \<Rightarrow> (u64 list \<Rightarrow> u64) \<Rightarrow> u64 \<Rightarrow> ('cb, 'u) us_sys \<Rightarrow> ('cb, 'u) us_sys \<Rightarrow> bool" for act alloc key where
  us_submit: "IOService_submitRequest uid ctx (us_svc s) = (True, svc) \<Longrightarrow> orderly svc \<Longrightarrow>
     us_step act alloc key s (s\<lparr>us_svc := svc, us_asked := us_asked s @ [uid]\<rparr>)"
| us_round: "kernel_ok alloc env (us_svc s) \<Longrightarrow>
     IOService_round (noted act) alloc env key (us_svc s, us_state s, us_log s, us_asked s) = Inr (svc, u, log, asked) \<Longrightarrow>
     orderly svc \<Longrightarrow>
     us_step act alloc key s \<lparr>us_svc = svc, us_state = u, us_asked = asked, us_log = log,
       us_lost = us_lost s @ refused alloc env (us_svc s)\<rparr>"

inductive us_reachable ::
  "('cb, 'u) action \<Rightarrow> (u64 list \<Rightarrow> u64) \<Rightarrow> u64 \<Rightarrow> u32 \<Rightarrow> 'u \<Rightarrow> ('cb, 'u) us_sys \<Rightarrow> bool" for act alloc key n u where
  us_start: "us_reachable act alloc key n u \<lparr>us_svc = IOService_ctor n, us_state = u, us_asked = [], us_log = [], us_lost = []\<rparr>"
| us_next: "us_reachable act alloc key n u s \<Longrightarrow> us_step act alloc key s t \<Longrightarrow> us_reachable act alloc key n u t"

section \<open>Submitting\<close>

text \<open>A service in order whose entries in flight have callbacks to call.\<close>

definition svc_ok :: "'cb IOService \<Rightarrow> bool" where
  "svc_ok s \<longleftrightarrow> ios_inv s \<and> (\<forall>u p c. live s u p c \<and> p \<in> fst ` set (ios_ring s) \<longrightarrow> ic_onEvents c \<noteq> None)"

lemma owner_live: "nodes_ok s \<Longrightarrow> live s u p c \<Longrightarrow> owner s p = u"
  by (simp add: owner_def node_at_live)

lemma ring_live:
  assumes "ios_inv s" and "p \<in> fst ` set (ios_ring s)"
  obtains c where "live s (owner s p) p c"
  using assms owner_live unfolding ios_inv_def by blast

lemma ring_ids_same:
  assumes "\<forall>p \<in> fst ` set (ios_ring s). owner s' p = owner s p" and "ios_ring s' = ios_ring s"
  shows "ring_ids s' = ring_ids s"
  using assms by (auto simp: ring_ids_def)

definition stored :: "u64 \<Rightarrow> u64 \<Rightarrow> 'cb io_context \<Rightarrow> 'cb IOService \<Rightarrow> 'cb IOService" where
  "stored uid a ctx s = s\<lparr>ios_contexts := RBT.insert uid (a, ctx) (ios_contexts s)\<rparr>"

lemma live_stored: "live (stored uid a ctx s) u p c \<longleftrightarrow> (if u = uid then p = a \<and> c = ctx else live s u p c)"
  by (auto simp: stored_def live_def)

text \<open>The node of the id is reused when it is there, and made otherwise; no entry in flight points to it.\<close>

lemma put_context_ok:
  assumes inv: "svc_ok s" and "ic_uid ctx = uid" and "uid \<notin> set (ring_ids s)" and "allocator alloc" and "contexts_count s < 2 ^ 32"
  obtains a where "put_context alloc uid ctx s = (a, stored uid a ctx s)" and "a \<notin> fst ` set (ios_ring s)"
    and "svc_ok (stored uid a ctx s)" and "ring_ids (stored uid a ctx s) = ring_ids s"
proof -
  have ok: "nodes_ok s" and i: "ios_inv s" using inv by (simp_all add: svc_ok_def ios_inv_def)
  obtain a where a: "put_context alloc uid ctx s = (a, stored uid a ctx s)" "a \<noteq> 0" "a \<noteq> - 1" "\<forall>u c. live s u a c \<longrightarrow> u = uid"
  proof (cases "RBT.lookup (ios_contexts s) uid")
    case None
    have "length (addresses s) < 2 ^ 32" using assms(5) by (simp add: addresses_def contexts_count_def)
    then have "alloc (addresses s) \<notin> set (addresses s)" "alloc (addresses s) \<noteq> 0" "alloc (addresses s) \<noteq> - 1"
      using assms(4) unfolding allocator_def by blast+
    then show thesis using that[of "alloc (addresses s)"] None by (auto simp: put_context_def stored_def set_addresses Let_def)
  next
    case (Some x)
    then obtain a c where l: "live s uid a c" by (cases x) (simp add: live_def)
    have "a \<noteq> 0" "a \<noteq> - 1" "\<forall>u c. live s u a c \<longrightarrow> u = uid" using l ok unfolding nodes_ok_def by blast+
    moreover have "put_context alloc uid ctx s = (a, stored uid a ctx s)"
      using l by (simp add: put_context_def stored_def live_def Let_def)
    ultimately show thesis using that[of a] by simp
  qed
  have fresh: "a \<notin> fst ` set (ios_ring s)"
  proof
    assume r: "a \<in> fst ` set (ios_ring s)"
    then obtain c where "live s (owner s a) a c" using ring_live[OF i] by blast
    then have "owner s a = uid" using a(4) by blast
    then show False using r assms(3) by (force simp: ring_ids_def)
  qed
  let ?s = "stored uid a ctx s"
  have keep: "live ?s u p c" if "live s u p c" "p \<noteq> a" "p \<in> fst ` set (ios_ring s)" for u p c
  proof -
    have "owner s p = u" using owner_live[OF ok that(1)] .
    then have "u \<noteq> uid" using that(3) assms(3) by (force simp: ring_ids_def)
    then show ?thesis using that(1) by (simp add: live_stored)
  qed
  have inj: "u = v" if "live s u p c" "live s v p d" for u v p c d
    using ok[unfolded nodes_ok_def, THEN conjunct1] that by blast
  have node: "ic_uid c = u" "p \<noteq> 0" "p \<noteq> - 1" if "live s u p c" for u p c
    using ok[unfolded nodes_ok_def, THEN conjunct2] that by blast+
  have ok': "nodes_ok ?s"
    unfolding nodes_ok_def live_stored using inj node a(2-4) assms(2) by (auto split: if_splits)
  have ring: "ios_ring ?s = ios_ring s" "ios_uring ?s = ios_uring s" "ios_queue ?s = ios_queue s" "ios_used ?s = ios_used s"
    by (simp_all add: stored_def)
  have own: "\<exists>c. live s (owner s p) p c \<and> live ?s (owner s p) p c" if r: "p \<in> fst ` set (ios_ring s)" for p
  proof -
    obtain c where c: "live s (owner s p) p c" by (rule ring_live[OF i r])
    have "p \<noteq> a" using r fresh by blast
    then show ?thesis using keep[OF c _ r] c by blast
  qed
  have "\<forall>p \<in> fst ` set (ios_ring s). \<exists>u c. live ?s u p c" using own by blast
  then have "ios_inv ?s" using i ok' unfolding ios_inv_def ring by blast
  moreover have "ic_onEvents c \<noteq> None" if "live ?s u p c" "p \<in> fst ` set (ios_ring s)" for u p c
  proof -
    have "p \<noteq> a" using that(2) fresh by blast
    then have "live s u p c" using that(1) by (simp add: live_stored split: if_splits)
    then show ?thesis using that(2) inv unfolding svc_ok_def by blast
  qed
  ultimately have "svc_ok ?s" unfolding svc_ok_def ring by blast
  moreover have "ring_ids ?s = ring_ids s"
    by (rule ring_ids_same) (use own owner_live[OF ok'] ring in blast)+
  ultimately show thesis using that[OF a(1) fresh] by blast
qed

text \<open>One request put in flight or dropped.\<close>

lemma submit_any:
  assumes "svc_ok s" and "ic_uid ctx = uid" and "ic_onEvents ctx \<noteq> None" and "uid \<notin> set (ring_ids s)" and "allocator alloc"
    and "contexts_count s < 2 ^ 32"
  obtains b s' where "submitRequest_Private alloc env uid ctx s = (b, s')" and "svc_ok s'" and "ios_size s' = ios_size s"
    and "ios_queue s' = ios_queue s" and "ring_ids s' = ring_ids s @ (if b then [uid] else [])"
    and "dom (RBT.lookup (ios_contexts s')) = insert uid (dom (RBT.lookup (ios_contexts s)))"
    and "(\<forall>n. sq_room env n) \<and> prep_sqe ctx \<noteq> None \<longrightarrow> b"
proof -
  obtain a where a: "put_context alloc uid ctx s = (a, stored uid a ctx s)" "a \<notin> fst ` set (ios_ring s)"
    "svc_ok (stored uid a ctx s)" "ring_ids (stored uid a ctx s) = ring_ids s"
    by (rule put_context_ok[OF assms(1,2,4-6)]) (rule that; assumption)
  let ?s = "stored uid a ctx s"
  have f: "ios_size ?s = ios_size s" "ios_queue ?s = ios_queue s" "ios_ring ?s = ios_ring s" "ios_uring ?s = ios_uring s"
    "dom (RBT.lookup (ios_contexts ?s)) = insert uid (dom (RBT.lookup (ios_contexts s)))" by (auto simp: stored_def)
  have u: "ios_uring s" using assms(1) by (simp add: svc_ok_def ios_inv_def)
  have no: "ic_req ctx \<notin> {OTHER, HOSTING, DISCONNECT}" if "prep_sqe ctx \<noteq> None" using that by (auto simp: prep_sqe_def)
  show thesis
  proof (cases "ic_req ctx \<notin> {OTHER, HOSTING, DISCONNECT} \<and> find_empty_sqe env ?s \<and> prep_sqe ctx \<noteq> None")
    case False
    then have "submitRequest_Private alloc env uid ctx s = (False, ?s)"
      using a(1) by (auto simp: submitRequest_Private_def split: option.splits)
    moreover have "\<not> ((\<forall>n. sq_room env n) \<and> prep_sqe ctx \<noteq> None)" using False no u f(4) by (auto simp: find_empty_sqe_def)
    ultimately show ?thesis using that[of False ?s] a f by simp
  next
    case True
    then obtain e where e: "prep_sqe ctx = Some e" by blast
    let ?t = "?s\<lparr>ios_ring := ios_ring s @ [(a, e)], ios_used := ios_used s + 1\<rparr>"
    have sub: "submitRequest_Private alloc env uid ctx s = (True, ?t)"
      using a(1) True e f(3) by (auto simp: submitRequest_Private_def stored_def)
    have l: "live ?t v p c \<longleftrightarrow> live ?s v p c" "owner ?t p = owner ?s p" for v p c by (simp_all add: live_def owner_def node_at_def)
    have g: "ios_ring ?t = ios_ring s @ [(a, e)]" "ios_uring ?t = ios_uring ?s" "ios_used ?t = ios_used ?s + 1" by (simp_all add: stored_def)
    have inv: "ios_inv ?s" "nodes_ok ?s" using a(3) by (simp_all add: svc_ok_def ios_inv_def)
    have na: "live ?s uid a ctx" by (simp add: live_stored)
    then have oa: "owner ?s a = uid" by (rule owner_live[OF inv(2)])
    have "nodes_ok ?t" using inv(2) unfolding nodes_ok_def l .
    then have "ios_inv ?t" using inv(1) a(2) na by (auto simp: ios_inv_def l g f(3))
    moreover have "ic_onEvents c \<noteq> None" if "live ?s v p c" "p \<in> fst ` set (ios_ring ?t)" for v p c
    proof (cases "p = a")
      case True
      then have "v = uid" using owner_live[OF inv(2) that(1)] oa by simp
      then show ?thesis using that assms(3) by (simp add: live_stored)
    next
      case False
      then have "p \<in> fst ` set (ios_ring ?s)" using that(2) unfolding g f(3) by auto
      then show ?thesis using a(3) that(1) unfolding svc_ok_def by blast
    qed
    ultimately have "svc_ok ?t" unfolding svc_ok_def l by blast
    moreover have "ring_ids ?t = ring_ids s @ [uid]"
      using a(4) oa unfolding ring_ids_def g f(3) by (simp add: l)
    ultimately show ?thesis using that[of True ?t] sub f by simp
  qed
qed

text \<open>A batch: every request of it is put in flight or refused.\<close>

lemma submit_batch_any:
  assumes "svc_ok s" and "\<forall>r \<in> set rs. proper r" and "distinct (ring_ids s @ map fst rs)"
    and few: "contexts_count s + length rs \<le> 2 ^ 32" and alloc: "allocator alloc"
  shows "\<exists>s'. fold (\<lambda>(uid, ctx) s. snd (submitRequest_Private alloc env uid ctx s)) rs s = s' \<and> svc_ok s'
     \<and> ios_size s' = ios_size s \<and> ios_queue s' = ios_queue s
     \<and> mset (ring_ids s') + mset (refused_in alloc env rs s) = mset (ring_ids s) + mset (map fst rs)
     \<and> dom (RBT.lookup (ios_contexts s')) = dom (RBT.lookup (ios_contexts s)) \<union> fst ` set rs
     \<and> ((\<forall>n. sq_room env n) \<and> (\<forall>r \<in> set rs. prep_sqe (snd r) \<noteq> None) \<longrightarrow> refused_in alloc env rs s = [])"
  using assms(1-4)
proof (induction rs arbitrary: s)
  case (Cons r rs)
  obtain uid ctx where r: "r = (uid, ctx)" by (cases r)
  have p: "ic_uid ctx = uid" "ic_onEvents ctx \<noteq> None" "uid \<notin> set (ring_ids s)" "contexts_count s < 2 ^ 32"
    using Cons.prems(2-4) by (simp_all add: r proper_def)
  obtain b s1 where s1: "submitRequest_Private alloc env uid ctx s = (b, s1)" "svc_ok s1" "ios_size s1 = ios_size s"
    "ios_queue s1 = ios_queue s" "ring_ids s1 = ring_ids s @ (if b then [uid] else [])"
    "dom (RBT.lookup (ios_contexts s1)) = insert uid (dom (RBT.lookup (ios_contexts s)))"
    "(\<forall>n. sq_room env n) \<and> prep_sqe ctx \<noteq> None \<longrightarrow> b"
    by (rule submit_any[OF Cons.prems(1) p(1-3) alloc p(4), of env]) (rule that; assumption)
  have "contexts_count s1 \<le> Suc (contexts_count s)" by (simp add: contexts_count_dom s1(6) card_insert_le_m1 card_insert_if)
  then have f: "contexts_count s1 + length rs \<le> 2 ^ 32" using Cons.prems(4) by simp
  have "\<forall>r \<in> set rs. proper r" "distinct (ring_ids s1 @ map fst rs)" using Cons.prems(2,3) s1(5) by (auto simp: r)
  from Cons.IH[OF s1(2) this f] obtain s' where
    s': "fold (\<lambda>(uid, ctx) s. snd (submitRequest_Private alloc env uid ctx s)) rs s1 = s'" "svc_ok s'"
     "ios_size s' = ios_size s1" "ios_queue s' = ios_queue s1"
     "mset (ring_ids s') + mset (refused_in alloc env rs s1) = mset (ring_ids s1) + mset (map fst rs)"
     "dom (RBT.lookup (ios_contexts s')) = dom (RBT.lookup (ios_contexts s1)) \<union> fst ` set rs"
     "(\<forall>n. sq_room env n) \<and> (\<forall>r \<in> set rs. prep_sqe (snd r) \<noteq> None) \<longrightarrow> refused_in alloc env rs s1 = []"
    by (elim exE conjE) (rule that; assumption)
  have "fold (\<lambda>(uid, ctx) s. snd (submitRequest_Private alloc env uid ctx s)) (r # rs) s = s'" using s'(1) s1(1) by (simp add: r)
  moreover have "mset (ring_ids s') + mset (refused_in alloc env (r # rs) s) = mset (ring_ids s) + mset (map fst (r # rs))"
    using s'(5) s1(1,5) by (simp add: r)
  moreover have "(\<forall>n. sq_room env n) \<and> (\<forall>r \<in> set (r # rs). prep_sqe (snd r) \<noteq> None) \<longrightarrow> refused_in alloc env (r # rs) s = []"
    using s'(7) s1(1,7) by (auto simp: r)
  ultimately show ?case using s' s1 by (auto simp: r)
qed simp

lemma working_request_any:
  assumes ok: "svc_ok s" and q: "ios_queue s = Some q" "MutexQue_takeMulti q [] = (rs, q')"
    and rs: "\<forall>r \<in> set rs. proper r" "distinct (ring_ids s @ map fst rs)"
    and few: "contexts_count s + length rs \<le> 2 ^ 32" and alloc: "allocator alloc"
  obtains s' where "working_request alloc env s = s'" and "svc_ok s'" and "ios_size s' = ios_size s" and "ios_queue s' = Some q'"
    and "mset (ring_ids s') + mset (refused alloc env s) = mset (ring_ids s) + mset (map fst rs)"
    and "dom (RBT.lookup (ios_contexts s')) = dom (RBT.lookup (ios_contexts s)) \<union> fst ` set rs"
    and "(\<forall>n. sq_room env n) \<and> (\<forall>r \<in> set rs. prep_sqe (snd r) \<noteq> None) \<longrightarrow> refused alloc env s = []"
proof -
  let ?s = "s\<lparr>ios_queue := Some q'\<rparr>"
  have "svc_ok ?s" using ok by (simp add: svc_ok_def ios_inv_def nodes_ok_def live_def)
  moreover have i: "ring_ids ?s = ring_ids s" by (simp add: ring_ids_def owner_def node_at_def)
  moreover have "contexts_count ?s = contexts_count s" by (simp add: contexts_count_def)
  ultimately have h: "svc_ok ?s" "distinct (ring_ids ?s @ map fst rs)" "contexts_count ?s + length rs \<le> 2 ^ 32" using rs few by simp_all
  have w: "working_request alloc env s = fold (\<lambda>(uid, ctx) s. snd (submitRequest_Private alloc env uid ctx s)) rs ?s"
    "refused alloc env s = refused_in alloc env rs ?s"
    using q by (simp_all add: working_request_def refused_def)
  from submit_batch_any[OF h(1) rs(1) h(2,3) alloc, of env] show thesis
    by (elim exE conjE) (rule that; simp add: w i)
qed

section \<open>Completing\<close>

lemma queued_submit_many:
  assumes "ios_uring s" and "ios_queue s \<noteq> None"
  shows "queued (submit_many rs s) = queued s @ rs \<and> ios_size (submit_many rs s) = ios_size s"
  using assms
proof (induction rs arbitrary: s)
  case (Cons r rs)
  obtain q where q: "ios_queue s = Some q" using Cons.prems(2) by blast
  let ?s = "s\<lparr>ios_queue := Some (MutexQue_pushBack q r)\<rparr>"
  have s: "submit_many (r # rs) s = submit_many rs ?s"
    using q Cons.prems(1) by (cases r) (simp add: submit_many_def IOService_submitRequest_def)
  have "queued ?s = queued s @ [r]" using q by (simp add: queued_def queue_defs)
  moreover have "ios_uring ?s" "ios_queue ?s \<noteq> None" using Cons.prems(1) by simp_all
  ultimately show ?case using Cons.IH[of ?s] s by simp
qed (simp add: submit_many_def)

text \<open>
  One completion: the callback of the context at the address is called, what it submits joins the queue, and the context is
  erased or kept as the callback left it.
\<close>

lemma handle_noted:
  assumes ok: "nodes_ok s" and l: "live s u p c" and cb: "ic_onEvents c \<noteq> None" and id: "keeps_id act"
    and up: "ios_uring s" "ios_queue s \<noteq> None"
  obtains s' st reqs where "IOService_handle (noted act) p res (s, ust, log, asked) = Inr (s', st, log @ [(u, res)], asked @ map fst reqs)"
    and "nodes_ok s'" and "ios_ring s' = ios_ring s" and "ios_used s' = ios_used s" and "ios_uring s'" and "ios_queue s' \<noteq> None"
    and "ios_size s' = ios_size s" and "queued s' = queued s @ reqs"
    and "dom (RBT.lookup (ios_contexts s')) \<subseteq> dom (RBT.lookup (ios_contexts s))"
    and "\<And>v q d. q \<noteq> p \<Longrightarrow> live s' v q d \<longleftrightarrow> live s v q d"
    and "quiet act \<longrightarrow> reqs = []"
    and "finishing act \<longrightarrow> dom (RBT.lookup (ios_contexts s')) \<subseteq> dom (RBT.lookup (ios_contexts s)) - {u}"
proof -
  obtain f where f: "ic_onEvents c = Some f" using cb by blast
  obtain fin c' reqs st where a: "act f c res ust = (fin, c', reqs, st)" by (cases "act f c res ust")
  have c: "ic_uid c = u" "p \<noteq> 0" "p \<noteq> - 1" "RBT.lookup (ios_contexts s) u = Some (p, c)"
    using ok l by (auto simp: nodes_ok_def live_def)
  have c': "ic_uid c' = u" using id a c(1) unfolding keeps_id_def by (metis fst_conv snd_conv)
  let ?s0 = "s\<lparr>ios_contexts := RBT.insert u (p, c') (ios_contexts s)\<rparr>"
  let ?s1 = "submit_many reqs ?s0"
  let ?s' = "if fin then ?s1\<lparr>ios_contexts := RBT.delete u (ios_contexts ?s1)\<rparr> else ?s1"
  have up0: "ios_uring ?s0" "ios_queue ?s0 \<noteq> None" using up by simp_all
  note frame = submit_many_frame[of reqs ?s0] and q = conjunct1[OF queued_submit_many[OF up0, of reqs]] conjunct2[OF queued_submit_many[OF up0, of reqs]]
  have h: "IOService_handle (noted act) p res (s, ust, log, asked) = Inr (?s', st, log @ [(u, res)], asked @ map fst reqs)"
    using c f a node_at_live[OF ok l] by (simp add: IOService_handle_def noted_def)
  have lk: "RBT.lookup (ios_contexts ?s') v = (if v = u then (if fin then None else Some (p, c')) else RBT.lookup (ios_contexts s) v)" for v
    using frame by simp
  have lv: "live ?s' v q d \<longleftrightarrow> (if v = u then \<not> fin \<and> q = p \<and> d = c' else live s v q d)" for v q d
    unfolding live_def lk by auto
  have inj: "v = w" if "live s v q d" "live s w q e" for v w q d e
    using ok[unfolded nodes_ok_def, THEN conjunct1] that by blast
  have node: "ic_uid d = v" "q \<noteq> 0" "q \<noteq> - 1" if "live s v q d" for v q d
    using ok[unfolded nodes_ok_def, THEN conjunct2] that by blast+
  have other: "live ?s' v q d \<longleftrightarrow> live s v q d" if "q \<noteq> p" for v q d
    unfolding lv using that l by (auto simp: live_def)
  have "nodes_ok ?s'"
    unfolding nodes_ok_def lv using inj node inj[OF l] c(2,3) c' by (auto split: if_splits)
  moreover have "ios_ring ?s' = ios_ring s" "ios_used ?s' = ios_used s" "ios_uring ?s'" "ios_queue ?s' \<noteq> None" "ios_size ?s' = ios_size s"
    using frame q(2) up by simp_all
  moreover have "queued ?s' = queued s @ reqs" using q(1) by (simp add: queued_def)
  moreover have "dom (RBT.lookup (ios_contexts ?s')) \<subseteq> dom (RBT.lookup (ios_contexts s))" unfolding dom_def lk using c(4) by (auto split: if_splits)
  moreover have "quiet act \<longrightarrow> reqs = []" using a unfolding quiet_def by (metis fst_conv snd_conv)
  moreover have "finishing act \<longrightarrow> dom (RBT.lookup (ios_contexts ?s')) \<subseteq> dom (RBT.lookup (ios_contexts s)) - {u}"
  proof
    assume "finishing act"
    then have fin using a unfolding finishing_def by (metis fst_conv)
    then show "dom (RBT.lookup (ios_contexts ?s')) \<subseteq> dom (RBT.lookup (ios_contexts s)) - {u}"
      unfolding dom_def lk by (auto split: if_splits)
  qed
  ultimately show thesis using that[OF h] other by blast
qed

lemma diff_trans: "A \<subseteq> B - K \<Longrightarrow> B \<subseteq> C - {k} \<Longrightarrow> A \<subseteq> C - insert k K"
  by blast

lemma handles_noted:
  assumes "nodes_ok s" and "distinct (map fst cs)" and "\<forall>p \<in> fst ` set cs. \<exists>c. live s (own p) p c \<and> ic_onEvents c \<noteq> None"
    and id: "keeps_id act" and "ios_uring s" and "ios_queue s \<noteq> None"
  shows "\<exists>s' st reqs. fold_out (\<lambda>(p, r). IOService_handle (noted act) p r) cs (s, ust, log, asked)
        = Inr (s', st, log @ map (\<lambda>(p, r). (own p, r)) cs, asked @ map fst reqs)
     \<and> nodes_ok s' \<and> ios_ring s' = ios_ring s \<and> ios_used s' = ios_used s \<and> ios_uring s' \<and> ios_queue s' \<noteq> None
     \<and> ios_size s' = ios_size s \<and> queued s' = queued s @ reqs
     \<and> dom (RBT.lookup (ios_contexts s')) \<subseteq> dom (RBT.lookup (ios_contexts s))
     \<and> (\<forall>v q d. q \<notin> fst ` set cs \<longrightarrow> live s' v q d = live s v q d)
     \<and> (quiet act \<longrightarrow> reqs = [])
     \<and> (finishing act \<longrightarrow> dom (RBT.lookup (ios_contexts s')) \<subseteq> dom (RBT.lookup (ios_contexts s)) - own ` fst ` set cs)"
  using assms(1-3,5,6)
proof (induction cs arbitrary: s ust log asked)
  case Nil
  then show ?case by (intro exI[of _ s] exI[of _ ust] exI[of _ "[]"]) simp
next
  case (Cons x cs)
  obtain p r where x: "x = (p, r)" by (cases x)
  obtain c where c: "live s (own p) p c" "ic_onEvents c \<noteq> None" using Cons.prems(3) x by auto
  obtain s1 st1 reqs1 where s1: "IOService_handle (noted act) p r (s, ust, log, asked) = Inr (s1, st1, log @ [(own p, r)], asked @ map fst reqs1)"
    "nodes_ok s1" "ios_ring s1 = ios_ring s" "ios_used s1 = ios_used s" "ios_uring s1" "ios_queue s1 \<noteq> None"
    "ios_size s1 = ios_size s" "queued s1 = queued s @ reqs1"
    "dom (RBT.lookup (ios_contexts s1)) \<subseteq> dom (RBT.lookup (ios_contexts s))"
    "\<And>v q d. q \<noteq> p \<Longrightarrow> live s1 v q d \<longleftrightarrow> live s v q d"
    "quiet act \<longrightarrow> reqs1 = []"
    "finishing act \<longrightarrow> dom (RBT.lookup (ios_contexts s1)) \<subseteq> dom (RBT.lookup (ios_contexts s)) - {own p}"
    by (rule handle_noted[OF Cons.prems(1) c id Cons.prems(4,5), of r ust log asked]) (rule that; assumption)
  have d: "distinct (map fst cs)" "p \<notin> fst ` set cs" using Cons.prems(2) x by simp_all
  have "\<forall>q \<in> fst ` set cs. \<exists>c. live s1 (own q) q c \<and> ic_onEvents c \<noteq> None"
  proof
    fix q assume q: "q \<in> fst ` set cs"
    then obtain e where "live s (own q) q e" "ic_onEvents e \<noteq> None" using Cons.prems(3) x by auto
    moreover have "q \<noteq> p" using q d(2) by blast
    ultimately show "\<exists>c. live s1 (own q) q c \<and> ic_onEvents c \<noteq> None" using s1(10) by blast
  qed
  from Cons.IH[OF s1(2) d(1) this s1(5,6), of st1 "log @ [(own p, r)]" "asked @ map fst reqs1"]
  obtain s' st reqs where s': "fold_out (\<lambda>(p, r). IOService_handle (noted act) p r) cs (s1, st1, log @ [(own p, r)], asked @ map fst reqs1)
        = Inr (s', st, (log @ [(own p, r)]) @ map (\<lambda>(p, r). (own p, r)) cs, (asked @ map fst reqs1) @ map fst reqs)"
     "nodes_ok s'" "ios_ring s' = ios_ring s1" "ios_used s' = ios_used s1" "ios_uring s'" "ios_queue s' \<noteq> None"
     "ios_size s' = ios_size s1" "queued s' = queued s1 @ reqs"
     "dom (RBT.lookup (ios_contexts s')) \<subseteq> dom (RBT.lookup (ios_contexts s1))"
     "\<forall>v q d. q \<notin> fst ` set cs \<longrightarrow> live s' v q d = live s1 v q d"
     "quiet act \<longrightarrow> reqs = []"
     "finishing act \<longrightarrow> dom (RBT.lookup (ios_contexts s')) \<subseteq> dom (RBT.lookup (ios_contexts s1)) - own ` fst ` set cs"
    by (elim exE conjE) (rule that; assumption)
  have "finishing act \<longrightarrow> dom (RBT.lookup (ios_contexts s')) \<subseteq> dom (RBT.lookup (ios_contexts s)) - own ` fst ` set (x # cs)"
  proof
    assume f: "finishing act"
    have "dom (RBT.lookup (ios_contexts s')) \<subseteq> dom (RBT.lookup (ios_contexts s)) - insert (own p) (own ` fst ` set cs)"
      by (rule diff_trans[OF mp[OF s'(12) f] mp[OF s1(12) f]])
    then show "dom (RBT.lookup (ios_contexts s')) \<subseteq> dom (RBT.lookup (ios_contexts s)) - own ` fst ` set (x # cs)"
      using x by simp
  qed
  moreover have "fold_out (\<lambda>(p, r). IOService_handle (noted act) p r) (x # cs) (s, ust, log, asked)
      = Inr (s', st, log @ map (\<lambda>(p, r). (own p, r)) (x # cs), asked @ map fst (reqs1 @ reqs))"
    using s1(1) s'(1) x by simp
  moreover have "\<forall>v q d. q \<notin> fst ` set (x # cs) \<longrightarrow> live s' v q d = live s v q d" using s'(10) s1(10) x by simp
  moreover have "queued s' = queued s @ (reqs1 @ reqs)" using s'(8) s1(8) by simp
  moreover have "dom (RBT.lookup (ios_contexts s')) \<subseteq> dom (RBT.lookup (ios_contexts s))" using s'(9) s1(9) by (rule subset_trans)
  moreover have "quiet act \<longrightarrow> reqs1 @ reqs = []" using s'(11) s1(11) by blast
  ultimately show ?case using s'(2-7) s1(3,4,7) by (intro exI[of _ s'] exI[of _ st] exI[of _ "reqs1 @ reqs"]) simp
qed

section \<open>A round\<close>

lemma working_request_env:
  fixes s :: "'cb IOService"
  assumes "sq_room env' = sq_room env"
  shows "working_request alloc env' s = working_request alloc env s"
proof -
  have "submitRequest_Private alloc env' = (submitRequest_Private alloc env :: u64 \<Rightarrow> 'cb io_context \<Rightarrow> _)"
    by (intro ext) (simp add: submitRequest_Private_def find_empty_sqe_def assms split_beta)
  then show ?thesis by (simp only: working_request_def)
qed

text \<open>Whatever submitting and waiting answer, the notifier hands over what is reported.\<close>

lemma IOService_notify_reported:
  assumes "ios_size (working_request alloc env s) \<noteq> 0" and "\<forall>p \<in> fst ` set (reported env). p \<noteq> 0 \<and> p \<noteq> - 1"
  shows "IOService_notify alloc env s = (map (\<lambda>(p, res). KVPair_ctor p res) (reported env), (working_request alloc env s)
     \<lparr>ios_used := ios_used (working_request alloc env s) - of_nat (length (reported env)),
       ios_ring := filter (\<lambda>(p, e). p \<notin> fst ` set (reported env)) (ios_ring (working_request alloc env s))\<rparr>)"
proof -
  have "filter (\<lambda>(p, res). p \<noteq> 0 \<and> p \<noteq> - 1) (reported env) = reported env" using assms(2) by (force simp: filter_id_conv)
  then show ?thesis
    using assms(1) by (auto simp: IOService_notify_def IOService_sqe_used_def take_completions_def Let_def reported_def)
qed

text \<open>Reported addresses are entries of the ring: what leaves it is what is reported.\<close>

lemma ring_split:
  fixes f :: "'p \<Rightarrow> 'b"
  assumes "distinct (map fst ring)" and "distinct (map fst cs)" and "fst ` set cs \<subseteq> fst ` set ring"
  shows "mset (map (f \<circ> fst) ring)
     = mset (map (f \<circ> fst) (filter (\<lambda>(p, e). p \<notin> fst ` set cs) ring)) + mset (map (f \<circ> fst) cs)"
proof -
  let ?in = "filter (\<lambda>(p, e). p \<in> fst ` set cs) ring" and ?out = "filter (\<lambda>(p, e). p \<notin> fst ` set cs) ring"
  have m: "mset ring = mset ?out + mset ?in" by (induction ring) auto
  have "distinct (map fst ?in)" using assms(1) by (rule distinct_map_filter)
  moreover have "set (map fst ?in) = set (map fst cs)" using assms(3) by force
  ultimately have "mset (map fst ?in) = mset (map fst cs)" using assms(2) by (simp only: set_eq_iff_mset_eq_distinct)
  then have "image_mset f (mset (map fst ?in)) = image_mset f (mset (map fst cs))" by simp
  then have i: "mset (map (f \<circ> fst) ?in) = mset (map (f \<circ> fst) cs)" by (simp add: multiset.map_comp)
  have "mset (map (f \<circ> fst) ring) = mset (map (f \<circ> fst) ?out) + mset (map (f \<circ> fst) ?in)"
    using arg_cong[OF m, of "image_mset (f \<circ> fst)"] by (simp only: mset_map image_mset_union)
  then show ?thesis unfolding i .
qed

lemma account_msets:
  assumes "R1 = R + A" and "R1 + F = S + B"
  shows "A + R + F + (Q + N) = S + (B + Q) + (N :: 'a multiset)"
proof -
  have "A + R + F + (Q + N) = (R + A + F) + Q + N" by (simp add: ac_simps)
  also have "\<dots> = (S + B) + Q + N" using assms by simp
  finally show ?thesis by (simp add: ac_simps)
qed

lemma distinct_submset: "mset xs \<subseteq># mset ys \<Longrightarrow> distinct ys \<Longrightarrow> distinct xs"
proof -
  assume sub: "mset xs \<subseteq># mset ys" and d: "distinct ys"
  obtain zs where "mset zs = mset ys - mset xs" using ex_mset by blast
  then have "mset (xs @ zs) = mset ys" using sub by simp
  then have "distinct (xs @ zs)" using d mset_eq_imp_distinct_iff by blast
  then show "distinct xs" by simp
qed

lemma kept_sets:
  assumes "R1 = R \<union> A" and "R1 \<union> F = S \<union> B" and "D \<subseteq> S \<union> X" and "E \<subseteq> D \<union> B - A"
  shows "E \<subseteq> R \<union> X \<union> F"
  using assms by blast

text \<open>What leaves the queue and the ring leaves the rest in order.\<close>

lemma orderly_less:
  assumes "orderly s" and "mset (ring_ids s @ map fst (queued s)) = M + mset (ring_ids t @ map fst (queued t))"
    and "set (queued t) \<subseteq> set (queued s)"
  shows "orderly t"
proof -
  have "mset (ring_ids t @ map fst (queued t)) \<subseteq># mset (ring_ids s @ map fst (queued s))" unfolding assms(2) by simp
  then have "distinct (ring_ids t @ map fst (queued t))" by (rule distinct_submset) (use assms(1) in \<open>simp only: orderly_def\<close>)
  then show ?thesis using assms(1,3) unfolding orderly_def by auto
qed

lemma us_round_spec:
  assumes ok: "svc_ok s" "ios_size s \<noteq> 0" "orderly s" and alloc: "allocator alloc" and k: "kernel_ok alloc env s" and id: "keeps_id act"
  obtains svc st reqs where
    "IOService_round (noted act) alloc env key (s, ust, log, asked)
       = Inr (svc, st, log @ map (\<lambda>(p, r). (owner (working_request alloc env s) p, r)) (reported env), asked @ map fst reqs)"
    and "svc_ok svc" and "ios_size svc = ios_size s"
    and "mset (map (owner (working_request alloc env s) \<circ> fst) (reported env)) + mset (ring_ids svc) + mset (refused alloc env s)
           + mset (map fst (queued svc)) = mset (ring_ids s) + mset (map fst (queued s)) + mset (map fst reqs)"
    and "dom (RBT.lookup (ios_contexts svc)) \<subseteq> dom (RBT.lookup (ios_contexts s)) \<union> fst ` set (queued s)"
    and "(\<forall>n. sq_room env n) \<and> (\<forall>r \<in> set (queued s). prep_sqe (snd r) \<noteq> None) \<longrightarrow> refused alloc env s = []"
    and "set (queued svc) \<subseteq> set (queued s) \<union> set reqs" and "quiet act \<longrightarrow> reqs = []"
    and "finishing act \<longrightarrow> set (ring_ids s) \<union> X \<supseteq> dom (RBT.lookup (ios_contexts s))
           \<longrightarrow> set (ring_ids svc) \<union> X \<union> set (refused alloc env s) \<supseteq> dom (RBT.lookup (ios_contexts svc))"
proof -
  have i: "ios_inv s" using ok(1) by (simp add: svc_ok_def)
  obtain q rs q' where q: "ios_queue s = Some q" "MutexQue_takeMulti q [] = (rs, q')"
    using i by (cases "MutexQue_takeMulti (the (ios_queue s)) []") (auto simp: ios_inv_def)
  have c: "queued s = rs @ MutexQue_contents q'"
    using MutexQue_takeMulti_contents[of q] q by (simp add: queued_def)
  have rs: "\<forall>r \<in> set rs. proper r" "distinct (ring_ids s @ map fst rs)"
    using ok(3) unfolding orderly_def c by auto
  have "contexts_count s + length rs \<le> 2 ^ 32" using k c q(1) by (simp add: kernel_ok_def queued_def)
  then obtain s1 where w: "working_request alloc env s = s1" "svc_ok s1" "ios_size s1 = ios_size s" "ios_queue s1 = Some q'"
    "mset (ring_ids s1) + mset (refused alloc env s) = mset (ring_ids s) + mset (map fst rs)"
    "dom (RBT.lookup (ios_contexts s1)) = dom (RBT.lookup (ios_contexts s)) \<union> fst ` set rs"
    "(\<forall>n. sq_room env n) \<and> (\<forall>r \<in> set rs. prep_sqe (snd r) \<noteq> None) \<longrightarrow> refused alloc env s = []"
    by (rule working_request_any[OF ok(1) q rs _ alloc, of env]) (rule that; assumption)
  let ?cs = "reported env"
  have i1: "ios_inv s1" "nodes_ok s1" using w(2) by (simp_all add: svc_ok_def ios_inv_def)
  have d: "distinct (map fst ?cs)" "fst ` set ?cs \<subseteq> fst ` set (ios_ring s1)" using k by (simp_all add: kernel_ok_def w(1))
  have lv: "\<exists>c. live s1 (owner s1 p) p c \<and> ic_onEvents c \<noteq> None" if p: "p \<in> fst ` set ?cs" for p
  proof -
    have r: "p \<in> fst ` set (ios_ring s1)" using p d(2) by blast
    obtain c where "live s1 (owner s1 p) p c" by (rule ring_live[OF i1(1) r])
    then show ?thesis using w(2) r unfolding svc_ok_def by blast
  qed
  have node: "p \<noteq> 0 \<and> p \<noteq> - 1" if "live s1 u p c" for u p c using i1(2)[unfolded nodes_ok_def, THEN conjunct2] that by blast
  have nz: "\<forall>p \<in> fst ` set ?cs. p \<noteq> 0 \<and> p \<noteq> - 1" using lv node by blast
  have sz: "ios_size (working_request alloc env s) \<noteq> 0" using ok(2) w(1,3) by simp
  let ?s2 = "s1\<lparr>ios_used := ios_used s1 - of_nat (length ?cs), ios_ring := filter (\<lambda>(p, e). p \<notin> fst ` set ?cs) (ios_ring s1)\<rparr>"
  have n: "IOService_notify alloc env s = (map (\<lambda>(p, res). KVPair_ctor p res) ?cs, ?s2)"
    using IOService_notify_reported[OF sz nz] unfolding w(1) .
  have l2: "live ?s2 v p c \<longleftrightarrow> live s1 v p c" for v p c by (simp add: live_def)
  have up: "ios_uring ?s2" "ios_queue ?s2 \<noteq> None" using i1(1) by (simp_all add: ios_inv_def)
  have h2: "nodes_ok ?s2" "\<forall>p \<in> fst ` set ?cs. \<exists>c. live ?s2 (owner s1 p) p c \<and> ic_onEvents c \<noteq> None"
    using i1(2) unfolding nodes_ok_def l2 by (assumption, use lv in blast)
  from handles_noted[OF h2(1) d(1) h2(2) id up, where ust = ust and log = log and asked = asked]
  obtain svc st reqs where h: "fold_out (\<lambda>(p, r). IOService_handle (noted act) p r) ?cs (?s2, ust, log, asked)
        = Inr (svc, st, log @ map (\<lambda>(p, r). (owner s1 p, r)) ?cs, asked @ map fst reqs)"
     "nodes_ok svc" "ios_ring svc = ios_ring ?s2" "ios_used svc = ios_used ?s2" "ios_uring svc" "ios_queue svc \<noteq> None"
     "ios_size svc = ios_size ?s2" "queued svc = queued ?s2 @ reqs"
     "dom (RBT.lookup (ios_contexts svc)) \<subseteq> dom (RBT.lookup (ios_contexts ?s2))"
     "\<forall>v q d. q \<notin> fst ` set ?cs \<longrightarrow> live svc v q d = live ?s2 v q d"
     "quiet act \<longrightarrow> reqs = []"
     "finishing act \<longrightarrow> dom (RBT.lookup (ios_contexts svc)) \<subseteq> dom (RBT.lookup (ios_contexts ?s2)) - owner s1 ` fst ` set ?cs"
    by (elim exE conjE) (rule that; assumption)
  have ring: "ios_ring svc = filter (\<lambda>(p, e). p \<notin> fst ` set ?cs) (ios_ring s1)" using h(3) by simp
  have out: "p \<notin> fst ` set ?cs" "p \<in> fst ` set (ios_ring s1)" if "p \<in> fst ` set (ios_ring svc)" for p
    using that unfolding ring by force+
  have same: "live svc v p d \<longleftrightarrow> live s1 v p d" if "p \<in> fst ` set (ios_ring svc)" for v p d using h(10) out(1)[OF that] l2 by blast
  have own: "owner svc p = owner s1 p" if p: "p \<in> fst ` set (ios_ring svc)" for p
  proof -
    obtain c where "live s1 (owner s1 p) p c" by (rule ring_live[OF i1(1) out(2)[OF p]])
    then show ?thesis using owner_live[OF h(2)] same[OF p] by blast
  qed
  have "map (owner svc \<circ> fst) (ios_ring svc) = map (owner s1 \<circ> fst) (ios_ring svc)" using own by simp
  then have ids: "mset (ring_ids s1) = mset (ring_ids svc) + mset (map (owner s1 \<circ> fst) ?cs)"
    using ring_split[OF _ d, of "owner s1"] i1(1) unfolding ring_ids_def ring by (simp only: ios_inv_def)
  have "length (ios_ring s1) = length (ios_ring svc) + length ?cs"
    unfolding ring by (rule filter_out_length[OF _ d, symmetric]) (use i1(1) in \<open>simp add: ios_inv_def\<close>)
  moreover have "ios_used s1 = of_nat (length (ios_ring s1))" using i1(1) by (simp add: ios_inv_def)
  ultimately have used: "ios_used svc = of_nat (length (ios_ring svc))" using h(4) by simp
  have "\<exists>u c. live svc u p c" if p: "p \<in> fst ` set (ios_ring svc)" for p
  proof -
    obtain c where "live s1 (owner s1 p) p c" by (rule ring_live[OF i1(1) out(2)[OF p]])
    then show ?thesis using same[OF p] by blast
  qed
  moreover have "distinct (map fst (ios_ring svc))" unfolding ring using i1(1) by (simp add: ios_inv_def distinct_map_filter)
  ultimately have "ios_inv svc" using h(2,5,6) used unfolding ios_inv_def by blast
  moreover have "ic_onEvents e \<noteq> None" if "live svc u p e" "p \<in> fst ` set (ios_ring svc)" for u p e
    using that(1) w(2) out(2)[OF that(2)] unfolding same[OF that(2)] svc_ok_def by blast
  ultimately have sok: "svc_ok svc" unfolding svc_ok_def by blast
  have round: "IOService_round (noted act) alloc env key (s, ust, log, asked)
       = Inr (svc, st, log @ map (\<lambda>(p, r). (owner s1 p, r)) ?cs, asked @ map fst reqs)"
    unfolding IOService_round_unfold n using h(1) by (simp add: fold_out_pairs)
  have qs: "queued svc = MutexQue_contents q' @ reqs" using h(8) w(4) by (simp add: queued_def)
  have acc: "mset (map (owner s1 \<circ> fst) ?cs) + mset (ring_ids svc) + mset (refused alloc env s) + mset (map fst (queued svc))
      = mset (ring_ids s) + mset (map fst (queued s)) + mset (map fst reqs)"
    using account_msets[OF ids w(5)] unfolding qs c map_append mset_append .
  have dm: "dom (RBT.lookup (ios_contexts svc)) \<subseteq> dom (RBT.lookup (ios_contexts s)) \<union> fst ` set (queued s)"
    using h(9) w(6) c by auto
  have sz': "ios_size svc = ios_size s" using h(7) w(3) by simp
  have none: "(\<forall>n. sq_room env n) \<and> (\<forall>r \<in> set (queued s). prep_sqe (snd r) \<noteq> None) \<longrightarrow> refused alloc env s = []"
    using w(7) unfolding c by simp
  have sub: "set (queued svc) \<subseteq> set (queued s) \<union> set reqs" unfolding qs c by auto
  have kept: "finishing act \<longrightarrow> set (ring_ids s) \<union> X \<supseteq> dom (RBT.lookup (ios_contexts s))
      \<longrightarrow> set (ring_ids svc) \<union> X \<union> set (refused alloc env s) \<supseteq> dom (RBT.lookup (ios_contexts svc))"
  proof (intro impI)
    assume f: "finishing act" and l: "set (ring_ids s) \<union> X \<supseteq> dom (RBT.lookup (ios_contexts s))"
    have "dom (RBT.lookup (ios_contexts svc)) \<subseteq> dom (RBT.lookup (ios_contexts s)) \<union> fst ` set rs - set (map (owner s1 \<circ> fst) ?cs)"
      using h(12) f w(6) by (simp add: image_comp)
    then show "set (ring_ids svc) \<union> X \<union> set (refused alloc env s) \<supseteq> dom (RBT.lookup (ios_contexts svc))"
      by (rule kept_sets[OF arg_cong[OF ids, of set_mset, unfolded set_mset_union set_mset_mset]
            arg_cong[OF w(5), of set_mset, unfolded set_mset_union set_mset_mset set_map] l])
  qed
  show thesis
    by (rule that[of svc st reqs, unfolded w(1), OF round sok sz' acc dm none sub h(11) kept])
qed

section \<open>Requests over the life of the service\<close>

text \<open>
  An id was asked for as often as it was called back, is in flight, was dropped and is queued; with the second part of
  \<open>orderly\<close> that accounts for every request.
\<close>

definition accounted :: "('cb, 'u) us_sys \<Rightarrow> bool" where
  "accounted s \<longleftrightarrow> mset (us_asked s)
     = mset (map fst (us_log s)) + mset (ring_ids (us_svc s)) + mset (us_lost s) + mset (map fst (queued (us_svc s)))"

definition us_inv :: "('cb, 'u) action \<Rightarrow> ('cb, 'u) us_sys \<Rightarrow> bool" where
  "us_inv act s \<longleftrightarrow> svc_ok (us_svc s) \<and> ios_size (us_svc s) \<noteq> 0 \<and> orderly (us_svc s) \<and> accounted s
     \<and> dom (RBT.lookup (ios_contexts (us_svc s))) \<subseteq> set (us_asked s)
     \<and> (finishing act \<longrightarrow> dom (RBT.lookup (ios_contexts (us_svc s))) \<subseteq> set (ring_ids (us_svc s)) \<union> set (us_lost s))"

lemma us_inv_submit:
  assumes "us_inv act s" and "IOService_submitRequest uid ctx (us_svc s) = (True, svc)" and "orderly svc"
  shows "us_inv act (s\<lparr>us_svc := svc, us_asked := us_asked s @ [uid]\<rparr>)"
proof -
  obtain q where q: "ios_queue (us_svc s) = Some q" "svc = (us_svc s)\<lparr>ios_queue := Some (MutexQue_pushBack q (uid, ctx))\<rparr>"
    using assms(2) by (auto simp: IOService_submitRequest_def split: option.splits if_splits)
  have f: "live svc u p c \<longleftrightarrow> live (us_svc s) u p c" "owner svc p = owner (us_svc s) p" "ios_ring svc = ios_ring (us_svc s)"
    "ios_contexts svc = ios_contexts (us_svc s)" "ios_size svc = ios_size (us_svc s)"
    "queued svc = queued (us_svc s) @ [(uid, ctx)]" for u p c
    using q by (simp_all add: live_def owner_def node_at_def queued_def queue_defs)
  have "svc_ok svc" using assms(1) q by (simp add: us_inv_def svc_ok_def ios_inv_def nodes_ok_def live_def)
  moreover have "ring_ids svc = ring_ids (us_svc s)" using f by (intro ring_ids_same) simp_all
  ultimately show ?thesis using assms(1,3) f by (auto simp: us_inv_def accounted_def)
qed

lemma us_inv_round:
  assumes inv: "us_inv act s" and alloc: "allocator alloc" and k: "kernel_ok alloc env (us_svc s)" and id: "keeps_id act"
  obtains svc st ids where
    "IOService_round (noted act) alloc env key (us_svc s, us_state s, us_log s, us_asked s)
       = Inr (svc, st, us_log s @ map (\<lambda>(p, r). (owner (working_request alloc env (us_svc s)) p, r)) (reported env), us_asked s @ ids)"
    and "orderly svc \<longrightarrow> us_inv act \<lparr>us_svc = svc, us_state = st, us_asked = us_asked s @ ids,
           us_log = us_log s @ map (\<lambda>(p, r). (owner (working_request alloc env (us_svc s)) p, r)) (reported env),
           us_lost = us_lost s @ refused alloc env (us_svc s)\<rparr>"
    and "(\<forall>n. sq_room env n) \<and> (\<forall>r \<in> set (queued (us_svc s)). prep_sqe (snd r) \<noteq> None) \<longrightarrow> refused alloc env (us_svc s) = []"
    and "quiet act \<longrightarrow> ids = [] \<and> orderly svc"
proof -
  let ?s = "us_svc s"
  let ?own = "owner (working_request alloc env ?s)"
  have i: "svc_ok ?s" "ios_size ?s \<noteq> 0" "orderly ?s" using inv by (simp_all add: us_inv_def)
  obtain svc st reqs where r: "IOService_round (noted act) alloc env key (?s, us_state s, us_log s, us_asked s)
       = Inr (svc, st, us_log s @ map (\<lambda>(p, r). (?own p, r)) (reported env), us_asked s @ map fst reqs)"
    "svc_ok svc" "ios_size svc = ios_size ?s"
    "mset (map (?own \<circ> fst) (reported env)) + mset (ring_ids svc) + mset (refused alloc env ?s) + mset (map fst (queued svc))
       = mset (ring_ids ?s) + mset (map fst (queued ?s)) + mset (map fst reqs)"
    "dom (RBT.lookup (ios_contexts svc)) \<subseteq> dom (RBT.lookup (ios_contexts ?s)) \<union> fst ` set (queued ?s)"
    "(\<forall>n. sq_room env n) \<and> (\<forall>r \<in> set (queued ?s). prep_sqe (snd r) \<noteq> None) \<longrightarrow> refused alloc env ?s = []"
    "set (queued svc) \<subseteq> set (queued ?s) \<union> set reqs" "quiet act \<longrightarrow> reqs = []"
    "finishing act \<longrightarrow> set (ring_ids ?s) \<union> set (us_lost s) \<supseteq> dom (RBT.lookup (ios_contexts ?s))
       \<longrightarrow> set (ring_ids svc) \<union> set (us_lost s) \<union> set (refused alloc env ?s) \<supseteq> dom (RBT.lookup (ios_contexts svc))"
    by (rule us_round_spec[OF i alloc k id, where key = key and ust = "us_state s" and log = "us_log s" and asked = "us_asked s"
          and X = "set (us_lost s)"])
      (rule that; assumption)
  let ?log = "map (\<lambda>(p, r). (?own p, r)) (reported env)"
  let ?t = "\<lparr>us_svc = svc, us_state = st, us_asked = us_asked s @ map fst reqs, us_log = us_log s @ ?log,
     us_lost = us_lost s @ refused alloc env ?s\<rparr>"
  have l: "map fst ?log = map (?own \<circ> fst) (reported env)" by (simp add: comp_def case_prod_beta')
  have acc0: "mset (us_asked s) = mset (map fst (us_log s)) + mset (ring_ids ?s) + mset (us_lost s) + mset (map fst (queued ?s))"
    using inv by (simp add: us_inv_def accounted_def)
  have "mset (us_asked ?t) = mset (map fst (us_log s)) + mset (us_lost s) + (mset (ring_ids ?s) + mset (map fst (queued ?s)) + mset (map fst reqs))"
    using acc0 by (simp add: ac_simps)
  also have "\<dots> = mset (map fst (us_log s)) + mset (us_lost s) + (mset (map fst ?log) + mset (ring_ids svc)
      + mset (refused alloc env ?s) + mset (map fst (queued svc)))" unfolding r(4)[symmetric] l ..
  finally have acc: "accounted ?t" unfolding accounted_def by (simp add: ac_simps)
  have "fst ` set (queued ?s) \<subseteq> set (us_asked s)"
  proof -
    have "mset (map fst (queued ?s)) \<subseteq># mset (us_asked s)" unfolding acc0 by simp
    then show ?thesis by (metis set_map set_mset_mono set_mset_mset)
  qed
  moreover have "dom (RBT.lookup (ios_contexts ?s)) \<subseteq> set (us_asked s)" using inv by (simp add: us_inv_def)
  ultimately have "dom (RBT.lookup (ios_contexts svc)) \<subseteq> set (us_asked s)" by (rule subset_trans[OF r(5) Un_least, rotated])
  then have d: "dom (RBT.lookup (ios_contexts (us_svc ?t))) \<subseteq> set (us_asked ?t)" by (simp add: le_supI1)
  have "finishing act \<longrightarrow> dom (RBT.lookup (ios_contexts svc)) \<subseteq> set (ring_ids svc) \<union> set (us_lost ?t)"
    using r(9) inv by (simp add: us_inv_def Un_assoc)
  then have "orderly svc \<longrightarrow> us_inv act ?t" unfolding us_inv_def using r(2,3) i(2) acc d by simp
  moreover have "orderly svc" if "quiet act"
  proof -
    have n: "reqs = []" using r(8) that by blast
    show ?thesis
    proof (rule orderly_less[OF i(3)])
      show "mset (ring_ids ?s @ map fst (queued ?s)) = (mset (map (?own \<circ> fst) (reported env)) + mset (refused alloc env ?s))
          + mset (ring_ids svc @ map fst (queued svc))"
        using r(4) unfolding n by (simp add: ac_simps)
      show "set (queued svc) \<subseteq> set (queued ?s)" using r(7) unfolding n by simp
    qed
  qed
  ultimately show thesis using that[OF r(1)] r(6,8) by simp
qed

lemma us_reachable_inv:
  assumes "us_reachable act alloc key n u s" and "n \<noteq> 0" and "allocator alloc" and "keeps_id act"
  shows "us_inv act s"
  using assms(1)
proof (induction rule: us_reachable.induct)
  case us_start
  show ?case
    using assms(2)
    by (simp add: us_inv_def accounted_def orderly_def svc_ok_def ring_ids_def queued_def ios_inv_def nodes_ok_def live_def
        IOService_ctor_def queue_defs)
next
  case (us_next s t)
  from us_next(2) show ?case
  proof cases
    case (us_submit uid ctx svc)
    then show ?thesis using us_inv_submit[OF us_next.IH] by blast
  next
    case (us_round env svc u' log asked)
    obtain svc2 st2 ids where r: "IOService_round (noted act) alloc env key (us_svc s, us_state s, us_log s, us_asked s)
       = Inr (svc2, st2, us_log s @ map (\<lambda>(p, r). (owner (working_request alloc env (us_svc s)) p, r)) (reported env), us_asked s @ ids)"
      "orderly svc2 \<longrightarrow> us_inv act \<lparr>us_svc = svc2, us_state = st2, us_asked = us_asked s @ ids,
         us_log = us_log s @ map (\<lambda>(p, r). (owner (working_request alloc env (us_svc s)) p, r)) (reported env),
         us_lost = us_lost s @ refused alloc env (us_svc s)\<rparr>"
      by (rule us_inv_round[OF us_next.IH assms(3) us_round(2) assms(4), where key = key]) (rule that; assumption)
    have "svc2 = svc" "st2 = u'" "us_asked s @ ids = asked"
      "us_log s @ map (\<lambda>(p, r). (owner (working_request alloc env (us_svc s)) p, r)) (reported env) = log"
      using r(1) us_round(3) by simp_all
    then show ?thesis using r(2) us_round(1,4) by simp
  qed
qed

text \<open>There are never more contexts and queued requests than twice the requests.\<close>

lemma us_inv_few:
  assumes "us_inv act s"
  shows "contexts_count (us_svc s) + length (MutexQue_contents (the (ios_queue (us_svc s)))) \<le> 2 * length (us_asked s)"
proof -
  have q: "queued (us_svc s) = MutexQue_contents (the (ios_queue (us_svc s)))"
    using assms by (auto simp: us_inv_def svc_ok_def ios_inv_def queued_def)
  have "contexts_count (us_svc s) \<le> card (set (us_asked s))"
    unfolding contexts_count_dom by (rule card_mono) (use assms in \<open>simp_all add: us_inv_def\<close>)
  then have "contexts_count (us_svc s) \<le> length (us_asked s)" using card_length[of "us_asked s"] by simp
  moreover have "length (queued (us_svc s)) \<le> length (us_asked s)"
  proof -
    have "size (mset (us_asked s)) = size (mset (map fst (us_log s)) + mset (ring_ids (us_svc s)) + mset (us_lost s)
        + mset (map fst (queued (us_svc s))))" using assms by (simp add: us_inv_def accounted_def)
    then show ?thesis by simp
  qed
  ultimately show ?thesis unfolding q by simp
qed

end
