(* ===== verification/Uring_Loop.thy ===== *)
theory Uring_Loop
  imports Uring_Life Event_Loop
begin

text \<open>
  The io_uring service (\<open>io_service.cpp\<close>) on the event loop (\<open>event_loop.cpp\<close>): its two closures are run by the worker
  its key is scheduled to. The properties of the service's whole life stand here.
\<close>

section \<open>The service on the event loop\<close>

text \<open>
  The program of an event loop with one io_uring service: its two closures act on the service; \<open>kern k\<close> are the kernel's
  answers in round \<open>k\<close>.
\<close>

definition uring_handle ::
  "('cb, 'u) action \<Rightarrow> u64 \<Rightarrow> u32 \<Rightarrow> (('cb, 'u) us_sys \<times> nat) outcome \<Rightarrow> (('cb, 'u) us_sys \<times> nat) outcome" where
  "uring_handle act p res st =
     bind_out st (\<lambda>(s, k). bind_out (IOService_handle (noted act) p res (us_svc s, us_state s, us_log s, us_asked s))
       (\<lambda>(svc, u, log, asked). Inr (s\<lparr>us_svc := svc, us_state := u, us_asked := asked, us_log := log\<rparr>, k)))"

definition uring_program ::
  "('cb, 'u) action \<Rightarrow> (u64 list \<Rightarrow> u64) \<Rightarrow> (nat \<Rightarrow> 'cb IOService \<Rightarrow> uring_env) \<Rightarrow> u64
     \<Rightarrow> (unit, unit, 'c, (('cb, 'u) us_sys \<times> nat) outcome) el_program" where
  "uring_program act alloc kern key =
     \<lparr>services = (\<lambda>_. IOService_events key),
      notify = (\<lambda>_ st. case st of
          Inl f \<Rightarrow> ([], Inl f)
        | Inr (s, k) \<Rightarrow>
            let env = kern k (us_svc s); (evs, svc) = IOService_notify alloc env (us_svc s)
            in (evs, Inr (s\<lparr>us_svc := svc, us_lost := us_lost s @ refused alloc env (us_svc s)\<rparr>, Suc k))),
      handle = (\<lambda>_. uring_handle act),
      callback = (\<lambda>_ _ st. st)\<rparr>"

definition uring_round ::
  "('cb, 'u) action \<Rightarrow> (u64 list \<Rightarrow> u64) \<Rightarrow> (nat \<Rightarrow> 'cb IOService \<Rightarrow> uring_env) \<Rightarrow> u64 \<Rightarrow> nat \<Rightarrow> ('cb, 'u) us_sys
     \<Rightarrow> ('cb, 'u) us_sys outcome" where
  "uring_round act alloc kern key k s =
     bind_out (IOService_round (noted act) alloc (kern k (us_svc s)) key (us_svc s, us_state s, us_log s, us_asked s))
       (\<lambda>(svc, u, log, asked). Inr \<lparr>us_svc = svc, us_state = u, us_asked = asked, us_log = log,
          us_lost = us_lost s @ refused alloc (kern k (us_svc s)) (us_svc s)\<rparr>)"

lemma uring_handles:
  "fold (\<lambda>kv. uring_handle act (KVPair_key kv) (KVPair_value kv)) evs (Inr (s, k)) =
     bind_out (fold_out (\<lambda>kv. IOService_handle (noted act) (KVPair_key kv) (KVPair_value kv)) evs
         (us_svc s, us_state s, us_log s, us_asked s))
       (\<lambda>(svc, u, log, asked). Inr (s\<lparr>us_svc := svc, us_state := u, us_asked := asked, us_log := log\<rparr>, k))"
proof -
  have h: "uring_handle act p r (Inl e) = Inl e" "uring_handle act p r (Inr (s, k)) =
      bind_out (IOService_handle (noted act) p r (us_svc s, us_state s, us_log s, us_asked s))
        (\<lambda>(svc, u, log, asked). Inr (s\<lparr>us_svc := svc, us_state := u, us_asked := asked, us_log := log\<rparr>, k))"
    for p r e s k by (simp_all add: uring_handle_def)
  have fault: "fold (\<lambda>kv. uring_handle act (KVPair_key kv) (KVPair_value kv)) evs (Inl e) = Inl e" for evs e
    by (induction evs) (simp_all add: h)
  show ?thesis
  proof (induction evs arbitrary: s)
    case (Cons kv evs)
    then show ?case
      using fault[of evs]
      by (cases "IOService_handle (noted act) (KVPair_key kv) (KVPair_value kv) (us_svc s, us_state s, us_log s, us_asked s)")
        (simp_all add: h split_beta)
  qed simp
qed

lemma serve_uring:
  assumes "RBT.entries t = [(x, p)]"
  shows "serve_all (uring_program act alloc kern key) t (Inr (s, k))
     = bind_out (uring_round act alloc kern key k s) (\<lambda>s'. Inr (s', Suc k))"
proof -
  obtain evs svc where n: "IOService_notify alloc (kern k (us_svc s)) (us_svc s) = (evs, svc)" by fastforce
  let ?lost = "us_lost s @ refused alloc (kern k (us_svc s)) (us_svc s)"
  have "serve_all (uring_program act alloc kern key) t (Inr (s, k))
      = fold (\<lambda>kv. uring_handle act (KVPair_key kv) (KVPair_value kv)) evs (Inr (s\<lparr>us_svc := svc, us_lost := ?lost\<rparr>, Suc k))"
    using assms n
    by (simp add: serve_all_def EventsService_processEvents_def IOService_events_def EventsService_setEventsHandler_def
        EventsService_setNotifier_def EventsService_ctor_def uring_program_def Let_def)
  then show ?thesis
    unfolding uring_handles uring_round_def IOService_round_unfold n
    by (cases "fold_out (\<lambda>kv. IOService_handle (noted act) (KVPair_key kv) (KVPair_value kv)) evs
          (svc, us_state s, us_log s, us_asked s)") (auto simp: split_beta)
qed

text \<open>A kernel that behaves leads from reachable states to reachable states, without a fault, when callbacks submit nothing.\<close>

lemma uring_round_reachable:
  assumes "us_reachable act alloc key n u s" and "n \<noteq> 0" and "allocator alloc" and "keeps_id act" and "quiet act"
    and "kernel_ok alloc (kern k (us_svc s)) (us_svc s)"
  obtains s' where "uring_round act alloc kern key k s = Inr s'" and "us_reachable act alloc key n u s'" and "us_asked s' = us_asked s"
proof -
  obtain svc st ids where r: "IOService_round (noted act) alloc (kern k (us_svc s)) key (us_svc s, us_state s, us_log s, us_asked s)
       = Inr (svc, st, us_log s @ map (\<lambda>(p, r). (owner (working_request alloc (kern k (us_svc s)) (us_svc s)) p, r))
           (reported (kern k (us_svc s))), us_asked s @ ids)" "quiet act \<longrightarrow> ids = [] \<and> orderly svc"
    by (rule us_inv_round[OF us_reachable_inv[OF assms(1-4)] assms(3,6,4), where key = key]) (rule that; assumption)
  have q: "ids = []" "orderly svc" using r(2) assms(5) by simp_all
  note us_next[OF assms(1) us_step.us_round[OF assms(6) r(1) q(2)]]
  then show thesis by (rule that[rotated]) (simp_all add: uring_round_def r(1) q(1))
qed

lemma uring_rounds:
  fixes prog :: "(unit, unit, 'c, (('cb, 'u) us_sys \<times> nat) outcome) el_program"
  assumes "us_reachable act alloc key n u s" and "n \<noteq> 0" and "allocator alloc" and "keeps_id act" and "quiet act"
    and ok: "\<forall>k t. us_reachable act alloc key n u t \<and> us_asked t = us_asked s \<longrightarrow> kernel_ok alloc (kern k (us_svc t)) (us_svc t)"
    and t: "RBT.entries t = [(x, p)]" and prog: "prog = uring_program act alloc kern key"
  shows "\<exists>ss. ss 0 = s \<and> (\<forall>j < k. uring_round act alloc kern key (m + j) (ss j) = Inr (ss (Suc j))) \<and> us_reachable act alloc key n u (ss k)
     \<and> us_asked (ss k) = us_asked s \<and> (serve_all prog t ^^ k) (Inr (s, m)) = Inr (ss k, m + k)"
proof (induction k)
  case 0
  then show ?case using assms(1) by (intro exI[of _ "\<lambda>_. s"]) simp
next
  case (Suc k)
  then obtain ss where ss: "ss 0 = s" "\<forall>j < k. uring_round act alloc kern key (m + j) (ss j) = Inr (ss (Suc j))"
    "us_reachable act alloc key n u (ss k)" "us_asked (ss k) = us_asked s"
    "(serve_all prog t ^^ k) (Inr (s, m)) = Inr (ss k, m + k)" by (elim exE conjE) (rule that; assumption)
  obtain s' where s': "uring_round act alloc kern key (m + k) (ss k) = Inr s'" "us_reachable act alloc key n u s'" "us_asked s' = us_asked (ss k)"
    by (rule uring_round_reachable[where kern = kern and k = "m + k", OF ss(3) assms(2-5) ok[rule_format, OF conjI[OF ss(3,4)]]])
      (rule that; assumption)
  let ?ss = "\<lambda>j. if j \<le> k then ss j else s'"
  have "(serve_all prog t ^^ Suc k) (Inr (s, m)) = Inr (s', m + Suc k)"
    using ss(5) s'(1) serve_uring[OF t, of act alloc kern key "ss k" "m + k"] by (simp add: prog)
  then show ?case using ss s' by (intro exI[of _ ?ss]) (auto simp: less_Suc_eq)
qed

text \<open>
  A worker whose queue holds a service to add and then its own processing: the first round adds, serves the
  table with the new service and submits itself again.
\<close>

lemma add_then_serve:
  assumes "el_ready self d" and "unat i < unat (Executor_threadCount (el_exec d))" and "worker_front (el_exec d) (unat i) = []"
    and q: "worker_queue (el_exec d) (unat i) = [Some (With_Index i (Some (Add_Service p))), process_task i]"
    and key: "k = sint (EventsService_getKey (services prog p))"
  shows "\<exists>d'. EventLoop_work prog (unat i) (Some d, s) = Inr (Some d', serve_all prog (el_pdata d' ! unat i) s)
     \<and> armed self i d' \<and> el_pdata d' ! unat i = RBT.insert k p (el_pdata d ! unat i)"
proof -
  obtain e1 where e1: "EventLoop_work prog (unat i) (Some d, s) =
       fold_out (EventLoop_run_task prog) (worker_queue (el_exec d) (unat i)) (Some (d\<lparr>el_exec := e1\<rparr>), s)"
    "el_ready self (d\<lparr>el_exec := e1\<rparr>)" "Executor_threadCount e1 = Executor_threadCount (el_exec d)"
    "worker_queue e1 (unat i) = []" "worker_front e1 (unat i) = []"
    by (rule EventLoop_work_takes_all[OF assms(1-3), of prog s]) (rule that; assumption)
  let ?d = "put_table (unat i) k p d"
  have len: "unat i < length (el_pdata d)" using assms(1,2) by (simp add: el_ready_def)
  have r1: "el_ready self (?d\<lparr>el_exec := e1\<rparr>)" using e1(2) by (simp add: el_ready_def put_table_def)
  have i1: "unat i < unat (Executor_threadCount (el_exec (?d\<lparr>el_exec := e1\<rparr>)))" using assms(2) e1(3) by simp
  obtain e2 where e2: "Executor_addTask_index e1 i (Some Process_Events) = Inr (True, e2)"
    "el_ready self (?d\<lparr>el_exec := e2\<rparr>)" "Executor_threadCount e2 = Executor_threadCount e1"
    "worker_front e2 = worker_front e1" "worker_queue e2 (unat i) = [process_task i]"
    by (rule el_submit[OF r1 i1, of Process_Events]) (use that e1(4) in \<open>auto simp: process_task_def\<close>)
  have "EventLoop_work prog (unat i) (Some d, s)
      = Inr (Some (?d\<lparr>el_exec := e2\<rparr>), serve_all prog (el_pdata ?d ! unat i) s)"
    using e2(1) len unfolding e1(1) q key
    by (simp add: process_task_def EventLoop_run_task_def EventLoop_run_def EventLoop_run_config_def EventLoop_processEvents_def
        EventLoop_startNextStep_def serve_all_def put_table_def)
  moreover have "armed self i (?d\<lparr>el_exec := e2\<rparr>)" using e1 e2 assms(2) by (auto simp: armed_def)
  moreover have "el_pdata ?d ! unat i = RBT.insert k p (el_pdata d ! unat i)" using len by (simp add: put_table_def)
  ultimately show ?thesis by (intro exI[of _ "?d\<lparr>el_exec := e2\<rparr>"]) simp
qed

text \<open>Adding a service to an idle loop and starting it leaves the worker of its key in that situation.\<close>

lemma add_and_start:
  assumes "el_ready self d" and "\<forall>i < unat (Executor_threadCount (el_exec d)). worker_queue (el_exec d) i = []"
  obtains st i d' where "EventLoop_addService prog self (Some p) (Some d, s) = Inr (True, st, s)"
    and "EventLoop_start st = Inr (True, Some d')" and "el_ready self d'" and "el_pdata d' = el_pdata d"
    and "unat i < unat (Executor_threadCount (el_exec d'))" and "worker_front (el_exec d') (unat i) = []"
    and "Executor_threadCount (el_exec d') = Executor_threadCount (el_exec d)"
    and "worker_queue (el_exec d') (unat i) = [Some (With_Index i (Some (Add_Service p))), process_task i]"
proof -
  let ?key = "EventsService_getKey (services prog p)" and ?n = "Executor_threadCount (el_exec d)"
  obtain i where i: "Schedule_doSchedule_u64 (Schedule_ctor ?n) ?key = Inr i" "unat i < unat ?n"
    using doSchedule_u64_ready[OF assms(1)] by metis
  have q0: "worker_queue (el_exec d) (unat i) = []" using assms(2) i(2) by simp
  obtain e1 where e1: "config_via prog self (\<lambda>sch. Schedule_doSchedule_u64 sch ?key) (Add_Service p) (Some d, s)
      = Inr (True, Some (d\<lparr>el_exec := e1\<rparr>), s)"
    "el_ready self (d\<lparr>el_exec := e1\<rparr>)" "Executor_threadCount e1 = ?n" "worker_front e1 = worker_front (el_exec d)"
    "worker_queue e1 (unat i) = [Some (With_Index i (Some (Add_Service p)))]"
    by (rule config_via_queue[OF assms(1), of "\<lambda>sch. Schedule_doSchedule_u64 sch ?key" i prog "Add_Service p" s])
      (use i q0 that in auto)
  have m: "unat (Executor_threadCount e1) \<le> unat (Executor_threadCount (el_exec (d\<lparr>el_exec := e1\<rparr>)))" by simp
  obtain e2 where e2: "EventLoop_start (Some (d\<lparr>el_exec := e1\<rparr>)) = Inr (True, Some (d\<lparr>el_exec := e2\<rparr>))"
    "el_ready self (d\<lparr>el_exec := e2\<rparr>)" "Executor_threadCount e2 = ?n" "worker_front e2 = worker_front e1"
    "worker_queue e2 (unat i) = [Some (With_Index i (Some (Add_Service p))), process_task i]"
    using start_steps[OF e1(2) m] el_ready_usable[OF e1(2)] e1(3,5) i(2)
    by (auto simp: EventLoop_start_def)
  show thesis
    by (rule that[of "Some (d\<lparr>el_exec := e1\<rparr>)" "d\<lparr>el_exec := e2\<rparr>" i])
      (use e1 e2 i(2) worker_front_empty[OF q0] in \<open>simp_all add: EventLoop_addService_def\<close>)
qed

lemma fold_out_const: "length xs = length ys \<Longrightarrow> fold_out (\<lambda>_. f) xs s = fold_out (\<lambda>_. f) ys s"
  by (induction xs ys arbitrary: s rule: list_induct2) (auto intro!: arg_cong2[where f = bind_out])

lemma entries_single: "RBT.entries (RBT.insert k v RBT.empty) = [(k, v)]"
proof -
  let ?es = "RBT.entries (RBT.insert k v RBT.empty)"
  have "x \<in> set ?es \<longleftrightarrow> x = (k, v)" for x
    using RBT.lookup_in_tree[of "RBT.insert k v RBT.empty" "fst x" "snd x"] by (cases x) (auto split: if_splits)
  then have "set ?es = {(k, v)}" by blast
  moreover have "distinct ?es" using RBT.distinct_entries[of "RBT.insert k v RBT.empty"] by (simp add: distinct_map)
  ultimately show ?thesis by (cases ?es) (auto dest: subset_singletonD)
qed

section \<open>Properties\<close>

text \<open>
  Property C12. Every accepted request completes exactly once, or is dropped by a round that says so. However clients and
  callbacks submit requests and rounds of the service interleave, with callbacks that answer, change and submit what they like (only not the
  id in their context), operations of every kind, a ring that may be full, and a kernel that reports only entries in flight, each once,
  whatever submitting and waiting answer, as long as the users do not let an id be outstanding twice: every id has been accepted exactly as often as
  it was called back, is in flight, was dropped and is queued together, so with ids used once no callback is called twice; a round never faults and makes exactly one
  call per reported entry, with the result reported, in that order, for the id the entry was made for, and leads to such a state
  again when the callbacks submit nothing; a round drops nothing if there is room and the operations
  are known; with callbacks that finish, the contexts kept are those in flight and the dropped ones, which are never erased; and
  when nothing is in flight or queued every accepted request has had its callback or was dropped.
\<close>

theorem IOService_exactly_once:
  assumes "us_reachable act alloc key n u s" and "n \<noteq> 0" and "allocator alloc" and "keeps_id act"
  shows "mset (us_asked s) = mset (map fst (us_log s)) + mset (ring_ids (us_svc s)) + mset (us_lost s) + mset (map fst (queued (us_svc s)))
     \<and> distinct (ring_ids (us_svc s) @ map fst (queued (us_svc s)))
     \<and> (distinct (us_asked s) \<longrightarrow>
          distinct (map fst (us_log s) @ ring_ids (us_svc s) @ us_lost s @ map fst (queued (us_svc s))))
     \<and> (kernel_ok alloc env (us_svc s) \<longrightarrow>
          (\<exists>svc st ids log. IOService_round (noted act) alloc env key (us_svc s, us_state s, us_log s, us_asked s)
               = Inr (svc, st, us_log s @ log, us_asked s @ ids)
             \<and> log = map (\<lambda>(p, r). (owner (working_request alloc env (us_svc s)) p, r)) (reported env)
             \<and> (orderly svc \<longrightarrow> us_step act alloc key s \<lparr>us_svc = svc, us_state = st, us_asked = us_asked s @ ids, us_log = us_log s @ log,
                    us_lost = us_lost s @ refused alloc env (us_svc s)\<rparr>)
             \<and> (quiet act \<longrightarrow> ids = [] \<and> orderly svc)
             \<and> ((\<forall>n. sq_room env n) \<and> (\<forall>r \<in> set (queued (us_svc s)). prep_sqe (snd r) \<noteq> None) \<longrightarrow> refused alloc env (us_svc s) = [])))
     \<and> (finishing act \<longrightarrow> dom (RBT.lookup (ios_contexts (us_svc s))) \<subseteq> set (ring_ids (us_svc s)) \<union> set (us_lost s))
     \<and> (ios_ring (us_svc s) = [] \<and> queued (us_svc s) = [] \<longrightarrow> mset (us_asked s) = mset (map fst (us_log s)) + mset (us_lost s))"
proof (intro conjI impI)
  have inv: "us_inv act s" by (rule us_reachable_inv[OF assms])
  then show acc: "mset (us_asked s) = mset (map fst (us_log s)) + mset (ring_ids (us_svc s)) + mset (us_lost s) + mset (map fst (queued (us_svc s)))"
    by (simp add: us_inv_def accounted_def)
  show "distinct (ring_ids (us_svc s) @ map fst (queued (us_svc s)))" using inv unfolding us_inv_def orderly_def by blast
  show "dom (RBT.lookup (ios_contexts (us_svc s))) \<subseteq> set (ring_ids (us_svc s)) \<union> set (us_lost s)" if "finishing act"
    using inv that unfolding us_inv_def by blast
  show "distinct (map fst (us_log s) @ ring_ids (us_svc s) @ us_lost s @ map fst (queued (us_svc s)))" if d: "distinct (us_asked s)"
  proof (rule distinct_submset[OF _ d])
    show "mset (map fst (us_log s) @ ring_ids (us_svc s) @ us_lost s @ map fst (queued (us_svc s))) \<subseteq># mset (us_asked s)"
      unfolding acc by (simp add: ac_simps)
  qed
  show "mset (us_asked s) = mset (map fst (us_log s)) + mset (us_lost s)" if "ios_ring (us_svc s) = [] \<and> queued (us_svc s) = []"
    using acc that by (simp add: ring_ids_def)
  let ?log = "map (\<lambda>(p, r). (owner (working_request alloc env (us_svc s)) p, r)) (reported env)"
  assume k: "kernel_ok alloc env (us_svc s)"
  obtain svc st ids where r: "IOService_round (noted act) alloc env key (us_svc s, us_state s, us_log s, us_asked s)
       = Inr (svc, st, us_log s @ ?log, us_asked s @ ids)"
    "(\<forall>n. sq_room env n) \<and> (\<forall>r \<in> set (queued (us_svc s)). prep_sqe (snd r) \<noteq> None) \<longrightarrow> refused alloc env (us_svc s) = []"
    "quiet act \<longrightarrow> ids = [] \<and> orderly svc"
    by (rule us_inv_round[OF inv assms(3) k assms(4), where key = key]) (rule that; assumption)
  have "us_step act alloc key s \<lparr>us_svc = svc, us_state = st, us_asked = us_asked s @ ids, us_log = us_log s @ ?log,
      us_lost = us_lost s @ refused alloc env (us_svc s)\<rparr>" if "orderly svc"
    by (rule us_step.us_round[OF k r(1) that])
  then show "\<exists>svc st ids log. IOService_round (noted act) alloc env key (us_svc s, us_state s, us_log s, us_asked s)
               = Inr (svc, st, us_log s @ log, us_asked s @ ids)
             \<and> log = ?log
             \<and> (orderly svc \<longrightarrow> us_step act alloc key s \<lparr>us_svc = svc, us_state = st, us_asked = us_asked s @ ids, us_log = us_log s @ log,
                    us_lost = us_lost s @ refused alloc env (us_svc s)\<rparr>)
             \<and> (quiet act \<longrightarrow> ids = [] \<and> orderly svc)
             \<and> ((\<forall>n. sq_room env n) \<and> (\<forall>r \<in> set (queued (us_svc s)). prep_sqe (snd r) \<noteq> None) \<longrightarrow> refused alloc env (us_svc s) = [])"
    using r by (intro exI[of _ svc] exI[of _ st] exI[of _ ids] exI[of _ ?log]) simp
qed

text \<open>
  Two submitted reads, a ring with room for one, and callbacks of which the first keeps its context and submits it again: the
  second request is dropped.
\<close>

definition demo_act :: "(nat, nat) action" where
  "demo_act cb c res u = (if u = 0 then (False, c, [(ic_uid c, c)], 1) else (True, c, [], u))"

definition demo_tight :: uring_env where
  "demo_tight = demo_env\<lparr>sq_room := \<lambda>n. n < 1\<rparr>"

definition demo_asked :: "(nat, nat) us_sys" where
  "demo_asked = \<lparr>us_svc = demo_service, us_state = 0, us_asked = [1000], us_log = [], us_lost = []\<rparr>"

definition demo_two :: "(nat, nat) us_sys" where
  "demo_two = \<lparr>us_svc = snd (IOService_submitRequest 1001 (demo_context 1001) demo_service), us_state = 0,
     us_asked = [1000, 1001], us_log = [], us_lost = []\<rparr>"

lemma demo_asked_reachable: "us_reachable act alloc key 128 0 demo_asked"
proof -
  let ?s = "\<lparr>us_svc = IOService_ctor 128, us_state = 0, us_asked = [], us_log = [], us_lost = []\<rparr> :: (nat, nat) us_sys"
  have "orderly demo_service"
    by (simp add: orderly_def ring_ids_def queued_def proper_def demo_context_def demo_service_def IOService_submitRequest_def
        IOService_ctor_def queue_defs)
  then have "us_step act alloc key ?s (?s\<lparr>us_svc := demo_service, us_asked := us_asked ?s @ [1000]\<rparr>)"
    by (intro us_submit[where ctx = "demo_context 1000"])
      (simp_all add: demo_service_def IOService_submitRequest_def IOService_ctor_def)
  from us_next[OF us_start this] show ?thesis by (simp add: demo_asked_def)
qed

lemma demo_two_reachable: "us_reachable act alloc key 128 0 demo_two"
proof -
  have o: "orderly (us_svc demo_two)"
    by (simp add: orderly_def ring_ids_def queued_def proper_def demo_context_def demo_service_def demo_two_def IOService_submitRequest_def
        IOService_ctor_def queue_defs)
  have "IOService_submitRequest 1001 (demo_context 1001) (us_svc demo_asked) = (True, us_svc demo_two)"
    by (simp add: demo_two_def demo_asked_def demo_service_def IOService_submitRequest_def IOService_ctor_def)
  from us_step.us_submit[OF this o] have "us_step act alloc key demo_asked demo_two"
    by (simp add: demo_two_def demo_asked_def)
  from us_next[OF demo_asked_reachable this] show ?thesis .
qed

theorem IOService_exactly_once_witness:
  "us_reachable demo_act demo_alloc 9 128 0 demo_two \<and> refused demo_alloc demo_tight (us_svc demo_two) = [1001]
   \<and> (\<exists>svc st ids. IOService_round (noted demo_act) demo_alloc demo_tight 9 (us_svc demo_two, 0, [], [1000, 1001])
        = Inr (svc, st, [(1000, 42)], [1000, 1001] @ ids))"
proof -
  have a: "(128 :: u32) \<noteq> 0" "keeps_id demo_act" by (simp_all add: keeps_id_def demo_act_def)
  have r: "refused demo_alloc demo_tight (us_svc demo_two) = [1001]" by code_simp
  have o: "owner (working_request demo_alloc demo_tight (us_svc demo_two)) 1 = 1000" by code_simp
  have "reported demo_tight = [(1, 42)]" by (simp add: reported_def demo_tight_def demo_env_def)
  moreover have "ios_ring (working_request demo_alloc demo_tight (us_svc demo_two)) = [(1, Prep_Read 4 728 0)]" by code_simp
  moreover have "contexts_count (us_svc demo_two) + length (MutexQue_contents (the (ios_queue (us_svc demo_two)))) = 2"
    by (simp add: contexts_count_dom demo_two_def demo_service_def IOService_submitRequest_def IOService_ctor_def queue_defs)
  ultimately have k: "kernel_ok demo_alloc demo_tight (us_svc demo_two)" by (simp add: kernel_ok_def)
  have "\<exists>svc st ids log. IOService_round (noted demo_act) demo_alloc demo_tight 9 (us_svc demo_two, us_state demo_two, us_log demo_two, us_asked demo_two)
       = Inr (svc, st, us_log demo_two @ log, us_asked demo_two @ ids)
     \<and> log = map (\<lambda>(p, r). (owner (working_request demo_alloc demo_tight (us_svc demo_two)) p, r)) (reported demo_tight)"
    using IOService_exactly_once[OF demo_two_reachable a(1) demo_allocator a(2), where env = demo_tight and key = 9] k by blast
  then show ?thesis
    using r o \<open>reported demo_tight = [(1, 42)]\<close> demo_two_reachable[of demo_act demo_alloc 9] by (auto simp: demo_two_def)
qed

text \<open>
  Property C13. The service on the event loop, from the call of \<open>addService\<close> to the callbacks. On an idle loop with empty tables
  \<open>addService\<close> and \<open>start\<close> succeed, and the worker the key is scheduled to can be run for any number of rounds without
  a fault: each round is exactly one round of the service with the kernel's answers of that round, whatever the callbacks
  answer and as long as they submit nothing themselves, so that by the previous property every accepted request is accounted for after every round:
  called back, in flight, dropped or queued.
\<close>

theorem IOService_on_event_loop:
  assumes "el_ready self d" and "\<forall>i < unat (Executor_threadCount (el_exec d)). worker_queue (el_exec d) i = []"
    and "\<forall>t \<in> set (el_pdata d). t = RBT.empty" and "us_reachable act alloc key n u s" and "n \<noteq> 0" and "allocator alloc"
    and "keeps_id act" and "quiet act"
    and "\<forall>k t. us_reachable act alloc key n u t \<and> us_asked t = us_asked s \<longrightarrow> kernel_ok alloc (kern k (us_svc t)) (us_svc t)"
    and prog: "prog = uring_program act alloc kern key"
  shows "\<exists>st el w. EventLoop_addService prog self (Some p) (Some d, Inr (s, 0)) = Inr (True, st, Inr (s, 0))
     \<and> EventLoop_start st = Inr (True, el) \<and> w < unat (Executor_threadCount (el_exec d))
     \<and> (\<exists>ss d'. ss 0 = s \<and> (\<forall>j < Suc k. uring_round act alloc kern key j (ss j) = Inr (ss (Suc j)))
          \<and> fold_out (\<lambda>_. EventLoop_work prog w) [0..<Suc k] (el, Inr (s, 0)) = Inr (Some d', Inr (ss (Suc k), Suc k))
          \<and> us_asked (ss (Suc k)) = us_asked s \<and> us_reachable act alloc key n u (ss (Suc k)))"
proof -
  obtain st i d1 where a: "EventLoop_addService prog self (Some p) (Some d, Inr (s, 0)) = Inr (True, st, Inr (s, 0))"
    "EventLoop_start st = Inr (True, Some d1)" "el_ready self d1" "el_pdata d1 = el_pdata d"
    "unat i < unat (Executor_threadCount (el_exec d1))" "worker_front (el_exec d1) (unat i) = []"
    "Executor_threadCount (el_exec d1) = Executor_threadCount (el_exec d)"
    "worker_queue (el_exec d1) (unat i) = [Some (With_Index i (Some (Add_Service p))), process_task i]"
    by (rule add_and_start[OF assms(1,2), of prog p "Inr (s, 0)"]) (rule that; assumption)
  let ?x = "sint (EventsService_getKey (services prog p))"
  obtain d2 where d2: "EventLoop_work prog (unat i) (Some d1, Inr (s, 0)) = Inr (Some d2, serve_all prog (el_pdata d2 ! unat i) (Inr (s, 0)))"
    "armed self i d2" "el_pdata d2 ! unat i = RBT.insert ?x p (el_pdata d1 ! unat i)"
    using add_then_serve[OF a(3,5,6,8) refl, of prog "Inr (s, 0)"] by (elim exE conjE) (rule that; assumption)
  have "unat i < length (el_pdata d)" using assms(1) a(5,7) by (simp add: el_ready_def)
  then have "el_pdata d1 ! unat i = RBT.empty" using assms(3) a(4) by simp
  then have t: "RBT.entries (el_pdata d2 ! unat i) = [(?x, p)]" unfolding d2(3) by (simp add: entries_single)
  obtain ex where r: "fold_out (\<lambda>_. EventLoop_work prog (unat i)) [0..<k] (Some d2, serve_all prog (el_pdata d2 ! unat i) (Inr (s, 0)))
      = Inr (Some (d2\<lparr>el_exec := ex\<rparr>), (serve_all prog (el_pdata d2 ! unat i) ^^ k) (serve_all prog (el_pdata d2 ! unat i) (Inr (s, 0))))"
    using armed_rounds[OF d2(2), of prog k "serve_all prog (el_pdata d2 ! unat i) (Inr (s, 0))"] by (elim exE conjE) (rule that; assumption)
  obtain ss where ss: "ss 0 = s" "\<forall>j < Suc k. uring_round act alloc kern key (0 + j) (ss j) = Inr (ss (Suc j))" "us_reachable act alloc key n u (ss (Suc k))"
    "us_asked (ss (Suc k)) = us_asked s" "(serve_all prog (el_pdata d2 ! unat i) ^^ Suc k) (Inr (s, 0)) = Inr (ss (Suc k), 0 + Suc k)"
    using uring_rounds[OF assms(4-9) t prog, of "Suc k" 0] by (elim exE conjE) (rule that; assumption)
  have "fold_out (\<lambda>_. EventLoop_work prog (unat i)) [0..<Suc k] (Some d1, Inr (s, 0)) = fold_out (\<lambda>_. EventLoop_work prog (unat i)) (0 # [0..<k]) (Some d1, Inr (s, 0))"
    by (rule fold_out_const) simp
  also have "\<dots> = Inr (Some (d2\<lparr>el_exec := ex\<rparr>), Inr (ss (Suc k), Suc k))"
    using d2(1) r ss(5) by (simp add: funpow_swap1)
  finally show ?thesis using a ss by auto
qed

text \<open>A callback that is finished at once, and a kernel that completes the first entry in flight with 42.\<close>

definition demo_note :: "(nat, nat) action" where
  "demo_note cb c res u = (True, c, [], u + 1)"

definition demo_kern :: "nat \<Rightarrow> nat IOService \<Rightarrow> uring_env" where
  "demo_kern k s = demo_env\<lparr>cqes := map (\<lambda>(p, e). (p, 42)) (take 1 (ios_ring (working_request demo_alloc demo_env s)))\<rparr>"

lemma demo_kern_ok:
  assumes "us_reachable demo_note demo_alloc key 128 0 t" and "us_asked t = us_asked demo_asked"
  shows "kernel_ok demo_alloc (demo_kern k (us_svc t)) (us_svc t)"
proof -
  have "us_inv demo_note t"
    by (rule us_reachable_inv[OF assms(1) _ demo_allocator]) (simp_all add: keeps_id_def demo_note_def)
  from us_inv_few[OF this] have "contexts_count (us_svc t) + length (MutexQue_contents (the (ios_queue (us_svc t)))) \<le> 2 ^ 32"
    using assms(2) by (simp add: demo_asked_def)
  moreover have "working_request demo_alloc (demo_kern k (us_svc t)) (us_svc t) = working_request demo_alloc demo_env (us_svc t)"
    by (rule working_request_env) (simp add: demo_kern_def)
  moreover have "reported (demo_kern k (us_svc t)) = map (\<lambda>(p, e). (p, 42)) (take 1 (ios_ring (working_request demo_alloc demo_env (us_svc t))))"
    by (simp add: reported_def demo_kern_def demo_env_def)
  ultimately show ?thesis
    unfolding kernel_ok_def by (cases "ios_ring (working_request demo_alloc demo_env (us_svc t))") auto
qed

theorem IOService_on_event_loop_witness:
  "\<exists>st el w. EventLoop_addService (uring_program demo_note demo_alloc demo_kern 9) 0 (Some 5) (Some demo_loop, Inr (demo_asked, 0))
        = Inr (True, st, Inr (demo_asked, 0))
     \<and> EventLoop_start st = Inr (True, el) \<and> w < 3
     \<and> (\<exists>s' d'. fold_out (\<lambda>_. EventLoop_work (uring_program demo_note demo_alloc demo_kern 9) w) [0..<Suc 6] (el, Inr (demo_asked, 0))
            = Inr (Some d', Inr (s', Suc 6)) \<and> us_asked s' = [1000])"
proof -
  have e: "\<forall>t \<in> set (el_pdata demo_loop). t = RBT.empty" by (simp add: demo_loop_def)
  have ok: "\<forall>k t. us_reachable demo_note demo_alloc 9 128 0 t \<and> us_asked t = us_asked demo_asked \<longrightarrow>
      kernel_ok demo_alloc (demo_kern k (us_svc t)) (us_svc t)"
    using demo_kern_ok by blast
  have n: "(128 :: u32) \<noteq> 0" by simp
  have q: "keeps_id demo_note" "quiet demo_note" by (simp_all add: keeps_id_def quiet_def demo_note_def)
  obtain st el w ss d' where r: "EventLoop_addService (uring_program demo_note demo_alloc demo_kern 9) 0 (Some 5) (Some demo_loop, Inr (demo_asked, 0))
      = Inr (True, st, Inr (demo_asked, 0))" "EventLoop_start st = Inr (True, el)" "w < unat (Executor_threadCount (el_exec demo_loop))"
    "fold_out (\<lambda>_. EventLoop_work (uring_program demo_note demo_alloc demo_kern 9) w) [0..<Suc 6] (el, Inr (demo_asked, 0))
      = Inr (Some d', Inr (ss (Suc 6), Suc 6))" "us_asked (ss (Suc 6)) = us_asked demo_asked"
    using IOService_on_event_loop[where k = 6 and p = 5 and kern = demo_kern, OF demo_loop_ready(1,3) e demo_asked_reachable n demo_allocator q ok refl]
    by (elim exE conjE) (rule that; assumption)
  show ?thesis
    by (rule exI[of _ st], rule exI[of _ el], rule exI[of _ w], intro conjI, rule r(1), rule r(2))
      (use r(3) demo_loop_ready(2) in simp, rule exI[of _ "ss (Suc 6)"], rule exI[of _ d'], intro conjI, rule r(4),
       use r(5) in \<open>simp add: demo_asked_def\<close>)
qed

end
