(* ===== verification/Sys_Calls.thy ===== *)
theory Sys_Calls
  imports Net_Ops
begin

text \<open>
  The operations of \<open>Socket\<close>, \<open>Epoll\<close>, \<open>EpollFDCreator\<close> and \<open>SelectOperator\<close> that make one system call
  (\<open>socket.cpp\<close>, \<open>epoll.cpp\<close>). The kernel is a function from the call and its state to the answer, the bytes
  it writes through the caller's pointer, and its state afterwards; it is a parameter. A buffer the source
  passes as a pointer and a length is passed here as its bytes and the length.
\<close>

section \<open>System calls\<close>

text \<open>The third argument of \<open>ioctl\<close>: the caller's value, or the \<open>va_list\<close> that holds it.\<close>

datatype ioctl_arg = Value int | Va_List "int list"

datatype sys_call =
    Sys_bind fd bytes nat | Sys_accept fd nat | Sys_accept4 fd nat int | Sys_connect fd bytes nat
  | Sys_fcntl fd int "int option" | Sys_getpeername fd nat | Sys_getsockname fd nat
  | Sys_getsockopt fd int int nat | Sys_setsockopt fd int int bytes nat | Sys_ioctl fd nat ioctl_arg
  | Sys_listen fd int | Sys_recv fd nat int | Sys_recvfrom fd nat int nat | Sys_recvmsg fd int
  | Sys_recvmmsg fd nat int "int option" | Sys_send fd bytes nat int | Sys_sendto fd bytes nat int bytes nat
  | Sys_sendmsg fd bytes int | Sys_sendmmsg fd "bytes list" nat int | Sys_shutdown fd int
  | Sys_unlink bytes
  | Sys_select int "fd_set option" "fd_set option" "fd_set option" "int option"
  | Sys_pselect int "fd_set option" "fd_set option" "fd_set option" "int option" "u64 option"
  | Sys_epoll_pwait fd "nat option" nat int "u64 option"
  | Sys_epoll_pwait2 fd "nat option" nat "int option" "u64 option"
  | Sys_socket int int int | Sys_signalfd fd u64 int | Sys_timerfd_create int int | Sys_eventfd u32 int

fun call_fd :: "sys_call \<Rightarrow> fd option" where
  "call_fd (Sys_bind f _ _) = Some f" | "call_fd (Sys_accept f _) = Some f" | "call_fd (Sys_accept4 f _ _) = Some f"
| "call_fd (Sys_connect f _ _) = Some f" | "call_fd (Sys_fcntl f _ _) = Some f" | "call_fd (Sys_getpeername f _) = Some f"
| "call_fd (Sys_getsockname f _) = Some f" | "call_fd (Sys_getsockopt f _ _ _) = Some f"
| "call_fd (Sys_setsockopt f _ _ _ _) = Some f" | "call_fd (Sys_ioctl f _ _) = Some f" | "call_fd (Sys_listen f _) = Some f"
| "call_fd (Sys_recv f _ _) = Some f" | "call_fd (Sys_recvfrom f _ _ _) = Some f" | "call_fd (Sys_recvmsg f _) = Some f"
| "call_fd (Sys_recvmmsg f _ _ _) = Some f" | "call_fd (Sys_send f _ _ _) = Some f" | "call_fd (Sys_sendto f _ _ _ _ _) = Some f"
| "call_fd (Sys_sendmsg f _ _) = Some f" | "call_fd (Sys_sendmmsg f _ _ _) = Some f" | "call_fd (Sys_shutdown f _) = Some f"
| "call_fd (Sys_epoll_pwait f _ _ _ _) = Some f" | "call_fd (Sys_epoll_pwait2 f _ _ _ _) = Some f"
| "call_fd _ = None"

type_synonym 'k sys = "sys_call \<Rightarrow> 'k \<Rightarrow> (int \<times> bytes) \<times> 'k"

text \<open>The manual pages: a call on a descriptor that is not open fails with \<open>EBADF\<close> and changes nothing.\<close>

definition refuses_bad :: "'k sys \<Rightarrow> bool" where
  "refuses_bad sys \<longleftrightarrow> (\<forall>c f k. call_fd c = Some f \<and> f < 0 \<longrightarrow> sys c k = ((-1, []), k))"

section \<open>Calls of a socket\<close>

definition Socket_bind :: "'k sys \<Rightarrow> bytes \<Rightarrow> nat \<Rightarrow> Socket \<Rightarrow> 'k \<Rightarrow> (int \<times> bytes) \<times> 'k" where
  "Socket_bind sys addr addrlen s = sys (Sys_bind (s_fd s) addr addrlen)"

definition Socket_accept :: "'k sys \<Rightarrow> nat \<Rightarrow> Socket \<Rightarrow> 'k \<Rightarrow> (int \<times> bytes) \<times> 'k" where
  "Socket_accept sys addrlen s = sys (Sys_accept (s_fd s) addrlen)"

definition Socket_accept4 :: "'k sys \<Rightarrow> nat \<Rightarrow> int \<Rightarrow> Socket \<Rightarrow> 'k \<Rightarrow> (int \<times> bytes) \<times> 'k" where
  "Socket_accept4 sys addrlen flags s = sys (Sys_accept4 (s_fd s) addrlen flags)"

definition Socket_connect :: "'k sys \<Rightarrow> bytes \<Rightarrow> nat \<Rightarrow> Socket \<Rightarrow> 'k \<Rightarrow> (int \<times> bytes) \<times> 'k" where
  "Socket_connect sys addr addrlen s = sys (Sys_connect (s_fd s) addr addrlen)"

definition Socket_fcntl :: "'k sys \<Rightarrow> int \<Rightarrow> Socket \<Rightarrow> 'k \<Rightarrow> (int \<times> bytes) \<times> 'k" where
  "Socket_fcntl sys cmd s = sys (Sys_fcntl (s_fd s) cmd None)"

definition Socket_fcntl_arg :: "'k sys \<Rightarrow> int \<Rightarrow> int \<Rightarrow> Socket \<Rightarrow> 'k \<Rightarrow> (int \<times> bytes) \<times> 'k" where
  "Socket_fcntl_arg sys cmd arg s = sys (Sys_fcntl (s_fd s) cmd (Some arg))"

definition Socket_getpeername :: "'k sys \<Rightarrow> nat \<Rightarrow> Socket \<Rightarrow> 'k \<Rightarrow> (int \<times> bytes) \<times> 'k" where
  "Socket_getpeername sys addrlen s = sys (Sys_getpeername (s_fd s) addrlen)"

definition Socket_getsockname :: "'k sys \<Rightarrow> nat \<Rightarrow> Socket \<Rightarrow> 'k \<Rightarrow> (int \<times> bytes) \<times> 'k" where
  "Socket_getsockname sys addrlen s = sys (Sys_getsockname (s_fd s) addrlen)"

definition Socket_getsockopt :: "'k sys \<Rightarrow> int \<Rightarrow> int \<Rightarrow> nat \<Rightarrow> Socket \<Rightarrow> 'k \<Rightarrow> (int \<times> bytes) \<times> 'k" where
  "Socket_getsockopt sys level optname optlen s = sys (Sys_getsockopt (s_fd s) level optname optlen)"

definition Socket_setsockopt :: "'k sys \<Rightarrow> int \<Rightarrow> int \<Rightarrow> bytes \<Rightarrow> nat \<Rightarrow> Socket \<Rightarrow> 'k \<Rightarrow> (int \<times> bytes) \<times> 'k" where
  "Socket_setsockopt sys level optname optval optlen s = sys (Sys_setsockopt (s_fd s) level optname optval optlen)"

text \<open>\<open>ioctl(request, ...)\<close> starts a \<open>va_list\<close> over its arguments and passes the list itself on.\<close>

definition Socket_ioctl :: "'k sys \<Rightarrow> nat \<Rightarrow> int list \<Rightarrow> Socket \<Rightarrow> 'k \<Rightarrow> (int \<times> bytes) \<times> 'k" where
  "Socket_ioctl sys request args s = sys (Sys_ioctl (s_fd s) request (Va_List args))"

definition Socket_listen :: "'k sys \<Rightarrow> int \<Rightarrow> Socket \<Rightarrow> 'k \<Rightarrow> (int \<times> bytes) \<times> 'k" where
  "Socket_listen sys backlog s = sys (Sys_listen (s_fd s) backlog)"

definition Socket_recv :: "'k sys \<Rightarrow> nat \<Rightarrow> int \<Rightarrow> Socket \<Rightarrow> 'k \<Rightarrow> (int \<times> bytes) \<times> 'k" where
  "Socket_recv sys len flags s = sys (Sys_recv (s_fd s) len flags)"

definition Socket_recvfrom :: "'k sys \<Rightarrow> nat \<Rightarrow> int \<Rightarrow> nat \<Rightarrow> Socket \<Rightarrow> 'k \<Rightarrow> (int \<times> bytes) \<times> 'k" where
  "Socket_recvfrom sys len flags addrlen s = sys (Sys_recvfrom (s_fd s) len flags addrlen)"

definition Socket_recvmsg :: "'k sys \<Rightarrow> int \<Rightarrow> Socket \<Rightarrow> 'k \<Rightarrow> (int \<times> bytes) \<times> 'k" where
  "Socket_recvmsg sys flags s = sys (Sys_recvmsg (s_fd s) flags)"

definition Socket_recvmmsg :: "'k sys \<Rightarrow> nat \<Rightarrow> int \<Rightarrow> int option \<Rightarrow> Socket \<Rightarrow> 'k \<Rightarrow> (int \<times> bytes) \<times> 'k" where
  "Socket_recvmmsg sys vlen flags timeout s = sys (Sys_recvmmsg (s_fd s) vlen flags timeout)"

definition Socket_send :: "'k sys \<Rightarrow> bytes \<Rightarrow> nat \<Rightarrow> int \<Rightarrow> Socket \<Rightarrow> 'k \<Rightarrow> (int \<times> bytes) \<times> 'k" where
  "Socket_send sys buf len flags s = sys (Sys_send (s_fd s) buf len flags)"

definition Socket_sendto :: "'k sys \<Rightarrow> bytes \<Rightarrow> nat \<Rightarrow> int \<Rightarrow> bytes \<Rightarrow> nat \<Rightarrow> Socket \<Rightarrow> 'k \<Rightarrow> (int \<times> bytes) \<times> 'k" where
  "Socket_sendto sys buf len flags dest addrlen s = sys (Sys_sendto (s_fd s) buf len flags dest addrlen)"

definition Socket_sendmsg :: "'k sys \<Rightarrow> bytes \<Rightarrow> int \<Rightarrow> Socket \<Rightarrow> 'k \<Rightarrow> (int \<times> bytes) \<times> 'k" where
  "Socket_sendmsg sys msg flags s = sys (Sys_sendmsg (s_fd s) msg flags)"

definition Socket_sendmmsg :: "'k sys \<Rightarrow> bytes list \<Rightarrow> nat \<Rightarrow> int \<Rightarrow> Socket \<Rightarrow> 'k \<Rightarrow> (int \<times> bytes) \<times> 'k" where
  "Socket_sendmmsg sys msgvec vlen flags s = sys (Sys_sendmmsg (s_fd s) msgvec vlen flags)"

definition Socket_shutdown :: "'k sys \<Rightarrow> int \<Rightarrow> Socket \<Rightarrow> 'k \<Rightarrow> (int \<times> bytes) \<times> 'k" where
  "Socket_shutdown sys how s = sys (Sys_shutdown (s_fd s) how)"

lemmas Socket_call_defs =
  Socket_bind_def Socket_accept_def Socket_accept4_def Socket_connect_def Socket_fcntl_def Socket_fcntl_arg_def
  Socket_getpeername_def Socket_getsockname_def Socket_getsockopt_def Socket_setsockopt_def Socket_ioctl_def
  Socket_listen_def Socket_recv_def Socket_recvfrom_def Socket_recvmsg_def Socket_recvmmsg_def Socket_send_def
  Socket_sendto_def Socket_sendmsg_def Socket_sendmmsg_def Socket_shutdown_def

text \<open>
  \<open>unlink()\<close>: a \<open>sockaddr_un\<close> of 110 bytes, the family in the first two, with whatever the stack holds (\<open>junk\<close>); the name
  is read up to its first zero byte and beyond the array when it has none.
\<close>

definition sockaddr_un_size :: nat where "sockaddr_un_size = 110"

definition c_string :: "bytes \<Rightarrow> bytes outcome" where
  "c_string bs = (if CHR 0x00 \<in> set bs then Inr (takeWhile (\<lambda>c. c \<noteq> CHR 0x00) bs) else Inl Out_Of_Range)"

definition Socket_unlink :: "'k sys \<Rightarrow> bytes \<Rightarrow> Socket \<Rightarrow> 'k \<Rightarrow> 'k outcome" where
  "Socket_unlink sys junk s k =
     (let ((_, out), k1) = Socket_getsockname sys sockaddr_un_size s k;
          unaddr = take sockaddr_un_size (out @ drop (length out) junk)
      in bind_out (c_string (drop 2 unaddr)) (\<lambda>path. Inr (snd (sys (Sys_unlink path) k1))))"

section \<open>Calls of an epoll instance, and the other descriptors\<close>

record EventContain =
  m_events :: "(fd \<times> u32) list"

text \<open>\<open>resize(defaultSize)\<close> converts the \<open>int\<close> to a size: a negative one throws.\<close>

definition EventContain_ctor :: "int \<Rightarrow> EventContain outcome" where
  "EventContain_ctor defaultSize =
     (if defaultSize < 0 then Inl (Thrown ''std::length_error'') else Inr \<lparr>m_events = replicate (nat defaultSize) (0, 0)\<rparr>)"

definition EventContain_size :: "EventContain \<Rightarrow> nat" where
  "EventContain_size ec = length (m_events ec)"

text \<open>The pointer to the first event, null for an empty container.\<close>

definition EventContain_front :: "EventContain \<Rightarrow> nat option" where
  "EventContain_front ec = (if 0 \<ge> EventContain_size ec then None else Some 0)"

definition Epoll_pwait :: "'k sys \<Rightarrow> EventContain \<Rightarrow> int \<Rightarrow> u64 option \<Rightarrow> Epoll \<Rightarrow> 'k \<Rightarrow> (int \<times> bytes) \<times> 'k" where
  "Epoll_pwait sys ec timeoutMsec sigmask e =
     sys (Sys_epoll_pwait (m_efd e) (EventContain_front ec) (EventContain_size ec) timeoutMsec sigmask)"

definition Epoll_pwait2 :: "'k sys \<Rightarrow> EventContain \<Rightarrow> int option \<Rightarrow> u64 option \<Rightarrow> Epoll \<Rightarrow> 'k \<Rightarrow> (int \<times> bytes) \<times> 'k" where
  "Epoll_pwait2 sys ec timeout sigmask e =
     sys (Sys_epoll_pwait2 (m_efd e) (EventContain_front ec) (EventContain_size ec) timeout sigmask)"

definition EpollFDCreator_createSocketFD :: "'k sys \<Rightarrow> int \<Rightarrow> int \<Rightarrow> int \<Rightarrow> 'k \<Rightarrow> (int \<times> bytes) \<times> 'k" where
  "EpollFDCreator_createSocketFD sys domain type protocol = sys (Sys_socket domain type protocol)"

definition EpollFDCreator_createSignalFD :: "'k sys \<Rightarrow> fd \<Rightarrow> u64 \<Rightarrow> int \<Rightarrow> 'k \<Rightarrow> (int \<times> bytes) \<times> 'k" where
  "EpollFDCreator_createSignalFD sys f sigs flags = sys (Sys_signalfd f sigs flags)"

definition EpollFDCreator_createTimerFD :: "'k sys \<Rightarrow> int \<Rightarrow> int \<Rightarrow> 'k \<Rightarrow> (int \<times> bytes) \<times> 'k" where
  "EpollFDCreator_createTimerFD sys clockid flags = sys (Sys_timerfd_create clockid flags)"

definition EpollFDCreator_createEventFD :: "'k sys \<Rightarrow> u32 \<Rightarrow> int \<Rightarrow> 'k \<Rightarrow> (int \<times> bytes) \<times> 'k" where
  "EpollFDCreator_createEventFD sys initval flags = sys (Sys_eventfd initval flags)"

definition SelectOperator_select ::
  "'k sys \<Rightarrow> int \<Rightarrow> fd_set option \<Rightarrow> fd_set option \<Rightarrow> fd_set option \<Rightarrow> int option \<Rightarrow> 'k \<Rightarrow> (int \<times> bytes) \<times> 'k" where
  "SelectOperator_select sys nfds readfds writefds exceptfds timeout = sys (Sys_select nfds readfds writefds exceptfds timeout)"

definition SelectOperator_pselect ::
  "'k sys \<Rightarrow> int \<Rightarrow> fd_set option \<Rightarrow> fd_set option \<Rightarrow> fd_set option \<Rightarrow> int option \<Rightarrow> u64 option \<Rightarrow> 'k \<Rightarrow> (int \<times> bytes) \<times> 'k" where
  "SelectOperator_pselect sys nfds readfds writefds exceptfds timeout sigmask =
     sys (Sys_pselect nfds readfds writefds exceptfds timeout sigmask)"

section \<open>Properties\<close>

text \<open>
  The calls one socket operation makes, for whole sequences of them: what the kernel answers to an operation chosen from
  those above, whatever its arguments.
\<close>

datatype sock_op =
    Op_bind bytes nat | Op_accept nat | Op_accept4 nat int | Op_connect bytes nat | Op_fcntl int | Op_fcntl_arg int int
  | Op_getpeername nat | Op_getsockname nat | Op_getsockopt int int nat | Op_setsockopt int int bytes nat
  | Op_ioctl nat "int list" | Op_listen int | Op_recv nat int | Op_recvfrom nat int nat | Op_recvmsg int
  | Op_recvmmsg nat int "int option" | Op_send bytes nat int | Op_sendto bytes nat int bytes nat
  | Op_sendmsg bytes int | Op_sendmmsg "bytes list" nat int | Op_shutdown int

fun Socket_op :: "'k sys \<Rightarrow> sock_op \<Rightarrow> Socket \<Rightarrow> 'k \<Rightarrow> (int \<times> bytes) \<times> 'k" where
  "Socket_op sys (Op_bind a n) = Socket_bind sys a n"
| "Socket_op sys (Op_accept n) = Socket_accept sys n"
| "Socket_op sys (Op_accept4 n fl) = Socket_accept4 sys n fl"
| "Socket_op sys (Op_connect a n) = Socket_connect sys a n"
| "Socket_op sys (Op_fcntl c) = Socket_fcntl sys c"
| "Socket_op sys (Op_fcntl_arg c a) = Socket_fcntl_arg sys c a"
| "Socket_op sys (Op_getpeername n) = Socket_getpeername sys n"
| "Socket_op sys (Op_getsockname n) = Socket_getsockname sys n"
| "Socket_op sys (Op_getsockopt l o' n) = Socket_getsockopt sys l o' n"
| "Socket_op sys (Op_setsockopt l o' v n) = Socket_setsockopt sys l o' v n"
| "Socket_op sys (Op_ioctl r args) = Socket_ioctl sys r args"
| "Socket_op sys (Op_listen b) = Socket_listen sys b"
| "Socket_op sys (Op_recv n fl) = Socket_recv sys n fl"
| "Socket_op sys (Op_recvfrom n fl m) = Socket_recvfrom sys n fl m"
| "Socket_op sys (Op_recvmsg fl) = Socket_recvmsg sys fl"
| "Socket_op sys (Op_recvmmsg n fl t) = Socket_recvmmsg sys n fl t"
| "Socket_op sys (Op_send b n fl) = Socket_send sys b n fl"
| "Socket_op sys (Op_sendto b n fl d m) = Socket_sendto sys b n fl d m"
| "Socket_op sys (Op_sendmsg m fl) = Socket_sendmsg sys m fl"
| "Socket_op sys (Op_sendmmsg ms n fl) = Socket_sendmmsg sys ms n fl"
| "Socket_op sys (Op_shutdown h) = Socket_shutdown sys h"

lemma Socket_op_refused: "refuses_bad sys \<Longrightarrow> s_fd s < 0 \<Longrightarrow> Socket_op sys op s k = ((-1, []), k)"
  by (cases op) (simp_all add: refuses_bad_def Socket_call_defs)

fun socket_ops :: "'k sys \<Rightarrow> sock_op list \<Rightarrow> Socket \<Rightarrow> 'k \<Rightarrow> (int \<times> bytes) list \<times> 'k" where
  "socket_ops sys [] s k = ([], k)"
| "socket_ops sys (op # ops) s k =
     (let (r, k1) = Socket_op sys op s k; (rs, k2) = socket_ops sys ops s k1 in (r # rs, k2))"

definition emptied :: "Socket \<Rightarrow> Socket set" where
  "emptied s = {Socket_ctor0, snd (Socket_move_ctor s), snd (snd (Socket_move_assign Socket_ctor0 s)), snd (Socket_close s),
     snd (snd (Socket_closeAndReturn s))}"

text \<open>
  A socket without a descriptor is inert. A default-constructed, moved-from or closed socket answers -1 to every sequence
  of operations and leaves the kernel as it was. A socket closed by \<open>closeAndNoClear\<close> is not: it hands every
  operation its old number, and a moved-from epoll instance waits on descriptor 0, the standard input.
\<close>

theorem Socket_emptied_inert:
  assumes "refuses_bad sys" and "s' \<in> emptied s"
  shows "socket_ops sys ops s' k = (replicate (length ops) (-1, []), k) \<and> \<not> Socket_valid s'
     \<and> Socket_dtor s' = []
     \<and> Socket_op sys op (snd (Socket_closeAndNoClear s)) k = Socket_op sys op s k
     \<and> Epoll_pwait sys ec t m (snd (Epoll_move_ctor e)) k
         = sys (Sys_epoll_pwait 0 (EventContain_front ec) (EventContain_size ec) t m) k"
proof -
  have f: "s_fd s' = -1" using assms(2) by (auto simp: emptied_def net_defs)
  have "Socket_op sys op s' k = ((-1, []), k)" for op k
    using Socket_op_refused[OF assms(1)] f by simp
  then have "socket_ops sys ops s' k = (replicate (length ops) (-1, []), k)" by (induction ops) simp_all
  then show ?thesis using f by (simp add: net_defs Epoll_pwait_def Epoll_move_ctor_def)
qed

definition demo_sys :: "nat sys" where
  "demo_sys c k = (case call_fd c of Some f \<Rightarrow> if f < 0 then ((-1, []), k) else ((0, ''x''), k + 1) | None \<Rightarrow> ((0, []), k))"

theorem Socket_emptied_inert_witness:
  "socket_ops demo_sys [Op_send ''ab'' 2 0, Op_shutdown 1] (snd (Socket_close \<lparr>s_fd = 5\<rparr>)) 7 = ([(-1, []), (-1, [])], 7)
   \<and> socket_ops demo_sys [Op_send ''ab'' 2 0] \<lparr>s_fd = 5\<rparr> 7 = ([(0, ''x'')], 8)"
proof -
  have "refuses_bad demo_sys" by (simp add: refuses_bad_def demo_sys_def)
  from Socket_emptied_inert[OF this, of "snd (Socket_close \<lparr>s_fd = 5\<rparr>)" "\<lparr>s_fd = 5\<rparr>" "[Op_send ''ab'' 2 0, Op_shutdown 1]" 7]
  have "socket_ops demo_sys [Op_send ''ab'' 2 0, Op_shutdown 1] (snd (Socket_close \<lparr>s_fd = 5\<rparr>)) 7 = ([(-1, []), (-1, [])], 7)"
    by (simp add: emptied_def numeral_2_eq_2)
  then show ?thesis by (simp add: demo_sys_def Socket_call_defs)
qed

lemma c_string_name: "CHR 0x00 \<notin> set p \<Longrightarrow> c_string (p @ CHR 0x00 # rest) = Inr p"
  by (auto simp: c_string_def takeWhile_append)

text \<open>
  \<open>unlink\<close> of a socket bound to a path removes exactly that path, whatever the stack holds. When the name of the socket
  is not a path, as for a socket that is not bound (the kernel writes the family only) or whose descriptor is gone (it writes
  nothing), the answer is not looked at, and the path removed is what the uninitialised buffer
  happened to hold.
\<close>

theorem Socket_unlink_spec:
  assumes "CHR 0x00 \<notin> set p" and "length p < 108" and "length rest = 107 - length p" and "length out \<le> 2"
  shows "(Socket_getsockname sys 110 s k = ((0, [a, b] @ p @ [CHR 0x00]), k1) \<longrightarrow>
            Socket_unlink sys junk s k = Inr (snd (sys (Sys_unlink p) k1)))
     \<and> (Socket_getsockname sys 110 s k = ((r, out), k1) \<longrightarrow>
            Socket_unlink sys ([a, b] @ p @ CHR 0x00 # rest) s k = Inr (snd (sys (Sys_unlink p) k1)))"
proof (intro conjI impI)
  assume g: "Socket_getsockname sys 110 s k = ((0, [a, b] @ p @ [CHR 0x00]), k1)"
  obtain tl' where "drop 2 (take 110 (([a, b] @ p @ [CHR 0x00]) @ drop (length ([a, b] @ p @ [CHR 0x00])) junk)) = p @ CHR 0x00 # tl'"
    using assms(2) Suc_diff_le[of "length p" 107] by (simp add: take_Cons')
  then show "Socket_unlink sys junk s k = Inr (snd (sys (Sys_unlink p) k1))"
    unfolding Socket_unlink_def sockaddr_un_size_def g Let_def prod.case using c_string_name[OF assms(1)] by simp
next
  assume g: "Socket_getsockname sys 110 s k = ((r, out), k1)"
  let ?junk = "[a, b] @ p @ CHR 0x00 # rest"
  have n: "length out + length (drop (length out) ?junk) = 110" using assms(2-4) by simp
  have "drop 2 (out @ drop (length out) ?junk) = p @ CHR 0x00 # rest"
    using assms(4) by (auto simp: le_Suc_eq numeral_2_eq_2 length_Suc_conv)
  then have "drop 2 (take 110 (out @ drop (length out) ?junk)) = p @ CHR 0x00 # rest" using n by simp
  then show "Socket_unlink sys ?junk s k = Inr (snd (sys (Sys_unlink p) k1))"
    using g c_string_name[OF assms(1)] by (simp add: Socket_unlink_def sockaddr_un_size_def)
qed

end
