(* ===== verification/Tls_Setup.thy ===== *)
theory Tls_Setup
  imports Net_Ops
begin

text \<open>
  The whole of \<open>aSSLContextCreator\<close> (\<open>ssl.hh\<close>, \<open>ssl.cpp\<close>): its files, flags and user callbacks beside the protocol lists of
  \<open>Ssl_Model\<close>, and \<open>startCreate\<close> with what OpenSSL is told on the way. The callbacks it installs hold a pointer to
  the creator, so that a context remembers the address of the creator and the creators live in a store.
  The calls of \<open>aSSLSocketIO\<close> and \<open>aSSL\<close> that hand their handle to OpenSSL follow. OpenSSL is a parameter.
\<close>

section \<open>The creator\<close>

type_synonym 's alpn_select_cb_type = "bytes \<Rightarrow> 's \<Rightarrow> int \<times> string option \<times> 's"

record ('cb, 's) tls_creator = "'cb aSSLContextCreator" +
  cr_primaryKeyFile :: string
  cr_certificateFile :: string
  cr_flags :: "int option"
  cr_set_alpn_select_cb :: "'s alpn_select_cb_type option"
  cr_set_alpn_select_decide_cb :: "'s alpn_select_cb_type option"







section \<open>Contexts\<close>

text \<open>
  Which callback \<open>alpnForServer\<close> installed: the library's own or the user's. Both are given the address of
  the creator and read it when they are called.
\<close>

datatype alpn_handler = Own_Select nat | User_Select nat

record tls_ctx =
  cx_mthd :: int
  cx_options :: "int option"
  cx_key_file :: string
  cx_cert_file :: string
  cx_advertised :: "nat option"
  cx_alpn_handler :: "alpn_handler option"
  cx_alpn_protos :: bytes

text \<open>What OpenSSL answers: to \<open>SSL_CTX_new\<close>, to the two files, to the curve and to a protocol list.\<close>

record openssl =
  ossl_new :: "int \<Rightarrow> bool"
  ossl_curves :: int
  ossl_key :: "string \<Rightarrow> int"
  ossl_cert :: "string \<Rightarrow> int"
  ossl_protos :: "bytes \<Rightarrow> int"

text \<open>\<open>alpnForServer\<close>; the callback that is installed depends on whether the user has set one by then.\<close>

definition alpnForServer :: "nat \<Rightarrow> ('cb, 's) tls_creator \<Rightarrow> tls_ctx \<Rightarrow> bool \<times> tls_ctx" where
  "alpnForServer this cr cx =
     (True, cx\<lparr>cx_advertised := Some this,
        cx_alpn_handler := Some (if cr_set_alpn_select_cb cr = None then Own_Select this else User_Select this)\<rparr>)"

definition alpnForClient :: "openssl \<Rightarrow> ('cb, 's) tls_creator \<Rightarrow> tls_ctx \<Rightarrow> bool \<times> tls_ctx" where
  "alpnForClient ossl cr cx =
     (let ret = ossl_protos ossl (cr_next_proto_list cr)
      in (ret = 0, if ret = 0 then cx\<lparr>cx_alpn_protos := cr_next_proto_list cr\<rparr> else cx))"

text \<open>The code and the context returned; what is not returned is freed.\<close>

definition startCreate_ctx :: "openssl \<Rightarrow> nat \<Rightarrow> int \<Rightarrow> ('cb, 's) tls_creator \<Rightarrow> int \<times> tls_ctx option" where
  "startCreate_ctx ossl this mthd cr =
     (if mthd \<noteq> 1 \<and> mthd \<noteq> 2 then (-2, None)
      else if \<not> ossl_new ossl mthd then (-3, None)
      else
        let cx = \<lparr>cx_mthd = mthd, cx_options = cr_flags cr, cx_key_file = [], cx_cert_file = [], cx_advertised = None,
                  cx_alpn_handler = None, cx_alpn_protos = []\<rparr>
        in if ossl_curves ossl \<noteq> 1 then (-4, None)
           else if ossl_key ossl (cr_primaryKeyFile cr) \<noteq> 1 then (-5, None)
           else let cx1 = cx\<lparr>cx_key_file := cr_primaryKeyFile cr\<rparr>
             in if ossl_cert ossl (cr_certificateFile cr) \<noteq> 1 then (-6, None)
                else let cx2 = cx1\<lparr>cx_cert_file := cr_certificateFile cr\<rparr>;
                         (bret, cx3) = (if cr_endType cr = 1 then alpnForServer this cr cx2
                                        else if cr_endType cr = 2 then alpnForClient ossl cr cx2
                                        else (False, cx2))
                     in if \<not> bret then (-7, None) else (0, Some cx3))"

section \<open>The installed callbacks\<close>


text \<open>The callback for the older negotiation hands out the creator's own list.\<close>

definition next_protos_advertised :: "(nat \<Rightarrow> ('cb, 's) tls_creator option) \<Rightarrow> nat \<Rightarrow> bytes outcome" where
  "next_protos_advertised crs this = (case crs this of None \<Rightarrow> Inl Use_After_Free | Some cr \<Rightarrow> Inr (cr_next_proto_list cr))"

section \<open>Calls on a TLS handle\<close>

text \<open>
  Every call hands OpenSSL the handle, null when the object holds none; OpenSSL answers a code and changes its
  own state.
\<close>

datatype ssl_call =
  SSL_set_fd fd | SSL_accept | SSL_connect | SSL_write bytes nat | SSL_get_error int

type_synonym 'k ssl_lib = "nat option \<Rightarrow> ssl_call \<Rightarrow> 'k \<Rightarrow> int \<times> 'k"

definition aSSL_handle :: "aSSL \<Rightarrow> nat option" where
  "aSSL_handle s = m_ssl s"

definition aSSL_getSSLError :: "'k ssl_lib \<Rightarrow> int \<Rightarrow> aSSL \<Rightarrow> 'k \<Rightarrow> int \<times> 'k" where
  "aSSL_getSSLError lib ret s = lib (m_ssl s) (SSL_get_error ret)"

definition aSSLSocketIO_reference :: "aSSLSocketIO \<Rightarrow> aSSL" where
  "aSSLSocketIO_reference io = io_ssl io"

definition aSSLSocketIO_bindSocketFD :: "'k ssl_lib \<Rightarrow> Socket \<Rightarrow> aSSLSocketIO \<Rightarrow> 'k \<Rightarrow> int \<times> 'k" where
  "aSSLSocketIO_bindSocketFD lib sock io = lib (aSSL_handle (io_ssl io)) (SSL_set_fd (Socket_handle sock))"

definition aSSLSocketIO_handShake :: "'k ssl_lib \<Rightarrow> aSSLSocketIO \<Rightarrow> 'k \<Rightarrow> int \<times> 'k" where
  "aSSLSocketIO_handShake lib io = lib (aSSL_handle (io_ssl io)) SSL_accept"

definition aSSLSocketIO_initiateHandShake :: "'k ssl_lib \<Rightarrow> aSSLSocketIO \<Rightarrow> 'k \<Rightarrow> int \<times> 'k" where
  "aSSLSocketIO_initiateHandShake lib io = lib (aSSL_handle (io_ssl io)) SSL_connect"

definition aSSLSocketIO_write_ptr :: "'k ssl_lib \<Rightarrow> bytes \<Rightarrow> nat \<Rightarrow> aSSLSocketIO \<Rightarrow> 'k \<Rightarrow> int \<times> 'k" where
  "aSSLSocketIO_write_ptr lib data lenght io = lib (aSSL_handle (io_ssl io)) (SSL_write data lenght)"

definition aSSLSocketIO_write :: "'k ssl_lib \<Rightarrow> bytes \<Rightarrow> aSSLSocketIO \<Rightarrow> 'k \<Rightarrow> int \<times> 'k" where
  "aSSLSocketIO_write lib data io = aSSLSocketIO_write_ptr lib data (length data) io"

definition aSSLSocketIO_endType :: "aSSLSocketIO \<Rightarrow> int" where
  "aSSLSocketIO_endType io = io_endType io"

lemmas tls_call_defs =
  aSSL_handle_def aSSL_getSSLError_def aSSLSocketIO_reference_def aSSLSocketIO_bindSocketFD_def aSSLSocketIO_handShake_def
  aSSLSocketIO_initiateHandShake_def aSSLSocketIO_write_ptr_def aSSLSocketIO_write_def aSSLSocketIO_endType_def

section \<open>Properties\<close>



text \<open>The detailed \<open>startCreate\<close> implements the one of \<open>Ssl_Model\<close>, which sees OpenSSL's answers only.\<close>

definition answers_of :: "openssl \<Rightarrow> int \<Rightarrow> nat \<Rightarrow> ('cb, 's) tls_creator \<Rightarrow> ctx_sys" where
  "answers_of ossl mthd c cr =
     \<lparr>sys_ctx = (if ossl_new ossl mthd then Some c else None), sys_curves = ossl_curves ossl,
      sys_key_file = ossl_key ossl (cr_primaryKeyFile cr), sys_cert_file = ossl_cert ossl (cr_certificateFile cr),
      sys_alpn_protos = ossl_protos ossl (cr_next_proto_list cr)\<rparr>"

lemma startCreate_refines:
  "fst (startCreate (answers_of ossl mthd c cr) mthd cr)
     = KVPair_ctor (fst (startCreate_ctx ossl this mthd cr)) (map_option (\<lambda>_. c) (snd (startCreate_ctx ossl this mthd cr)))"
  by (simp add: startCreate_def startCreate_ctx_def answers_of_def alpnForServer_def alpnForClient_def Let_def)













text \<open>
  \<open>shutdown\<close> takes the handle out of the object without freeing it, so that every later call hands OpenSSL a null handle;
  a moved-from object does the same.
\<close>

lemma aSSLSocketIO_after_shutdown:
  assumes "io' \<in> {snd (snd (aSSLSocketIO_shutdown ret io)), snd (aSSLSocketIO_move_ctor io)}"
  shows "\<not> aSSLSocketIO_valid io' \<and> aSSLSocketIO_write lib data io' k = lib None (SSL_write data (length data)) k
     \<and> aSSLSocketIO_handShake lib io' k = lib None SSL_accept k
     \<and> aSSLSocketIO_initiateHandShake lib io' k = lib None SSL_connect k
     \<and> aSSLSocketIO_bindSocketFD lib sock io' k = lib None (SSL_set_fd (s_fd sock)) k
     \<and> aSSL_getSSLError lib r (aSSLSocketIO_reference io') k = lib None (SSL_get_error r) k
     \<and> aSSLSocketIO_endType io' = io_endType io"
  using assms
  by (auto simp: tls_call_defs aSSLSocketIO_shutdown_def aSSLSocketIO_move_ctor_def aSSL_take_ssl_def aSSL_move_assign_def aSSL_valid_def
      aSSLSocketIO_valid_def aSSL_ctor_def Socket_handle_def Let_def)

end
