(* ===== verification/Pgsql_Calls.thy ===== *)
theory Pgsql_Calls
  imports Pgsql_Api
begin

text \<open>
  The calls of \<open>PostgresQLConn\<close>, \<open>PostgresQLResult\<close> and \<open>PostgresQLStatic\<close> (\<open>pgsql_api.cpp\<close>) that hand their pointer to libpq and return
  its answer. libpq is a record of functions of the pointer, null being \<open>None\<close>; a character pointer
  is a string option. Text that libpq returns through a null pointer and that the source makes a \<open>std::string\<close> of
  throws.
\<close>

section \<open>libpq\<close>

type_synonym Oid = u32

record pq_params =
  nParams :: int
  paramTypes :: "Oid list"
  paramValues :: "bytes option list"
  paramLengths :: "int list"
  paramFormats :: "int list"

record libpq =
  PQconnectPoll :: "nat option \<Rightarrow> int"
  PQstatus :: "nat option \<Rightarrow> int"
  PQerrorMessage :: "nat option \<Rightarrow> string option"
  PQisnonblocking :: "nat option \<Rightarrow> int"
  PQflush :: "nat option \<Rightarrow> int"
  PQexec :: "nat option \<Rightarrow> string \<Rightarrow> nat option"
  PQexecParams :: "nat option \<Rightarrow> string \<Rightarrow> pq_params \<Rightarrow> int \<Rightarrow> nat option"
  PQprepare :: "nat option \<Rightarrow> string \<Rightarrow> string \<Rightarrow> int \<Rightarrow> Oid list \<Rightarrow> nat option"
  PQexecPrepared :: "nat option \<Rightarrow> string \<Rightarrow> pq_params \<Rightarrow> int \<Rightarrow> nat option"
  PQconsumeInput :: "nat option \<Rightarrow> int"
  PQgetResult :: "nat option \<Rightarrow> nat option"
  PQntuples :: "nat option \<Rightarrow> int"
  PQnfields :: "nat option \<Rightarrow> int"
  PQfnumber :: "nat option \<Rightarrow> string \<Rightarrow> int"
  PQfname :: "nat option \<Rightarrow> int \<Rightarrow> string option"
  PQgetlength :: "nat option \<Rightarrow> int \<Rightarrow> int \<Rightarrow> int"
  PQgetvalue :: "nat option \<Rightarrow> int \<Rightarrow> int \<Rightarrow> bytes option"
  PQresultStatus :: "nat option \<Rightarrow> int"

definition CONNECTION_BAD :: int where "CONNECTION_BAD = 1"

definition PGRES_FATAL_ERROR :: int where "PGRES_FATAL_ERROR = 7"

text \<open>What libpq documents for null pointers.\<close>

definition null_safe :: "libpq \<Rightarrow> bool" where
  "null_safe lib \<longleftrightarrow> PQstatus lib None = CONNECTION_BAD \<and> PQerrorMessage lib None \<noteq> None \<and> PQisnonblocking lib None = 0
     \<and> PQflush lib None = -1 \<and> PQconsumeInput lib None = 0 \<and> PQgetResult lib None = None
     \<and> (\<forall>q. PQexec lib None q = None) \<and> (\<forall>c p f. PQexecParams lib None c p f = None)
     \<and> (\<forall>n q k t. PQprepare lib None n q k t = None) \<and> (\<forall>n p f. PQexecPrepared lib None n p f = None)
     \<and> PQntuples lib None = 0 \<and> PQnfields lib None = 0 \<and> (\<forall>n. PQfnumber lib None n = -1) \<and> (\<forall>c. PQfname lib None c = None)
     \<and> (\<forall>r c. PQgetlength lib None r c = 0) \<and> (\<forall>r c. PQgetvalue lib None r c = None) \<and> PQresultStatus lib None = PGRES_FATAL_ERROR"

text \<open>Making a \<open>std::string\<close> of a character pointer.\<close>

definition string_of_ptr :: "string option \<Rightarrow> string outcome" where
  "string_of_ptr p = (case p of None \<Rightarrow> Inl (Thrown ''std::logic_error'') | Some s \<Rightarrow> Inr s)"

section \<open>Connections\<close>

definition PostgresQLConn_connectPoll :: "libpq \<Rightarrow> PostgresQLConn \<Rightarrow> int" where
  "PostgresQLConn_connectPoll lib c = PQconnectPoll lib (pq_handle c)"

definition PostgresQLConn_states :: "libpq \<Rightarrow> PostgresQLConn \<Rightarrow> int" where
  "PostgresQLConn_states lib c = PQstatus lib (pq_handle c)"

definition PostgresQLConn_errorMessage :: "libpq \<Rightarrow> PostgresQLConn \<Rightarrow> string outcome" where
  "PostgresQLConn_errorMessage lib c = string_of_ptr (PQerrorMessage lib (pq_handle c))"

definition PostgresQLConn_isNonblocking :: "libpq \<Rightarrow> PostgresQLConn \<Rightarrow> bool" where
  "PostgresQLConn_isNonblocking lib c \<longleftrightarrow> PQisnonblocking lib (pq_handle c) = 1"

definition PostgresQLConn_flushToServer :: "libpq \<Rightarrow> PostgresQLConn \<Rightarrow> int" where
  "PostgresQLConn_flushToServer lib c = PQflush lib (pq_handle c)"

definition PostgresQLConn_execute :: "libpq \<Rightarrow> string \<Rightarrow> PostgresQLConn \<Rightarrow> nat option" where
  "PostgresQLConn_execute lib sql c = PQexec lib (pq_handle c) sql"

definition PostgresQLConn_executeWithParams :: "libpq \<Rightarrow> string \<Rightarrow> pq_params \<Rightarrow> int \<Rightarrow> PostgresQLConn \<Rightarrow> nat option" where
  "PostgresQLConn_executeWithParams lib command params resultFormat c = PQexecParams lib (pq_handle c) command params resultFormat"

definition PostgresQLConn_prepare :: "libpq \<Rightarrow> string \<Rightarrow> string \<Rightarrow> int \<Rightarrow> Oid list \<Rightarrow> PostgresQLConn \<Rightarrow> nat option" where
  "PostgresQLConn_prepare lib stmtName query n types c = PQprepare lib (pq_handle c) stmtName query n types"

definition PostgresQLConn_executePrepared :: "libpq \<Rightarrow> string \<Rightarrow> pq_params \<Rightarrow> int \<Rightarrow> PostgresQLConn \<Rightarrow> nat option" where
  "PostgresQLConn_executePrepared lib stmtName params resultFormat c = PQexecPrepared lib (pq_handle c) stmtName params resultFormat"

definition PostgresQLConn_handle :: "PostgresQLConn \<Rightarrow> nat option" where
  "PostgresQLConn_handle c = pq_handle c"

definition PostgresQLConn_consumeInput :: "libpq \<Rightarrow> PostgresQLConn \<Rightarrow> bool" where
  "PostgresQLConn_consumeInput lib c \<longleftrightarrow> PQconsumeInput lib (pq_handle c) = 1"

definition PostgresQLConn_getResult :: "libpq \<Rightarrow> PostgresQLConn \<Rightarrow> nat option" where
  "PostgresQLConn_getResult lib c = PQgetResult lib (pq_handle c)"

section \<open>Results\<close>

definition PostgresQLResult_ctor0 :: PostgresQLResult where
  "PostgresQLResult_ctor0 = \<lparr>pq_res = None\<rparr>"

definition PostgresQLResult_rows :: "libpq \<Rightarrow> PostgresQLResult \<Rightarrow> int" where
  "PostgresQLResult_rows lib r = PQntuples lib (pq_res r)"

definition PostgresQLResult_cols :: "libpq \<Rightarrow> PostgresQLResult \<Rightarrow> int" where
  "PostgresQLResult_cols lib r = PQnfields lib (pq_res r)"

definition PostgresQLResult_getFieldColByName :: "libpq \<Rightarrow> string \<Rightarrow> PostgresQLResult \<Rightarrow> int" where
  "PostgresQLResult_getFieldColByName lib fieldName r = PQfnumber lib (pq_res r) fieldName"

definition PostgresQLResult_getFieldNameByColumnIndex :: "libpq \<Rightarrow> int \<Rightarrow> PostgresQLResult \<Rightarrow> string outcome" where
  "PostgresQLResult_getFieldNameByColumnIndex lib col r = string_of_ptr (PQfname lib (pq_res r) col)"

definition PostgresQLResult_getValueLength :: "libpq \<Rightarrow> int \<Rightarrow> int \<Rightarrow> PostgresQLResult \<Rightarrow> int" where
  "PostgresQLResult_getValueLength lib row col r = PQgetlength lib (pq_res r) row col"

definition PostgresQLResult_getValue :: "libpq \<Rightarrow> int \<Rightarrow> int \<Rightarrow> PostgresQLResult \<Rightarrow> bytes option" where
  "PostgresQLResult_getValue lib row col r = PQgetvalue lib (pq_res r) row col"

definition PostgresQLResult_status :: "libpq \<Rightarrow> PostgresQLResult \<Rightarrow> int" where
  "PostgresQLResult_status lib r = PQresultStatus lib (pq_res r)"

definition PostgresQLResult_valid :: "PostgresQLResult \<Rightarrow> bool" where
  "PostgresQLResult_valid r \<longleftrightarrow> pq_res r \<noteq> None"

definition PostgresQLResult_handle :: "PostgresQLResult \<Rightarrow> nat option" where
  "PostgresQLResult_handle r = pq_res r"

lemmas pq_call_defs =
  PostgresQLConn_connectPoll_def PostgresQLConn_states_def PostgresQLConn_errorMessage_def PostgresQLConn_isNonblocking_def
  PostgresQLConn_flushToServer_def PostgresQLConn_execute_def PostgresQLConn_executeWithParams_def PostgresQLConn_prepare_def
  PostgresQLConn_executePrepared_def PostgresQLConn_handle_def PostgresQLConn_consumeInput_def PostgresQLConn_getResult_def
  PostgresQLResult_ctor0_def PostgresQLResult_rows_def PostgresQLResult_cols_def PostgresQLResult_getFieldColByName_def
  PostgresQLResult_getFieldNameByColumnIndex_def PostgresQLResult_getValueLength_def PostgresQLResult_getValue_def
  PostgresQLResult_status_def PostgresQLResult_valid_def PostgresQLResult_handle_def

section \<open>Notice processors\<close>

text \<open>\<open>setNoticeProcessor\<close> does for the text of a notice what \<open>setNoticeReceiver\<close> does for its result, with a slot of its own.\<close>

record 'f processor_sys = "'f notice_sys" +
  proc_heap :: "nat \<Rightarrow> 'f option option"
  proc_next :: nat
  processor :: "nat option"

definition setNoticeProcessor :: "'f option \<Rightarrow> 'f processor_sys \<Rightarrow> 'f processor_sys" where
  "setNoticeProcessor func s =
     s\<lparr>proc_heap := (proc_heap s)(proc_next s := Some func), proc_next := proc_next s + 1, processor := Some (proc_next s)\<rparr>"

definition process_notice :: "('f \<Rightarrow> string \<Rightarrow> 's \<Rightarrow> 's) \<Rightarrow> string \<Rightarrow> 'f processor_sys \<times> 's \<Rightarrow> ('f processor_sys \<times> 's) outcome" where
  "process_notice call msg st =
     (case processor (fst st) of
        None \<Rightarrow> Inr st
      | Some p \<Rightarrow>
          (case proc_heap (fst st) p of
             None \<Rightarrow> Inl Use_After_Free
           | Some func \<Rightarrow>
               Inr ((fst st)\<lparr>proc_heap := (proc_heap (fst st))(p := None)\<rparr>,
                    case func of None \<Rightarrow> snd st | Some f \<Rightarrow> call f msg (snd st))))"

section \<open>Properties\<close>

text \<open>
  Objects without a connection or result. A default-constructed or moved-from connection refuses every query: no
  result, a bad status, nothing flushed; a result made from that answer, like a default-constructed or moved-from result, has no rows and
  no columns and finds no field. The one call that does not survive it is \<open>getFieldNameByColumnIndex\<close>, which
  makes a string of the null pointer libpq answers; so does every result for a column it does not have.
\<close>

theorem PostgresQL_null_objects:
  assumes "null_safe lib" and "c \<in> {PostgresQLConn_ctor, snd (PostgresQLConn_move_ctor d), snd (snd (PostgresQLConn_move_assign e d))}"
    and "r \<in> {PostgresQLResult_ctor0, snd (PostgresQLResult_move_ctor p), PostgresQLResult_ctor (PostgresQLConn_execute lib sql c),
              PostgresQLResult_ctor (PostgresQLConn_getResult lib c)}"
  shows "PostgresQLConn_states lib c = CONNECTION_BAD \<and> (\<exists>m. PostgresQLConn_errorMessage lib c = Inr m)
     \<and> \<not> PostgresQLConn_isNonblocking lib c \<and> PostgresQLConn_flushToServer lib c = -1 \<and> \<not> PostgresQLConn_consumeInput lib c
     \<and> PostgresQLConn_executeWithParams lib sql ps f c = None \<and> PostgresQLConn_prepare lib n sql k ts c = None
     \<and> PostgresQLConn_executePrepared lib n ps f c = None
     \<and> \<not> PostgresQLResult_valid r \<and> PostgresQLResult_dtor r = [] \<and> PostgresQLResult_rows lib r = 0 \<and> PostgresQLResult_cols lib r = 0
     \<and> PostgresQLResult_getFieldColByName lib name r = -1 \<and> PostgresQLResult_getValue lib i j r = None
     \<and> PostgresQLResult_getValueLength lib i j r = 0 \<and> PostgresQLResult_status lib r = PGRES_FATAL_ERROR
     \<and> PostgresQLResult_getFieldNameByColumnIndex lib j r = Inl (Thrown ''std::logic_error'')"
proof -
  have c: "pq_handle c = None"
    using assms(2) by (auto simp: PostgresQLConn_ctor_def PostgresQLConn_move_ctor_def PostgresQLConn_move_assign_def)
  then have "pq_res r = None"
    using assms(1,3) by (auto simp: null_safe_def pq_call_defs PostgresQLResult_move_ctor_def PostgresQLResult_ctor_def)
  then show ?thesis
    using assms(1) c by (auto simp: null_safe_def pq_call_defs string_of_ptr_def PostgresQLResult_dtor_def)
qed

definition demo_libpq :: libpq where
  "demo_libpq = \<lparr>PQconnectPoll = (\<lambda>_. 0), PQstatus = (\<lambda>c. if c = None then 1 else 0), PQerrorMessage = (\<lambda>_. Some ''e''),
     PQisnonblocking = (\<lambda>_. 0), PQflush = (\<lambda>c. if c = None then -1 else 0), PQexec = (\<lambda>c _. c), PQexecParams = (\<lambda>c _ _ _. c),
     PQprepare = (\<lambda>c _ _ _ _. c), PQexecPrepared = (\<lambda>c _ _ _. c), PQconsumeInput = (\<lambda>c. if c = None then 0 else 1),
     PQgetResult = (\<lambda>c. c), PQntuples = (\<lambda>r. if r = None then 0 else 2), PQnfields = (\<lambda>r. if r = None then 0 else 1),
     PQfnumber = (\<lambda>r _. if r = None then -1 else 0), PQfname = (\<lambda>r c. if r = None \<or> c \<noteq> 0 then None else Some ''id''),
     PQgetlength = (\<lambda>r _ _. if r = None then 0 else 1), PQgetvalue = (\<lambda>r _ _. map_option (\<lambda>_. ''7'') r),
     PQresultStatus = (\<lambda>r. if r = None then 7 else 2)\<rparr>"

theorem PostgresQL_null_objects_witness:
  "null_safe demo_libpq \<and> PostgresQLConn_states demo_libpq (snd (PostgresQLConn_move_ctor \<lparr>pq_handle = Some 3\<rparr>)) = 1
   \<and> PostgresQLResult_getFieldNameByColumnIndex demo_libpq 0 PostgresQLResult_ctor0 = Inl (Thrown ''std::logic_error'')
   \<and> PostgresQLResult_getFieldNameByColumnIndex demo_libpq 0 \<lparr>pq_res = Some 4\<rparr> = Inr ''id''"
proof -
  have n: "null_safe demo_libpq" by (simp add: null_safe_def demo_libpq_def CONNECTION_BAD_def PGRES_FATAL_ERROR_def)
  show ?thesis
    using PostgresQL_null_objects[OF n, of "snd (PostgresQLConn_move_ctor \<lparr>pq_handle = Some 3\<rparr>)" "\<lparr>pq_handle = Some 3\<rparr>" _ PostgresQLResult_ctor0]
    by (simp add: n CONNECTION_BAD_def PostgresQLResult_getFieldNameByColumnIndex_def string_of_ptr_def)
      (simp add: demo_libpq_def)
qed

text \<open>A notice processor works once, as a notice receiver does, and the two do not disturb each other.\<close>

theorem notice_processor_once:
  "process_notice call msg (setNoticeProcessor (Some f) s, u) =
       Inr ((setNoticeProcessor (Some f) s)\<lparr>proc_heap := (proc_heap s)(proc_next s := None)\<rparr>, call f msg u)
   \<and> bind_out (process_notice call msg (setNoticeProcessor fo s, u)) (process_notice call msg') = Inl Use_After_Free
   \<and> receiver (setNoticeProcessor fo s) = receiver s \<and> heap (setNoticeProcessor fo s) = heap s"
  by (simp add: process_notice_def setNoticeProcessor_def)

end
