(* ===== verification/Mutex_Que_Alloc.thy ===== *)
theory Mutex_Que_Alloc
  imports Mutex_Que
begin

text \<open>
  \<open>MutexQueAlloc\<close> of \<open>include/base/mutex_que.hpp\<close>: the double-buffered queue whose deques take their memory from an allocator given
  to the constructor. Both buffers use that allocator, so exchanging them is defined; the deque a
  consumer passes to \<open>takeMulti\<close> has an allocator of its own. Assigning a deque that is moved from takes over its memory
  when the allocators are equal; otherwise the elements are moved one by one, and what is left of the source is
  up to the standard library: \<open>leaves\<close> is its content afterwards.
\<close>

section \<open>Operations\<close>

record 'a MutexQueAlloc =
  qa_alloc :: nat
  qa_front :: "'a list"
  qa_tail :: "'a list"

definition MutexQueAlloc_ctor :: "nat \<Rightarrow> 'a MutexQueAlloc" where
  "MutexQueAlloc_ctor memalloc = \<lparr>qa_alloc = memalloc, qa_front = [], qa_tail = []\<rparr>"

definition MutexQueAlloc_appendFromDeque :: "'a MutexQueAlloc \<Rightarrow> 'a list \<Rightarrow> 'a MutexQueAlloc" where
  "MutexQueAlloc_appendFromDeque q deq = q\<lparr>qa_tail := deq @ qa_tail q\<rparr>"

definition MutexQueAlloc_pushBack :: "'a MutexQueAlloc \<Rightarrow> 'a \<Rightarrow> 'a MutexQueAlloc" where
  "MutexQueAlloc_pushBack q t = q\<lparr>qa_tail := qa_tail q @ [t]\<rparr>"

definition MutexQueAlloc_refill :: "'a MutexQueAlloc \<Rightarrow> 'a MutexQueAlloc" where
  "MutexQueAlloc_refill q = (if qa_front q = [] then q\<lparr>qa_front := qa_tail q, qa_tail := qa_front q\<rparr> else q)"

definition MutexQueAlloc_takeOne :: "'a MutexQueAlloc \<Rightarrow> 'a option \<times> 'a MutexQueAlloc" where
  "MutexQueAlloc_takeOne q =
     (let q1 = MutexQueAlloc_refill q in
      case qa_front q1 of [] \<Rightarrow> (None, q1) | x # xs \<Rightarrow> (Some x, q1\<lparr>qa_front := xs\<rparr>))"

definition MutexQueAlloc_takeMulti ::
  "('a list \<Rightarrow> 'a list) \<Rightarrow> nat \<Rightarrow> 'a MutexQueAlloc \<Rightarrow> 'a list \<Rightarrow> 'a list \<times> 'a MutexQueAlloc" where
  "MutexQueAlloc_takeMulti leaves res_alloc q res =
     (let q1 = MutexQueAlloc_refill q in
      if qa_front q1 = [] then (res, q1)
      else (qa_front q1, q1\<lparr>qa_front := (if res_alloc = qa_alloc q then [] else leaves (qa_front q1))\<rparr>))"

definition MutexQueAlloc_contents :: "'a MutexQueAlloc \<Rightarrow> 'a list" where
  "MutexQueAlloc_contents q = qa_front q @ qa_tail q"

lemmas MutexQueAlloc_defs =
  MutexQueAlloc_ctor_def MutexQueAlloc_appendFromDeque_def MutexQueAlloc_pushBack_def MutexQueAlloc_refill_def
  MutexQueAlloc_takeOne_def MutexQueAlloc_takeMulti_def MutexQueAlloc_contents_def

section \<open>Refinement of the queue without allocator\<close>

definition forget_alloc :: "'a MutexQueAlloc \<Rightarrow> 'a MutexQue" where
  "forget_alloc q = \<lparr>m_front = qa_front q, m_tail = qa_tail q\<rparr>"

lemma forget_alloc_ops:
  "forget_alloc (MutexQueAlloc_ctor a) = MutexQue_ctor"
  "forget_alloc (MutexQueAlloc_appendFromDeque q deq) = MutexQue_appendFromDeque (forget_alloc q) deq"
  "forget_alloc (MutexQueAlloc_pushBack q x) = MutexQue_pushBack (forget_alloc q) x"
  "map_prod id forget_alloc (MutexQueAlloc_takeOne q) = MutexQue_takeOne (forget_alloc q)"
  "MutexQue_contents (forget_alloc q) = MutexQueAlloc_contents q"
  by (simp_all add: forget_alloc_def MutexQueAlloc_defs queue_defs Let_def split: list.splits)

interpretation mqa: mpsc_queue "\<lambda>q x. Inr (MutexQueAlloc_pushBack q x)" "\<lambda>q. Inr (MutexQueAlloc_takeOne q)"
  MutexQueAlloc_contents "\<lambda>_. True"
proof unfold_locales
  fix q :: "'a MutexQueAlloc"
  show "\<exists>r q'. Inr (MutexQueAlloc_takeOne q) = (Inr (r, q') :: ('a option \<times> 'a MutexQueAlloc) outcome) \<and> True \<and>
      (case MutexQueAlloc_contents q of [] \<Rightarrow> r = None \<and> MutexQueAlloc_contents q' = []
       | x # xs \<Rightarrow> r = Some x \<and> MutexQueAlloc_contents q' = xs)"
    using MutexQue_takeOne_contents[of "forget_alloc q"] forget_alloc_ops(4)[of q, symmetric]
    by (cases "MutexQueAlloc_takeOne q") (simp add: forget_alloc_ops(5) split: list.splits)
qed (simp add: MutexQueAlloc_defs)

lemma queue_run_forget:
  "queue_run (\<lambda>q x. Inr (MutexQueAlloc_pushBack q x)) (\<lambda>q. Inr (MutexQueAlloc_takeOne q)) cs q = Inr (out, q') \<Longrightarrow>
   queue_run (\<lambda>q x. Inr (MutexQue_pushBack q x)) (\<lambda>q. Inr (MutexQue_takeOne q)) cs (forget_alloc q) = Inr (out, forget_alloc q')"
proof (induction cs arbitrary: q out)
  case (Cons c cs)
  show ?case
  proof (cases c)
    case Take
    obtain r q1 where q1: "MutexQueAlloc_takeOne q = (r, q1)" by fastforce
    obtain out1 where "queue_run (\<lambda>q x. Inr (MutexQueAlloc_pushBack q x)) (\<lambda>q. Inr (MutexQueAlloc_takeOne q)) cs q1 = Inr (out1, q')"
      "out = (case r of None \<Rightarrow> out1 | Some x \<Rightarrow> x # out1)"
      using Cons.prems Take q1 by (auto split: sum.splits)
    with Cons.IH[of q1 out1] Take q1 show ?thesis by (simp flip: forget_alloc_ops(4))
  qed (use Cons in \<open>simp flip: forget_alloc_ops(3)\<close>)
qed simp

text \<open>
  \<open>MutexQueAlloc\<close> is \<open>MutexQue\<close> with another source of memory: forgetting the allocator turns each of its operations into the one of
  \<open>MutexQue\<close>, whatever the sequence of calls, as long as \<open>takeMulti\<close> is given a deque of the same allocator or the
  library empties a deque whose elements were moved away. Where it does not, the elements taken are still
  in the queue and the next call takes what is left of them again.
\<close>

theorem MutexQueAlloc_refines_MutexQue:
  "(\<exists>out q'. queue_run (\<lambda>q x. Inr (MutexQueAlloc_pushBack q x)) (\<lambda>q. Inr (MutexQueAlloc_takeOne q)) cs q = Inr (out, q')
      \<and> queue_run (\<lambda>q x. Inr (MutexQue_pushBack q x)) (\<lambda>q. Inr (MutexQue_takeOne q)) cs (forget_alloc q) = Inr (out, forget_alloc q')
      \<and> out @ MutexQueAlloc_contents q' = MutexQueAlloc_contents q @ pushed cs)
   \<and> (a = qa_alloc q \<or> (\<forall>xs. leaves xs = []) \<longrightarrow>
        map_prod id forget_alloc (MutexQueAlloc_takeMulti leaves a q res) = MutexQue_takeMulti (forget_alloc q) res)
   \<and> (a \<noteq> qa_alloc q \<and> MutexQueAlloc_contents q \<noteq> [] \<longrightarrow>
        (case MutexQueAlloc_takeMulti leaves a q res of (got, q') \<Rightarrow>
           MutexQueAlloc_contents q' = leaves got @ (if qa_front q = [] then [] else qa_tail q)))"
proof (intro conjI impI)
  obtain out q' where "queue_run (\<lambda>q x. Inr (MutexQueAlloc_pushBack q x)) (\<lambda>q. Inr (MutexQueAlloc_takeOne q)) cs q = Inr (out, q')"
    "out @ MutexQueAlloc_contents q' = MutexQueAlloc_contents q @ pushed cs"
    using mqa.run_fifo[of cs q] by blast
  then show "\<exists>out q'. queue_run (\<lambda>q x. Inr (MutexQueAlloc_pushBack q x)) (\<lambda>q. Inr (MutexQueAlloc_takeOne q)) cs q = Inr (out, q')
      \<and> queue_run (\<lambda>q x. Inr (MutexQue_pushBack q x)) (\<lambda>q. Inr (MutexQue_takeOne q)) cs (forget_alloc q) = Inr (out, forget_alloc q')
      \<and> out @ MutexQueAlloc_contents q' = MutexQueAlloc_contents q @ pushed cs"
    using queue_run_forget by blast
qed (auto simp: forget_alloc_def MutexQueAlloc_defs queue_defs Let_def)

end
