(* ===== verification/Accept_Loop.thy ===== *)
theory Accept_Loop
  imports Stream_Model
begin

text \<open>
  A listening socket from \<open>RePoller::start\<close> and \<open>Acceptor::start\<close> to the streams handed to the user (\<open>acceptor.cpp\<close>, \<open>repoller.cpp\<close>,
  \<open>task_distributor.cpp\<close>): both put their closures into the queue of one distributor's IO worker, whose rounds run them, the tick and the
  closure that registers the descriptor; each tick may call
  the acceptor's callback. The kernel is a parameter; \<open>listening\<close> states what the manual pages of epoll and of accept
  promise for one listening descriptor.
\<close>

unbundle bit_operations_syntax

section \<open>The poller with an acceptor\<close>

text \<open>
  The poller's record with the acceptor, what its callback has done so far, and the exception that left it, if any.
  The table has one callback, that of the acceptor.
\<close>

record 'k server = "(unit, unit, 'k) RePoller" +
  sv_acceptor :: Acceptor
  sv_log :: "net_effect list"
  sv_fault :: "fault option"

text \<open>The callback: \<open>accept\<close> is called only when the events contain \<open>EPOLLIN\<close>.\<close>

definition acceptor_call ::
  "(fd \<Rightarrow> 'k \<Rightarrow> fd \<times> 'k) \<Rightarrow> unit \<Rightarrow> u32 \<Rightarrow> 'k server \<Rightarrow> 'k server" where
  "acceptor_call acc c events rp =
     (let a = sv_acceptor rp;
          (cli, k) = (if events AND EPOLLIN = 0 then (-1, rp_kernel rp) else acc (Socket_handle (ac_sock a)) (rp_kernel rp));
          rp1 = rp\<lparr>rp_kernel := k\<rparr>
      in case Acceptor_on_event events cli a of
           Inl e \<Rightarrow> rp1\<lparr>sv_fault := Some e\<rparr>
         | Inr eff \<Rightarrow> rp1\<lparr>sv_log := sv_log rp @ eff\<rparr>)"

text \<open>The closure \<open>Acceptor::start\<close> queues: it sets the callback, appends the descriptor and asserts the latter.\<close>

definition acceptor_register :: "'k epoll_os \<Rightarrow> stream_task \<Rightarrow> 'k server \<Rightarrow> 'k server outcome" where
  "acceptor_register os t rp =
     (case t of
        Accept_On f events \<Rightarrow>
          let (_, rp1) = RePoller_setReadyCallback f (Some ()) rp;
              (appended, rp2) = RePoller_append os f events rp1
          in bind_out (Acceptor_run appended True t (sv_acceptor rp)) (\<lambda>_. Inr rp2)
      | _ \<Rightarrow> Inr rp)"

text \<open>
  The closures in the distributor's queue: ticks of the poller and the acceptor's. Beside the poller's state stands what its weak pointer
  \<open>m_wev\<close> locks to, nothing before \<open>RePoller::start\<close>; \<open>Acceptor::start\<close> reaches the distributor through it.
\<close>

datatype server_task = Poll_Tick int | Accept_Task stream_task

definition server_workNextTick :: "int \<Rightarrow> server_task TaskDistributor option \<Rightarrow> server_task TaskDistributor option outcome" where
  "server_workNextTick ms wev = (case wev of None \<Rightarrow> Inl Null_Deref | Some ev \<Rightarrow> Inr (snd (add_io (Poll_Tick ms) ev)))"

definition server_poll_start ::
  "int \<Rightarrow> server_task TaskDistributor option \<Rightarrow> 'k server \<times> server_task TaskDistributor option
     \<Rightarrow> (bool \<times> 'k server \<times> server_task TaskDistributor option) outcome" where
  "server_poll_start ms wev st =
     (case wev of
        None \<Rightarrow> Inr (False, st)
      | Some _ \<Rightarrow> bind_out (server_workNextTick ms wev) (\<lambda>wev'. Inr (True, (fst st)\<lparr>rp_shutdown := False\<rparr>, wev')))"

text \<open>
  \<open>Acceptor::start\<close> while the poller is there (\<open>Acceptor_start\<close> of \<open>Stream_Model\<close> has the case in which it is not): the answer, what the
  move of the listening socket closes, and the state.
\<close>

definition server_accept_start ::
  "Socket \<Rightarrow> 'k server \<times> server_task TaskDistributor option \<Rightarrow> bool \<times> fd list \<times> 'k server \<times> server_task TaskDistributor option" where
  "server_accept_start listenSock st =
     (let a = sv_acceptor (fst st);
          (closed, sock, _) = Socket_move_assign (ac_sock a) listenSock;
          rp = (fst st)\<lparr>sv_acceptor := a\<lparr>ac_sock := sock\<rparr>\<rparr>
      in case snd st of
           None \<Rightarrow> (False, closed, rp, None)
         | Some ev \<Rightarrow> let (bret, wev) = add_io (Accept_Task (Accept_On (Socket_handle sock) EPOLLIN)) ev in (bret, closed, rp, wev))"

definition server_run ::
  "'k epoll_os \<Rightarrow> (fd \<Rightarrow> 'k \<Rightarrow> fd \<times> 'k) \<Rightarrow> server_task \<Rightarrow> 'k server \<times> server_task TaskDistributor option
     \<Rightarrow> ('k server \<times> server_task TaskDistributor option) outcome option" where
  "server_run os acc t st =
     (case t of
        Poll_Tick ms \<Rightarrow>
          (case RePoller_work os (acceptor_call acc) ms (fst st) of
             None \<Rightarrow> None
           | Some r \<Rightarrow> Some (bind_out r (\<lambda>rp.
               if rp_shutdown rp then Inr (rp, snd st)
               else bind_out (server_workNextTick ms (snd st)) (\<lambda>wev. Inr (rp, wev)))))
      | Accept_Task at \<Rightarrow> Some (bind_out (acceptor_register os at (fst st)) (\<lambda>rp. Inr (rp, snd st))))"

fun accepted_of :: "net_effect \<Rightarrow> fd option" where
  "accepted_of (On_Accept c) = c"
| "accepted_of _ = None"

definition accepted :: "'k server \<Rightarrow> fd list" where
  "accepted rp = List.map_filter accepted_of (sv_log rp)"

section \<open>The kernel\<close>

text \<open>
  Observers of the kernel: the connections that wait, all that have arrived, and the interest list. \<open>epoll_ctl\<close> adds a descriptor;
  \<open>epoll_wait\<close> may find new connections and reports the listening descriptor exactly while it is watched and connections wait;
  \<open>accept\<close> takes the first of them.
\<close>

record 'k kernel_view =
  backlog :: "'k \<Rightarrow> fd list"
  arrived :: "'k \<Rightarrow> fd list"
  watched :: "'k \<Rightarrow> fd set"

definition listening :: "'k epoll_os \<Rightarrow> (fd \<Rightarrow> 'k \<Rightarrow> fd \<times> 'k) \<Rightarrow> 'k kernel_view \<Rightarrow> fd \<Rightarrow> bool" where
  "listening os acc v f \<longleftrightarrow>
     (\<forall>efd ev k. f \<notin> watched v k \<longrightarrow> (\<exists>k'. epoll_ctl os efd ADD f ev k = (0, k') \<and> backlog v k' = backlog v k
        \<and> arrived v k' = arrived v k \<and> watched v k' = insert f (watched v k)))
   \<and> (\<forall>efd n t k. watched v k \<subseteq> {f} \<longrightarrow> (\<exists>new k'.
          epoll_wait os efd n t k = (Wait_Ready (if f \<notin> watched v k \<or> backlog v k @ new = [] then [] else [(f, EPOLLIN)]), k')
        \<and> backlog v k' = backlog v k @ new \<and> arrived v k' = arrived v k @ new \<and> watched v k' = watched v k \<and> (\<forall>c \<in> set new. 0 < c)))
   \<and> (\<forall>k c cs. backlog v k = c # cs \<longrightarrow> (\<exists>k'. acc f k = (c, k') \<and> backlog v k' = cs \<and> arrived v k' = arrived v k
        \<and> watched v k' = watched v k))"

section \<open>One tick\<close>

definition serving :: "'k kernel_view \<Rightarrow> fd \<Rightarrow> 'k server \<Rightarrow> bool" where
  "serving v f rp \<longleftrightarrow> RBT.lookup (rp_callbacks rp) = [f \<mapsto> ()] \<and> rp_customEvents rp = RBT.empty \<and> \<not> rp_shutdown rp
     \<and> watched v (rp_kernel rp) = {f} \<and> (\<forall>c \<in> set (backlog v (rp_kernel rp)). 0 < c) \<and> ac_onAccept (sv_acceptor rp)
     \<and> s_fd (ac_sock (sv_acceptor rp)) = f \<and> sv_fault rp = None
     \<and> accepted rp @ backlog v (rp_kernel rp) = arrived v (rp_kernel rp)"

lemma acceptor_call_stable: "stable (acceptor_call acc)"
  by (simp add: stable_def acceptor_call_def Let_def split_beta split: sum.splits)

lemma deliveries_one:
  assumes "RBT.lookup cbs = [f \<mapsto> ()]"
  shows "deliveries cbs (fold merge_event [] RBT.empty) = []"
    and "deliveries cbs (fold merge_event [(f, e)] RBT.empty) = [((), e)]"
  by (simp_all add: deliveries_def merge_event_def assms)

lemma serving_tick:
  assumes "listening os acc v f" and "serving v f rp"
  obtains rp' new where "RePoller_work os (acceptor_call acc) ms rp = Some (Inr rp')" and "serving v f rp'"
    and "arrived v (rp_kernel rp') = arrived v (rp_kernel rp) @ new"
    and "accepted rp' = accepted rp @ take 1 (backlog v (rp_kernel rp) @ new)"
    and "backlog v (rp_kernel rp') = drop 1 (backlog v (rp_kernel rp) @ new)"
proof -
  let ?t = "if RBT.keys (rp_customEvents rp) \<noteq> [] then 1 else ms"
  have s: "RBT.lookup (rp_callbacks rp) = [f \<mapsto> ()]" "rp_customEvents rp = RBT.empty" "watched v (rp_kernel rp) = {f}"
    using assms(2) by (simp_all add: serving_def)
  obtain new k where k: "epoll_wait os (m_efd (rp_ep rp)) 300 ?t (rp_kernel rp)
      = (Wait_Ready (if backlog v (rp_kernel rp) @ new = [] then [] else [(f, EPOLLIN)]), k)"
    "backlog v k = backlog v (rp_kernel rp) @ new" "arrived v k = arrived v (rp_kernel rp) @ new" "watched v k = {f}" "\<forall>c \<in> set new. 0 < c"
  proof -
    have sub: "watched v (rp_kernel rp) \<subseteq> {f}" using s(3) by simp
    obtain new k where "epoll_wait os (m_efd (rp_ep rp)) 300 ?t (rp_kernel rp)
      = (Wait_Ready (if f \<notin> watched v (rp_kernel rp) \<or> backlog v (rp_kernel rp) @ new = [] then [] else [(f, EPOLLIN)]), k)"
      "backlog v k = backlog v (rp_kernel rp) @ new" "arrived v k = arrived v (rp_kernel rp) @ new" "watched v k = watched v (rp_kernel rp)"
      "\<forall>c \<in> set new. 0 < c"
      using assms(1) sub unfolding listening_def by blast
    then show thesis using that[of new k] s(3) by simp
  qed
  let ?es = "if backlog v (rp_kernel rp) @ new = [] then [] else [(f, EPOLLIN)]"
  let ?rp = "rp\<lparr>rp_customEvents := RBT.empty, rp_kernel := k\<rparr>"
  have w: "RePoller_work os (acceptor_call acc) ms rp
      = Some (Inr (call_all (acceptor_call acc) (deliveries (rp_callbacks rp) (fold merge_event ?es (rp_customEvents rp))) ?rp))"
    by (rule RePoller_work_ready[OF acceptor_call_stable]) (use k(1) in \<open>simp_all add: Epoll_wait_def\<close>)
  show thesis
  proof (cases "backlog v (rp_kernel rp) @ new")
    case Nil
    then have "RePoller_work os (acceptor_call acc) ms rp = Some (Inr ?rp)"
      using w s(1,2) by (simp add: deliveries_one(1)[OF s(1), simplified] call_all_def)
    then show ?thesis using that[of ?rp new] assms(2) k Nil by (simp add: serving_def accepted_def)
  next
    case (Cons c cs)
    have "\<forall>x \<in> set (backlog v (rp_kernel rp) @ new). 0 < x" using k(5) assms(2) by (auto simp: serving_def)
    then have c: "backlog v k = c # cs" "0 < c" "\<forall>x \<in> set cs. 0 < x" using k(2) Cons by simp_all
    obtain k' where k': "acc f k = (c, k')" "backlog v k' = cs" "arrived v k' = arrived v k" "watched v k' = watched v k"
      using assms(1) c(1) unfolding listening_def by blast
    let ?rp' = "?rp\<lparr>rp_kernel := k', sv_log := sv_log rp @ [On_Accept (Some c)]\<rparr>"
    have "acceptor_call acc () EPOLLIN ?rp = ?rp'"
      using assms(2) k'(1) c(2)
      by (simp add: acceptor_call_def serving_def Acceptor_on_event_def EPOLLIN_def net_defs)
    then have "RePoller_work os (acceptor_call acc) ms rp = Some (Inr ?rp')"
      using w s(2) Cons by (simp add: deliveries_one(2)[OF s(1), simplified] call_all_def)
    moreover have a: "accepted ?rp' = accepted rp @ [c]" by (simp add: accepted_def map_filter_def)
    moreover have "accepted rp @ (backlog v (rp_kernel rp) @ new) = arrived v (rp_kernel rp) @ new"
      using assms(2) by (simp add: serving_def)
    then have "serving v f ?rp'"
      using assms(2) k(3,4) k'(2-4) c(3) a unfolding Cons by (simp add: serving_def)
    ultimately show ?thesis using that[of ?rp' new] k(3) k'(2,3) Cons by simp
  qed
qed

section \<open>Any number of ticks\<close>

lemma serving_tick_eq:
  assumes "listening os acc v f" and "serving v f rp" and "RePoller_work os (acceptor_call acc) ms rp = Some (Inr rp')"
  shows "\<exists>new. arrived v (rp_kernel rp') = arrived v (rp_kernel rp) @ new
     \<and> accepted rp' = accepted rp @ take 1 (backlog v (rp_kernel rp) @ new)
     \<and> backlog v (rp_kernel rp') = drop 1 (backlog v (rp_kernel rp) @ new)"
  by (rule serving_tick[OF assms(1,2), of ms]) (use assms(3) in auto)

lemma serving_rounds:
  assumes "listening os acc v f" and "\<forall>i \<le> m + d. serving v f (rps i)"
    and "\<forall>i < m + d. RePoller_work os (acceptor_call acc) ms (rps i) = Some (Inr (rps (Suc i)))"
    and "\<forall>i \<le> d. arrived v (rp_kernel (rps (m + i))) = arrived v (rp_kernel (rps m))"
  shows "backlog v (rp_kernel (rps (m + d))) = drop d (backlog v (rp_kernel (rps m)))"
  using assms(2-4)
proof (induction d)
  case (Suc d)
  have IH: "backlog v (rp_kernel (rps (m + d))) = drop d (backlog v (rp_kernel (rps m)))" using Suc by simp
  obtain new where "arrived v (rp_kernel (rps (m + Suc d))) = arrived v (rp_kernel (rps (m + d))) @ new"
    "backlog v (rp_kernel (rps (m + Suc d))) = drop 1 (backlog v (rp_kernel (rps (m + d))) @ new)"
    using serving_tick_eq[OF assms(1), of "rps (m + d)" ms "rps (m + Suc d)"] Suc.prems(1,2) by auto
  moreover have "arrived v (rp_kernel (rps (m + Suc d))) = arrived v (rp_kernel (rps (m + d)))"
    using Suc.prems(3)[rule_format, of d] Suc.prems(3)[rule_format, of "Suc d"] by simp
  ultimately show ?case using IH by (simp add: drop_drop)
qed simp

section \<open>Registration\<close>

definition idle_server :: "'k kernel_view \<Rightarrow> 'k server \<Rightarrow> bool" where
  "idle_server v rp \<longleftrightarrow> rp_callbacks rp = RBT.empty \<and> rp_customEvents rp = RBT.empty \<and> watched v (rp_kernel rp) = {}
     \<and> backlog v (rp_kernel rp) = arrived v (rp_kernel rp) \<and> (\<forall>c \<in> set (backlog v (rp_kernel rp)). 0 < c)
     \<and> sv_log rp = [] \<and> sv_fault rp = None"

text \<open>The first tick, with nothing registered yet, only waits.\<close>

lemma idle_tick:
  assumes "listening os acc v f" and "idle_server v rp"
  obtains rp' where "RePoller_work os (acceptor_call acc) ms rp = Some (Inr rp')" and "idle_server v rp'"
    and "sv_acceptor rp' = sv_acceptor rp" and "rp_shutdown rp' = rp_shutdown rp"
proof -
  have i: "watched v (rp_kernel rp) = {}" "rp_callbacks rp = RBT.empty" "rp_customEvents rp = RBT.empty" using assms(2) by (simp_all add: idle_server_def)
  obtain new k where k: "epoll_wait os (m_efd (rp_ep rp)) 300 ms (rp_kernel rp) = (Wait_Ready [], k)"
    "backlog v k = backlog v (rp_kernel rp) @ new" "arrived v k = arrived v (rp_kernel rp) @ new" "watched v k = {}" "\<forall>c \<in> set new. 0 < c"
  proof -
    have "watched v (rp_kernel rp) \<subseteq> {f}" using i(1) by simp
    then obtain new k where "epoll_wait os (m_efd (rp_ep rp)) 300 ms (rp_kernel rp)
      = (Wait_Ready (if f \<notin> watched v (rp_kernel rp) \<or> backlog v (rp_kernel rp) @ new = [] then [] else [(f, EPOLLIN)]), k)"
      "backlog v k = backlog v (rp_kernel rp) @ new" "arrived v k = arrived v (rp_kernel rp) @ new" "watched v k = watched v (rp_kernel rp)"
      "\<forall>c \<in> set new. 0 < c"
      using assms(1) unfolding listening_def by blast
    then show thesis using that[of k new] i(1) by simp
  qed
  let ?rp = "rp\<lparr>rp_customEvents := RBT.empty, rp_kernel := k\<rparr>"
  have "RePoller_work os (acceptor_call acc) ms rp = Some (Inr ?rp)"
    using k(1) i(2,3) by (simp add: RePoller_work_def Epoll_wait_def first_key_def dispatch_callbacks.simps)
  moreover have "idle_server v ?rp" using assms(2) k by (auto simp: idle_server_def)
  ultimately show thesis using that by simp
qed

lemma register_serving:
  assumes "listening os acc v f" and "0 < f" and "idle_server v rp" and "ac_onAccept (sv_acceptor rp)" and "s_fd (ac_sock (sv_acceptor rp)) = f"
    and "\<not> rp_shutdown rp"
  obtains rp1 where "acceptor_register os (Accept_On f EPOLLIN) rp = Inr rp1" and "serving v f rp1"
proof -
  have "f \<notin> watched v (rp_kernel rp)" using assms(3) by (simp add: idle_server_def)
  then obtain k where k: "epoll_ctl os (m_efd (rp_ep rp)) ADD f (f, EPOLLIN) (rp_kernel rp) = (0, k)" "backlog v k = backlog v (rp_kernel rp)"
    "arrived v k = arrived v (rp_kernel rp)" "watched v k = insert f (watched v (rp_kernel rp))"
    using assms(1) unfolding listening_def by blast
  let ?rp = "rp\<lparr>rp_callbacks := RBT.insert f () (rp_callbacks rp), rp_kernel := k\<rparr>"
  have "acceptor_register os (Accept_On f EPOLLIN) rp = Inr ?rp"
    using assms(2) k(1)
    by (simp add: acceptor_register_def RePoller_setReadyCallback_def RePoller_append_def control_fd_def Epoll_control_def Acceptor_run_def)
  moreover have "serving v f ?rp"
    using assms(3-6) k by (simp add: serving_def idle_server_def accepted_def map_filter_simps)
  ultimately show thesis using that by simp
qed

section \<open>Rounds of the worker\<close>

text \<open>A queue whose next batch is the whole of it.\<close>

definition whole_queue :: "'t TaskDistributor \<Rightarrow> 't list \<Rightarrow> bool" where
  "whole_queue ev ts \<longleftrightarrow> io_queue ev ts \<and> m_front (td_bqueForTask ev ! 0) = []"

lemma io_queue_empty_whole: "io_queue ev [] \<Longrightarrow> whole_queue ev []"
  by (simp add: whole_queue_def io_queue_def MutexQue_contents_def)

lemma whole_queue_add:
  assumes "whole_queue ev ts"
  shows "\<exists>ev'. add_io t ev = (True, Some ev') \<and> whole_queue ev' (ts @ [t])"
proof -
  have a: "TaskDistributor_inv ev" "td_tpool ev \<noteq> None" "io_queue ev ts" using assms by (simp_all add: whole_queue_def io_queue_def)
  obtain ev' where e: "add_io t ev = (True, Some ev')" "io_queue ev' (ts @ [t])" by (rule io_queue_add[OF a(3)])
  have "ev' = push_task (clamp_index ev 0) (Some t) ev"
    using e(1) addTask_accepts(1)[OF a(1,2), of t 0] by (simp add: add_io_def TaskDistributor_addTask_type_def)
  then have "m_front (td_bqueForTask ev' ! 0) = []"
    using assms a(1) by (auto simp: whole_queue_def push_task_def clamp_index_def TaskDistributor_inv_def queue_defs nth_list_update)
  then show ?thesis using e by (simp add: whole_queue_def)
qed

lemma whole_queue_take:
  assumes "whole_queue ev ts"
  shows "\<exists>ev'. work_take 0 ev = (map Some ts, ev') \<and> whole_queue ev' []"
proof -
  obtain us vs ev' where t: "work_take 0 ev = (map Some us, ev')" "ts = us @ vs" "io_queue ev' vs"
    "m_front (td_bqueForTask ev' ! 0) = []" "m_front (td_bqueForTask ev ! 0) = [] \<longrightarrow> vs = []"
    by (rule io_take[of ev ts]) (use assms in \<open>auto simp: whole_queue_def\<close>)
  then show ?thesis using assms by (simp add: whole_queue_def)
qed

lemma round_runs:
  assumes "whole_queue ev ts"
  shows "\<exists>ev'. whole_queue ev' [] \<and> (\<forall>n. io_rounds (Suc n) run (rp, Some ev) =
     (case run_batch run (map Some ts) (rp, Some ev') of Some (Inr st') \<Rightarrow> io_rounds n run st' | r \<Rightarrow> r))"
proof -
  obtain ev' where t: "work_take 0 ev = (map Some ts, ev')" "whole_queue ev' []" using whole_queue_take[OF assms] by blast
  have "\<not> td_exit ev" using assms by (simp add: whole_queue_def io_queue_def)
  then show ?thesis using t by (intro exI[of _ ev']) simp
qed

lemma tick_runs:
  assumes "RePoller_work os (acceptor_call acc) ms rp = Some (Inr rp')" and "\<not> rp_shutdown rp'" and "whole_queue ev ts"
  shows "\<exists>ev'. server_run os acc (Poll_Tick ms) (rp, Some ev) = Some (Inr (rp', Some ev')) \<and> whole_queue ev' (ts @ [Poll_Tick ms])"
  using whole_queue_add[OF assms(3), of "Poll_Tick ms"] assms(1,2) by (auto simp: server_run_def server_workNextTick_def)

lemma polling_rounds:
  assumes l: "listening os acc v f" and "serving v f rp" and "whole_queue ev [Poll_Tick ms]"
  shows "\<exists>rps. rps 0 = rp \<and> (\<forall>i \<le> n. serving v f (rps i))
     \<and> (\<forall>i < n. RePoller_work os (acceptor_call acc) ms (rps i) = Some (Inr (rps (Suc i))))
     \<and> (\<forall>i \<le> n. \<exists>ev'. io_rounds i (server_run os acc) (rp, Some ev) = Some (Inr (rps i, Some ev')) \<and> whole_queue ev' [Poll_Tick ms])"
  using assms(2,3)
proof (induction n arbitrary: rp ev)
  case 0
  then show ?case by (intro exI[of _ "\<lambda>_. rp"]) simp
next
  case (Suc n)
  obtain rp1 where w: "RePoller_work os (acceptor_call acc) ms rp = Some (Inr rp1)" "serving v f rp1"
    by (rule serving_tick[OF l Suc.prems(1), of ms])
  obtain ev1 where e1: "whole_queue ev1 []" "\<And>m. io_rounds (Suc m) (server_run os acc) (rp, Some ev) =
     (case run_batch (server_run os acc) (map Some [Poll_Tick ms]) (rp, Some ev1) of Some (Inr st') \<Rightarrow> io_rounds m (server_run os acc) st' | r \<Rightarrow> r)"
    using round_runs[OF Suc.prems(2), of "server_run os acc" rp] by blast
  have "\<not> rp_shutdown rp1" using w(2) by (simp add: serving_def)
  then obtain ev2 where e2: "server_run os acc (Poll_Tick ms) (rp, Some ev1) = Some (Inr (rp1, Some ev2))" "whole_queue ev2 [Poll_Tick ms]"
    using tick_runs[OF w(1) _ e1(1)] by auto
  have st: "io_rounds (Suc i) (server_run os acc) (rp, Some ev) = io_rounds i (server_run os acc) (rp1, Some ev2)" for i
    using e1(2)[of i] e2(1) by simp
  obtain rps where r: "rps 0 = rp1" "\<forall>i \<le> n. serving v f (rps i)"
    "\<forall>i < n. RePoller_work os (acceptor_call acc) ms (rps i) = Some (Inr (rps (Suc i)))"
    "\<forall>i \<le> n. \<exists>ev'. io_rounds i (server_run os acc) (rp1, Some ev2) = Some (Inr (rps i, Some ev')) \<and> whole_queue ev' [Poll_Tick ms]"
    using Suc.IH[OF w(2) e2(2)] by blast
  let ?rps = "case_nat rp rps"
  have "RePoller_work os (acceptor_call acc) ms (?rps i) = Some (Inr (?rps (Suc i)))" if "i < Suc n" for i
    using that r(1,3) w(1) by (cases i) simp_all
  moreover have "serving v f (?rps i)" if "i \<le> Suc n" for i
    using that r(2) Suc.prems(1) by (cases i) simp_all
  moreover have "\<exists>ev'. io_rounds i (server_run os acc) (rp, Some ev) = Some (Inr (?rps i, Some ev')) \<and> whole_queue ev' [Poll_Tick ms]"
    if "i \<le> Suc n" for i
    using that r(4) st Suc.prems(2) by (cases i) simp_all
  moreover have "?rps 0 = rp" by simp
  ultimately show ?case by blast
qed

text \<open>The first round after both starts: a tick that only waits, then the registration.\<close>

lemma first_round:
  assumes l: "listening os acc v f" "0 < f" and i: "idle_server v rp" "ac_onAccept (sv_acceptor rp)" "s_fd (ac_sock (sv_acceptor rp)) = f"
    "\<not> rp_shutdown rp" and q: "whole_queue ev [Poll_Tick ms, Accept_Task (Accept_On f EPOLLIN)]"
  shows "\<exists>rp' ev'. (\<forall>m. io_rounds (Suc m) (server_run os acc) (rp, Some ev) = io_rounds m (server_run os acc) (rp', Some ev'))
     \<and> serving v f rp' \<and> whole_queue ev' [Poll_Tick ms]"
proof -
  obtain rp1 where w: "RePoller_work os (acceptor_call acc) ms rp = Some (Inr rp1)" "idle_server v rp1" "sv_acceptor rp1 = sv_acceptor rp"
    "rp_shutdown rp1 = rp_shutdown rp" by (rule idle_tick[OF l(1) i(1)])
  obtain ev1 where e1: "whole_queue ev1 []" "\<And>m. io_rounds (Suc m) (server_run os acc) (rp, Some ev) =
     (case run_batch (server_run os acc) (map Some [Poll_Tick ms, Accept_Task (Accept_On f EPOLLIN)]) (rp, Some ev1) of
        Some (Inr st') \<Rightarrow> io_rounds m (server_run os acc) st' | r \<Rightarrow> r)"
    using round_runs[OF q, of "server_run os acc" rp] by blast
  obtain ev2 where e2: "server_run os acc (Poll_Tick ms) (rp, Some ev1) = Some (Inr (rp1, Some ev2))" "whole_queue ev2 [Poll_Tick ms]"
    using tick_runs[OF w(1) _ e1(1)] w(4) i(4) by auto
  have "ac_onAccept (sv_acceptor rp1)" "s_fd (ac_sock (sv_acceptor rp1)) = f" "\<not> rp_shutdown rp1" using i w by simp_all
  then obtain rp2 where r: "acceptor_register os (Accept_On f EPOLLIN) rp1 = Inr rp2" "serving v f rp2"
    using register_serving[OF l w(2)] by blast
  have "io_rounds (Suc m) (server_run os acc) (rp, Some ev) = io_rounds m (server_run os acc) (rp2, Some ev2)" for m
    using e1(2)[of m] e2(1) r(1) by (simp add: server_run_def)
  then show ?thesis using r(2) e2(2) by blast
qed

section \<open>Properties\<close>

text \<open>
  Property C14. Every connection becomes one stream. An acceptor with a callback cannot be started before its poller. After the poller was started on a
  running distributor and the acceptor on a listening socket, both in the queue of the same IO worker, the worker can run any number of rounds, and connections arrive whenever they do:
  no round faults; the connections handed to the callback, followed by those that still wait, are exactly those that arrived, in the
  order of their arrival; and as soon as as many rounds have passed without an arrival as connections were waiting, all
  have been handed over.
\<close>

theorem Acceptor_hands_over_all:
  assumes "listening os acc v f" and "0 < f" and "s_fd ls = f" and "idle_server v rp" and "ac_onAccept (sv_acceptor rp)" and "io_queue ev []"
  shows "fst (server_accept_start ls (rp, None)) = False
     \<and> (\<exists>rp1 wev1 closed wev rps.
          server_poll_start ms (Some ev) (rp, None) = Inr (True, rp1, wev1)
        \<and> server_accept_start ls (rp1, wev1) = (True, closed, rps 0, wev)
        \<and> (\<forall>i \<le> n. \<exists>ev'. io_rounds (Suc i) (server_run os acc) (rps 0, wev) = Some (Inr (rps (Suc i), Some ev')) \<and> io_queue ev' [Poll_Tick ms])
        \<and> (\<forall>i \<le> Suc n. sv_fault (rps i) = None \<and> accepted (rps i) @ backlog v (rp_kernel (rps i)) = arrived v (rp_kernel (rps i)))
        \<and> (\<forall>m d. 0 < m \<and> m + d \<le> Suc n \<and> length (backlog v (rp_kernel (rps m))) \<le> d
              \<and> (\<forall>i \<le> d. arrived v (rp_kernel (rps (m + i))) = arrived v (rp_kernel (rps m)))
            \<longrightarrow> accepted (rps (m + d)) = arrived v (rp_kernel (rps (m + d)))))"
proof -
  let ?rp1 = "rp\<lparr>rp_shutdown := False\<rparr>"
  let ?rp2 = "?rp1\<lparr>sv_acceptor := (sv_acceptor rp)\<lparr>ac_sock := \<lparr>s_fd = f\<rparr>\<rparr>\<rparr>"
  obtain ev1 where e1: "add_io (Poll_Tick ms) ev = (True, Some ev1)" "whole_queue ev1 [Poll_Tick ms]"
    using whole_queue_add[OF io_queue_empty_whole[OF assms(6)], of "Poll_Tick ms"] by auto
  obtain ev2 where e2: "add_io (Accept_Task (Accept_On f EPOLLIN)) ev1 = (True, Some ev2)"
    "whole_queue ev2 [Poll_Tick ms, Accept_Task (Accept_On f EPOLLIN)]"
    using whole_queue_add[OF e1(2), of "Accept_Task (Accept_On f EPOLLIN)"] by auto
  have refuse: "fst (server_accept_start ls (rp, None)) = False" by (simp add: server_accept_start_def Let_def split: prod.splits)
  have poll: "server_poll_start ms (Some ev) (rp, None) = Inr (True, ?rp1, Some ev1)"
    using e1(1) by (simp add: server_poll_start_def server_workNextTick_def)
  have acc: "server_accept_start ls (?rp1, Some ev1) = (True, Socket_dtor (ac_sock (sv_acceptor rp)), ?rp2, Some ev2)"
    using e2(1) assms(3) by (simp add: server_accept_start_def Socket_move_assign_def Socket_handle_def Let_def)
  have i: "idle_server v ?rp2" "ac_onAccept (sv_acceptor ?rp2)" "s_fd (ac_sock (sv_acceptor ?rp2)) = f" "\<not> rp_shutdown ?rp2"
    using assms(4,5) by (simp_all add: idle_server_def)
  obtain rp3 ev3 where f: "\<forall>m. io_rounds (Suc m) (server_run os acc) (?rp2, Some ev2) = io_rounds m (server_run os acc) (rp3, Some ev3)"
    "serving v f rp3" "whole_queue ev3 [Poll_Tick ms]"
    using first_round[OF assms(1,2) i e2(2)] by blast
  obtain rps where r: "rps 0 = rp3" "\<forall>i \<le> n. serving v f (rps i)"
    "\<forall>i < n. RePoller_work os (acceptor_call acc) ms (rps i) = Some (Inr (rps (Suc i)))"
    "\<forall>i \<le> n. \<exists>ev'. io_rounds i (server_run os acc) (rp3, Some ev3) = Some (Inr (rps i, Some ev')) \<and> whole_queue ev' [Poll_Tick ms]"
    using polling_rounds[OF assms(1) f(2,3)] by blast
  let ?rps = "case_nat ?rp2 rps"
  have rounds: "\<exists>ev'. io_rounds (Suc i) (server_run os acc) (?rp2, Some ev2) = Some (Inr (?rps (Suc i), Some ev')) \<and> io_queue ev' [Poll_Tick ms]"
    if "i \<le> n" for i
    using r(4)[rule_format, OF that] f(1) by (auto simp: whole_queue_def)
  have inv: "sv_fault (?rps i) = None \<and> accepted (?rps i) @ backlog v (rp_kernel (?rps i)) = arrived v (rp_kernel (?rps i))" if "i \<le> Suc n" for i
    using that r(2) i(1) by (cases i) (simp_all add: serving_def idle_server_def accepted_def map_filter_simps)
  have drained: "accepted (?rps (m + d)) = arrived v (rp_kernel (?rps (m + d)))"
    if m: "0 < m" "m + d \<le> Suc n" "length (backlog v (rp_kernel (?rps m))) \<le> d"
      "\<forall>i \<le> d. arrived v (rp_kernel (?rps (m + i))) = arrived v (rp_kernel (?rps m))" for m d
  proof -
    obtain j where j: "m = Suc j" using m(1) gr0_conv_Suc by blast
    have "backlog v (rp_kernel (rps (j + d))) = drop d (backlog v (rp_kernel (rps j)))"
      by (rule serving_rounds[OF assms(1), of j d rps ms]) (use m j r(2,3) in auto)
    then show ?thesis using inv[of "m + d"] m(2,3) j by simp
  qed
  show ?thesis using refuse poll acc rounds inv drained
    by (intro conjI exI[of _ ?rp1] exI[of _ "Some ev1"] exI[of _ "Socket_dtor (ac_sock (sv_acceptor rp))"] exI[of _ "Some ev2"] exI[of _ ?rps]) auto
qed

text \<open>A kernel with two connections waiting from the start; its state is the number of connections taken and the interest list.\<close>

definition two_waiting :: "(nat \<times> fd set) epoll_os" where
  "two_waiting = \<lparr>epoll_ctl = (\<lambda>_ _ f _ k. (0, (fst k, insert f (snd k)))),
     epoll_wait = (\<lambda>_ _ _ k. (Wait_Ready (if 5 \<notin> snd k \<or> drop (fst k) [7, 8 :: fd] = [] then [] else [(5, EPOLLIN)]), k))\<rparr>"

definition take_waiting :: "fd \<Rightarrow> nat \<times> fd set \<Rightarrow> fd \<times> (nat \<times> fd set)" where
  "take_waiting f k = (hd (drop (fst k) [7, 8]), (fst k + 1, snd k))"

definition two_view :: "(nat \<times> fd set) kernel_view" where
  "two_view = \<lparr>backlog = (\<lambda>k. drop (fst k) [7, 8]), arrived = (\<lambda>_. [7, 8]), watched = snd\<rparr>"

definition demo_acceptor_server :: "(nat \<times> fd set) server" where
  "demo_acceptor_server = \<lparr>rp_shutdown = False, rp_objects = RBT.empty, rp_callbacks = RBT.empty, rp_customEvents = RBT.empty,
     rp_ep = \<lparr>m_efd = 3\<rparr>, rp_kernel = (0, {}), sv_acceptor = Acceptor_setOnAccept True Acceptor_ctor, sv_log = [], sv_fault = None\<rparr>"

lemma two_waiting_listens: "listening two_waiting take_waiting two_view 5"
proof -
  have "drop (Suc i) [7, 8 :: fd] = cs \<and> hd (drop i [7, 8]) = c" if "drop i [7, 8] = c # cs" for i c cs
    using that by (metis drop_Suc list.sel(1) list.sel(3) tl_drop)
  then show ?thesis by (auto simp: listening_def two_waiting_def take_waiting_def two_view_def intro!: exI[of _ "[]"])
qed

theorem Acceptor_hands_over_all_witness:
  "\<exists>rp1 wev1 closed wev rps.
       server_poll_start 10 (Some (snd (TaskDistributor_start Suc (TaskDistributor_ctor 2)))) (demo_acceptor_server, None) = Inr (True, rp1, wev1)
     \<and> server_accept_start \<lparr>s_fd = 5\<rparr> (rp1, wev1) = (True, closed, rps 0, wev)
     \<and> (\<exists>ev'. io_rounds 3 (server_run two_waiting take_waiting) (rps 0, wev) = Some (Inr (rps (3 :: nat), Some ev')))
     \<and> accepted (rps 3) = [7, 8]"
proof -
  let ?ev = "snd (TaskDistributor_start Suc (TaskDistributor_ctor 2)) :: server_task TaskDistributor"
  have q: "io_queue ?ev []" by (auto simp: io_queue_def TaskDistributor_inv_def loop_defs queue_defs)
  have i: "idle_server two_view demo_acceptor_server" "ac_onAccept (sv_acceptor demo_acceptor_server)"
    by (simp_all add: idle_server_def two_view_def demo_acceptor_server_def Acceptor_setOnAccept_def)
  have f: "0 < (5 :: fd)" "s_fd \<lparr>s_fd = 5\<rparr> = 5" by simp_all
  have z: "length (backlog two_view k) \<le> 2" "arrived two_view k = [7, 8]" for k by (simp_all add: two_view_def)
  note h = conjunct2[OF Acceptor_hands_over_all[OF two_waiting_listens f i q, where ms = 10 and n = 2]]
  obtain rp1 wev1 closed wev rps where
    r: "server_poll_start 10 (Some ?ev) (demo_acceptor_server, None) = Inr (True, rp1, wev1)"
    "server_accept_start \<lparr>s_fd = 5\<rparr> (rp1, wev1) = (True, closed, rps 0, wev)"
    and n: "\<forall>i \<le> 2. \<exists>ev'. io_rounds (Suc i) (server_run two_waiting take_waiting) (rps 0, wev)
        = Some (Inr (rps (Suc i), Some ev')) \<and> io_queue ev' [Poll_Tick 10]"
    and p: "\<forall>m d. 0 < m \<and> m + d \<le> Suc 2 \<and> length (backlog two_view (rp_kernel (rps m))) \<le> d
           \<and> (\<forall>i \<le> d. arrived two_view (rp_kernel (rps (m + i))) = arrived two_view (rp_kernel (rps m)))
         \<longrightarrow> accepted (rps (m + d)) = arrived two_view (rp_kernel (rps (m + d)))"
    by (rule exE[OF h]) (elim exE conjE, rule that; assumption)
  have "accepted (rps (1 + 2)) = [7, 8]" using p[rule_format, of 1 2] z by simp
  then have "accepted (rps 3) = [7, 8]" by (simp add: eval_nat_numeral)
  moreover have "\<exists>ev'. io_rounds 3 (server_run two_waiting take_waiting) (rps 0, wev) = Some (Inr (rps (3 :: nat), Some ev'))"
    using n[rule_format, of 2] by (auto simp: eval_nat_numeral simp del: io_rounds.simps)
  ultimately show ?thesis using r by blast
qed

end
