(* ===== verification/Echo_Server.thy ===== *)
theory Echo_Server
  imports Accept_Loop
begin

text \<open>
  The echo server of \<open>example/example_epoll_tcpserver.cpp\<close> (\<open>testTcpServer\<close>) on the library's own parts: the acceptor, one
  \<open>SockStream\<close> for every client, the poller with its callback and object tables, and the IO worker of the task distributor that runs
  all of their closures. The steps of the worker interleave freely with the clients. The kernel is modelled by the
  sockets and the interest list it keeps; what it leaves open (which ready descriptors one \<open>epoll_wait\<close> reports, how \<open>recv\<close> cuts the bytes, which
  descriptor \<open>accept\<close> hands out) is left open here. Clients connect, send and shut down their sending side, and they
  keep reading: \<open>send\<close> on the blocking sockets takes every message whole.
\<close>

unbundle bit_operations_syntax

section \<open>The kernel\<close>

text \<open>
  A connection: the bytes that have come in, those of them not yet read, whether the client has shut down, and what was sent to
  it. Connections are numbered in the order of their arrival, the first \<open>n_accepted\<close> have been accepted.
\<close>

record conn =
  cn_came :: bytes
  cn_unread :: bytes
  cn_eof :: bool
  cn_out :: bytes

record net =
  n_conns :: "conn list"
  n_accepted :: nat
  n_fds :: "fd \<rightharpoonup> nat"
  n_listen :: fd
  n_watched :: "fd set"

definition net_open :: "net \<Rightarrow> fd \<Rightarrow> bool" where
  "net_open k f \<longleftrightarrow> f = n_listen k \<or> n_fds k f \<noteq> None"

definition net_pending :: "conn \<Rightarrow> bool" where
  "net_pending c \<longleftrightarrow> cn_unread c \<noteq> [] \<or> cn_eof c"

definition net_ready :: "net \<Rightarrow> fd \<Rightarrow> bool" where
  "net_ready k f \<longleftrightarrow> f \<in> n_watched k
     \<and> (if f = n_listen k then n_accepted k < length (n_conns k)
        else case n_fds k f of None \<Rightarrow> False | Some a \<Rightarrow> net_pending (n_conns k ! a))"

text \<open>What \<open>epoll_wait\<close> may report, at most 300 descriptors: some of the ready ones, none only if no descriptor is ready.\<close>

definition net_reports :: "net \<Rightarrow> epoll_event list \<Rightarrow> bool" where
  "net_reports k es \<longleftrightarrow> length es \<le> 300 \<and> distinct (map fst es)
     \<and> (\<forall>x \<in> set es. net_ready k (fst x) \<and> snd x AND EPOLLIN \<noteq> 0) \<and> (es = [] \<longrightarrow> (\<forall>f. \<not> net_ready k f))"

definition net_os :: "epoll_event list \<Rightarrow> net epoll_os" where
  "net_os es =
     \<lparr>epoll_ctl = (\<lambda>_ op f _ k.
        case op of
          ADD \<Rightarrow> if net_open k f \<and> f \<notin> n_watched k then (0, k\<lparr>n_watched := insert f (n_watched k)\<rparr>) else (-1, k)
        | MOD \<Rightarrow> (if f \<in> n_watched k then 0 else -1, k)
        | DEL \<Rightarrow> if f \<in> n_watched k then (0, k\<lparr>n_watched := n_watched k - {f}\<rparr>) else (-1, k)),
      epoll_wait = (\<lambda>_ _ _ k. (Wait_Ready es, k))\<rparr>"

definition net_accept :: "fd \<Rightarrow> net \<Rightarrow> fd \<times> net" where
  "net_accept cli k =
     (if n_accepted k < length (n_conns k)
      then (cli, k\<lparr>n_accepted := Suc (n_accepted k), n_fds := (n_fds k)(cli \<mapsto> n_accepted k)\<rparr>) else (-1, k))"

definition upd_conn :: "nat \<Rightarrow> (conn \<Rightarrow> conn) \<Rightarrow> net \<Rightarrow> net" where
  "upd_conn a f k = k\<lparr>n_conns := (n_conns k)[a := f (n_conns k ! a)]\<rparr>"

text \<open>The answers to the reads of \<open>tryRead\<close>, the unread bytes cut into chunks by \<open>chop\<close>.\<close>

definition net_recv :: "(bytes \<Rightarrow> bytes list) \<Rightarrow> fd \<Rightarrow> net \<Rightarrow> recv_result list \<times> net" where
  "net_recv chop f k =
     (case n_fds k f of
        None \<Rightarrow> ([Recv_Error], k)
      | Some a \<Rightarrow> (map Got (chop (cn_unread (n_conns k ! a))) @ [if cn_eof (n_conns k ! a) then End_Of_Stream else Would_Block],
                   upd_conn a (\<lambda>c. c\<lparr>cn_unread := []\<rparr>) k))"

definition chops :: "(bytes \<Rightarrow> bytes list) \<Rightarrow> bool" where
  "chops chop \<longleftrightarrow> (\<forall>bs. concat (chop bs) = bs \<and> list_all (\<lambda>c. c \<noteq> [] \<and> length c \<le> 128) (chop bs))"

section \<open>The server\<close>

text \<open>
  Callbacks in the poller's table: the acceptor's, and that of a stream, with the descriptor and the weak pointer it captured. A
  stream is named by its number; its record holds the \<open>SockStream\<close> and the descriptor captured by its \<open>onClose\<close>.
  Closures in the queue hold the stream they belong to.
\<close>

datatype echo_cb = Listening | Link_Ready fd nat

datatype echo_task = Poller "(nat, unit) rp_task" | Stream nat stream_task | Accepting stream_task

record echo_link =
  l_stream :: SockStream
  l_fd :: fd

record echo = "(echo_cb, nat, net) RePoller" +
  e_acceptor :: Acceptor
  e_td :: "echo_task TaskDistributor"
  e_batch :: "echo_task option list"
  e_links :: "nat \<rightharpoonup> echo_link"
  e_next :: nat
  e_exit :: bool
  e_fault :: "fault option"

definition echo_submit :: "echo_task \<Rightarrow> echo \<Rightarrow> bool \<times> echo" where
  "echo_submit t s = (let (b, ev) = add_io t (e_td s) in (b, s\<lparr>e_td := the ev\<rparr>))"

text \<open>\<open>asend\<close> of the stream \<open>a\<close>.\<close>

definition link_asend :: "nat \<Rightarrow> bytes \<Rightarrow> echo \<Rightarrow> bool \<times> echo" where
  "link_asend a msg s =
     (case e_links s a of
        None \<Rightarrow> (False, s)
      | Some l \<Rightarrow> if \<not> Socket_valid (ss_sock (l_stream l)) then (False, s) else echo_submit (Stream a (Send_Msg msg)) s)"

text \<open>The callbacks the server sets on a stream. \<open>onWrite\<close> only prints.\<close>

definition echo_onClose :: "fd \<Rightarrow> echo \<Rightarrow> echo" where
  "echo_onClose f s = snd (echo_submit (Poller (Find_Object f True (Some ()))) s)"

definition echo_onRead :: "nat \<Rightarrow> bytes \<Rightarrow> echo \<Rightarrow> echo" where
  "echo_onRead wlink dat s = (if e_links s wlink = None then s else snd (link_asend wlink dat s))"

definition echo_onAccept :: "fd option \<Rightarrow> echo \<Rightarrow> echo" where
  "echo_onAccept cli s =
     (case cli of
        None \<Rightarrow> s\<lparr>e_exit := True\<rparr>
      | Some c \<Rightarrow>
          let stream = fst (SockStream_ctor (Socket_ctor_fd c));
              f = Socket_handle (ss_sock stream);
              stream1 = SockStream_setOnRead True (SockStream_setOnWrite True (SockStream_setOnClose True stream));
              a = e_next s;
              s1 = s\<lparr>e_links := (e_links s)(a \<mapsto> \<lparr>l_stream = stream1, l_fd = f\<rparr>), e_next := Suc a\<rparr>;
              (listens, s2) = echo_submit (Stream a (Listen_Read (Socket_handle (ss_sock stream1)))) s1
          in if \<not> listens then s2\<lparr>e_fault := Some (Thrown ''assert(bret)'')\<rparr>
             else let (saves, s3) = echo_submit (Poller (Save_Object f True a ())) s2
                  in if \<not> saves then s3\<lparr>e_fault := Some (Thrown ''assert(bret)'')\<rparr> else s3)"

text \<open>\<open>send\<close> and \<open>close\<close> of a descriptor that is not open are faults of the server.\<close>

definition echo_send :: "fd \<Rightarrow> bytes \<Rightarrow> echo \<Rightarrow> echo" where
  "echo_send f msg s =
     (case n_fds (rp_kernel s) f of
        None \<Rightarrow> s\<lparr>e_fault := Some (Thrown ''EBADF'')\<rparr>
      | Some a \<Rightarrow> s\<lparr>rp_kernel := upd_conn a (\<lambda>c. c\<lparr>cn_out := cn_out c @ msg\<rparr>) (rp_kernel s)\<rparr>)"

definition echo_close :: "fd \<Rightarrow> echo \<Rightarrow> echo" where
  "echo_close f s =
     (case n_fds (rp_kernel s) f of
        None \<Rightarrow> s\<lparr>e_fault := Some (Thrown ''EBADF'')\<rparr>
      | Some _ \<Rightarrow> s\<lparr>rp_kernel := (rp_kernel s)\<lparr>n_fds := (n_fds (rp_kernel s))(f := None), n_watched := n_watched (rp_kernel s) - {f}\<rparr>\<rparr>)"

text \<open>What the closures and callbacks of the library do to the outside, for the stream \<open>a\<close> and for the acceptor.\<close>

fun echo_effect :: "net epoll_os \<Rightarrow> nat \<Rightarrow> echo_link \<Rightarrow> net_effect \<Rightarrow> echo \<Rightarrow> echo" where
  "echo_effect os a l (Append_FD f events) s = snd (RePoller_append os f events s)"
| "echo_effect os a l (Set_Callback f) s = snd (RePoller_setReadyCallback f (Some (Link_Ready f a)) s)"
| "echo_effect os a l (Cancle_FD f) s = snd (RePoller_cancle os f s)"
| "echo_effect os a l (Send_FD f msg) s = echo_send f msg s"
| "echo_effect os a l (Close_FD f) s = echo_close f s"
| "echo_effect os a l On_Close s = echo_onClose (l_fd l) s"
| "echo_effect os a l (On_Read n dat) s = echo_onRead a dat s"
| "echo_effect os a l _ s = s"

fun accept_effect :: "net_effect \<Rightarrow> echo \<Rightarrow> echo" where
  "accept_effect (On_Accept c) s = echo_onAccept c s"
| "accept_effect _ s = s"

text \<open>A callback of the table: the acceptor's, or that of a stream if its weak pointer still locks.\<close>

definition echo_call ::
  "net epoll_os \<Rightarrow> (bytes \<Rightarrow> bytes list) \<Rightarrow> fd \<Rightarrow> echo_cb \<Rightarrow> u32 \<Rightarrow> echo \<Rightarrow> echo" where
  "echo_call os chop cli cb events s =
     (case cb of
        Listening \<Rightarrow>
          let (c, k) = (if events AND EPOLLIN = 0 then (-1, rp_kernel s) else net_accept cli (rp_kernel s))
          in (case Acceptor_on_event events c (e_acceptor s) of
                Inl e \<Rightarrow> s\<lparr>e_fault := Some e\<rparr>
              | Inr eff \<Rightarrow> fold accept_effect eff (s\<lparr>rp_kernel := k\<rparr>))
      | Link_Ready f a \<Rightarrow>
          (case e_links s a of
             None \<Rightarrow> s
           | Some l \<Rightarrow>
               let (rs, k) = (if events AND EPOLLIN = 0 then ([], rp_kernel s)
                              else net_recv chop (Socket_handle (ss_sock (l_stream l))) (rp_kernel s))
               in (case SockStream_on_event f events rs True (l_stream l) of
                     None \<Rightarrow> s\<lparr>e_fault := Some (Thrown ''recv'')\<rparr>
                   | Some eff \<Rightarrow> fold (echo_effect os a l) eff (s\<lparr>rp_kernel := k\<rparr>))))"

text \<open>The closures on the worker. The callbacks given to \<open>saveObject\<close> and \<open>findObject\<close> only print.\<close>

definition echo_cbo :: "unit \<Rightarrow> bool \<Rightarrow> nat option \<Rightarrow> echo \<Rightarrow> nat \<times> echo" where
  "echo_cbo b ret obj s = ((case obj of Some x \<Rightarrow> x | None \<Rightarrow> 0), s)"

definition echo_poller :: "net epoll_os \<Rightarrow> (bytes \<Rightarrow> bytes list) \<Rightarrow> fd \<Rightarrow> (nat, unit) rp_task \<Rightarrow> echo \<Rightarrow> echo option" where
  "echo_poller os chop cli t s =
     (case t of
        Tick ms \<Rightarrow>
          (case RePoller_work os (echo_call os chop cli) ms s of
             None \<Rightarrow> None
           | Some (Inl e) \<Rightarrow> Some (s\<lparr>e_fault := Some e\<rparr>)
           | Some (Inr s') \<Rightarrow> Some (if rp_shutdown s' then s' else snd (echo_submit (Poller (Tick ms)) s')))
      | Save_Object oid force obj cb \<Rightarrow> Some (run_save echo_cbo oid force obj cb s)
      | Find_Object oid tk cb \<Rightarrow> Some (run_find echo_cbo oid tk cb s))"

definition echo_stream :: "net epoll_os \<Rightarrow> nat \<Rightarrow> stream_task \<Rightarrow> echo \<Rightarrow> echo" where
  "echo_stream os a t s =
     (case e_links s a of
        None \<Rightarrow> s\<lparr>e_fault := Some Null_Deref\<rparr>
      | Some l \<Rightarrow>
          let ret = (case t of Send_Msg msg \<Rightarrow> int (length msg) | _ \<Rightarrow> 0);
              (eff, stream) = SockStream_run ret (Some 2) True t (l_stream l)
          in fold (echo_effect os a l) eff (s\<lparr>e_links := (e_links s)(a \<mapsto> l\<lparr>l_stream := stream\<rparr>)\<rparr>))"

definition echo_accepting :: "net epoll_os \<Rightarrow> stream_task \<Rightarrow> echo \<Rightarrow> echo" where
  "echo_accepting os t s =
     (case t of
        Accept_On f events \<Rightarrow>
          let (_, s1) = RePoller_setReadyCallback f (Some Listening) s;
              (appended, s2) = RePoller_append os f events s1
          in (case Acceptor_run appended True t (e_acceptor s) of Inl e \<Rightarrow> s2\<lparr>e_fault := Some e\<rparr> | Inr _ \<Rightarrow> s2)
      | _ \<Rightarrow> s)"

definition echo_run :: "net epoll_os \<Rightarrow> (bytes \<Rightarrow> bytes list) \<Rightarrow> fd \<Rightarrow> echo_task \<Rightarrow> echo \<Rightarrow> echo option" where
  "echo_run os chop cli t s =
     (case t of
        Poller p \<Rightarrow> echo_poller os chop cli p s
      | Stream a st \<Rightarrow> Some (echo_stream os a st s)
      | Accepting st \<Rightarrow> Some (echo_accepting os st s))"

text \<open>The destructor of a stream, called when the last strong reference to it goes: an object of the table or a closure holds it.\<close>

definition echo_release :: "nat \<Rightarrow> echo_link \<Rightarrow> echo \<Rightarrow> echo" where
  "echo_release a l s = fold (echo_effect (net_os []) a l) (SockStream_dtor (l_stream l)) (s\<lparr>e_links := (e_links s)(a := None)\<rparr>)"

fun holds :: "nat \<Rightarrow> echo_task \<Rightarrow> bool" where
  "holds a (Stream b t) \<longleftrightarrow> b = a"
| "holds a (Poller (Save_Object oid force obj cb)) \<longleftrightarrow> obj = a"
| "holds a _ \<longleftrightarrow> False"

definition echo_tasks :: "echo \<Rightarrow> echo_task list" where
  "echo_tasks s = map the (e_batch s @ MutexQue_contents (td_bqueForTask (e_td s) ! 0))"

definition referenced :: "echo \<Rightarrow> nat \<Rightarrow> bool" where
  "referenced s a \<longleftrightarrow> a \<in> ran (RBT.lookup (rp_objects s)) \<or> list_ex (holds a) (echo_tasks s)"


text \<open>The poller and the acceptor as they are made, with \<open>onAccept\<close> set; \<open>efd\<close> is the descriptor of epoll.\<close>

definition echo_init :: "fd \<Rightarrow> echo_task TaskDistributor \<Rightarrow> net \<Rightarrow> echo" where
  "echo_init efd td k = RePoller.extend (RePoller_ctor efd k) (echo.fields (Acceptor_setOnAccept True Acceptor_ctor) td [] Map.empty 0 False None)"

text \<open>\<open>start\<close> of the poller, then \<open>start\<close> of the acceptor on the listening socket \<open>f\<close>.\<close>

definition echo_start :: "fd \<Rightarrow> echo \<Rightarrow> echo outcome" where
  "echo_start f s =
     (let (polling, s1) = echo_submit (Poller (Tick 2)) s
      in if \<not> polling then Inl (Thrown ''assert(bret)'')
         else let sock = fst (snd (Socket_move_assign (ac_sock (e_acceptor s1)) \<lparr>s_fd = f\<rparr>));
                  s2 = s1\<lparr>rp_shutdown := False, e_acceptor := (e_acceptor s1)\<lparr>ac_sock := sock\<rparr>\<rparr>;
                  (accepting, s3) = echo_submit (Accepting (Accept_On (Socket_handle sock) EPOLLIN)) s2
              in if \<not> accepting then Inl (Thrown ''assert(bret)'') else Inr s3)"

text \<open>
  \<open>testTcpServer\<close> up to its waiting loop: \<open>ids\<close> are the threads of the distributor, and the three answers are those of \<open>setsockopt\<close>, \<open>bind\<close>
  and \<open>listen\<close> for the socket \<open>f\<close>.
\<close>

definition testTcpServer :: "(nat \<Rightarrow> thread_id) \<Rightarrow> int \<Rightarrow> int \<Rightarrow> int \<Rightarrow> fd \<Rightarrow> fd \<Rightarrow> net \<Rightarrow> echo outcome" where
  "testTcpServer ids opt_ret bind_ret listen_ret efd f k =
     (let (started, td) = TaskDistributor_start ids (TaskDistributor_ctor 4)
      in if \<not> started then Inl (Thrown ''assert(bret)'')
         else if opt_ret \<noteq> 0 \<or> bind_ret \<noteq> 0 \<or> listen_ret \<noteq> 0 then Inl (Thrown ''assert(ret == 0)'')
         else echo_start f (echo_init efd td k))"

text \<open>
  The steps. The worker takes a batch when it has run the last one and calls its closures one by one; the last reference to a
  stream may go at any time after it is no longer needed, since the closures of a batch are destroyed with it.
\<close>

inductive serve_step :: "echo \<Rightarrow> echo \<Rightarrow> bool" where
  fetch: "\<not> td_exit (e_td s) \<Longrightarrow> e_batch s = [] \<Longrightarrow> work_take 0 (e_td s) = (b, d) \<Longrightarrow>
     serve_step s (s\<lparr>e_td := d, e_batch := b\<rparr>)"
| call: "e_batch s = Some t # ts \<Longrightarrow> net_reports (rp_kernel s) es \<Longrightarrow> chops chop \<Longrightarrow> 0 < cli \<Longrightarrow> \<not> net_open (rp_kernel s) cli \<Longrightarrow>
     echo_run (net_os es) chop cli t (s\<lparr>e_batch := ts\<rparr>) = Some s' \<Longrightarrow> serve_step s s'"
| release: "e_links s a = Some l \<Longrightarrow> \<not> referenced s a \<Longrightarrow> serve_step s (echo_release a l s)"

inductive client_step :: "net \<Rightarrow> net \<Rightarrow> bool" where
  connects: "client_step k (k\<lparr>n_conns := n_conns k @ [\<lparr>cn_came = [], cn_unread = [], cn_eof = False, cn_out = []\<rparr>]\<rparr>)"
| sends: "a < length (n_conns k) \<Longrightarrow> \<not> cn_eof (n_conns k ! a) \<Longrightarrow>
     client_step k (upd_conn a (\<lambda>c. c\<lparr>cn_came := cn_came c @ bs, cn_unread := cn_unread c @ bs\<rparr>) k)"
| shuts: "a < length (n_conns k) \<Longrightarrow> client_step k (upd_conn a (\<lambda>c. c\<lparr>cn_eof := True\<rparr>) k)"

inductive echo_reachable :: "echo \<Rightarrow> echo \<Rightarrow> bool" for s where
  start: "echo_reachable s s"
| worker: "echo_reachable s t \<Longrightarrow> serve_step t t' \<Longrightarrow> echo_reachable s t'"
| client: "echo_reachable s t \<Longrightarrow> client_step (rp_kernel t) k \<Longrightarrow> echo_reachable s (t\<lparr>rp_kernel := k\<rparr>)"

end
