(* ===== verification/Echo_Invariant.thy ===== *)
theory Echo_Invariant
  imports Echo_Server
begin

text \<open>
  What holds in every state of the echo server (\<open>Echo_Server\<close>): the life of a stream as the tasks, table entries and descriptors that
  belong to it, and the bytes of its client. Every closure of the worker, every callback, the destructor of a stream
  and every step of a client keeps it.
\<close>

unbundle bit_operations_syntax

section \<open>The invariant\<close>

text \<open>
  The tasks that wait, as one list: the rest of the batch, then the queue. A task concerns a stream when it holds it, or is to take it
  out of the objects under its descriptor.
\<close>

definition waiting :: "echo \<Rightarrow> echo_task list \<Rightarrow> bool" where
  "waiting s q \<longleftrightarrow> tasks_wait (e_batch s) (e_td s) q"

fun concerns :: "nat \<Rightarrow> fd \<Rightarrow> echo_task \<Rightarrow> bool" where
  "concerns a f (Stream b t) \<longleftrightarrow> b = a"
| "concerns a f (Poller (Save_Object oid force obj cb)) \<longleftrightarrow> obj = a"
| "concerns a f (Poller (Find_Object oid tk cb)) \<longleftrightarrow> oid = f"
| "concerns a f _ \<longleftrightarrow> False"

abbreviation tick :: echo_task where "tick \<equiv> Poller (Tick 2)"
abbreviation save_task :: "fd \<Rightarrow> nat \<Rightarrow> echo_task" where "save_task f a \<equiv> Poller (Save_Object f True a ())"
abbreviation take_task :: "fd \<Rightarrow> echo_task" where "take_task f \<equiv> Poller (Find_Object f True (Some ()))"
abbreviation send_tasks :: "nat \<Rightarrow> bytes list \<Rightarrow> echo_task list" where "send_tasks a ms \<equiv> map (\<lambda>m. Stream a (Send_Msg m)) ms"

text \<open>
  The life of a stream \<open>a\<close> with descriptor \<open>f\<close>, by the tasks \<open>w\<close> that concern it, its entries \<open>cb\<close> and \<open>ob\<close> in the poller's tables and whether
  the descriptor is watched: accepted; registered, with the object saved or about to be; closed, to be taken out; forgotten.
\<close>

definition link_stage :: "fd \<Rightarrow> nat \<Rightarrow> echo_task list \<Rightarrow> echo_cb option \<Rightarrow> nat option \<Rightarrow> bool \<Rightarrow> bool" where
  "link_stage f a w cb ob wt \<longleftrightarrow>
     w = [Stream a (Listen_Read f), save_task f a] \<and> cb = None \<and> ob = None \<and> \<not> wt
   \<or> (\<exists>pre ms. (pre = [] \<and> ob = Some a \<or> pre = [save_task f a] \<and> ob = None)
        \<and> (w = pre @ send_tasks a ms \<and> cb = Some (Link_Ready f a) \<and> wt
         \<or> w = pre @ send_tasks a ms @ [take_task f] \<and> cb = None \<and> \<not> wt))
   \<or> w = [] \<and> cb = None \<and> ob = None \<and> \<not> wt"

definition msgs :: "nat \<Rightarrow> echo_task list \<Rightarrow> bytes" where
  "msgs a q = concat (map (\<lambda>t. case t of Stream b (Send_Msg m) \<Rightarrow> if b = a then m else [] | _ \<Rightarrow> []) q)"

definition attended :: "echo \<Rightarrow> echo_task list \<Rightarrow> nat \<Rightarrow> bool" where
  "attended s q a \<longleftrightarrow> (\<exists>l. e_links s a = Some l \<and> (l_fd l \<in> n_watched (rp_kernel s) \<or> Stream a (Listen_Read (l_fd l)) \<in> set q))"

definition conn_ok :: "conn \<Rightarrow> bytes \<Rightarrow> bool \<Rightarrow> bool" where
  "conn_ok c ms served \<longleftrightarrow>
     (if served then cn_came c = cn_out c @ ms @ cn_unread c else cn_eof c \<and> (\<exists>lost. cn_came c = cn_out c @ ms @ lost))"

definition inv_base :: "fd \<Rightarrow> echo \<Rightarrow> bool" where
  "inv_base lf s \<longleftrightarrow> e_fault s = None \<and> \<not> e_exit s \<and> \<not> rp_shutdown s \<and> rp_customEvents s = RBT.empty
     \<and> ac_onAccept (e_acceptor s) \<and> s_fd (ac_sock (e_acceptor s)) = lf \<and> n_listen (rp_kernel s) = lf \<and> 0 < lf"

definition inv_listen :: "fd \<Rightarrow> echo \<Rightarrow> echo_task list \<Rightarrow> bool" where
  "inv_listen lf s q \<longleftrightarrow>
     (if Accepting (Accept_On lf EPOLLIN) \<in> set q
      then RBT.lookup (rp_callbacks s) lf = None \<and> lf \<notin> n_watched (rp_kernel s)
         \<and> length (filter (\<lambda>t. t = Accepting (Accept_On lf EPOLLIN)) q) = 1
      else RBT.lookup (rp_callbacks s) lf = Some Listening \<and> lf \<in> n_watched (rp_kernel s))"

definition inv_tasks :: "fd \<Rightarrow> echo \<Rightarrow> echo_task list \<Rightarrow> bool" where
  "inv_tasks lf s q \<longleftrightarrow>
     (\<forall>t \<in> set q. t = tick \<or> t = Accepting (Accept_On lf EPOLLIN) \<or> (\<exists>a l. e_links s a = Some l \<and> concerns a (l_fd l) t))"

definition inv_links :: "fd \<Rightarrow> echo \<Rightarrow> bool" where
  "inv_links lf s \<longleftrightarrow>
     (\<forall>a l. e_links s a = Some l \<longrightarrow> a < e_next s \<and> 0 < l_fd l \<and> l_fd l \<noteq> lf \<and> n_fds (rp_kernel s) (l_fd l) = Some a
        \<and> l_stream l = \<lparr>ss_sock = \<lparr>s_fd = l_fd l\<rparr>, ss_onClose = True, ss_onRead = True, ss_onWrite = True\<rparr>)
   \<and> (\<forall>f a. n_fds (rp_kernel s) f = Some a \<longrightarrow> (\<exists>l. e_links s a = Some l \<and> l_fd l = f))
   \<and> finite (dom (n_fds (rp_kernel s)))"

definition inv_tables :: "fd \<Rightarrow> echo \<Rightarrow> bool" where
  "inv_tables lf s \<longleftrightarrow>
     (\<forall>f cb. RBT.lookup (rp_callbacks s) f = Some cb \<longrightarrow>
        cb = Listening \<and> f = lf \<or> (\<exists>a l. cb = Link_Ready f a \<and> e_links s a = Some l \<and> l_fd l = f))
   \<and> (\<forall>f a. RBT.lookup (rp_objects s) f = Some a \<longrightarrow> (\<exists>l. e_links s a = Some l \<and> l_fd l = f))
   \<and> (\<forall>f \<in> n_watched (rp_kernel s). net_open (rp_kernel s) f)"

definition inv_stage :: "echo \<Rightarrow> echo_task list \<Rightarrow> bool" where
  "inv_stage s q \<longleftrightarrow>
     (\<forall>a l. e_links s a = Some l \<longrightarrow>
        link_stage (l_fd l) a (filter (concerns a (l_fd l)) q) (RBT.lookup (rp_callbacks s) (l_fd l))
          (RBT.lookup (rp_objects s) (l_fd l)) (l_fd l \<in> n_watched (rp_kernel s)))"

definition inv_data :: "echo \<Rightarrow> echo_task list \<Rightarrow> bool" where
  "inv_data s q \<longleftrightarrow> n_accepted (rp_kernel s) \<le> length (n_conns (rp_kernel s)) \<and> e_next s = n_accepted (rp_kernel s)
     \<and> (\<forall>a < length (n_conns (rp_kernel s)).
          conn_ok (n_conns (rp_kernel s) ! a) (msgs a q) (n_accepted (rp_kernel s) \<le> a \<or> attended s q a))"

definition echo_inv :: "fd \<Rightarrow> echo \<Rightarrow> echo_task list \<Rightarrow> bool" where
  "echo_inv lf s q \<longleftrightarrow> inv_base lf s \<and> inv_listen lf s q \<and> inv_tasks lf s q \<and> inv_links lf s \<and> inv_tables lf s
     \<and> inv_stage s q \<and> inv_data s q"

definition echo_ok :: "fd \<Rightarrow> echo \<Rightarrow> bool" where
  "echo_ok lf s \<longleftrightarrow> (\<exists>q. waiting s q \<and> echo_inv lf s q \<and> length (filter (\<lambda>t. t = tick) q) = 1)"

lemmas echo_invs = echo_inv_def inv_base_def inv_listen_def inv_tasks_def inv_links_def inv_tables_def inv_stage_def inv_data_def

lemma submit_waiting:
  assumes "waiting s q"
  obtains d where "echo_submit t s = (True, s\<lparr>e_td := d\<rparr>)" and "waiting (s\<lparr>e_td := d\<rparr>) (q @ [t])"
proof -
  obtain d where "add_io t (e_td s) = (True, Some d)" "tasks_wait (e_batch s) d (q @ [t])"
    by (rule tasks_wait_add[OF assms[unfolded waiting_def]])
  then show thesis using that[of d] by (simp add: echo_submit_def waiting_def)
qed

lemma waiting_tasks: "waiting s q \<Longrightarrow> echo_tasks s = q"
  using tasks_wait_list by (simp add: waiting_def echo_tasks_def)

lemma fetch_waiting:
  assumes "waiting s q" and "e_batch s = []" and "work_take 0 (e_td s) = (b, d)"
  shows "waiting (s\<lparr>e_td := d, e_batch := b\<rparr>) q" and "q \<noteq> [] \<Longrightarrow> b \<noteq> []"
  using tasks_wait_fetch[of "e_td s" q b d] assms by (simp_all add: waiting_def)

lemma waiting_call:
  assumes "waiting s q" and "e_batch s = Some t # ts"
  obtains q' where "q = t # q'" and "waiting (s\<lparr>e_batch := ts\<rparr>) q'"
  using assms tasks_wait_call[of t ts "e_td s" q] by (auto simp: waiting_def)

section \<open>The stages of a stream\<close>

lemma stage_listen:
  assumes "link_stage f a (Stream a (Listen_Read g) # w) cb ob wt"
  shows "g = f" and "cb = None" and "ob = None" and "\<not> wt" and "link_stage f a w (Some (Link_Ready f a)) ob True"
  using assms by (auto simp: link_stage_def Cons_eq_append_conv)

lemma stage_save:
  assumes "link_stage f a (Poller (Save_Object g force b u) # w) cb ob wt"
  shows "g = f" and "force" and "b = a" and "ob = None" and "link_stage f a w cb (Some a) wt"
  using assms by (auto simp: link_stage_def Cons_eq_append_conv)

lemma stage_send:
  assumes "link_stage f a (Stream a (Send_Msg m) # w) cb ob wt"
  shows "link_stage f a w cb ob wt"
proof -
  obtain ms where "ob = Some a" "w = send_tasks a ms \<and> cb = Some (Link_Ready f a) \<and> wt
      \<or> w = send_tasks a ms @ [take_task f] \<and> cb = None \<and> \<not> wt"
    using assms by (auto simp: link_stage_def Cons_eq_append_conv Cons_eq_map_conv)
  then show ?thesis unfolding link_stage_def by (intro disjI2 disjI1 exI[of _ "[]"] exI[of _ ms]) simp
qed

lemma stage_take:
  assumes "link_stage f a (Poller (Find_Object f tk u) # w) cb ob wt"
  shows "tk" and "w = []" and "cb = None" and "ob = Some a" and "\<not> wt"
  using assms by (auto simp: link_stage_def Cons_eq_append_conv)

lemma stage_stream:
  assumes "link_stage f a (Stream a t # w) cb ob wt"
  shows "t = Listen_Read f \<or> (\<exists>m. t = Send_Msg m)"
  using assms by (auto simp: link_stage_def Cons_eq_append_conv Cons_eq_map_conv)

lemma stage_registered:
  assumes "link_stage f a w (Some c) ob wt"
  shows "c = Link_Ready f a" and "wt" and "link_stage f a (w @ [Stream a (Send_Msg m)]) (Some c) ob True"
    and "link_stage f a (w @ [take_task f]) None ob False" and "Stream a (Listen_Read g) \<notin> set w"
proof -
  obtain pre ms where p: "pre = [] \<and> ob = Some a \<or> pre = [save_task f a] \<and> ob = None" "w = pre @ send_tasks a ms"
    and c: "c = Link_Ready f a" "wt"
    using assms by (auto simp: link_stage_def)
  show "c = Link_Ready f a" "wt" by fact+
  show "Stream a (Listen_Read g) \<notin> set w" using p by auto
  have "w @ [Stream a (Send_Msg m)] = pre @ send_tasks a (ms @ [m])" using p(2) by simp
  then show "link_stage f a (w @ [Stream a (Send_Msg m)]) (Some c) ob True"
    using p(1) c(1) unfolding link_stage_def by blast
  show "link_stage f a (w @ [take_task f]) None ob False"
    using p unfolding link_stage_def by (intro disjI2 disjI1 exI[of _ pre] exI[of _ ms]) simp
qed

lemma stage_idle:
  assumes "link_stage f a [] cb ob wt"
  shows "(cb = Some (Link_Ready f a) \<and> wt \<and> ob = Some a) \<or> (cb = None \<and> \<not> wt \<and> ob = None)"
  using assms by (auto simp: link_stage_def)

section \<open>Reading the invariant\<close>

lemma echo_inv_td [simp]:
  "echo_inv lf (s\<lparr>e_td := d\<rparr>) q = echo_inv lf s q" "echo_inv lf (s\<lparr>e_batch := b\<rparr>) q = echo_inv lf s q"
  by (simp_all add: echo_invs attended_def)

lemma msgs_simps [simp]:
  "msgs a [] = []" "msgs a (Poller p # q) = msgs a q" "msgs a (Accepting t # q) = msgs a q"
  "msgs a (Stream b (Listen_Read f) # q) = msgs a q"
  "msgs a (Stream b (Send_Msg m) # q) = (if b = a then m else []) @ msgs a q"
  "msgs a (q @ q') = msgs a q @ msgs a q'"
  by (simp_all add: msgs_def)

lemma attended_tick [simp]: "attended s (tick # q) = attended s q" "attended s (q @ [tick]) = attended s q"
  by (simp_all add: attended_def fun_eq_iff)

lemma echo_inv_tick [simp]: "echo_inv lf s (tick # q) = echo_inv lf s q" "echo_inv lf s (q @ [tick]) = echo_inv lf s q"
proof -
  have "inv_listen lf s (tick # q) = inv_listen lf s q" "inv_listen lf s (q @ [tick]) = inv_listen lf s q"
    by (simp_all add: inv_listen_def)
  moreover have "inv_tasks lf s (tick # q) = inv_tasks lf s q" "inv_tasks lf s (q @ [tick]) = inv_tasks lf s q"
    by (auto simp: inv_tasks_def)
  moreover have "inv_stage s (tick # q) = inv_stage s q" "inv_stage s (q @ [tick]) = inv_stage s q"
    by (simp_all add: inv_stage_def)
  moreover have "inv_data s (tick # q) = inv_data s q" "inv_data s (q @ [tick]) = inv_data s q"
    by (simp_all add: inv_data_def)
  ultimately show "echo_inv lf s (tick # q) = echo_inv lf s q" "echo_inv lf s (q @ [tick]) = echo_inv lf s q"
    by (simp_all add: echo_inv_def)
qed

lemma inv_stageD:
  "inv_stage s q \<Longrightarrow> e_links s a = Some l \<Longrightarrow>
     link_stage (l_fd l) a (filter (concerns a (l_fd l)) q) (RBT.lookup (rp_callbacks s) (l_fd l))
       (RBT.lookup (rp_objects s) (l_fd l)) (l_fd l \<in> n_watched (rp_kernel s))"
  by (simp add: inv_stage_def)

lemma link_fd_unique:
  assumes "inv_links lf s" and "e_links s a = Some l" and "e_links s b = Some l'" and "l_fd l = l_fd l'"
  shows "a = b"
  using assms unfolding inv_links_def by (metis option.inject)

lemma link_fd_other:
  "inv_links lf s \<Longrightarrow> e_links s a = Some l \<Longrightarrow> b \<noteq> a \<Longrightarrow> e_links s b = Some l' \<Longrightarrow> l_fd l' \<noteq> l_fd l"
  using link_fd_unique[of lf s a l b l'] by auto

lemma concerns_both: "concerns a f t \<Longrightarrow> concerns b g t \<Longrightarrow> a = b \<or> f = g"
  by (induction a f t rule: concerns.induct) simp_all

lemma concerns_unique:
  assumes "inv_links lf s" and "e_links s a = Some l" and "e_links s b = Some l'"
    and "concerns a (l_fd l) t" and "concerns b (l_fd l') t"
  shows "a = b"
  using concerns_both[OF assms(4,5)] link_fd_unique[OF assms(1-3)] by blast

text \<open>A change that concerns one stream only: of the tasks, and of the state.\<close>

definition others :: "nat \<Rightarrow> fd \<Rightarrow> echo_task list \<Rightarrow> echo_task list" where
  "others a f q = filter (\<lambda>t. \<not> concerns a f t) q"

definition same_but :: "nat \<Rightarrow> fd \<Rightarrow> echo \<Rightarrow> echo \<Rightarrow> bool" where
  "same_but a f s s' \<longleftrightarrow> e_fault s' = e_fault s \<and> e_exit s' = e_exit s \<and> rp_shutdown s' = rp_shutdown s
     \<and> rp_customEvents s' = rp_customEvents s \<and> e_acceptor s' = e_acceptor s \<and> e_links s' = e_links s \<and> e_next s' = e_next s
     \<and> n_listen (rp_kernel s') = n_listen (rp_kernel s) \<and> n_fds (rp_kernel s') = n_fds (rp_kernel s)
     \<and> n_accepted (rp_kernel s') = n_accepted (rp_kernel s) \<and> length (n_conns (rp_kernel s')) = length (n_conns (rp_kernel s))
     \<and> (\<forall>b. b \<noteq> a \<longrightarrow> n_conns (rp_kernel s') ! b = n_conns (rp_kernel s) ! b)
     \<and> (\<forall>g. g \<noteq> f \<longrightarrow> RBT.lookup (rp_callbacks s') g = RBT.lookup (rp_callbacks s) g
          \<and> RBT.lookup (rp_objects s') g = RBT.lookup (rp_objects s) g \<and> (g \<in> n_watched (rp_kernel s') \<longleftrightarrow> g \<in> n_watched (rp_kernel s)))"

lemma others_filter:
  assumes "others a f q' = others a f q" and "\<And>t. P t \<Longrightarrow> \<not> concerns a f t"
  shows "filter P q' = filter P q"
proof -
  have "filter P q = filter P (others a f q)" for q
    unfolding others_def filter_filter by (rule filter_cong) (use assms(2) in auto)
  then show ?thesis using assms(1) by metis
qed

lemma others_mem:
  assumes "others a f q' = others a f q" and "\<not> concerns a f t"
  shows "t \<in> set q' \<longleftrightarrow> t \<in> set q"
proof -
  have "filter (\<lambda>u. u = t) q' = filter (\<lambda>u. u = t) q" by (rule others_filter[OF assms(1)]) (use assms(2) in auto)
  moreover have "t \<in> set q \<longleftrightarrow> filter (\<lambda>u. u = t) q \<noteq> []" for q by (auto simp: filter_empty_conv)
  ultimately show ?thesis by simp
qed

definition changes :: "fd \<Rightarrow> echo \<Rightarrow> echo_task list \<Rightarrow> nat \<Rightarrow> echo_link \<Rightarrow> echo \<Rightarrow> echo_task list \<Rightarrow> bool" where
  "changes lf s q a l s' q' \<longleftrightarrow> echo_inv lf s q \<and> e_links s a = Some l \<and> same_but a (l_fd l) s s' \<and> others a (l_fd l) q' = others a (l_fd l) q
     \<and> link_stage (l_fd l) a (filter (concerns a (l_fd l)) q') (RBT.lookup (rp_callbacks s') (l_fd l))
          (RBT.lookup (rp_objects s') (l_fd l)) (l_fd l \<in> n_watched (rp_kernel s'))
     \<and> conn_ok (n_conns (rp_kernel s') ! a) (msgs a q') (attended s' q' a)"

lemma changesD:
  assumes "changes lf s q a l s' q'"
  shows "inv_links lf s" and "e_links s a = Some l" and "others a (l_fd l) q' = others a (l_fd l) q"
    and "a < e_next s" and "l_fd l \<noteq> lf" and "n_fds (rp_kernel s) (l_fd l) = Some a"
    and "e_links s' = e_links s" and "n_fds (rp_kernel s') = n_fds (rp_kernel s)" and "n_listen (rp_kernel s') = n_listen (rp_kernel s)"
    and "\<And>g. g \<noteq> l_fd l \<Longrightarrow> RBT.lookup (rp_callbacks s') g = RBT.lookup (rp_callbacks s) g"
    and "\<And>g. g \<noteq> l_fd l \<Longrightarrow> RBT.lookup (rp_objects s') g = RBT.lookup (rp_objects s) g"
    and "\<And>g. g \<noteq> l_fd l \<Longrightarrow> g \<in> n_watched (rp_kernel s') \<longleftrightarrow> g \<in> n_watched (rp_kernel s)"
    and "\<And>b. b \<noteq> a \<Longrightarrow> n_conns (rp_kernel s') ! b = n_conns (rp_kernel s) ! b"
    and "link_stage (l_fd l) a (filter (concerns a (l_fd l)) q') (RBT.lookup (rp_callbacks s') (l_fd l))
          (RBT.lookup (rp_objects s') (l_fd l)) (l_fd l \<in> n_watched (rp_kernel s'))"
    and "echo_inv lf s q"
  using assms by (auto simp: changes_def same_but_def echo_inv_def inv_links_def)

lemma change_listen:
  assumes "changes lf s q a l s' q'"
  shows "inv_base lf s'" and "inv_listen lf s' q'" and "inv_tasks lf s' q'" and "inv_links lf s'"
proof -
  note c = changesD[OF assms]
  show "inv_base lf s'" using assms by (simp add: changes_def echo_inv_def inv_base_def same_but_def)
  have "filter (\<lambda>t. t = Accepting (Accept_On lf EPOLLIN)) q' = filter (\<lambda>t. t = Accepting (Accept_On lf EPOLLIN)) q"
    by (rule others_filter[OF c(3)]) auto
  then show "inv_listen lf s' q'"
    using c(15) c(10,12)[of lf] c(5) others_mem[OF c(3), of "Accepting (Accept_On lf EPOLLIN)"] by (simp add: echo_inv_def inv_listen_def)
  show "inv_tasks lf s' q'"
    unfolding inv_tasks_def c(7)
  proof
    fix t assume t: "t \<in> set q'"
    show "t = tick \<or> t = Accepting (Accept_On lf EPOLLIN) \<or> (\<exists>a l. e_links s a = Some l \<and> concerns a (l_fd l) t)"
      using t c(2,15) others_mem[OF c(3), of t] by (cases "concerns a (l_fd l) t") (auto simp: echo_inv_def inv_tasks_def)
  qed
  show "inv_links lf s'" using assms by (simp add: changes_def echo_inv_def inv_links_def same_but_def)
qed

lemma change_tables:
  assumes "changes lf s q a l s' q'"
  shows "inv_tables lf s'"
  unfolding inv_tables_def changesD(7)[OF assms]
proof (intro conjI allI impI ballI)
  note c = changesD[OF assms]
  have t: "inv_tables lf s" using c(15) by (simp add: echo_inv_def)
  show "cb = Listening \<and> f = lf \<or> (\<exists>a l. cb = Link_Ready f a \<and> e_links s a = Some l \<and> l_fd l = f)"
    if "RBT.lookup (rp_callbacks s') f = Some cb" for f cb
    using that t c(10)[of f] c(2,14) by (cases "f = l_fd l") (auto simp: inv_tables_def link_stage_def)
  show "\<exists>l. e_links s b = Some l \<and> l_fd l = f" if "RBT.lookup (rp_objects s') f = Some b" for f b
    using that t c(11)[of f] c(2,14) by (cases "f = l_fd l") (auto simp: inv_tables_def link_stage_def)
  show "net_open (rp_kernel s') f" if "f \<in> n_watched (rp_kernel s')" for f
    using that t c(12)[of f] c(6,8,9) by (cases "f = l_fd l") (auto simp: inv_tables_def net_open_def)
qed

lemma change_stage:
  assumes "changes lf s q a l s' q'"
  shows "inv_stage s' q'"
  unfolding inv_stage_def changesD(7)[OF assms]
proof (intro allI impI)
  note c = changesD[OF assms]
  fix b l' assume b: "e_links s b = Some l'"
  show "link_stage (l_fd l') b (filter (concerns b (l_fd l')) q') (RBT.lookup (rp_callbacks s') (l_fd l'))
          (RBT.lookup (rp_objects s') (l_fd l')) (l_fd l' \<in> n_watched (rp_kernel s'))"
  proof (cases "b = a")
    case False
    have "filter (concerns b (l_fd l')) q' = filter (concerns b (l_fd l')) q"
      by (rule others_filter[OF c(3)]) (use concerns_unique[OF c(1,2) b] False in blast)
    moreover have "link_stage (l_fd l') b (filter (concerns b (l_fd l')) q) (RBT.lookup (rp_callbacks s) (l_fd l'))
          (RBT.lookup (rp_objects s) (l_fd l')) (l_fd l' \<in> n_watched (rp_kernel s))"
      using c(15) b by (simp add: echo_inv_def inv_stageD)
    ultimately show ?thesis using c(10-12)[OF link_fd_other[OF c(1,2) False b]] by simp
  qed (use c(2,14) b in simp)
qed

lemma msgs_streams: "msgs b q = msgs b (filter (\<lambda>t. \<exists>u. t = Stream b u) q)"
  by (induction q) (auto simp: msgs_def split: echo_task.splits stream_task.splits)

lemma change_data:
  assumes "changes lf s q a l s' q'"
  shows "inv_data s' q'"
proof -
  note c = changesD[OF assms]
  have e: "e_next s' = e_next s" "n_accepted (rp_kernel s') = n_accepted (rp_kernel s)"
    "length (n_conns (rp_kernel s')) = length (n_conns (rp_kernel s))"
    "conn_ok (n_conns (rp_kernel s') ! a) (msgs a q') (attended s' q' a)"
    using assms by (simp_all add: changes_def same_but_def)
  have d: "inv_data s q" using c(15) by (simp add: echo_inv_def)
  have "conn_ok (n_conns (rp_kernel s') ! b) (msgs b q') (n_accepted (rp_kernel s) \<le> b \<or> attended s' q' b)"
    if b: "b < length (n_conns (rp_kernel s))" for b
  proof (cases "b = a")
    case True
    then show ?thesis using e(4) c(4) d by (simp add: inv_data_def)
  next
    case False
    have "filter (\<lambda>t. \<exists>u. t = Stream b u) q' = filter (\<lambda>t. \<exists>u. t = Stream b u) q"
      by (rule others_filter[OF c(3)]) (use False in auto)
    then have "msgs b q' = msgs b q" using msgs_streams by metis
    moreover have "attended s' q' b = attended s q b"
      using c(7,12) link_fd_other[OF c(1,2) False] others_mem[OF c(3), of "Stream b (Listen_Read _)"] False by (auto simp: attended_def)
    ultimately show ?thesis using d b c(13)[OF False] by (simp add: inv_data_def)
  qed
  then show ?thesis using d e(1-3) by (simp add: inv_data_def)
qed

lemma echo_inv_change:
  assumes "echo_inv lf s q" and "e_links s a = Some l" and "same_but a (l_fd l) s s'" and "others a (l_fd l) q' = others a (l_fd l) q"
    and "link_stage (l_fd l) a (filter (concerns a (l_fd l)) q') (RBT.lookup (rp_callbacks s') (l_fd l))
          (RBT.lookup (rp_objects s') (l_fd l)) (l_fd l \<in> n_watched (rp_kernel s'))"
    and "conn_ok (n_conns (rp_kernel s') ! a) (msgs a q') (attended s' q' a)"
  shows "echo_inv lf s' q'"
proof -
  have "changes lf s q a l s' q'" using assms by (simp add: changes_def)
  then show ?thesis by (simp add: echo_inv_def change_listen change_tables change_stage change_data)
qed

section \<open>The closures of a stream\<close>

lemma head_stage:
  assumes "echo_inv lf s (t # q)" and "e_links s a = Some l" and "concerns a (l_fd l) t"
  shows "link_stage (l_fd l) a (t # filter (concerns a (l_fd l)) q) (RBT.lookup (rp_callbacks s) (l_fd l))
          (RBT.lookup (rp_objects s) (l_fd l)) (l_fd l \<in> n_watched (rp_kernel s))"
  using assms inv_stageD[of s "t # q" a l] by (simp add: echo_inv_def)

lemma others_Cons: "concerns a f t \<Longrightarrow> others a f q = others a f (t # q)"
  by (simp add: others_def)

lemma others_snoc: "concerns a f t \<Longrightarrow> others a f (q @ [t]) = others a f q"
  by (simp add: others_def)

lemma echo_inv_link:
  assumes "echo_inv lf s q" and "e_links s a = Some l"
  shows "0 < l_fd l" and "l_fd l \<noteq> lf" and "n_fds (rp_kernel s) (l_fd l) = Some a" and "a < length (n_conns (rp_kernel s))"
    and "a < n_accepted (rp_kernel s)"
    and "l_stream l = \<lparr>ss_sock = \<lparr>s_fd = l_fd l\<rparr>, ss_onClose = True, ss_onRead = True, ss_onWrite = True\<rparr>"
    and "conn_ok (n_conns (rp_kernel s) ! a) (msgs a q) (attended s q a)"
proof -
  show "0 < l_fd l" "l_fd l \<noteq> lf" "n_fds (rp_kernel s) (l_fd l) = Some a"
    "l_stream l = \<lparr>ss_sock = \<lparr>s_fd = l_fd l\<rparr>, ss_onClose = True, ss_onRead = True, ss_onWrite = True\<rparr>"
    using assms by (simp_all add: echo_inv_def inv_links_def)
  show n: "a < n_accepted (rp_kernel s)" using assms by (auto simp: echo_inv_def inv_links_def inv_data_def)
  then show m: "a < length (n_conns (rp_kernel s))" using assms(1) by (simp add: echo_inv_def inv_data_def)
  have "\<forall>a < length (n_conns (rp_kernel s)). conn_ok (n_conns (rp_kernel s) ! a) (msgs a q) (n_accepted (rp_kernel s) \<le> a \<or> attended s q a)"
    using assms(1) by (simp add: echo_inv_def inv_data_def)
  from this[rule_format, OF m] n show "conn_ok (n_conns (rp_kernel s) ! a) (msgs a q) (attended s q a)" by simp
qed

lemma listen_task_inv:
  assumes inv: "echo_inv lf s (Stream a (Listen_Read f) # q)" and a: "e_links s a = Some l"
  shows "echo_stream (net_os es) a (Listen_Read f) s
      = s\<lparr>rp_kernel := (rp_kernel s)\<lparr>n_watched := insert (l_fd l) (n_watched (rp_kernel s))\<rparr>,
          rp_callbacks := RBT.insert (l_fd l) (Link_Ready (l_fd l) a) (rp_callbacks s)\<rparr>" (is "_ = ?s")
    and "echo_inv lf (echo_stream (net_os es) a (Listen_Read f) s) q"
proof -
  have c: "concerns a (l_fd l) (Stream a (Listen_Read f))" by simp
  note st = stage_listen[OF head_stage[OF inv a c]] and l = echo_inv_link[OF inv a]
  show e: "echo_stream (net_os es) a (Listen_Read f) s = ?s"
    using a st(1,4) l(1,3)
    by (simp add: echo_stream_def SockStream_run_def SockStream_listenReadEvent_def RePoller_append_def control_fd_def Epoll_control_def
        net_os_def net_open_def RePoller_setReadyCallback_def fun_upd_idem)
  have "conn_ok (n_conns (rp_kernel s) ! a) (msgs a q) True" using l(7) a st(1) by (simp add: attended_def)
  then show "echo_inv lf (echo_stream (net_os es) a (Listen_Read f) s) q"
    unfolding e using st(5) a by (intro echo_inv_change[OF inv a _ others_Cons[OF c]]) (simp_all add: same_but_def attended_def)
qed

lemma send_task_inv:
  assumes inv: "echo_inv lf s (Stream a (Send_Msg m) # q)" and a: "e_links s a = Some l"
  shows "echo_stream (net_os es) a (Send_Msg m) s = s\<lparr>rp_kernel := upd_conn a (\<lambda>c. c\<lparr>cn_out := cn_out c @ m\<rparr>) (rp_kernel s)\<rparr>" (is "_ = ?s")
    and "echo_inv lf (echo_stream (net_os es) a (Send_Msg m) s) q"
proof -
  have c: "concerns a (l_fd l) (Stream a (Send_Msg m))" by simp
  note st = stage_send[OF head_stage[OF inv a c]] and l = echo_inv_link[OF inv a]
  show e: "echo_stream (net_os es) a (Send_Msg m) s = ?s"
    using a l by (simp add: echo_stream_def SockStream_run_def Socket_valid_def echo_send_def fun_upd_idem)
  have "attended ?s q a = attended s (Stream a (Send_Msg m) # q) a" by (simp add: attended_def upd_conn_def)
  then have "conn_ok (n_conns (rp_kernel ?s) ! a) (msgs a q) (attended ?s q a)"
    using l(4,7) by (auto simp: conn_ok_def upd_conn_def)
  then show "echo_inv lf (echo_stream (net_os es) a (Send_Msg m) s) q"
    unfolding e using st by (intro echo_inv_change[OF inv a _ others_Cons[OF c]]) (simp_all add: same_but_def upd_conn_def)
qed

lemma save_task_inv:
  assumes inv: "echo_inv lf s (Poller (Save_Object f force b u) # q)" and a: "e_links s a = Some l"
    and c: "concerns a (l_fd l) (Poller (Save_Object f force b u))"
  shows "run_save echo_cbo f force b u s = s\<lparr>rp_objects := RBT.insert (l_fd l) a (rp_objects s)\<rparr>" (is "_ = ?s")
    and "echo_inv lf (run_save echo_cbo f force b u s) q"
proof -
  note st = stage_save[OF head_stage[OF inv a c]] and l = echo_inv_link[OF inv a]
  show e: "run_save echo_cbo f force b u s = ?s" using st(1,3,4) by (simp add: run_save_def echo_cbo_def)
  have "attended ?s q a = attended s (Poller (Save_Object f force b u) # q) a" by (simp add: attended_def)
  then have "conn_ok (n_conns (rp_kernel ?s) ! a) (msgs a q) (attended ?s q a)" using l(7) by simp
  then show "echo_inv lf (run_save echo_cbo f force b u s) q"
    unfolding e using st(5) by (intro echo_inv_change[OF inv a _ others_Cons[OF c]]) (simp_all add: same_but_def)
qed

lemma take_task_inv:
  assumes inv: "echo_inv lf s (Poller (Find_Object f tk u) # q)" and a: "e_links s a = Some l"
    and c: "concerns a (l_fd l) (Poller (Find_Object f tk u))"
  shows "run_find echo_cbo f tk u s = s\<lparr>rp_objects := RBT.delete (l_fd l) (rp_objects s)\<rparr>" (is "_ = ?s")
    and "echo_inv lf (run_find echo_cbo f tk u s) q"
proof -
  have f: "f = l_fd l" using c by simp
  note st = stage_take[OF head_stage[OF inv a c, unfolded f]] and l = echo_inv_link[OF inv a]
  show e: "run_find echo_cbo f tk u s = ?s" using f st(1,4) by (simp add: run_find_def echo_cbo_def Let_def split: option.splits)
  have "attended ?s q a = attended s (Poller (Find_Object f tk u) # q) a" by (simp add: attended_def)
  then have "conn_ok (n_conns (rp_kernel ?s) ! a) (msgs a q) (attended ?s q a)" using l(7) by simp
  then show "echo_inv lf (run_find echo_cbo f tk u s) q"
    unfolding e using st by (intro echo_inv_change[OF inv a _ others_Cons[OF c]]) (simp_all add: same_but_def link_stage_def)
qed

section \<open>The callbacks of a stream\<close>

lemma recv_answers:
  assumes "chops chop"
  shows "SockStream_tryRead (map Got (chop bs) @ [if eof then End_Of_Stream else Would_Block])
     = Some (if eof then KVPair_ctor 0 [] else KVPair_ctor (int (length bs)) bs)"
proof -
  have "list_all (\<lambda>c. length c \<le> 128) (chop bs)" "concat (chop bs) = bs" using assms by (auto simp: chops_def list_all_iff)
  then show ?thesis by (simp add: SockStream_tryRead_def tryRead_loop_got)
qed

lemma registered_link:
  assumes inv: "echo_inv lf s q" and cb: "RBT.lookup (rp_callbacks s) f = Some (Link_Ready g a)"
  obtains l where "e_links s a = Some l" and "l_fd l = f" and "g = f" and "f \<in> n_watched (rp_kernel s)" and "attended s q a"
    and "link_stage f a (filter (concerns a f) q) (Some (Link_Ready g a)) (RBT.lookup (rp_objects s) f) True"
    and "Stream a (Listen_Read f) \<notin> set q"
proof -
  obtain l where l: "e_links s a = Some l" "l_fd l = f" "g = f" using inv cb by (auto simp: echo_inv_def inv_tables_def)
  have st: "link_stage f a (filter (concerns a f) q) (Some (Link_Ready g a)) (RBT.lookup (rp_objects s) f) (f \<in> n_watched (rp_kernel s))"
    using inv_stageD[of s q a l] inv l cb by (simp add: echo_inv_def)
  have "Stream a (Listen_Read f) \<notin> set q" using stage_registered(5)[OF st, of f] by simp
  then show thesis using that l st stage_registered(2)[OF st] by (auto simp: attended_def)
qed


lemma link_call:
  assumes inv: "echo_inv lf s q" and cb: "RBT.lookup (rp_callbacks s) f = Some (Link_Ready g a)" and ev: "events AND EPOLLIN \<noteq> 0" and c: "chops chop"
  obtains l where "e_links s a = Some l" and "l_fd l = f"
    and "echo_call os chop cli (Link_Ready g a) events s =
      (let k = upd_conn a (\<lambda>c. c\<lparr>cn_unread := []\<rparr>) (rp_kernel s); c = n_conns (rp_kernel s) ! a
       in if cn_eof c \<or> cn_unread c = [] then snd (RePoller_cancle os f (echo_onClose f (s\<lparr>rp_kernel := k\<rparr>)))
          else echo_onRead a (cn_unread c) (s\<lparr>rp_kernel := k\<rparr>))"
proof -
  obtain l where l: "e_links s a = Some l" "l_fd l = f" "g = f" by (rule registered_link[OF inv cb])
  note p = echo_inv_link[OF inv l(1)]
  show thesis
    by (rule that[OF l(1,2)]) (use l p(3,6) ev recv_answers[OF c] in
      \<open>auto simp: echo_call_def net_recv_def Socket_handle_def SockStream_on_event_def heap_defs Let_def\<close>)
qed

lemma read_event:
  assumes inv: "echo_inv lf s q" and w: "waiting s q" and cb: "RBT.lookup (rp_callbacks s) f = Some (Link_Ready g a)"
    and ev: "events AND EPOLLIN \<noteq> 0" and c: "chops chop" and u: "cn_unread (n_conns (rp_kernel s) ! a) = bs" "bs \<noteq> []"
    and eof: "\<not> cn_eof (n_conns (rp_kernel s) ! a)"
  obtains d where "echo_call os chop cli (Link_Ready g a) events s = s\<lparr>rp_kernel := upd_conn a (\<lambda>c. c\<lparr>cn_unread := []\<rparr>) (rp_kernel s), e_td := d\<rparr>"
    and "waiting (echo_call os chop cli (Link_Ready g a) events s) (q @ [Stream a (Send_Msg bs)])"
    and "echo_inv lf (echo_call os chop cli (Link_Ready g a) events s) (q @ [Stream a (Send_Msg bs)])"
proof -
  let ?k = "upd_conn a (\<lambda>c. c\<lparr>cn_unread := []\<rparr>) (rp_kernel s)"
  let ?q = "q @ [Stream a (Send_Msg bs)]"
  obtain l where l: "e_links s a = Some l" "l_fd l = f" "f \<in> n_watched (rp_kernel s)" "attended s q a"
    and reg: "link_stage f a (filter (concerns a f) q) (Some (Link_Ready g a)) (RBT.lookup (rp_objects s) f) True"
    and nl: "Stream a (Listen_Read f) \<notin> set q" by (rule registered_link[OF inv cb])
  have call: "echo_call os chop cli (Link_Ready g a) events s = echo_onRead a bs (s\<lparr>rp_kernel := ?k\<rparr>)"
    by (rule link_call[OF inv cb ev c, of os cli]) (use u eof in simp)
  have w': "waiting (s\<lparr>rp_kernel := ?k\<rparr>) q" using w by (simp add: waiting_def)
  obtain d where d: "echo_submit (Stream a (Send_Msg bs)) (s\<lparr>rp_kernel := ?k\<rparr>) = (True, s\<lparr>rp_kernel := ?k, e_td := d\<rparr>)"
    "waiting (s\<lparr>rp_kernel := ?k, e_td := d\<rparr>) ?q"
    by (rule submit_waiting[OF w', of "Stream a (Send_Msg bs)"]) simp
  note p = echo_inv_link[OF inv l(1)]
  have e: "echo_call os chop cli (Link_Ready g a) events s = s\<lparr>rp_kernel := ?k, e_td := d\<rparr>"
    unfolding call using l p(1,6) d(1) by (simp add: echo_onRead_def link_asend_def Socket_valid_def)
  have cc: "concerns a (l_fd l) (Stream a (Send_Msg bs))" by simp
  note st = stage_registered(3)[OF reg, of bs]
  have "cn_came (n_conns (rp_kernel s) ! a) = cn_out (n_conns (rp_kernel s) ! a) @ msgs a q @ bs" using p(7) l(4) u by (simp add: conn_ok_def)
  then have "conn_ok (n_conns ?k ! a) (msgs a ?q) (attended (s\<lparr>rp_kernel := ?k\<rparr>) ?q a)"
    using p(4) l(1-3) by (simp add: conn_ok_def upd_conn_def attended_def)
  then have "echo_inv lf (s\<lparr>rp_kernel := ?k\<rparr>) ?q"
    using st l cb by (intro echo_inv_change[OF inv l(1) _ others_snoc[OF cc]]) (simp_all add: same_but_def upd_conn_def)
  then show thesis using that[OF e] d(2) unfolding e by (simp only: echo_inv_td)
qed

lemma close_event:
  assumes inv: "echo_inv lf s q" and w: "waiting s q" and cb: "RBT.lookup (rp_callbacks s) f = Some (Link_Ready g a)"
    and ev: "events AND EPOLLIN \<noteq> 0" and c: "chops chop" and eof: "cn_eof (n_conns (rp_kernel s) ! a)"
  obtains d where "echo_call (net_os es) chop cli (Link_Ready g a) events s
      = s\<lparr>rp_kernel := (upd_conn a (\<lambda>c. c\<lparr>cn_unread := []\<rparr>) (rp_kernel s))\<lparr>n_watched := n_watched (rp_kernel s) - {f}\<rparr>, e_td := d,
          rp_callbacks := RBT.delete f (rp_callbacks s)\<rparr>"
    and "waiting (echo_call (net_os es) chop cli (Link_Ready g a) events s) (q @ [take_task f])"
    and "echo_inv lf (echo_call (net_os es) chop cli (Link_Ready g a) events s) (q @ [take_task f])"
proof -
  let ?k = "upd_conn a (\<lambda>c. c\<lparr>cn_unread := []\<rparr>) (rp_kernel s)"
  let ?s = "s\<lparr>rp_kernel := ?k\<lparr>n_watched := n_watched (rp_kernel s) - {f}\<rparr>, rp_callbacks := RBT.delete f (rp_callbacks s)\<rparr>"
  let ?q = "q @ [take_task f]"
  obtain l where l: "e_links s a = Some l" "l_fd l = f" "f \<in> n_watched (rp_kernel s)" "attended s q a"
    and reg: "link_stage f a (filter (concerns a f) q) (Some (Link_Ready g a)) (RBT.lookup (rp_objects s) f) True"
    and nl: "Stream a (Listen_Read f) \<notin> set q" by (rule registered_link[OF inv cb])
  have call: "echo_call (net_os es) chop cli (Link_Ready g a) events s = snd (RePoller_cancle (net_os es) f (echo_onClose f (s\<lparr>rp_kernel := ?k\<rparr>)))"
    by (rule link_call[OF inv cb ev c, of "net_os es" cli]) (use eof in simp)
  have w': "waiting (s\<lparr>rp_kernel := ?k\<rparr>) q" using w by (simp add: waiting_def)
  obtain d where d: "echo_submit (take_task f) (s\<lparr>rp_kernel := ?k\<rparr>) = (True, s\<lparr>rp_kernel := ?k, e_td := d\<rparr>)"
    "waiting (s\<lparr>rp_kernel := ?k, e_td := d\<rparr>) ?q"
    by (rule submit_waiting[OF w', of "take_task f"]) simp
  have e: "echo_call (net_os es) chop cli (Link_Ready g a) events s = ?s\<lparr>e_td := d\<rparr>"
    unfolding call using l(3) d(1)
    by (simp add: echo_onClose_def RePoller_cancle_def control_fd_def Epoll_control_def net_os_def upd_conn_def)
  note p = echo_inv_link[OF inv l(1)]
  have cc: "concerns a (l_fd l) (take_task f)" using l(2) by simp
  note st = stage_registered(4)[OF reg]
  have "\<not> attended ?s ?q a" using nl l(1,2) by (auto simp: attended_def)
  then have "conn_ok (n_conns ?k ! a) (msgs a ?q) (attended ?s ?q a)"
    using p(4,7) l(4) eof by (simp add: conn_ok_def upd_conn_def)
  then have "echo_inv lf ?s ?q"
    using st l cb by (intro echo_inv_change[OF inv l(1) _ others_snoc[OF cc]]) (simp_all add: same_but_def upd_conn_def)
  then have "echo_inv lf (?s\<lparr>e_td := d\<rparr>) ?q" by (simp only: echo_inv_td)
  moreover have "waiting (?s\<lparr>e_td := d\<rparr>) ?q" using d(2) by (simp add: waiting_def)
  ultimately show thesis using that[of d] e by simp
qed


section \<open>The acceptor\<close>

lemma register_task_inv:
  assumes inv: "echo_inv lf s (Accepting (Accept_On f e) # q)"
  shows "echo_accepting (net_os es) (Accept_On f e) s
      = s\<lparr>rp_callbacks := RBT.insert lf Listening (rp_callbacks s), rp_kernel := (rp_kernel s)\<lparr>n_watched := insert lf (n_watched (rp_kernel s))\<rparr>\<rparr>"
      (is "_ = ?s")
    and "echo_inv lf (echo_accepting (net_os es) (Accept_On f e) s) q"
proof -
  have t: "Accept_On f e = Accept_On lf EPOLLIN" using inv by (auto simp: echo_inv_def inv_tasks_def)
  have b: "n_listen (rp_kernel s) = lf" "0 < lf" using inv by (simp_all add: echo_inv_def inv_base_def)
  have l: "lf \<notin> n_watched (rp_kernel s)" "Accepting (Accept_On lf EPOLLIN) \<notin> set q"
    using inv t by (auto simp: echo_inv_def inv_listen_def filter_empty_conv)
  show e: "echo_accepting (net_os es) (Accept_On f e) s = ?s"
    unfolding t using b l(1)
    by (simp add: echo_accepting_def RePoller_setReadyCallback_def RePoller_append_def control_fd_def Epoll_control_def net_os_def
        net_open_def Acceptor_run_def)
  have fd: "l_fd l' \<noteq> lf" if "e_links s b = Some l'" for b l' using inv that by (auto simp: echo_inv_def inv_links_def)
  have "inv_stage ?s q" using inv fd by (simp add: echo_inv_def inv_stage_def)
  moreover have "attended ?s q b = attended s (Accepting (Accept_On f e) # q) b" for b using fd[of b] by (auto simp: attended_def)
  then have "inv_data ?s q" using inv by (simp add: echo_inv_def inv_data_def)
  moreover have "inv_base lf ?s" "inv_links lf ?s" using inv by (simp_all add: echo_inv_def inv_base_def inv_links_def)
  moreover have "inv_listen lf ?s q" using l(2) by (simp add: inv_listen_def)
  moreover have "inv_tasks lf ?s q" using inv by (simp add: echo_inv_def inv_tasks_def)
  moreover have "inv_tables lf ?s" using inv b(1) by (auto simp: echo_inv_def inv_tables_def net_open_def)
  ultimately show "echo_inv lf (echo_accepting (net_os es) (Accept_On f e) s) q" unfolding e by (simp add: echo_inv_def)
qed

definition new_link :: "fd \<Rightarrow> echo_link" where
  "new_link f = \<lparr>l_stream = \<lparr>ss_sock = \<lparr>s_fd = f\<rparr>, ss_onClose = True, ss_onRead = True, ss_onWrite = True\<rparr>, l_fd = f\<rparr>"

text \<open>The state after \<open>accept\<close> has handed out the descriptor \<open>f\<close> and the server has made a stream of it.\<close>

definition admit :: "fd \<Rightarrow> echo \<Rightarrow> echo" where
  "admit f s = (let n = n_accepted (rp_kernel s) in
     s\<lparr>rp_kernel := (rp_kernel s)\<lparr>n_accepted := Suc n, n_fds := (n_fds (rp_kernel s))(f \<mapsto> n)\<rparr>,
       e_links := (e_links s)(n \<mapsto> new_link f), e_next := Suc n\<rparr>)"

definition admissible :: "fd \<Rightarrow> fd \<Rightarrow> echo \<Rightarrow> echo_task list \<Rightarrow> bool" where
  "admissible lf f s q \<longleftrightarrow> echo_inv lf s q \<and> n_accepted (rp_kernel s) < length (n_conns (rp_kernel s)) \<and> 0 < f \<and> \<not> net_open (rp_kernel s) f"

lemma admissible_new:
  assumes "admissible lf f s q"
  defines "n \<equiv> n_accepted (rp_kernel s)"
  shows "e_next s = n" and "f \<noteq> lf" and "e_links s n = None" and "\<And>b l. e_links s b = Some l \<Longrightarrow> b < n \<and> l_fd l \<noteq> f"
    and "\<And>b l. e_links s b = Some l \<Longrightarrow> e_links (admit f s) b = Some l"
proof -
  have inv: "echo_inv lf s q" "\<not> net_open (rp_kernel s) f" using assms by (simp_all add: admissible_def)
  show nx: "e_next s = n" using inv(1) by (simp add: echo_inv_def inv_data_def n_def)
  show "f \<noteq> lf" using inv by (auto simp: net_open_def echo_inv_def inv_base_def)
  show old: "b < n \<and> l_fd l \<noteq> f" if "e_links s b = Some l" for b l
    using inv that nx by (auto simp: echo_inv_def inv_links_def net_open_def)
  show nol: "e_links s n = None" using old[of n] by (cases "e_links s n") auto
  show "e_links (admit f s) b = Some l" if "e_links s b = Some l" for b l using that nol by (auto simp: admit_def Let_def n_def)
qed

lemma admissible_unused:
  assumes "admissible lf f s q"
  shows "\<And>t. t \<in> set q \<Longrightarrow> \<not> concerns (n_accepted (rp_kernel s)) f t" and "RBT.lookup (rp_callbacks s) f = None"
    and "RBT.lookup (rp_objects s) f = None" and "f \<notin> n_watched (rp_kernel s)"
proof -
  note new = admissible_new[OF assms]
  have inv: "echo_inv lf s q" "\<not> net_open (rp_kernel s) f" using assms by (simp_all add: admissible_def)
  show "\<not> concerns (n_accepted (rp_kernel s)) f t" if t: "t \<in> set q" for t
  proof
    assume c: "concerns (n_accepted (rp_kernel s)) f t"
    then obtain b l where b: "e_links s b = Some l" "concerns b (l_fd l) t" using inv(1) t by (auto simp: echo_inv_def inv_tasks_def)
    then show False using new(4)[OF b(1)] concerns_both[OF c b(2)] by auto
  qed
  have tab: "inv_tables lf s" using inv(1) by (simp add: echo_inv_def)
  show "RBT.lookup (rp_callbacks s) f = None"
    using tab new(2,4) by (cases "RBT.lookup (rp_callbacks s) f") (blast | simp add: inv_tables_def)+
  show "RBT.lookup (rp_objects s) f = None"
    using tab new(4) by (cases "RBT.lookup (rp_objects s) f") (blast | simp add: inv_tables_def)+
  show "f \<notin> n_watched (rp_kernel s)" using tab inv(2) by (auto simp: inv_tables_def)
qed

lemma admit_links:
  assumes "admissible lf f s q"
  shows "inv_links lf (admit f s)"
  unfolding inv_links_def
proof (intro conjI allI impI)
  note new = admissible_new[OF assms]
  have il: "inv_links lf s" and f: "0 < f" using assms by (simp_all add: admissible_def echo_inv_def)
  show "a < e_next (admit f s)" "0 < l_fd l" "l_fd l \<noteq> lf" "n_fds (rp_kernel (admit f s)) (l_fd l) = Some a"
    "l_stream l = \<lparr>ss_sock = \<lparr>s_fd = l_fd l\<rparr>, ss_onClose = True, ss_onRead = True, ss_onWrite = True\<rparr>"
    if "e_links (admit f s) a = Some l" for a l
    using that il new(2) new(4)[of a l] f
    by (cases "a = n_accepted (rp_kernel s)"; auto simp: inv_links_def new_link_def admit_def Let_def)+
  have nf: "n_fds (rp_kernel s) g \<noteq> Some (n_accepted (rp_kernel s))" for g using il new(3) unfolding inv_links_def by (metis option.distinct(1))
  show "\<exists>l. e_links (admit f s) a = Some l \<and> l_fd l = g" if "n_fds (rp_kernel (admit f s)) g = Some a" for g a
    using that il nf[of g] by (cases "g = f") (auto simp: inv_links_def new_link_def admit_def Let_def)
  show "finite (dom (n_fds (rp_kernel (admit f s))))" using il by (simp add: inv_links_def admit_def Let_def)
qed

lemma admit_tasks:
  assumes "admissible lf f s q"
  defines "n \<equiv> n_accepted (rp_kernel s)"
  shows "inv_tasks lf (admit f s) (q @ [Stream n (Listen_Read f), save_task f n])" and "inv_tables lf (admit f s)"
proof -
  note new = admissible_new[OF assms(1)]
  have inv: "inv_tasks lf s q" "inv_tables lf s" using assms(1) by (simp_all add: admissible_def echo_inv_def)
  have l: "e_links (admit f s) n = Some (new_link f)" "l_fd (new_link f) = f" by (simp_all add: admit_def Let_def n_def new_link_def)
  show "inv_tasks lf (admit f s) (q @ [Stream n (Listen_Read f), save_task f n])"
    unfolding inv_tasks_def
  proof
    fix t assume t: "t \<in> set (q @ [Stream n (Listen_Read f), save_task f n])"
    show "t = tick \<or> t = Accepting (Accept_On lf EPOLLIN) \<or> (\<exists>a l. e_links (admit f s) a = Some l \<and> concerns a (l_fd l) t)"
    proof (cases "t \<in> set q")
      case True
      then show ?thesis using inv(1) new(5) unfolding inv_tasks_def by blast
    next
      case False
      then have "concerns n (l_fd (new_link f)) t" using t by auto
      then show ?thesis using l(1) by blast
    qed
  qed
  have k: "rp_callbacks (admit f s) = rp_callbacks s" "rp_objects (admit f s) = rp_objects s" by (simp_all add: admit_def Let_def)
  have "net_open (rp_kernel (admit f s)) g" if "g \<in> n_watched (rp_kernel (admit f s))" for g
    using that inv(2) by (simp add: inv_tables_def net_open_def admit_def Let_def)
  then show "inv_tables lf (admit f s)" using inv(2) new(5) unfolding inv_tables_def k by blast
qed

lemma admit_stage:
  assumes "admissible lf f s q"
  defines "n \<equiv> n_accepted (rp_kernel s)"
  shows "inv_stage (admit f s) (q @ [Stream n (Listen_Read f), save_task f n])" (is "inv_stage _ ?q")
  unfolding inv_stage_def
proof (intro allI impI)
  fix b l assume b: "e_links (admit f s) b = Some l"
  show "link_stage (l_fd l) b (filter (concerns b (l_fd l)) ?q) (RBT.lookup (rp_callbacks (admit f s)) (l_fd l))
          (RBT.lookup (rp_objects (admit f s)) (l_fd l)) (l_fd l \<in> n_watched (rp_kernel (admit f s)))"
  proof (cases "b = n")
    case True
    note un = admissible_unused[OF assms(1)]
    have "filter (concerns n f) q = []" using un(1) by (simp add: filter_empty_conv n_def)
    moreover have "l_fd l = f" using b True by (auto simp: new_link_def admit_def Let_def n_def)
    ultimately show ?thesis using True un(2-4) by (simp add: link_stage_def admit_def Let_def)
  next
    case False
    then have "e_links s b = Some l" using b by (simp add: admit_def Let_def n_def)
    moreover have "inv_stage s q" using assms(1) by (simp add: admissible_def echo_inv_def)
    ultimately show ?thesis using inv_stageD[of s q b l] False by (simp add: admit_def Let_def)
  qed
qed

lemma admit_attended:
  assumes "admissible lf f s q"
  defines "n \<equiv> n_accepted (rp_kernel s)"
  shows "attended (admit f s) (q @ [Stream n (Listen_Read f), save_task f n]) b \<longleftrightarrow> b = n \<or> attended s q b"
  using admissible_new(3)[OF assms(1)] by (auto simp: attended_def new_link_def admit_def Let_def n_def)

lemma new_link_inv:
  assumes "admissible lf f s q"
  defines "n \<equiv> n_accepted (rp_kernel s)"
  shows "echo_inv lf (admit f s) (q @ [Stream n (Listen_Read f), save_task f n])" (is "echo_inv lf _ ?q")
proof -
  have inv: "echo_inv lf s q" and new: "n < length (n_conns (rp_kernel s))" using assms by (simp_all add: admissible_def)
  have k: "n_conns (rp_kernel (admit f s)) = n_conns (rp_kernel s)" "n_accepted (rp_kernel (admit f s)) = Suc n" "e_next (admit f s) = Suc n"
    by (simp_all add: admit_def Let_def n_def)
  have "(Suc n \<le> b \<or> attended (admit f s) ?q b) = (n \<le> b \<or> attended s q b)" for b
    unfolding admit_attended[OF assms(1), folded n_def] by linarith
  then have "inv_data (admit f s) ?q" using inv new unfolding echo_inv_def inv_data_def k by (simp add: n_def)
  moreover have "inv_base lf (admit f s)" "inv_listen lf (admit f s) ?q"
    using inv by (simp_all add: echo_inv_def inv_base_def inv_listen_def admit_def Let_def)
  ultimately show ?thesis
    using admit_links[OF assms(1)] admit_tasks[OF assms(1)] admit_stage[OF assms(1)] by (simp add: echo_inv_def n_def)
qed

lemma accept_event:
  fixes s :: echo
  defines "n \<equiv> n_accepted (rp_kernel s)"
  assumes adm: "admissible lf cli s q" and w: "waiting s q" and ev: "events AND EPOLLIN \<noteq> 0"
  obtains d where "echo_call os chop cli Listening events s = (admit cli s)\<lparr>e_td := d\<rparr>"
    and "waiting (echo_call os chop cli Listening events s) (q @ [Stream n (Listen_Read cli), save_task cli n])"
    and "echo_inv lf (echo_call os chop cli Listening events s) (q @ [Stream n (Listen_Read cli), save_task cli n])"
proof -
  have new: "n < length (n_conns (rp_kernel s))" and cli: "0 < cli" and inv: "echo_inv lf s q" using adm by (simp_all add: admissible_def n_def)
  have b: "e_next s = n" "ac_onAccept (e_acceptor s)" using inv by (simp_all add: echo_inv_def inv_data_def inv_base_def n_def)
  have w': "waiting (admit cli s) q" using w by (simp add: waiting_def admit_def Let_def)
  obtain d1 where d1: "echo_submit (Stream n (Listen_Read cli)) (admit cli s) = (True, (admit cli s)\<lparr>e_td := d1\<rparr>)"
    "waiting ((admit cli s)\<lparr>e_td := d1\<rparr>) (q @ [Stream n (Listen_Read cli)])" by (rule submit_waiting[OF w'])
  obtain d where d: "echo_submit (save_task cli n) ((admit cli s)\<lparr>e_td := d1\<rparr>) = (True, (admit cli s)\<lparr>e_td := d\<rparr>)"
    "waiting ((admit cli s)\<lparr>e_td := d\<rparr>) (q @ [Stream n (Listen_Read cli), save_task cli n])"
    by (rule submit_waiting[OF d1(2), of "save_task cli n"]) simp
  let ?k = "(rp_kernel s)\<lparr>n_accepted := Suc n, n_fds := (n_fds (rp_kernel s))(cli \<mapsto> n)\<rparr>"
  have l: "fst (SockStream_ctor (Socket_ctor_fd cli)) = \<lparr>ss_sock = \<lparr>s_fd = cli\<rparr>, ss_onClose = False, ss_onRead = False, ss_onWrite = False\<rparr>"
    by (simp add: SockStream_ctor_def net_defs)
  have a: "admit cli s = s\<lparr>rp_kernel := ?k, e_links := (e_links s)(n \<mapsto> new_link cli), e_next := Suc n\<rparr>" by (simp add: admit_def Let_def n_def)
  have "echo_call os chop cli Listening events s = echo_onAccept (Some cli) (s\<lparr>rp_kernel := ?k\<rparr>)"
    using ev new cli b(2) by (simp add: echo_call_def net_accept_def Acceptor_on_event_def net_defs n_def)
  also have "\<dots> = (admit cli s)\<lparr>e_td := d\<rparr>"
    using d1(1) d(1) b(1) unfolding a
    by (simp add: echo_onAccept_def l Let_def SockStream_setOnRead_def SockStream_setOnWrite_def SockStream_setOnClose_def Socket_handle_def new_link_def)
  finally have e: "echo_call os chop cli Listening events s = (admit cli s)\<lparr>e_td := d\<rparr>" .
  show thesis using that[of d] e d(2) new_link_inv[OF adm] by (simp add: n_def)
qed

section \<open>Destroying a stream\<close>

lemma unreferenced_stage:
  assumes "link_stage f a w cb ob wt" and "ob \<noteq> Some a" and "\<forall>t \<in> set w. \<not> holds a t"
  shows "w = []" and "cb = None" and "ob = None" and "\<not> wt"
  using assms by (auto simp: link_stage_def)

text \<open>The state after the destructor has closed the descriptor.\<close>

definition discard :: "nat \<Rightarrow> fd \<Rightarrow> echo \<Rightarrow> echo" where
  "discard a f s = s\<lparr>e_links := (e_links s)(a := None),
     rp_kernel := (rp_kernel s)\<lparr>n_fds := (n_fds (rp_kernel s))(f := None), n_watched := n_watched (rp_kernel s) - {f}\<rparr>\<rparr>"

definition disposable :: "fd \<Rightarrow> echo \<Rightarrow> echo_task list \<Rightarrow> nat \<Rightarrow> echo_link \<Rightarrow> bool" where
  "disposable lf s q a l \<longleftrightarrow> echo_inv lf s q \<and> waiting s q \<and> e_links s a = Some l \<and> \<not> referenced s a"

lemma disposable_unused:
  assumes "disposable lf s q a l"
  shows "\<And>t. t \<in> set q \<Longrightarrow> \<not> concerns a (l_fd l) t" and "RBT.lookup (rp_callbacks s) (l_fd l) = None"
    and "RBT.lookup (rp_objects s) (l_fd l) = None" and "l_fd l \<notin> n_watched (rp_kernel s)" and "\<not> attended s q a"
    and "\<And>b l'. e_links s b = Some l' \<Longrightarrow> l_fd l' \<noteq> l_fd l \<Longrightarrow> e_links (discard a (l_fd l) s) b = Some l'"
proof -
  have d: "inv_stage s q" "waiting s q" "e_links s a = Some l" "\<not> referenced s a" using assms by (simp_all add: disposable_def echo_inv_def)
  have nr: "RBT.lookup (rp_objects s) (l_fd l) \<noteq> Some a" "\<forall>t \<in> set q. \<not> holds a t"
    using d(4) waiting_tasks[OF d(2)] by (auto simp: referenced_def ran_def list_ex_iff)
  have "\<forall>t \<in> set (filter (concerns a (l_fd l)) q). \<not> holds a t" using nr(2) by simp
  note st = unreferenced_stage[OF inv_stageD[OF d(1,3)] nr(1) this]
  show "\<not> concerns a (l_fd l) t" if "t \<in> set q" for t using st(1) that by (auto simp: filter_empty_conv)
  show "RBT.lookup (rp_callbacks s) (l_fd l) = None" "RBT.lookup (rp_objects s) (l_fd l) = None" "l_fd l \<notin> n_watched (rp_kernel s)"
    using st(2-4) by simp_all
  show "\<not> attended s q a" using st(4) nr(2) d(3) by (auto simp: attended_def)
  show "e_links (discard a (l_fd l) s) b = Some l'" if "e_links s b = Some l'" "l_fd l' \<noteq> l_fd l" for b l'
    using that d(3) by (auto simp: discard_def)
qed

lemma discard_tables:
  assumes "disposable lf s q a l"
  shows "inv_tasks lf (discard a (l_fd l) s) q" and "inv_tables lf (discard a (l_fd l) s)"
proof -
  note un = disposable_unused[OF assms]
  have inv: "inv_tasks lf s q" "inv_tables lf s" and a: "e_links s a = Some l" using assms by (simp_all add: disposable_def echo_inv_def)
  show "inv_tasks lf (discard a (l_fd l) s) q"
    unfolding inv_tasks_def
  proof
    fix t assume t: "t \<in> set q"
    have "e_links (discard a (l_fd l) s) b = Some l'" if "e_links s b = Some l'" "concerns b (l_fd l') t" for b l'
      using that un(1)[OF t] a by (auto simp: discard_def)
    then show "t = tick \<or> t = Accepting (Accept_On lf EPOLLIN) \<or> (\<exists>b l'. e_links (discard a (l_fd l) s) b = Some l' \<and> concerns b (l_fd l') t)"
      using inv(1) t unfolding inv_tasks_def by blast
  qed
  have k: "rp_callbacks (discard a (l_fd l) s) = rp_callbacks s" "rp_objects (discard a (l_fd l) s) = rp_objects s" by (simp_all add: discard_def)
  have "cb = Listening \<and> f = lf \<or> (\<exists>b l'. cb = Link_Ready f b \<and> e_links (discard a (l_fd l) s) b = Some l' \<and> l_fd l' = f)"
    if "RBT.lookup (rp_callbacks s) f = Some cb" for f cb
    using that inv(2) un(2,6) unfolding inv_tables_def by (metis option.distinct(1))
  moreover have "\<exists>l'. e_links (discard a (l_fd l) s) b = Some l' \<and> l_fd l' = f" if "RBT.lookup (rp_objects s) f = Some b" for f b
    using that inv(2) un(3,6) unfolding inv_tables_def by (metis option.distinct(1))
  moreover have "\<forall>f \<in> n_watched (rp_kernel (discard a (l_fd l) s)). net_open (rp_kernel (discard a (l_fd l) s)) f"
    using inv(2) by (auto simp: inv_tables_def net_open_def discard_def)
  ultimately show "inv_tables lf (discard a (l_fd l) s)" unfolding inv_tables_def k by blast
qed

lemma release_inv:
  assumes disp: "disposable lf s q a l"
  shows "echo_release a l s = discard a (l_fd l) s" and "echo_inv lf (echo_release a l s) q" and "waiting (echo_release a l s) q"
    and "\<And>b. attended (echo_release a l s) q b = attended s q b"
proof -
  have inv: "echo_inv lf s q" and w: "waiting s q" and a: "e_links s a = Some l" using disp by (simp_all add: disposable_def)
  note p = echo_inv_link[OF inv a] and un = disposable_unused[OF disp]
  have links: "inv_links lf s" and stg: "inv_stage s q" using inv by (simp_all add: echo_inv_def)
  have fd: "l_fd l' \<noteq> l_fd l" if "b \<noteq> a" "e_links s b = Some l'" for b l' by (rule link_fd_other[OF links a that])
  show e: "echo_release a l s = discard a (l_fd l) s"
    using p(1,3,6) by (simp add: echo_release_def SockStream_dtor_def net_defs echo_close_def discard_def)
  show "waiting (echo_release a l s) q" using w unfolding e by (simp add: waiting_def discard_def)
  show lv: "attended (echo_release a l s) q b = attended s q b" for b
    using un(5) fd[of b] unfolding e by (cases "b = a") (auto simp: attended_def discard_def)
  have "f = l_fd l" if "n_fds (rp_kernel s) f = Some a" for f using links a that unfolding inv_links_def by (metis option.inject)
  then have "inv_links lf (discard a (l_fd l) s)" using links fd by (auto simp: inv_links_def discard_def)
  moreover have "inv_stage (discard a (l_fd l) s) q"
    unfolding inv_stage_def
  proof (intro allI impI)
    fix b l' assume "e_links (discard a (l_fd l) s) b = Some l'"
    then have b: "b \<noteq> a" "e_links s b = Some l'" by (auto simp: discard_def split: if_splits)
    show "link_stage (l_fd l') b (filter (concerns b (l_fd l')) q) (RBT.lookup (rp_callbacks (discard a (l_fd l) s)) (l_fd l'))
        (RBT.lookup (rp_objects (discard a (l_fd l) s)) (l_fd l')) (l_fd l' \<in> n_watched (rp_kernel (discard a (l_fd l) s)))"
      using inv_stageD[OF stg b(2)] fd[OF b] by (simp add: discard_def)
  qed
  moreover have "inv_data (discard a (l_fd l) s) q" using inv lv unfolding e by (simp add: echo_inv_def inv_data_def) (simp add: discard_def)
  moreover have "inv_base lf (discard a (l_fd l) s)" "inv_listen lf (discard a (l_fd l) s) q"
    using inv p(2) by (simp_all add: echo_inv_def inv_base_def inv_listen_def discard_def)
  ultimately show "echo_inv lf (echo_release a l s) q" using discard_tables[OF disp] unfolding e by (simp add: echo_inv_def)
qed

section \<open>The clients\<close>

lemma msgs_nobody:
  assumes "echo_inv lf s q" and "e_links s a = None"
  shows "msgs a q = []"
proof -
  have "t \<noteq> Stream a u" if "t \<in> set q" for t u
    using assms that by (auto simp: echo_inv_def inv_tasks_def)
  then show ?thesis by (auto simp: msgs_def split: echo_task.splits stream_task.splits)
qed

lemma echo_inv_conns:
  assumes "echo_inv lf s q" and "k = (rp_kernel s)\<lparr>n_conns := cs\<rparr>" and "n_accepted (rp_kernel s) \<le> length cs"
    and "\<And>a. a < length cs \<Longrightarrow> conn_ok (cs ! a) (msgs a q) (n_accepted (rp_kernel s) \<le> a \<or> attended s q a)"
  shows "echo_inv lf (s\<lparr>rp_kernel := k\<rparr>) q"
proof -
  have "attended (s\<lparr>rp_kernel := k\<rparr>) q = attended s q" using assms(2) by (simp add: attended_def fun_eq_iff)
  then have "inv_data (s\<lparr>rp_kernel := k\<rparr>) q" using assms by (simp add: echo_inv_def inv_data_def)
  moreover have "inv_base lf (s\<lparr>rp_kernel := k\<rparr>) = inv_base lf s" "inv_listen lf (s\<lparr>rp_kernel := k\<rparr>) q = inv_listen lf s q"
    "inv_tasks lf (s\<lparr>rp_kernel := k\<rparr>) q = inv_tasks lf s q" "inv_links lf (s\<lparr>rp_kernel := k\<rparr>) = inv_links lf s"
    "inv_tables lf (s\<lparr>rp_kernel := k\<rparr>) = inv_tables lf s" "inv_stage (s\<lparr>rp_kernel := k\<rparr>) q = inv_stage s q"
    using assms(2) by (simp_all add: inv_base_def inv_listen_def inv_tasks_def inv_links_def inv_tables_def inv_stage_def net_open_def)
  ultimately show ?thesis using assms(1) by (simp add: echo_inv_def)
qed

lemma client_inv:
  assumes step: "client_step (rp_kernel s) k" and inv: "echo_inv lf s q"
  shows "echo_inv lf (s\<lparr>rp_kernel := k\<rparr>) q"
proof -
  have d: "n_accepted (rp_kernel s) \<le> length (n_conns (rp_kernel s))" "\<And>a. a < length (n_conns (rp_kernel s)) \<Longrightarrow>
      conn_ok (n_conns (rp_kernel s) ! a) (msgs a q) (n_accepted (rp_kernel s) \<le> a \<or> attended s q a)"
    using inv by (simp_all add: echo_inv_def inv_data_def)
  from step show ?thesis
  proof cases
    case connects
    let ?n = "length (n_conns (rp_kernel s))"
    have "e_links s ?n = None" using echo_inv_link(4)[OF inv, of ?n] by (cases "e_links s ?n") auto
    then have m: "msgs ?n q = []" by (rule msgs_nobody[OF inv])
    show ?thesis by (rule echo_inv_conns[OF inv connects]) (use d m in \<open>auto simp: nth_append less_Suc_eq conn_ok_def\<close>)
  next
    case (sends a bs)
    show ?thesis
      by (rule echo_inv_conns[OF inv sends(1)[unfolded upd_conn_def]])
        (use d sends(2,3) in \<open>auto simp: nth_list_update conn_ok_def split: if_splits\<close>)
  next
    case (shuts a)
    show ?thesis
      by (rule echo_inv_conns[OF inv shuts(1)[unfolded upd_conn_def]])
        (use d shuts(2) in \<open>auto simp: nth_list_update conn_ok_def split: if_splits\<close>)
  qed
qed

end
