(* ===== verification/Echo_Service.thy ===== *)
theory Echo_Service
  imports Echo_Invariant
begin

text \<open>
  The echo server (\<open>Echo_Server\<close>) over whole runs: its start establishes the invariant of \<open>Echo_Invariant\<close>, a tick of the poller keeps
  it, the worker is never stuck, and a measure of the work left shows that silent clients end up served.
\<close>

unbundle bit_operations_syntax

section \<open>What is left to do\<close>

text \<open>
  A bound on the work the server has left when the clients are silent: the closures that wait, and for every connection that is not
  accepted, or has something to read, more than the closures serving it will submit.
\<close>

definition needs :: "echo \<Rightarrow> echo_task list \<Rightarrow> nat \<Rightarrow> bool" where
  "needs s q a \<longleftrightarrow> net_pending (n_conns (rp_kernel s) ! a) \<and> (n_accepted (rp_kernel s) \<le> a \<or> attended s q a)"

definition work_left :: "echo \<Rightarrow> echo_task list \<Rightarrow> nat" where
  "work_left s q = length (filter (\<lambda>t. t \<noteq> tick) q) + 3 * (length (n_conns (rp_kernel s)) - n_accepted (rp_kernel s))
     + 3 * length (filter (needs s q) [0..<length (n_conns (rp_kernel s))])"

lemma work_left_td [simp]:
  "needs (s\<lparr>e_td := d\<rparr>) = needs s" "needs (s\<lparr>e_batch := b\<rparr>) = needs s"
  "work_left (s\<lparr>e_td := d\<rparr>) q = work_left s q" "work_left (s\<lparr>e_batch := b\<rparr>) q = work_left s q"
proof -
  show n: "needs (s\<lparr>e_td := d\<rparr>) = needs s" "needs (s\<lparr>e_batch := b\<rparr>) = needs s" by (simp_all add: needs_def attended_def fun_eq_iff)
  show "work_left (s\<lparr>e_td := d\<rparr>) q = work_left s q" "work_left (s\<lparr>e_batch := b\<rparr>) q = work_left s q" by (simp_all add: work_left_def n)
qed

lemma work_left_tick [simp]: "work_left s (tick # q) = work_left s q" "work_left s (q @ [tick]) = work_left s q"
proof -
  have "needs s (tick # q) = needs s q" "needs s (q @ [tick]) = needs s q" by (simp_all add: needs_def fun_eq_iff)
  then show "work_left s (tick # q) = work_left s q" "work_left s (q @ [tick]) = work_left s q" by (simp_all add: work_left_def)
qed

text \<open>What the clients have done, which no step of the server changes.\<close>

definition clients :: "echo \<Rightarrow> (bytes \<times> bool) list" where
  "clients s = map (\<lambda>c. (cn_came c, cn_eof c)) (n_conns (rp_kernel s))"

lemma clients_upd:
  assumes "\<And>c. cn_came (g c) = cn_came c" and "\<And>c. cn_eof (g c) = cn_eof c"
  shows "map (\<lambda>c. (cn_came c, cn_eof c)) (n_conns (upd_conn a g k)) = map (\<lambda>c. (cn_came c, cn_eof c)) (n_conns k)"
proof (rule nth_equalityI)
  show "map (\<lambda>c. (cn_came c, cn_eof c)) (n_conns (upd_conn a g k)) ! i = map (\<lambda>c. (cn_came c, cn_eof c)) (n_conns k) ! i"
    if "i < length (map (\<lambda>c. (cn_came c, cn_eof c)) (n_conns (upd_conn a g k)))" for i
    using assms that by (cases "a = i") (simp_all add: upd_conn_def)
qed (simp add: upd_conn_def)

lemma filter_fewer:
  assumes "\<And>b. Q b \<Longrightarrow> P b" and "a \<in> set xs" and "P a" and "\<not> Q a"
  shows "length (filter Q xs) < length (filter P xs)"
proof -
  have "filter Q xs = filter Q (filter P xs)" using assms(1) by (auto intro: filter_cong)
  moreover have "a \<in> set (filter P xs)" using assms(2,3) by simp
  ultimately show ?thesis using length_filter_less[of a "filter P xs" Q] assms(4) by simp
qed

lemma work_left_same:
  assumes "length (n_conns (rp_kernel s')) = length (n_conns (rp_kernel s))" and "n_accepted (rp_kernel s') = n_accepted (rp_kernel s)"
    and "\<And>a. a < length (n_conns (rp_kernel s)) \<Longrightarrow> needs s' q' a = needs s q a"
  shows "work_left s' q' + length (filter (\<lambda>t. t \<noteq> tick) q) = work_left s q + length (filter (\<lambda>t. t \<noteq> tick) q')"
proof -
  have "filter (needs s' q') [0..<length (n_conns (rp_kernel s'))] = filter (needs s q) [0..<length (n_conns (rp_kernel s))]"
    using assms by (auto intro: filter_cong)
  then show ?thesis using assms(1,2) by (simp add: work_left_def)
qed

lemma work_left_served:
  assumes "length (n_conns (rp_kernel s')) = length (n_conns (rp_kernel s))" and "n_accepted (rp_kernel s') = n_accepted (rp_kernel s)"
    and "a < length (n_conns (rp_kernel s))" and "needs s q a" and "\<not> needs s' (q @ [t]) a" and "\<And>b. needs s' (q @ [t]) b \<Longrightarrow> needs s q b"
  shows "work_left s' (q @ [t]) < work_left s q"
proof -
  have "length (filter (needs s' (q @ [t])) [0..<length (n_conns (rp_kernel s))]) < length (filter (needs s q) [0..<length (n_conns (rp_kernel s))])"
    by (rule filter_fewer[OF assms(6)]) (use assms(3-5) in auto)
  then show ?thesis using assms(1,2) by (auto simp: work_left_def)
qed

section \<open>A tick\<close>

text \<open>One reported descriptor.\<close>

lemma ready_callback:
  assumes inv: "echo_inv lf s q" and r: "net_ready (rp_kernel s) f"
  shows "f = lf \<and> RBT.lookup (rp_callbacks s) f = Some Listening \<and> n_accepted (rp_kernel s) < length (n_conns (rp_kernel s))
     \<or> (\<exists>a l. f \<noteq> lf \<and> RBT.lookup (rp_callbacks s) f = Some (Link_Ready f a) \<and> e_links s a = Some l \<and> l_fd l = f
          \<and> net_pending (n_conns (rp_kernel s) ! a))"
proof (cases "f = lf")
  case True
  then show ?thesis using inv r by (auto simp: echo_inv_def inv_base_def inv_listen_def net_ready_def split: if_splits)
next
  case False
  then obtain a where a: "n_fds (rp_kernel s) f = Some a" "net_pending (n_conns (rp_kernel s) ! a)" "f \<in> n_watched (rp_kernel s)"
    using inv r by (auto simp: echo_inv_def inv_base_def net_ready_def split: option.splits)
  have "inv_links lf s" using inv by (simp add: echo_inv_def)
  then obtain l where l: "e_links s a = Some l" "l_fd l = f" using a(1) unfolding inv_links_def by blast
  have "RBT.lookup (rp_callbacks s) f = Some (Link_Ready f a)"
    using inv_stageD[of s q a l] inv l a(3) by (auto simp: echo_inv_def link_stage_def)
  then show ?thesis using a l False by blast
qed

text \<open>
  The callback for \<open>f\<close> has led from \<open>s\<close> to \<open>s'\<close>: it has submitted some closures, lowered the work left, and left the other
  descriptors ready that were.
\<close>

definition event_done :: "fd \<Rightarrow> echo \<Rightarrow> echo_task list \<Rightarrow> fd \<Rightarrow> echo \<Rightarrow> bool" where
  "event_done lf s q f s' \<longleftrightarrow> (\<exists>us. waiting s' (q @ us) \<and> echo_inv lf s' (q @ us) \<and> tick \<notin> set us \<and> work_left s' (q @ us) < work_left s q)
     \<and> (\<forall>g. g \<noteq> f \<longrightarrow> net_ready (rp_kernel s) g \<longrightarrow> net_ready (rp_kernel s') g)
     \<and> (f \<noteq> lf \<longrightarrow> net_open (rp_kernel s') = net_open (rp_kernel s)) \<and> clients s' = clients s"

lemma accept_done:
  assumes adm: "admissible lf cli s q" and w: "waiting s q" and ev: "events AND EPOLLIN \<noteq> 0"
  shows "event_done lf s q lf (echo_call os chop cli Listening events s)"
proof -
  let ?n = "n_accepted (rp_kernel s)"
  let ?us = "[Stream ?n (Listen_Read cli), save_task cli ?n]"
  let ?s = "echo_call os chop cli Listening events s"
  have inv: "echo_inv lf s q" and new: "?n < length (n_conns (rp_kernel s))" and cli: "\<not> net_open (rp_kernel s) cli"
    using adm by (simp_all add: admissible_def)
  obtain d where d: "?s = (admit cli s)\<lparr>e_td := d\<rparr>" "waiting ?s (q @ ?us)" "echo_inv lf ?s (q @ ?us)"
    by (rule accept_event[OF adm w ev, of os chop])
  have k: "n_conns (rp_kernel (admit cli s)) = n_conns (rp_kernel s)" "n_accepted (rp_kernel (admit cli s)) = Suc ?n"
    by (simp_all add: admit_def Let_def)
  have "(Suc ?n \<le> b \<or> b = ?n \<or> attended s q b) = (?n \<le> b \<or> attended s q b)" for b by linarith
  then have "needs (admit cli s) (q @ ?us) = needs s q" by (simp only: needs_def k admit_attended[OF adm] fun_eq_iff simp_thms)
  then have "work_left ?s (q @ ?us) < work_left s q" using new unfolding d(1) by (simp add: work_left_def k)
  moreover have "net_ready (rp_kernel ?s) g" if g: "g \<noteq> lf" "net_ready (rp_kernel s) g" for g
  proof -
    have "net_open (rp_kernel s) g" using inv g(2) by (auto simp: echo_inv_def inv_tables_def net_ready_def)
    then have "g \<noteq> cli" using cli by auto
    moreover have "n_listen (rp_kernel s) = lf" using inv by (simp add: echo_inv_def inv_base_def)
    ultimately show ?thesis using g unfolding d(1) by (auto simp: net_ready_def admit_def Let_def split: option.splits)
  qed
  moreover have "clients ?s = clients s" by (simp add: d(1) clients_def k)
  ultimately show ?thesis using d(2,3) unfolding event_done_def by (intro conjI exI[of _ ?us]) simp_all
qed

lemma served_done:
  assumes inv: "echo_inv lf s q" and a: "e_links s a = Some l" "l_fd l = f" and n: "needs s q a"
    and w: "waiting s' (q @ [t])" "echo_inv lf s' (q @ [t])" "t \<noteq> tick" and no: "\<not> needs s' (q @ [t]) a"
    and lv: "\<And>b. attended s' (q @ [t]) b \<Longrightarrow> attended s q b"
    and k: "rp_kernel s' = (upd_conn a (\<lambda>c. c\<lparr>cn_unread := []\<rparr>) (rp_kernel s))\<lparr>n_watched := W\<rparr>"
      "W = n_watched (rp_kernel s) \<or> W = n_watched (rp_kernel s) - {f}"
  shows "event_done lf s q f s'"
proof -
  note p = echo_inv_link[OF inv a(1)]
  have links: "inv_links lf s" using inv by (simp add: echo_inv_def)
  have inj: "b \<noteq> a" if "n_fds (rp_kernel s) g = Some b" "g \<noteq> f" for g b
    using links that a unfolding inv_links_def by (metis option.inject)
  have "needs s' (q @ [t]) b \<Longrightarrow> needs s q b" for b
    using no lv[of b] by (cases "b = a") (auto simp: needs_def k(1) upd_conn_def)
  then have "work_left s' (q @ [t]) < work_left s q"
    by (intro work_left_served[OF _ _ p(4) n no]) (simp_all add: k(1) upd_conn_def)
  moreover have "net_ready (rp_kernel s') g" if "g \<noteq> f" "net_ready (rp_kernel s) g" for g
    using that inj[of g] k(2) unfolding k(1) by (auto simp: net_ready_def upd_conn_def split: option.splits if_splits)
  moreover have "net_open (rp_kernel s') = net_open (rp_kernel s)" by (simp add: k(1) net_open_def upd_conn_def fun_eq_iff)
  moreover have "clients s' = clients s" by (simp add: clients_def k(1) clients_upd)
  ultimately show ?thesis using w unfolding event_done_def by (intro conjI exI[of _ "[t]"]) simp_all
qed

lemma link_done:
  assumes inv: "echo_inv lf s q" and w: "waiting s q" and cb: "RBT.lookup (rp_callbacks s) f = Some (Link_Ready f a)"
    and ev: "events AND EPOLLIN \<noteq> 0" and c: "chops chop" and pend: "net_pending (n_conns (rp_kernel s) ! a)"
  shows "event_done lf s q f (echo_call (net_os es) chop cli (Link_Ready f a) events s)" (is "event_done lf s q f ?s")
proof -
  obtain l where l: "e_links s a = Some l" "l_fd l = f" and lv: "attended s q a" and nl: "Stream a (Listen_Read f) \<notin> set q"
    by (rule registered_link[OF inv cb])
  have n: "needs s q a" using lv pend by (simp add: needs_def)
  note p = echo_inv_link[OF inv l(1)]
  show ?thesis
  proof (cases "cn_eof (n_conns (rp_kernel s) ! a)")
    case True
    obtain d where d: "?s = s\<lparr>rp_kernel := (upd_conn a (\<lambda>c. c\<lparr>cn_unread := []\<rparr>) (rp_kernel s))\<lparr>n_watched := n_watched (rp_kernel s) - {f}\<rparr>,
        e_td := d, rp_callbacks := RBT.delete f (rp_callbacks s)\<rparr>" "waiting ?s (q @ [take_task f])" "echo_inv lf ?s (q @ [take_task f])"
      by (rule close_event[OF inv w cb ev c True])
    have "\<not> attended ?s (q @ [take_task f]) a" using nl l unfolding d(1) by (simp add: attended_def)
    then have no: "\<not> needs ?s (q @ [take_task f]) a" using p(5) unfolding needs_def by (simp add: d(1) upd_conn_def)
    have lv: "attended s q b" if "attended ?s (q @ [take_task f]) b" for b using that unfolding d(1) by (auto simp: attended_def)
    have k: "rp_kernel ?s = (upd_conn a (\<lambda>c. c\<lparr>cn_unread := []\<rparr>) (rp_kernel s))\<lparr>n_watched := n_watched (rp_kernel s) - {f}\<rparr>" by (simp add: d(1))
    show ?thesis by (rule served_done[OF inv l n d(2,3) _ no lv k disjI2[OF refl]]) simp_all
  next
    case False
    let ?t = "Stream a (Send_Msg (cn_unread (n_conns (rp_kernel s) ! a)))"
    have u: "cn_unread (n_conns (rp_kernel s) ! a) \<noteq> []" using False pend by (simp add: net_pending_def)
    obtain d where d: "?s = s\<lparr>rp_kernel := upd_conn a (\<lambda>c. c\<lparr>cn_unread := []\<rparr>) (rp_kernel s), e_td := d\<rparr>" "waiting ?s (q @ [?t])" "echo_inv lf ?s (q @ [?t])"
      by (rule read_event[OF inv w cb ev c refl u False])
    have no: "\<not> needs ?s (q @ [?t]) a" using False p(4) by (simp add: needs_def d(1) upd_conn_def net_pending_def)
    have lv: "attended s q b" if "attended ?s (q @ [?t]) b" for b using that unfolding d(1) by (simp add: attended_def upd_conn_def)
    have k: "rp_kernel ?s = (upd_conn a (\<lambda>c. c\<lparr>cn_unread := []\<rparr>) (rp_kernel s))\<lparr>n_watched := n_watched (rp_kernel s)\<rparr>"
      by (simp add: d(1) upd_conn_def)
    show ?thesis by (rule served_done[OF inv l n d(2,3) _ no lv k disjI1[OF refl]]) simp_all
  qed
qed

lemma event_inv:
  assumes inv: "echo_inv lf s q" and w: "waiting s q" and r: "net_ready (rp_kernel s) f" and ev: "events AND EPOLLIN \<noteq> 0"
    and c: "chops chop" and cli: "0 < cli" "f = lf \<Longrightarrow> \<not> net_open (rp_kernel s) cli"
    and cb: "RBT.lookup (rp_callbacks s) f = Some cb"
  shows "event_done lf s q f (echo_call (net_os es) chop cli cb events s)"
proof -
  consider (listen) "f = lf" "cb = Listening" "n_accepted (rp_kernel s) < length (n_conns (rp_kernel s))"
    | (link) a where "cb = Link_Ready f a" "net_pending (n_conns (rp_kernel s) ! a)"
    using ready_callback[OF inv r] cb by auto
  then show ?thesis
  proof cases
    case listen
    have "admissible lf cli s q" using inv listen cli by (simp add: admissible_def)
    from accept_done[OF this w ev] show ?thesis using listen by simp
  next
    case link
    from link_done[OF inv w cb[unfolded link(1)] ev c link(2)] show ?thesis using link(1) by simp
  qed
qed

lemma dispatch_inv:
  assumes "echo_inv lf s q" and "waiting s q" and "\<forall>x \<in> set evs. net_ready (rp_kernel s) (fst x) \<and> snd x AND EPOLLIN \<noteq> 0"
    and "distinct (map fst evs)" and "chops chop" and "0 < cli" and "lf \<in> fst ` set evs \<Longrightarrow> \<not> net_open (rp_kernel s) cli"
  shows "\<exists>us. waiting (dispatch_events (echo_call (net_os es) chop cli) evs s) (q @ us)
     \<and> echo_inv lf (dispatch_events (echo_call (net_os es) chop cli) evs s) (q @ us) \<and> tick \<notin> set us
     \<and> work_left (dispatch_events (echo_call (net_os es) chop cli) evs s) (q @ us) + length evs \<le> work_left s q
     \<and> clients (dispatch_events (echo_call (net_os es) chop cli) evs s) = clients s"
  using assms(1-4,7)
proof (induction evs arbitrary: s q)
  case Nil
  then show ?case by (intro exI[of _ "[]"]) simp
next
  case (Cons x evs)
  obtain f events where x: "x = (f, events)" by fastforce
  have r: "net_ready (rp_kernel s) f" "events AND EPOLLIN \<noteq> 0" using Cons.prems(3) x by simp_all
  obtain cb where cb: "RBT.lookup (rp_callbacks s) f = Some cb" using ready_callback[OF Cons.prems(1) r(1)] by blast
  let ?s = "echo_call (net_os es) chop cli cb events s"
  have fresh: "f = lf \<Longrightarrow> \<not> net_open (rp_kernel s) cli" using Cons.prems(5) x by simp
  have "event_done lf s q f ?s" by (rule event_inv[OF Cons.prems(1,2) r assms(5,6) fresh cb])
  then obtain us where u: "waiting ?s (q @ us)" "echo_inv lf ?s (q @ us)" "tick \<notin> set us" "work_left ?s (q @ us) < work_left s q"
    "\<And>g. g \<noteq> f \<Longrightarrow> net_ready (rp_kernel s) g \<Longrightarrow> net_ready (rp_kernel ?s) g"
    "f \<noteq> lf \<Longrightarrow> net_open (rp_kernel ?s) = net_open (rp_kernel s)" "clients ?s = clients s"
    unfolding event_done_def by blast
  have nf: "f \<notin> fst ` set evs" using Cons.prems(4) x by simp
  have "\<forall>y \<in> set evs. net_ready (rp_kernel ?s) (fst y) \<and> snd y AND EPOLLIN \<noteq> 0"
  proof
    fix y assume y: "y \<in> set evs"
    then have "fst y \<noteq> f" using nf by auto
    then show "net_ready (rp_kernel ?s) (fst y) \<and> snd y AND EPOLLIN \<noteq> 0" using u(5)[of "fst y"] Cons.prems(3) y by simp
  qed
  moreover have "\<not> net_open (rp_kernel ?s) cli" if "lf \<in> fst ` set evs"
  proof -
    have "f \<noteq> lf" "\<not> net_open (rp_kernel s) cli" using that nf Cons.prems(5) by auto
    then show ?thesis using u(6) by simp
  qed
  ultimately obtain vs where "waiting (dispatch_events (echo_call (net_os es) chop cli) evs ?s) ((q @ us) @ vs)"
    "echo_inv lf (dispatch_events (echo_call (net_os es) chop cli) evs ?s) ((q @ us) @ vs)" "tick \<notin> set vs"
    "work_left (dispatch_events (echo_call (net_os es) chop cli) evs ?s) ((q @ us) @ vs) + length evs \<le> work_left ?s (q @ us)"
    "clients (dispatch_events (echo_call (net_os es) chop cli) evs ?s) = clients ?s"
    using Cons.IH[OF u(2,1)] Cons.prems(4) x by auto
  then show ?case using x cb u(3,4,7) by (intro exI[of _ "us @ vs"]) auto
qed

lemma reported_entries:
  assumes "net_reports k es"
  shows "distinct (map fst (RBT.entries (fold merge_event es RBT.empty)))"
    and "\<forall>x \<in> set (RBT.entries (fold merge_event es RBT.empty)). net_ready k (fst x) \<and> snd x AND EPOLLIN \<noteq> 0"
    and "RBT.entries (fold merge_event es RBT.empty) = [] \<longleftrightarrow> es = []"
proof -
  let ?evs = "fold merge_event es RBT.empty :: (int, u32) rbt"
  show "distinct (map fst (RBT.entries ?evs))" by (simp add: RBT.distinct_entries)
  have lk: "RBT.lookup ?evs f = merged None (map snd (filter (\<lambda>pe. fst pe = f) es))" for f by (simp add: merge_events_lookup)
  have one: "RBT.lookup ?evs f = map_of es f" for f
  proof (cases "f \<in> fst ` set es")
    case True
    then obtain e where e: "(f, e) \<in> set es" by force
    have d: "distinct (map fst es)" using assms by (simp add: net_reports_def)
    then have "filter (\<lambda>pe. fst pe = f) es = [(f, e)]" using e by (induction es) (auto simp: filter_empty_conv image_iff)
    then show ?thesis using e d lk[of f] by (simp add: merged_def)
  next
    case False
    then have "filter (\<lambda>pe. fst pe = f) es = []" by (auto simp: filter_empty_conv)
    moreover have "map_of es f = None" using False by (simp add: map_of_eq_None_iff)
    ultimately show ?thesis using lk[of f] by (simp add: merged_def)
  qed
  show "\<forall>x \<in> set (RBT.entries ?evs). net_ready k (fst x) \<and> snd x AND EPOLLIN \<noteq> 0"
  proof
    fix x assume "x \<in> set (RBT.entries ?evs)"
    then have "RBT.lookup ?evs (fst x) = Some (snd x)" by (simp add: RBT.lookup_in_tree)
    then have "x \<in> set es" using one[of "fst x"] map_of_SomeD[of es "fst x" "snd x"] by simp
    then show "net_ready k (fst x) \<and> snd x AND EPOLLIN \<noteq> 0" using assms by (auto simp: net_reports_def)
  qed
  show "RBT.entries ?evs = [] \<longleftrightarrow> es = []"
  proof
    assume "RBT.entries ?evs = []"
    then have "map_of es f = None" for f using one[of f] RBT.lookup_in_tree[of ?evs f] by (cases "map_of es f") simp_all
    then show "es = []" using map_of_eq_empty_iff[of es] by (simp add: fun_eq_iff)
  qed (simp add: entries_keys)
qed

text \<open>No event is posted by hand, so that \<open>work\<close> runs the loop over the reported events whenever a callback is registered.\<close>

lemma work_dispatches:
  assumes inv: "echo_inv lf s q" and rep: "net_reports (rp_kernel s) es"
  shows "RePoller_work (net_os es) call 2 s = Some (Inr (dispatch_events call (RBT.entries (fold merge_event es RBT.empty)) s))"
proof -
  have b: "rp_customEvents s = RBT.empty" using inv by (simp add: echo_inv_def inv_base_def)
  have id: "s\<lparr>rp_customEvents := RBT.empty\<rparr> = s" using b by (metis RePoller.surjective RePoller.update_convs(4) b)
  show ?thesis
  proof (cases "RBT.keys (rp_callbacks s) = []")
    case True
    have "es = []"
    proof (rule ccontr)
      assume "es \<noteq> []"
      then obtain x where "net_ready (rp_kernel s) (fst x)" using rep by (cases es) (auto simp: net_reports_def)
      then obtain cb where "RBT.lookup (rp_callbacks s) (fst x) = Some cb" using ready_callback[OF inv] by blast
      then show False using True by (metis RBT.lookup_keys domI empty_iff list.set(1))
    qed
    then show ?thesis using True b by (simp add: id RePoller_work_def Epoll_wait_def net_os_def first_key_def dispatch_callbacks.simps entries_keys)
  next
    case False
    have "length es \<le> 300" using rep by (simp add: net_reports_def)
    then show ?thesis using False b by (simp add: id RePoller_work_def Epoll_wait_def net_os_def)
  qed
qed

lemma tick_inv:
  assumes inv: "echo_inv lf s q" and w: "waiting s q" and rep: "net_reports (rp_kernel s) es" and c: "chops chop"
    and cli: "0 < cli" "\<not> net_open (rp_kernel s) cli"
  obtains s' us where "echo_poller (net_os es) chop cli (Tick 2) s = Some s'" and "waiting s' (q @ us @ [tick])"
    and "echo_inv lf s' (q @ us @ [tick])" and "tick \<notin> set us" and "work_left s' (q @ us @ [tick]) \<le> work_left s q"
    and "es \<noteq> [] \<Longrightarrow> work_left s' (q @ us @ [tick]) < work_left s q" and "clients s' = clients s"
proof -
  let ?evs = "fold merge_event es RBT.empty :: (int, u32) rbt"
  let ?call = "echo_call (net_os es) chop cli"
  let ?s = "dispatch_events ?call (RBT.entries ?evs) s"
  note ent = reported_entries[OF rep]
  obtain us where u: "waiting ?s (q @ us)" "echo_inv lf ?s (q @ us)" "tick \<notin> set us"
    "work_left ?s (q @ us) + length (RBT.entries ?evs) \<le> work_left s q" "clients ?s = clients s"
    using dispatch_inv[OF inv w ent(2,1) c cli(1), of es] cli(2) by auto
  have sh: "\<not> rp_shutdown ?s" using u(2) by (simp add: echo_inv_def inv_base_def)
  obtain d where d: "echo_submit tick ?s = (True, ?s\<lparr>e_td := d\<rparr>)" "waiting (?s\<lparr>e_td := d\<rparr>) ((q @ us) @ [tick])"
    by (rule submit_waiting[OF u(1)])
  have m: "work_left (?s\<lparr>e_td := d\<rparr>) (q @ us @ [tick]) = work_left ?s (q @ us)" using work_left_tick(2)[of ?s "q @ us"] by simp
  show thesis
  proof (rule that)
    show "echo_poller (net_os es) chop cli (Tick 2) s = Some (?s\<lparr>e_td := d\<rparr>)"
      using work_dispatches[OF inv rep, of ?call] sh d(1) by (simp add: echo_poller_def)
    show "waiting (?s\<lparr>e_td := d\<rparr>) (q @ us @ [tick])" using d(2) by simp
    show "echo_inv lf (?s\<lparr>e_td := d\<rparr>) (q @ us @ [tick])" using u(2) echo_inv_tick(2)[of lf ?s "q @ us"] by simp
    show "clients (?s\<lparr>e_td := d\<rparr>) = clients s" using u(5) by (simp add: clients_def)
    show "work_left (?s\<lparr>e_td := d\<rparr>) (q @ us @ [tick]) \<le> work_left s q" using u(4) m by simp
    show "work_left (?s\<lparr>e_td := d\<rparr>) (q @ us @ [tick]) < work_left s q" if "es \<noteq> []"
    proof -
      have "0 < length (RBT.entries ?evs)" using ent(3) that by simp
      then show ?thesis using u(4) m by linarith
    qed
  qed (rule u(3))
qed

section \<open>Steps\<close>

text \<open>A closure other than the tick, at the head of the tasks that wait.\<close>

definition closure_done :: "fd \<Rightarrow> echo \<Rightarrow> echo_task \<Rightarrow> echo_task list \<Rightarrow> echo \<Rightarrow> bool" where
  "closure_done lf s t q s' \<longleftrightarrow> waiting s' q \<and> echo_inv lf s' q \<and> work_left s' q < work_left s (t # q) \<and> clients s' = clients s"

lemma closure_doneI:
  assumes "waiting s q" and "e_td s' = e_td s" and "e_batch s' = e_batch s" and "echo_inv lf s' q" and "t \<noteq> tick"
    and "n_accepted (rp_kernel s') = n_accepted (rp_kernel s)" and "clients s' = clients s"
    and "map net_pending (n_conns (rp_kernel s')) = map net_pending (n_conns (rp_kernel s))" and "attended s' q = attended s (t # q)"
  shows "closure_done lf s t q s'"
proof -
  have l: "length (n_conns (rp_kernel s')) = length (n_conns (rp_kernel s))" using arg_cong[OF assms(8), of length] by simp
  have "net_pending (n_conns (rp_kernel s') ! b) = net_pending (n_conns (rp_kernel s) ! b)" if "b < length (n_conns (rp_kernel s))" for b
    using arg_cong[OF assms(8), of "\<lambda>xs. xs ! b"] that l by simp
  then have "work_left s' q < work_left s (t # q)"
    using work_left_same[OF l assms(6), of q "t # q"] assms(5,6,9) by (simp add: needs_def)
  then show ?thesis using assms(1-4,7) by (simp add: closure_done_def waiting_def)
qed

lemma pending_upd:
  assumes "\<And>c. net_pending (g c) = net_pending c"
  shows "map net_pending (n_conns (upd_conn a g k)) = map net_pending (n_conns k)"
proof (rule nth_equalityI)
  show "map net_pending (n_conns (upd_conn a g k)) ! i = map net_pending (n_conns k) ! i"
    if "i < length (map net_pending (n_conns (upd_conn a g k)))" for i
    using assms that by (cases "a = i") (simp_all add: upd_conn_def)
qed (simp add: upd_conn_def)

lemma register_done:
  assumes inv: "echo_inv lf s (Accepting (Accept_On lf EPOLLIN) # q)" and w: "waiting s q"
  shows "closure_done lf s (Accepting (Accept_On lf EPOLLIN)) q (echo_accepting (net_os es) (Accept_On lf EPOLLIN) s)"
proof -
  note r = register_task_inv[OF inv, of es]
  have fd: "l_fd l \<noteq> lf" if "e_links s b = Some l" for b l using echo_inv_link(2)[OF inv that] .
  show ?thesis
    by (rule closure_doneI[OF w]) (use r(2) fd in \<open>auto simp: r(1) clients_def attended_def fun_eq_iff\<close>)
qed

lemma stream_done:
  assumes inv: "echo_inv lf s (Stream a u # q)" and w: "waiting s q" and a: "e_links s a = Some l"
  shows "closure_done lf s (Stream a u) q (echo_stream (net_os es) a u s)"
proof -
  have links: "inv_links lf s" using inv by (simp add: echo_inv_def)
  have "concerns a (l_fd l) (Stream a u)" by simp
  then consider (listen) "u = Listen_Read (l_fd l)" | (send) m where "u = Send_Msg m"
    using stage_stream[OF head_stage[OF inv a]] by blast
  then show ?thesis
  proof cases
    case listen
    note r = listen_task_inv[OF inv[unfolded listen] a, of es]
    have "attended (echo_stream (net_os es) a u s) q c = attended s (Stream a u # q) c" for c
      using a link_fd_other[OF links a, of c] unfolding listen r(1) by (cases "c = a") (auto simp: attended_def)
    then show ?thesis
      unfolding listen using r(2) by (intro closure_doneI[OF w]) (simp_all add: r(1) clients_def fun_eq_iff)
  next
    case (send m)
    note r = send_task_inv[OF inv[unfolded send] a, of es]
    have "attended (echo_stream (net_os es) a u s) q = attended s (Stream a u # q)"
      unfolding send r(1) by (simp add: attended_def fun_eq_iff upd_conn_def)
    moreover have "map net_pending (n_conns (rp_kernel (echo_stream (net_os es) a u s))) = map net_pending (n_conns (rp_kernel s))"
      unfolding send r(1) by (simp add: pending_upd net_pending_def)
    moreover have "clients (echo_stream (net_os es) a u s) = clients s" unfolding send r(1) by (simp add: clients_def clients_upd)
    ultimately show ?thesis
      unfolding send using r(2) by (intro closure_doneI[OF w]) (simp_all add: r(1) upd_conn_def)
  qed
qed

lemma object_done:
  assumes inv: "echo_inv lf s (Poller p # q)" and w: "waiting s q" and a: "e_links s a = Some l" and c: "concerns a (l_fd l) (Poller p)"
  obtains s' where "echo_poller os chop cli p s = Some s'" and "closure_done lf s (Poller p) q s'"
proof (cases p)
  case (Tick ms)
  then show thesis using c by simp
next
  case (Save_Object f force b u)
  note r = save_task_inv[OF inv[unfolded Save_Object] a c[unfolded Save_Object]]
  have "closure_done lf s (Poller p) q (run_save echo_cbo f force b u s)"
    by (rule closure_doneI[OF w _ _ r(2)]; (unfold r(1))?) (simp_all add: Save_Object clients_def attended_def fun_eq_iff)
  then show thesis using that Save_Object by (simp add: echo_poller_def)
next
  case (Find_Object f tk u)
  note r = take_task_inv[OF inv[unfolded Find_Object] a c[unfolded Find_Object]]
  have "closure_done lf s (Poller p) q (run_find echo_cbo f tk u s)"
    by (rule closure_doneI[OF w _ _ r(2)]; (unfold r(1))?) (simp_all add: Find_Object clients_def attended_def fun_eq_iff)
  then show thesis using that Find_Object by (simp add: echo_poller_def)
qed

lemma closure_inv:
  assumes inv: "echo_inv lf s (t # q)" and w: "waiting s q" and t: "t \<noteq> tick"
  obtains s' where "echo_run (net_os es) chop cli t s = Some s'" and "closure_done lf s t q s'"
proof -
  consider (accepting) "t = Accepting (Accept_On lf EPOLLIN)" | (link) a l where "e_links s a = Some l" "concerns a (l_fd l) t"
    using inv t by (auto simp: echo_inv_def inv_tasks_def)
  then show thesis
  proof cases
    case accepting
    from register_done[OF inv[unfolded accepting] w, of es] show thesis using that accepting by (simp add: echo_run_def)
  next
    case (link a l)
    show thesis
    proof (cases t)
      case (Stream b u)
      then have "b = a" using link(2) by simp
      then show thesis using that stream_done[of lf s a u q l es] inv w link(1) Stream by (simp add: echo_run_def)
    next
      case (Poller p)
      from object_done[OF inv[unfolded Poller] w link(1) link(2)[unfolded Poller], of "net_os es" chop cli] show thesis
        using that Poller by (auto simp: echo_run_def)
    next
      case (Accepting u)
      then show thesis using link(2) by simp
    qed
  qed
qed

text \<open>
  A rank that every step of the worker lowers as long as work is left: the work, whether a tick is next, whether a batch must be
  fetched, and how many streams are alive.
\<close>

definition echo_rank :: "echo \<Rightarrow> nat \<times> nat \<times> nat \<times> nat" where
  "echo_rank s = (work_left s (echo_tasks s), (if take 1 (echo_tasks s) = [tick] then 1 else 0), (if e_batch s = [] then 1 else 0),
     card (dom (e_links s)))"

definition rank_less :: "((nat \<times> nat \<times> nat \<times> nat) \<times> (nat \<times> nat \<times> nat \<times> nat)) set" where
  "rank_less = less_than <*lex*> less_than <*lex*> less_than <*lex*> less_than"

lemma wf_rank_less: "wf rank_less"
  by (auto simp: rank_less_def intro!: wf_lex_prod)

text \<open>A tick that is alone in the queue and finds nothing ready has nothing to do, nor has the server.\<close>

lemma quiet_idle:
  assumes inv: "echo_inv lf s q" and q: "\<forall>t \<in> set q. t = tick" and r: "\<forall>f. \<not> net_ready (rp_kernel s) f"
  shows "work_left s q = 0"
proof -
  have b: "n_listen (rp_kernel s) = lf" using inv by (simp add: echo_inv_def inv_base_def)
  have "Accepting (Accept_On lf EPOLLIN) \<notin> set q" using q by auto
  then have "lf \<in> n_watched (rp_kernel s)" using inv by (simp add: echo_inv_def inv_listen_def)
  then have acc: "length (n_conns (rp_kernel s)) \<le> n_accepted (rp_kernel s)" using r b by (auto simp: net_ready_def)
  have "\<not> needs s q a" if "a < length (n_conns (rp_kernel s))" for a
  proof
    assume n: "needs s q a"
    then have "attended s q a" using that acc by (simp add: needs_def)
    then obtain l where l: "e_links s a = Some l" "l_fd l \<in> n_watched (rp_kernel s)" using q by (auto simp: attended_def)
    then have "net_ready (rp_kernel s) (l_fd l)" using n b echo_inv_link(2,3)[OF inv l(1)] by (simp add: net_ready_def needs_def)
    then show False using r by blast
  qed
  then show ?thesis using acc q by (auto simp: work_left_def filter_empty_conv)
qed

lemma one_tick: "length (filter (\<lambda>t. t = tick) (tick # q)) = 1 \<Longrightarrow> tick \<notin> set q"
  by (auto simp: filter_empty_conv)

definition step_done :: "fd \<Rightarrow> echo \<Rightarrow> echo \<Rightarrow> bool" where
  "step_done lf s s' \<longleftrightarrow> echo_ok lf s' \<and> (0 < work_left s (echo_tasks s) \<longrightarrow> (echo_rank s', echo_rank s) \<in> rank_less)
     \<and> work_left s' (echo_tasks s') \<le> work_left s (echo_tasks s) \<and> clients s' = clients s"

lemma closure_step:
  assumes q: "echo_tasks s = t # q" "length (filter (\<lambda>t. t = tick) (t # q)) = 1" "t \<noteq> tick"
    and c: "closure_done lf (s\<lparr>e_batch := ts\<rparr>) t q s'"
  shows "step_done lf s s'"
  using assms waiting_tasks[of s' q] by (auto simp: step_done_def closure_done_def echo_ok_def echo_rank_def rank_less_def clients_def)

lemma tick_step:
  assumes q: "waiting s (tick # q)" "echo_inv lf s (tick # q)" "tick \<notin> set q" and b: "e_batch s = Some tick # ts" "waiting (s\<lparr>e_batch := ts\<rparr>) q"
    and rep: "net_reports (rp_kernel s) es" and c: "chops chop" and cli: "0 < cli" "\<not> net_open (rp_kernel s) cli"
  obtains s' where "echo_poller (net_os es) chop cli (Tick 2) (s\<lparr>e_batch := ts\<rparr>) = Some s'" and "step_done lf s s'"
proof -
  have qs: "echo_tasks s = tick # q" by (rule waiting_tasks[OF q(1)])
  have k: "echo_inv lf (s\<lparr>e_batch := ts\<rparr>) q" "net_reports (rp_kernel (s\<lparr>e_batch := ts\<rparr>)) es" "\<not> net_open (rp_kernel (s\<lparr>e_batch := ts\<rparr>)) cli"
    using q(2) rep cli(2) by simp_all
  obtain s' us where s': "echo_poller (net_os es) chop cli (Tick 2) (s\<lparr>e_batch := ts\<rparr>) = Some s'" "waiting s' (q @ us @ [tick])"
    "echo_inv lf s' (q @ us @ [tick])" "tick \<notin> set us" "work_left s' (q @ us @ [tick]) \<le> work_left (s\<lparr>e_batch := ts\<rparr>) q"
    "es \<noteq> [] \<Longrightarrow> work_left s' (q @ us @ [tick]) < work_left (s\<lparr>e_batch := ts\<rparr>) q" "clients s' = clients (s\<lparr>e_batch := ts\<rparr>)"
    by (rule tick_inv[OF k(1) b(2) k(2) c cli(1) k(3)]) (rule that; (assumption | blast))
  have t': "echo_tasks s' = q @ us @ [tick]" by (rule waiting_tasks[OF s'(2)])
  have "echo_ok lf s'"
    using s'(2,3,4) q(3) unfolding echo_ok_def by (intro exI[of _ "q @ us @ [tick]"]) (auto simp: filter_empty_conv)
  moreover have "(echo_rank s', echo_rank s) \<in> rank_less" if pos: "0 < work_left s (echo_tasks s)"
  proof (cases "es = []")
    case es: True
    have "q @ us \<noteq> []" using quiet_idle[OF q(2)] rep es pos qs by (auto simp: net_reports_def)
    then have "take 1 (q @ us @ [tick]) \<noteq> [tick]" using q(3) s'(4) by (cases q; cases us) auto
    then show ?thesis using s'(5) t' qs by (auto simp: echo_rank_def rank_less_def)
  qed (use s'(6) t' qs in \<open>simp add: echo_rank_def rank_less_def\<close>)
  ultimately have "step_done lf s s'" using s'(5,7) t' qs by (simp add: step_done_def clients_def)
  then show thesis using that s'(1) by blast
qed

lemma fetch_step:
  assumes q: "waiting s q" "echo_inv lf s q" "length (filter (\<lambda>t. t = tick) q) = 1" and b: "e_batch s = []" "work_take 0 (e_td s) = (b, d)"
  shows "step_done lf s (s\<lparr>e_td := d, e_batch := b\<rparr>)"
proof -
  have "q \<noteq> []" using q(3) by auto
  note f = fetch_waiting[OF q(1) b]
  have "echo_inv lf (s\<lparr>e_td := d, e_batch := b\<rparr>) q" using q(2) by simp
  then show ?thesis
    using f q(3) \<open>q \<noteq> []\<close> b(1) waiting_tasks[OF f(1)] waiting_tasks[OF q(1)]
    by (auto simp: step_done_def echo_ok_def echo_rank_def rank_less_def clients_def)
qed

lemma release_step:
  assumes q: "waiting s q" "echo_inv lf s q" "length (filter (\<lambda>t. t = tick) q) = 1" and a: "e_links s a = Some l" "\<not> referenced s a"
  shows "step_done lf s (echo_release a l s)" (is "step_done lf s ?s")
proof -
  have "disposable lf s q a l" using q(1,2) a by (simp add: disposable_def)
  note r = release_inv[OF this]
  have k: "n_conns (rp_kernel ?s) = n_conns (rp_kernel s)" "n_accepted (rp_kernel ?s) = n_accepted (rp_kernel s)"
    "e_batch ?s = e_batch s" "e_links ?s = (e_links s)(a := None)"
    unfolding r(1) by (simp_all add: discard_def)
  have "needs ?s q = needs s q" by (simp add: needs_def fun_eq_iff k r(4))
  then have w: "work_left ?s q = work_left s q" by (simp add: work_left_def k)
  have "dom (e_links s) \<subseteq> {..<e_next s}" using q(2) by (auto simp: echo_inv_def inv_links_def)
  then have "finite (dom (e_links s))" by (rule finite_subset) simp
  then have "card (dom (e_links ?s)) < card (dom (e_links s))" using a(1) unfolding k(4) by (auto intro!: psubset_card_mono)
  moreover have "clients ?s = clients s" by (simp add: clients_def k)
  ultimately show ?thesis
    using r(2,3) q(3) w waiting_tasks[OF q(1)] waiting_tasks[OF r(3)] k(3) by (auto simp: step_done_def echo_ok_def echo_rank_def rank_less_def)
qed

lemma call_step:
  assumes q: "waiting s q" "echo_inv lf s q" "length (filter (\<lambda>t. t = tick) q) = 1" and b: "e_batch s = Some t # ts"
    and rep: "net_reports (rp_kernel s) es" and c: "chops chop" and cli: "0 < cli" "\<not> net_open (rp_kernel s) cli"
  obtains s' where "echo_run (net_os es) chop cli t (s\<lparr>e_batch := ts\<rparr>) = Some s'" and "step_done lf s s'"
proof -
  obtain q' where q': "q = t # q'" "waiting (s\<lparr>e_batch := ts\<rparr>) q'" by (rule waiting_call[OF q(1) b])
  show thesis
  proof (cases "t = tick")
    case True
    have "tick \<notin> set q'" using q(3) q'(1) True one_tick by simp
    from tick_step[OF q(1,2)[unfolded q'(1) True] this b[unfolded True] q'(2) rep c cli] show thesis
      using that True by (auto simp: echo_run_def)
  next
    case False
    have "echo_inv lf (s\<lparr>e_batch := ts\<rparr>) (t # q')" using q(2) q'(1) by simp
    from closure_inv[OF this q'(2) False, of es chop cli] obtain s' where
      s': "echo_run (net_os es) chop cli t (s\<lparr>e_batch := ts\<rparr>) = Some s'" "closure_done lf (s\<lparr>e_batch := ts\<rparr>) t q' s'" by blast
    from closure_step[OF _ _ False s'(2)] show thesis using that[OF s'(1)] waiting_tasks[OF q(1)] q(3) q'(1) by simp
  qed
qed

lemma worker_ok:
  assumes step: "serve_step s s'" and ok: "echo_ok lf s"
  shows "step_done lf s s'"
proof -
  obtain q where q: "waiting s q" "echo_inv lf s q" "length (filter (\<lambda>t. t = tick) q) = 1" using ok by (auto simp: echo_ok_def)
  from step show ?thesis
  proof cases
    case (fetch b d)
    then show ?thesis using fetch_step[OF q] by simp
  next
    case (call t ts es chop cli)
    from call_step[OF q call(1-5)] obtain s1 where "echo_run (net_os es) chop cli t (s\<lparr>e_batch := ts\<rparr>) = Some s1" "step_done lf s s1" by blast
    then show ?thesis using call(6) by simp
  next
    case (release a l)
    then show ?thesis using release_step[OF q] by simp
  qed
qed

lemma worker_keeps_ok: "serve_step s s' \<Longrightarrow> echo_ok lf s \<Longrightarrow> echo_ok lf s'"
  using worker_ok[of s s' lf] by (simp add: step_done_def)

text \<open>The worker can always go on, whatever the kernel answers.\<close>

lemma net_answers:
  assumes "finite (dom (n_fds k))"
  obtains es chop cli where "net_reports k es" and "chops chop" and "0 < cli" and "\<not> net_open k cli"
proof -
  have "\<exists>es. net_reports k es"
  proof (cases "\<exists>f. net_ready k f")
    case True
    then obtain f where "net_ready k f" by blast
    then have "net_reports k [(f, EPOLLIN)]" by (simp add: net_reports_def EPOLLIN_def)
    then show ?thesis by blast
  next
    case False
    then have "net_reports k []" by (simp add: net_reports_def)
    then show ?thesis by blast
  qed
  then obtain es where es: "net_reports k es" by blast
  have chop: "chops (map (\<lambda>b. [b]))" by (simp add: chops_def list_all_iff)
  let ?A = "insert 0 (insert (n_listen k) (dom (n_fds k)))"
  have "finite ?A" using assms by simp
  then have m: "x \<le> Max ?A" if "x \<in> ?A" for x using that by (rule Max_ge)
  have cli: "0 < 1 + Max ?A" "1 + Max ?A \<notin> ?A" using m[of 0] m[of "1 + Max ?A"] by auto
  then have "\<not> net_open k (1 + Max ?A)" by (auto simp: net_open_def)
  then show thesis using that[OF es chop cli(1)] by blast
qed

lemma worker_enabled:
  assumes "echo_ok lf s"
  shows "\<exists>s'. serve_step s s'"
proof -
  obtain q where q: "waiting s q" "echo_inv lf s q" "length (filter (\<lambda>t. t = tick) q) = 1" using assms by (auto simp: echo_ok_def)
  show ?thesis
  proof (cases "e_batch s")
    case Nil
    have "\<not> td_exit (e_td s)" using q(1) tasks_wait_runs by (auto simp: waiting_def)
    then show ?thesis using serve_step.fetch[of s] Nil by (metis prod.exhaust)
  next
    case (Cons x ts)
    then obtain t where b: "e_batch s = Some t # ts" using q(1) tasks_wait_batch by (fastforce simp: waiting_def)
    have "finite (dom (n_fds (rp_kernel s)))" using q(2) by (simp add: echo_inv_def inv_links_def)
    then obtain es chop cli where k: "net_reports (rp_kernel s) es" "chops chop" "0 < cli" "\<not> net_open (rp_kernel s) cli" by (rule net_answers)
    from call_step[OF q b k] show ?thesis using serve_step.call[OF b k] by blast
  qed
qed

section \<open>Start\<close>

definition net_start :: "fd \<Rightarrow> net" where
  "net_start f = \<lparr>n_conns = [], n_accepted = 0, n_fds = Map.empty, n_listen = f, n_watched = {}\<rparr>"

lemma testTcpServer_starts:
  assumes "0 < lf"
  obtains s where "testTcpServer ids 0 0 0 efd lf (net_start lf) = Inr s" and "echo_ok lf s" and "rp_kernel s = net_start lf"
proof -
  define td where "td = (snd (TaskDistributor_start ids (TaskDistributor_ctor 4)) :: echo_task TaskDistributor)"
  define s0 where "s0 = echo_init efd td (net_start lf)"
  have f: "rp_shutdown s0 = False" "rp_objects s0 = RBT.empty" "rp_callbacks s0 = RBT.empty" "rp_customEvents s0 = RBT.empty"
    "rp_kernel s0 = net_start lf" "e_acceptor s0 = Acceptor_setOnAccept True Acceptor_ctor" "e_td s0 = td" "e_batch s0 = []"
    "e_links s0 = Map.empty" "e_next s0 = 0" "e_exit s0 = False" "e_fault s0 = None"
    by (simp_all add: s0_def echo_init_def RePoller.extend_def echo.fields_def RePoller_ctor_def)
  have "io_queue td []" by (auto simp: td_def io_queue_def TaskDistributor_inv_def loop_defs queue_defs)
  then have w: "waiting s0 []" by (simp add: waiting_def tasks_wait_def f)
  obtain d1 where d1: "echo_submit tick s0 = (True, s0\<lparr>e_td := d1\<rparr>)" "waiting (s0\<lparr>e_td := d1\<rparr>) [tick]"
    by (rule submit_waiting[OF w, of tick]) simp
  let ?a = "\<lparr>ac_onAccept = True, ac_sock = \<lparr>s_fd = lf\<rparr>\<rparr>"
  let ?s1 = "s0\<lparr>e_td := d1, e_acceptor := ?a\<rparr>"
  have w1: "waiting ?s1 [tick]" using d1(2) by (simp add: waiting_def)
  obtain d where d: "echo_submit (Accepting (Accept_On lf EPOLLIN)) ?s1 = (True, ?s1\<lparr>e_td := d\<rparr>)"
    "waiting (?s1\<lparr>e_td := d\<rparr>) [tick, Accepting (Accept_On lf EPOLLIN)]"
    by (rule submit_waiting[OF w1, of "Accepting (Accept_On lf EPOLLIN)"]) simp
  have a: "(e_acceptor s0)\<lparr>ac_sock := fst (snd (Socket_move_assign (ac_sock (e_acceptor s0)) \<lparr>s_fd = lf\<rparr>))\<rparr> = ?a"
    by (simp add: f Acceptor_setOnAccept_def Acceptor_ctor_def net_defs)
  have st: "TaskDistributor_start ids (TaskDistributor_ctor 4) = (True, td)" by (simp add: td_def TaskDistributor_start_def)
  have sh: "s0\<lparr>e_td := d1, rp_shutdown := False, e_acceptor := ?a\<rparr> = ?s1" using f(1) by simp
  have h: "Socket_handle (fst (snd (Socket_move_assign x \<lparr>s_fd = lf\<rparr>))) = lf" for x by (simp add: net_defs)
  have t: "testTcpServer ids 0 0 0 efd lf (net_start lf) = Inr (?s1\<lparr>e_td := d\<rparr>)"
    using d1(1) d(1) a sh h by (simp add: testTcpServer_def echo_start_def st s0_def[symmetric] Let_def)
  have "echo_inv lf ?s1 [tick, Accepting (Accept_On lf EPOLLIN)]"
    using assms by (simp add: echo_invs f net_start_def)
  then have "echo_inv lf (?s1\<lparr>e_td := d\<rparr>) [tick, Accepting (Accept_On lf EPOLLIN)]" by (simp only: echo_inv_td)
  then have "echo_ok lf (?s1\<lparr>e_td := d\<rparr>)"
    using d(2) unfolding echo_ok_def by (intro exI[of _ "[tick, Accepting (Accept_On lf EPOLLIN)]"]) simp
  then show thesis by (rule that[OF t]) (simp add: f)
qed

lemma testTcpServer_ok:
  assumes "testTcpServer ids opt_ret bind_ret listen_ret efd lf (net_start lf) = Inr s" and "0 < lf"
  shows "echo_ok lf s"
proof -
  obtain td :: "echo_task TaskDistributor" where st: "TaskDistributor_start ids (TaskDistributor_ctor 4) = (True, td)"
    by (simp add: TaskDistributor_start_def)
  have o: "opt_ret = 0" "bind_ret = 0" "listen_ret = 0" using assms(1) by (rule contrapos_pp, simp add: testTcpServer_def st)+
  obtain s' where "testTcpServer ids 0 0 0 efd lf (net_start lf) = Inr s'" "echo_ok lf s'" by (rule testTcpServer_starts[OF assms(2)])
  then show ?thesis using assms(1) o by simp
qed

lemma echo_reachable_ok:
  assumes "echo_reachable s0 s" and "echo_ok lf s0"
  shows "echo_ok lf s"
  using assms
proof (induction rule: echo_reachable.induct)
  case (worker t t')
  then show ?case using worker_keeps_ok by blast
next
  case (client t k)
  then obtain q where "waiting t q" "echo_inv lf t q" "length (filter (\<lambda>t. t = tick) q) = 1" by (auto simp: echo_ok_def)
  then show ?case using client_inv[OF client(2)] unfolding echo_ok_def by (intro exI[of _ q]) (simp add: waiting_def)
qed

text \<open>A run of the worker alone ends up with no work left.\<close>

lemma work_runs_out:
  assumes ok: "echo_ok lf (\<sigma> 0)" and run: "\<And>i. serve_step (\<sigma> i) (\<sigma> (Suc i))"
  obtains n where "\<And>m. n \<le> m \<Longrightarrow> work_left (\<sigma> m) (echo_tasks (\<sigma> m)) = 0"
    and "\<And>i. echo_ok lf (\<sigma> i)" and "\<And>i. clients (\<sigma> i) = clients (\<sigma> 0)"
proof -
  have okn: "echo_ok lf (\<sigma> i)" for i by (induction i) (use ok run worker_keeps_ok in blast)+
  have cl: "clients (\<sigma> i) = clients (\<sigma> 0)" for i by (induction i) (use worker_ok[OF run okn] in \<open>simp_all add: step_done_def\<close>)
  obtain n where n: "work_left (\<sigma> n) (echo_tasks (\<sigma> n)) = 0"
  proof (rule ccontr)
    assume "\<not> thesis"
    then have "(echo_rank (\<sigma> (Suc i)), echo_rank (\<sigma> i)) \<in> rank_less" for i
      using worker_ok[OF run[of i] okn[of i]] that by (auto simp: step_done_def)
    then have "\<exists>f. \<forall>i. (f (Suc i), f i) \<in> rank_less" by (intro exI[of _ "\<lambda>i. echo_rank (\<sigma> i)"]) simp
    then show False using wf_rank_less unfolding wf_iff_no_infinite_down_chain by simp
  qed
  have "work_left (\<sigma> (n + d)) (echo_tasks (\<sigma> (n + d))) = 0" for d
  proof (induction d)
    case (Suc d)
    then show ?case using worker_ok[OF run[of "n + d"] okn[of "n + d"]] by (simp add: step_done_def)
  qed (simp add: n)
  then show thesis using that[OF _ okn cl, of n] by (metis le_add_diff_inverse)
qed

lemma idle_served:
  assumes ok: "echo_ok lf s" and idle: "work_left s (echo_tasks s) = 0" and a: "a < length (n_conns (rp_kernel s))"
  shows "a < n_accepted (rp_kernel s)"
    and "\<not> cn_eof (n_conns (rp_kernel s) ! a) \<Longrightarrow> cn_out (n_conns (rp_kernel s) ! a) = cn_came (n_conns (rp_kernel s) ! a) \<and> e_links s a \<noteq> None"
    and "cn_eof (n_conns (rp_kernel s) ! a) \<Longrightarrow> \<not> referenced s a"
proof -
  obtain q where q: "waiting s q" "echo_inv lf s q" using ok by (auto simp: echo_ok_def)
  have qs: "echo_tasks s = q" by (rule waiting_tasks[OF q(1)])
  have t: "\<forall>t \<in> set q. t = tick" and nn: "\<not> needs s q a" and "length (n_conns (rp_kernel s)) \<le> n_accepted (rp_kernel s)"
    using idle qs a by (auto simp: work_left_def filter_empty_conv)
  then show acc: "a < n_accepted (rp_kernel s)" using a by simp
  have m: "msgs a q = []" using t by (auto simp: msgs_def)
  have "\<forall>a < length (n_conns (rp_kernel s)). conn_ok (n_conns (rp_kernel s) ! a) (msgs a q) (n_accepted (rp_kernel s) \<le> a \<or> attended s q a)"
    using q(2) by (simp add: echo_inv_def inv_data_def)
  then have c: "conn_ok (n_conns (rp_kernel s) ! a) [] (attended s q a)" using a acc m by force
  show "cn_out (n_conns (rp_kernel s) ! a) = cn_came (n_conns (rp_kernel s) ! a) \<and> e_links s a \<noteq> None"
    if "\<not> cn_eof (n_conns (rp_kernel s) ! a)"
    using c nn that by (auto simp: conn_ok_def needs_def net_pending_def attended_def split: if_splits)
  show "\<not> referenced s a" if "cn_eof (n_conns (rp_kernel s) ! a)"
  proof
    assume r: "referenced s a"
    have "\<not> list_ex (holds a) q" using t by (auto simp: list_ex_iff)
    then obtain f where f: "RBT.lookup (rp_objects s) f = Some a" using r qs by (auto simp: referenced_def ran_def)
    then obtain l where l: "e_links s a = Some l" "l_fd l = f" using q(2) unfolding echo_inv_def inv_tables_def by blast
    have "filter (concerns a f) q = []" using t by (auto simp: filter_empty_conv)
    then have "f \<in> n_watched (rp_kernel s)" using stage_idle[of f a] inv_stageD[of s q a l] q(2) l f by (auto simp: echo_inv_def)
    then have "attended s q a" using l by (auto simp: attended_def)
    then show False using nn that by (simp add: needs_def net_pending_def)
  qed
qed

section \<open>Properties\<close>

text \<open>
  Property C2. The echo server is safe. In every state the server reaches from its start, however the worker, the kernel and the clients
  interleave: no assertion or system call has failed and the exit flag is not set; the worker can always take a step; the open connections
  are exactly those whose stream exists, so every descriptor is closed once, by its stream; and of every client,
  what was sent back is the first part of what it sent, the rest being, as long as it has not shut down, what the
  queued sends hold followed by what the kernel has not handed over yet.
\<close>

theorem echo_server_safe:
  assumes "testTcpServer ids opt_ret bind_ret listen_ret efd lf (net_start lf) = Inr s0" and "0 < lf" and "echo_reachable s0 s"
  shows "e_fault s = None \<and> \<not> e_exit s \<and> (\<exists>s'. serve_step s s')
     \<and> (\<forall>f a. n_fds (rp_kernel s) f = Some a \<longleftrightarrow> (\<exists>l. e_links s a = Some l \<and> Socket_handle (ss_sock (l_stream l)) = f))
     \<and> (\<forall>a < length (n_conns (rp_kernel s)). let c = n_conns (rp_kernel s) ! a in
          (\<exists>rest. cn_came c = cn_out c @ rest) \<and> (\<not> cn_eof c \<longrightarrow> cn_came c = cn_out c @ msgs a (echo_tasks s) @ cn_unread c))"
proof -
  have ok: "echo_ok lf s" by (rule echo_reachable_ok[OF assms(3) testTcpServer_ok[OF assms(1,2)]])
  then obtain q where q: "waiting s q" "echo_inv lf s q" by (auto simp: echo_ok_def)
  have qs: "echo_tasks s = q" by (rule waiting_tasks[OF q(1)])
  have "e_fault s = None" "\<not> e_exit s" using q(2) by (simp_all add: echo_inv_def inv_base_def)
  moreover have "n_fds (rp_kernel s) f = Some a \<longleftrightarrow> (\<exists>l. e_links s a = Some l \<and> Socket_handle (ss_sock (l_stream l)) = f)" for f a
  proof
    assume "n_fds (rp_kernel s) f = Some a"
    then obtain l where l: "e_links s a = Some l" "l_fd l = f" using q(2) unfolding echo_inv_def inv_links_def by blast
    then show "\<exists>l. e_links s a = Some l \<and> Socket_handle (ss_sock (l_stream l)) = f"
      using echo_inv_link(6)[OF q(2) l(1)] by (intro exI[of _ l]) (simp add: Socket_handle_def)
  next
    assume "\<exists>l. e_links s a = Some l \<and> Socket_handle (ss_sock (l_stream l)) = f"
    then obtain l where l: "e_links s a = Some l" "Socket_handle (ss_sock (l_stream l)) = f" by blast
    then show "n_fds (rp_kernel s) f = Some a" using echo_inv_link(3,6)[OF q(2) l(1)] by (simp add: Socket_handle_def)
  qed
  moreover have "let c = n_conns (rp_kernel s) ! a in (\<exists>rest. cn_came c = cn_out c @ rest)
      \<and> (\<not> cn_eof c \<longrightarrow> cn_came c = cn_out c @ msgs a (echo_tasks s) @ cn_unread c)" if "a < length (n_conns (rp_kernel s))" for a
    using that q(2) unfolding qs by (auto simp: echo_inv_def inv_data_def conn_ok_def split: if_splits)
  ultimately show ?thesis using worker_enabled[OF ok] by blast
qed

text \<open>For the concrete instances: a server that has been started, and a client that has connected and sent.\<close>

lemma greeted_server:
  obtains s0 s where "testTcpServer Suc 0 0 0 3 5 (net_start 5) = Inr s0" and "echo_reachable s0 s" and "echo_ok 5 s"
    and "n_conns (rp_kernel s) = [\<lparr>cn_came = ''hi'', cn_unread = ''hi'', cn_eof = False, cn_out = []\<rparr>]"
proof -
  obtain s0 where s0: "testTcpServer Suc 0 0 0 3 5 (net_start 5) = Inr s0" "echo_ok 5 s0" "rp_kernel s0 = net_start 5"
    by (rule testTcpServer_starts[of 5 Suc 3]) simp_all
  have k: "n_conns (rp_kernel s0) = []" using s0(3) by (simp add: net_start_def)
  let ?c = "\<lparr>cn_came = [], cn_unread = [], cn_eof = False, cn_out = []\<rparr>"
  let ?s1 = "s0\<lparr>rp_kernel := (rp_kernel s0)\<lparr>n_conns := n_conns (rp_kernel s0) @ [?c]\<rparr>\<rparr>"
  have r1: "echo_reachable s0 ?s1" by (intro echo_reachable.client[OF echo_reachable.start] client_step.connects)
  let ?s2 = "?s1\<lparr>rp_kernel := upd_conn 0 (\<lambda>c. c\<lparr>cn_came := cn_came c @ ''hi'', cn_unread := cn_unread c @ ''hi''\<rparr>) (rp_kernel ?s1)\<rparr>"
  have r2: "echo_reachable s0 ?s2" by (intro echo_reachable.client[OF r1] client_step.sends) (simp_all add: k)
  show thesis by (rule that[OF s0(1) r2 echo_reachable_ok[OF r2 s0(2)]]) (simp add: k upd_conn_def)
qed

theorem echo_server_safe_witness:
  "\<exists>s0 s. testTcpServer Suc 0 0 0 3 5 (net_start 5) = Inr s0 \<and> echo_reachable s0 s \<and> cn_came (n_conns (rp_kernel s) ! 0) = ''hi''
     \<and> e_fault s = None \<and> (\<exists>s'. serve_step s s')"
proof -
  obtain s0 s where s: "testTcpServer Suc 0 0 0 3 5 (net_start 5) = Inr s0" "echo_reachable s0 s"
    "n_conns (rp_kernel s) = [\<lparr>cn_came = ''hi'', cn_unread = ''hi'', cn_eof = False, cn_out = []\<rparr>]" by (rule greeted_server)
  have "(0 :: fd) < 5" by simp
  from echo_server_safe[OF s(1) this s(2)] show ?thesis using s by auto
qed

text \<open>
  Property C1. The echo server serves every client. Once the clients are silent, every run of the worker reaches a state from which on
  all connections have been accepted, every client that has not shut down has been sent back exactly what it sent and keeps its stream, and nothing
  holds the stream of a client that has shut down any more.
\<close>

theorem echo_server_serves:
  assumes "testTcpServer ids opt_ret bind_ret listen_ret efd lf (net_start lf) = Inr s0" and "0 < lf" and "echo_reachable s0 (\<sigma> 0)"
    and "\<And>i. serve_step (\<sigma> i) (\<sigma> (Suc i))"
  shows "\<exists>n. \<forall>m \<ge> n. length (n_conns (rp_kernel (\<sigma> m))) = length (n_conns (rp_kernel (\<sigma> 0)))
     \<and> (\<forall>a < length (n_conns (rp_kernel (\<sigma> 0))). a < n_accepted (rp_kernel (\<sigma> m))
          \<and> (\<not> cn_eof (n_conns (rp_kernel (\<sigma> 0)) ! a) \<longrightarrow>
               cn_out (n_conns (rp_kernel (\<sigma> m)) ! a) = cn_came (n_conns (rp_kernel (\<sigma> 0)) ! a) \<and> e_links (\<sigma> m) a \<noteq> None)
          \<and> (cn_eof (n_conns (rp_kernel (\<sigma> 0)) ! a) \<longrightarrow> \<not> referenced (\<sigma> m) a))"
proof -
  have ok: "echo_ok lf (\<sigma> 0)" by (rule echo_reachable_ok[OF assms(3) testTcpServer_ok[OF assms(1,2)]])
  obtain n where n: "\<And>m. n \<le> m \<Longrightarrow> work_left (\<sigma> m) (echo_tasks (\<sigma> m)) = 0" "\<And>i. echo_ok lf (\<sigma> i)" "\<And>i. clients (\<sigma> i) = clients (\<sigma> 0)"
    by (rule work_runs_out[OF ok assms(4)]) (rule that; assumption)
  have l: "length (n_conns (rp_kernel (\<sigma> i))) = length (n_conns (rp_kernel (\<sigma> 0)))" for i
    using arg_cong[OF n(3)[of i], of length] by (simp add: clients_def)
  have same: "cn_came (n_conns (rp_kernel (\<sigma> i)) ! a) = cn_came (n_conns (rp_kernel (\<sigma> 0)) ! a)"
    "cn_eof (n_conns (rp_kernel (\<sigma> i)) ! a) = cn_eof (n_conns (rp_kernel (\<sigma> 0)) ! a)"
    if "a < length (n_conns (rp_kernel (\<sigma> 0)))" for i a
    using arg_cong[OF n(3)[of i], of "\<lambda>xs. xs ! a"] that l[of i] by (simp_all add: clients_def)
  show ?thesis
  proof (intro exI[of _ n] allI impI conjI)
    fix m assume m: "n \<le> m"
    show "length (n_conns (rp_kernel (\<sigma> m))) = length (n_conns (rp_kernel (\<sigma> 0)))" by (rule l)
    fix a assume a: "a < length (n_conns (rp_kernel (\<sigma> 0)))"
    then have "a < length (n_conns (rp_kernel (\<sigma> m)))" unfolding l[of m] .
    note i = idle_served[OF n(2)[of m] n(1)[OF m] this, unfolded same[OF a, of m]]
    show "a < n_accepted (rp_kernel (\<sigma> m))" by (rule i(1))
    show "cn_out (n_conns (rp_kernel (\<sigma> m)) ! a) = cn_came (n_conns (rp_kernel (\<sigma> 0)) ! a)" "e_links (\<sigma> m) a \<noteq> None"
      if "\<not> cn_eof (n_conns (rp_kernel (\<sigma> 0)) ! a)"
      using i(2)[OF that] by simp_all
    show "\<not> referenced (\<sigma> m) a" if "cn_eof (n_conns (rp_kernel (\<sigma> 0)) ! a)" by (rule i(3)[OF that])
  qed
qed


theorem echo_server_serves_witness:
  "\<exists>s0 \<sigma> n. testTcpServer Suc 0 0 0 3 5 (net_start 5) = Inr s0 \<and> echo_reachable s0 (\<sigma> (0 :: nat)) \<and> (\<forall>i. serve_step (\<sigma> i) (\<sigma> (Suc i)))
     \<and> cn_out (n_conns (rp_kernel (\<sigma> 0)) ! 0) = [] \<and> cn_out (n_conns (rp_kernel (\<sigma> n)) ! 0) = ''hi''"
proof -
  obtain s0 s where s: "testTcpServer Suc 0 0 0 3 5 (net_start 5) = Inr s0" "echo_reachable s0 s" "echo_ok 5 s"
    "n_conns (rp_kernel s) = [\<lparr>cn_came = ''hi'', cn_unread = ''hi'', cn_eof = False, cn_out = []\<rparr>]" by (rule greeted_server)
  have "\<exists>\<sigma>. \<forall>i. (echo_ok 5 (\<sigma> i) \<and> (i = 0 \<longrightarrow> \<sigma> i = s)) \<and> serve_step (\<sigma> i) (\<sigma> (Suc i))"
    by (rule dependent_nat_choice) (use s(3) worker_enabled worker_keeps_ok in blast)+
  then obtain \<sigma> where \<sigma>: "\<sigma> 0 = s" "\<And>i. serve_step (\<sigma> i) (\<sigma> (Suc i))" by blast
  have f: "(0 :: fd) < 5" "echo_reachable s0 (\<sigma> 0)" using s(2) \<sigma>(1) by simp_all
  from echo_server_serves[where \<sigma> = \<sigma>, OF s(1) f \<sigma>(2)] obtain n where
    "\<forall>m \<ge> n. \<forall>a < length (n_conns (rp_kernel (\<sigma> 0))). \<not> cn_eof (n_conns (rp_kernel (\<sigma> 0)) ! a) \<longrightarrow>
       cn_out (n_conns (rp_kernel (\<sigma> m)) ! a) = cn_came (n_conns (rp_kernel (\<sigma> 0)) ! a)" by blast
  then have "cn_out (n_conns (rp_kernel (\<sigma> n)) ! 0) = ''hi''" using \<sigma>(1) s(4) by simp
  then show ?thesis using s \<sigma> by (intro exI[of _ s0] exI[of _ \<sigma>] exI[of _ n]) simp
qed

end
