(* ===== verification/Detach_Server.thy ===== *)
theory Detach_Server
  imports Freelock_Smem Net_Ops
begin

text \<open>
  The server of \<open>example/example_detachtcpserver.cpp\<close>, which passes what its clients do to another process through a shared memory channel:
  the frames its callbacks make, the closures that send them, and the channel of \<open>freelock_smem.cpp\<close> they go through. Only the frames and the channel are modelled here; accepting, reading and closing are
  those of \<open>Echo_Server\<close>.
\<close>

section \<open>Frames\<close>

definition default_magic_01 :: u64 where "default_magic_01 = 0xa9b8c7d6e5f4321c"
definition default_magic_02 :: u64 where "default_magic_02 = 0xf13bc45df678ea9e"

datatype OperatorEnum =
    NONE
  | NOTIFY_NEW_CLIENT
  | NOTIFY_CLIENT_CLOSED
  | NOTIFY_CLIENT_ON_READ
  | NOTIFY_CLIENT_ON_WRITE
  | REQUEST_WRITE_CLIENT
  | REQUEST_CLOSE_CLIENT

fun operator_code :: "OperatorEnum \<Rightarrow> u16" where
  "operator_code NONE = 0"
| "operator_code NOTIFY_NEW_CLIENT = 1"
| "operator_code NOTIFY_CLIENT_CLOSED = 2"
| "operator_code NOTIFY_CLIENT_ON_READ = 3"
| "operator_code NOTIFY_CLIENT_ON_WRITE = 4"
| "operator_code REQUEST_WRITE_CLIENT = 5"
| "operator_code REQUEST_CLOSE_CLIENT = 6"

record TransSendDataHead =
  magic_01 :: u64
  magic_02 :: u64
  message_uid :: u64
  frame_uid :: u64
  frame_size :: u16
  h_op :: u16

text \<open>
  The head takes 40 bytes with its padding. The union of the data has 4056 bytes; its other members lie over the first of them: the address
  over 128, the number over 8.
\<close>

definition HEAD_SIZE :: nat where "HEAD_SIZE = 40"
definition BUFFER_SIZE :: nat where "BUFFER_SIZE = 4096 - HEAD_SIZE"
definition SS_SIZE :: nat where "SS_SIZE = 128"

record TransSendData =
  ts_head :: TransSendDataHead
  ts_buffer :: bytes

text \<open>The object in memory: the fields of the head, its padding, the buffer.\<close>

definition frame_bytes :: "bytes \<Rightarrow> TransSendData \<Rightarrow> bytes" where
  "frame_bytes pad t =
     le_bytes 8 (unat (magic_01 (ts_head t))) @ le_bytes 8 (unat (magic_02 (ts_head t))) @ le_bytes 8 (unat (message_uid (ts_head t)))
     @ le_bytes 8 (unat (frame_uid (ts_head t))) @ le_bytes 2 (unat (frame_size (ts_head t))) @ le_bytes 2 (unat (h_op (ts_head t)))
     @ pad @ ts_buffer t"

text \<open>\<open>memcpy\<close> of \<open>src\<close> to position \<open>pos\<close> of the buffer \<open>dst\<close>; past its end is a fault.\<close>

definition memcpy_at :: "nat \<Rightarrow> bytes \<Rightarrow> bytes \<Rightarrow> bytes outcome" where
  "memcpy_at pos src dst =
     (if pos + length src > length dst then Inl Out_Of_Range else Inr (take pos dst @ src @ drop (pos + length src) dst))"

definition new_frame :: "u64 \<Rightarrow> u64 \<Rightarrow> nat \<Rightarrow> OperatorEnum \<Rightarrow> bytes \<Rightarrow> TransSendData" where
  "new_frame uid frameid sz op buf =
     \<lparr>ts_head = \<lparr>magic_01 = default_magic_01, magic_02 = default_magic_02, message_uid = uid, frame_uid = frameid,
                frame_size = word_of_nat sz, h_op = operator_code op\<rparr>, ts_buffer = buf\<rparr>"

section \<open>The callbacks\<close>

text \<open>
  Each makes its frames from the counter \<open>m_uid\<close>, returned incremented, and a buffer \<open>buf\<close> with indeterminate contents. \<open>ss\<close> is the address of the
  peer as the kernel writes it.
\<close>

definition detach_onAccept :: "bytes \<Rightarrow> nat \<Rightarrow> u64 \<Rightarrow> bytes \<Rightarrow> (TransSendData \<times> u64) outcome" where
  "detach_onAccept ss len uid buf =
     bind_out (memcpy_at 0 ss buf) (\<lambda>b. Inr (new_frame uid 0 len NOTIFY_NEW_CLIENT b, uid + 1))"

definition detach_onClose :: "bool \<Rightarrow> bytes \<Rightarrow> u64 \<Rightarrow> bytes \<Rightarrow> (TransSendData \<times> u64) outcome" where
  "detach_onClose link_locks ss uid buf =
     (if \<not> link_locks then Inl Null_Deref
      else bind_out (memcpy_at 0 ss buf) (\<lambda>b. Inr (new_frame uid 0 SS_SIZE NOTIFY_CLIENT_CLOSED b, uid + 1)))"

definition detach_onWrite :: "int \<Rightarrow> bytes \<Rightarrow> u64 \<Rightarrow> bytes \<Rightarrow> (TransSendData option \<times> u64) outcome" where
  "detach_onWrite ret dat uid buf =
     (if int (length dat) = ret then Inr (None, uid)
      else bind_out (memcpy_at 0 (le_bytes 8 (nat (ret mod 2 ^ 64))) buf) (\<lambda>b.
             Inr (Some (new_frame uid 0 8 NOTIFY_CLIENT_ON_WRITE b), uid + 1)))"

text \<open>
  The loop over the rest of a long read. Its \<open>memcpy\<close> has the data as destination and the buffer as source: the buffer stays
  as the first frame left it.
\<close>

definition overwrite :: "nat \<Rightarrow> bytes \<Rightarrow> bytes \<Rightarrow> bytes" where
  "overwrite i src dst = map (\<lambda>j. if i \<le> j \<and> j < i + length src then src ! (j - i) else dst ! j) [0..<length dst]"

lemma length_overwrite [simp]: "length (overwrite i src dst) = length dst"
  by (simp add: overwrite_def)

function detach_loop :: "bytes \<Rightarrow> nat \<Rightarrow> u64 \<Rightarrow> u64 \<Rightarrow> bytes \<Rightarrow> TransSendData list \<times> u64" where
  "detach_loop dat index frameid uid buf =
     (if index < length dat - 1
      then let crrtsize = min BUFFER_SIZE (length dat - index);
               (fs, uid') = detach_loop (overwrite index (take crrtsize buf) dat) (index + crrtsize) (frameid + 1) (uid + 1) buf
           in (new_frame uid frameid crrtsize NOTIFY_CLIENT_ON_READ buf # fs, uid')
      else ([], uid))"
  by pat_completeness auto
termination
  by (relation "measure (\<lambda>(dat, index, _). length dat - index)") (auto simp: BUFFER_SIZE_def HEAD_SIZE_def)

declare detach_loop.simps [simp del]

definition detach_onRead :: "bytes \<Rightarrow> bytes \<Rightarrow> u64 \<Rightarrow> bytes \<Rightarrow> (TransSendData list \<times> u64) outcome" where
  "detach_onRead ss dat uid buf =
     (if length dat > BUFFER_SIZE + SS_SIZE
      then bind_out (memcpy_at 0 ss buf) (\<lambda>b.
             let pos = BUFFER_SIZE - SS_SIZE
             in bind_out (memcpy_at SS_SIZE (take pos dat) b) (\<lambda>b'.
                  let (fs, uid') = detach_loop dat pos 1 (uid + 1) b'
                  in Inr (new_frame uid 0 (SS_SIZE + length dat) NOTIFY_CLIENT_ON_READ b' # fs, uid')))
      else bind_out (memcpy_at 0 ss buf) (\<lambda>b. bind_out (memcpy_at SS_SIZE dat b) (\<lambda>b'.
             Inr ([new_frame uid 0 (SS_SIZE + length dat) NOTIFY_CLIENT_ON_READ b'], uid + 1))))"

section \<open>The channel\<close>

text \<open>The closures on the IO worker, and the regions written and read. The other process reads the one and writes the other.\<close>

datatype detach_task = Send_Frame TransSendData | Read_Requests

record detach =
  dt_out :: ShDataPrivate_Real
  dt_in :: ShDataPrivate_Real
  dt_queue :: "detach_task list"

definition sendToSharedMemory :: "bytes \<Rightarrow> TransSendData \<Rightarrow> detach \<Rightarrow> detach" where
  "sendToSharedMemory pad t s =
     (if Writer_writable (dt_out s) then s\<lparr>dt_out := snd (Writer_write_some (frame_bytes pad t) (dt_out s))\<rparr>
      else s\<lparr>dt_queue := dt_queue s @ [Send_Frame t]\<rparr>)"

definition dealwith_read :: "bytes \<Rightarrow> detach \<Rightarrow> detach" where
  "dealwith_read dat s = s"

definition readFromSharedMemory :: "detach \<Rightarrow> detach" where
  "readFromSharedMemory s =
     (let s1 = (if Reader_readable (dt_in s)
                then let (_, dat, r) = Reader_read_some (dt_in s) in dealwith_read dat (s\<lparr>dt_in := r\<rparr>)
                else s)
      in s1\<lparr>dt_queue := dt_queue s1 @ [Read_Requests]\<rparr>)"

fun detach_run :: "bytes \<Rightarrow> detach_task \<Rightarrow> detach \<Rightarrow> detach" where
  "detach_run pad (Send_Frame t) s = sendToSharedMemory pad t s"
| "detach_run pad Read_Requests s = readFromSharedMemory s"

text \<open>The head of the queue is called; a callback of the poller queues the frames of a read.\<close>

definition detach_next :: "bytes \<Rightarrow> detach \<Rightarrow> detach" where
  "detach_next pad s = (case dt_queue s of [] \<Rightarrow> s | t # ts \<Rightarrow> detach_run pad t (s\<lparr>dt_queue := ts\<rparr>))"

definition queue_frames :: "TransSendData list \<Rightarrow> detach \<Rightarrow> detach" where
  "queue_frames fs s = s\<lparr>dt_queue := dt_queue s @ map Send_Frame fs\<rparr>"

section \<open>Copies\<close>

lemmas frame_sizes = HEAD_SIZE_def BUFFER_SIZE_def SS_SIZE_def

lemma memcpy_two:
  assumes "length ss = SS_SIZE" and "length buf = BUFFER_SIZE" and "length src \<le> BUFFER_SIZE - SS_SIZE"
  shows "bind_out (memcpy_at 0 ss buf) (memcpy_at SS_SIZE src) = Inr (ss @ src @ drop (SS_SIZE + length src) buf)"
  using assms by (simp add: memcpy_at_def frame_sizes add.commute)

lemma detach_loop_buffers: "\<forall>f \<in> set (fst (detach_loop dat index frameid uid buf)). ts_buffer f = buf"
proof (induction dat index frameid uid buf rule: detach_loop.induct)
  case (1 dat index frameid uid buf)
  then show ?case
    by (subst detach_loop.simps) (auto simp: new_frame_def Let_def split_beta)
qed

lemma detach_loop_some: "index < length dat - 1 \<Longrightarrow> fst (detach_loop dat index frameid uid buf) \<noteq> []"
  by (subst detach_loop.simps) (simp add: Let_def split_beta)

lemma length_frame_bytes:
  "length pad = 4 \<Longrightarrow> length (ts_buffer t) = BUFFER_SIZE \<Longrightarrow> length (frame_bytes pad t) = SHMEM_SIZE_DEFAULT"
  by (simp add: frame_bytes_def frame_sizes SHMEM_SIZE_DEFAULT_def)


text \<open>A frame written to a channel with nothing unread is what the other side reads next.\<close>

lemma written_read:
  assumes "Writer_writable r" and "length msg = SHMEM_SIZE_DEFAULT"
  shows "Reader_readable (snd (Writer_write_some msg r))" and "fst (snd (Reader_read_some (snd (Writer_write_some msg r)))) = msg"
proof -
  show "Reader_readable (snd (Writer_write_some msg r))"
    using assms(1) by (simp add: Reader_readable_def Writer_write_some_def write_publish_def write_copy_def Writer_writable_def Let_def sint_succ_u8)
  have "read_copy (write_publish (write_copy msg r)) = read_copy (write_copy msg r)" by (simp add: read_copy_def write_publish_def)
  then show "fst (snd (Reader_read_some (snd (Writer_write_some msg r)))) = msg"
    using assms(2) by (simp add: Reader_read_some_def Writer_write_some_def read_copy_write_copy)
qed

lemma frame_bytes_fields:
  assumes "length pad = 4"
  shows "take 2 (drop 32 (frame_bytes pad t)) = le_bytes 2 (unat (frame_size (ts_head t)))" and "drop HEAD_SIZE (frame_bytes pad t) = ts_buffer t"
  using assms by (simp_all add: frame_bytes_def HEAD_SIZE_def)

lemma detach_onRead_short:
  assumes "length ss = SS_SIZE" and "length buf = BUFFER_SIZE" and "length dat \<le> BUFFER_SIZE - SS_SIZE"
  shows "detach_onRead ss dat uid buf
     = Inr ([new_frame uid 0 (SS_SIZE + length dat) NOTIFY_CLIENT_ON_READ (ss @ dat @ drop (SS_SIZE + length dat) buf)], uid + 1)"
proof -
  obtain b where b: "memcpy_at 0 ss buf = Inr b" using assms(1,2) by (simp add: memcpy_at_def frame_sizes)
  then have "memcpy_at SS_SIZE dat b = Inr (ss @ dat @ drop (SS_SIZE + length dat) buf)" using memcpy_two[OF assms] by simp
  then show ?thesis using b assms(3) by (simp add: detach_onRead_def frame_sizes)
qed

lemma detach_onRead_long:
  assumes "length ss = SS_SIZE" and "length buf = BUFFER_SIZE" and "BUFFER_SIZE + SS_SIZE < length dat"
  defines "b \<equiv> ss @ take (BUFFER_SIZE - SS_SIZE) dat"
  shows "detach_onRead ss dat uid buf
     = Inr (new_frame uid 0 (SS_SIZE + length dat) NOTIFY_CLIENT_ON_READ b # fst (detach_loop dat (BUFFER_SIZE - SS_SIZE) 1 (uid + 1) b),
            snd (detach_loop dat (BUFFER_SIZE - SS_SIZE) 1 (uid + 1) b))"
proof -
  let ?src = "take (BUFFER_SIZE - SS_SIZE) dat"
  have l: "length ?src = BUFFER_SIZE - SS_SIZE" using assms(3) by (simp add: frame_sizes)
  obtain c where c: "memcpy_at 0 ss buf = Inr c" using assms(1,2) by (simp add: memcpy_at_def frame_sizes)
  have "memcpy_at SS_SIZE ?src c = Inr (ss @ ?src @ drop (SS_SIZE + length ?src) buf)" using memcpy_two[OF assms(1,2), of ?src] c l by simp
  then have "memcpy_at SS_SIZE ?src c = Inr b" using assms(2) l by (simp add: b_def frame_sizes)
  then show ?thesis using c assms(3) by (simp add: detach_onRead_def Let_def split_beta)
qed

section \<open>Properties\<close>

text \<open>
  Property C29. What a read becomes. When at most 3928 bytes were read, the callback makes one frame, and once its closure runs on a channel with
  nothing unread the other process reads exactly that object: the size field, then the address of the peer and the bytes read. With 3929 to
  4184 bytes the copy runs past the end of the frame. A longer read becomes several frames, but all of them hold the same buffer, the
  address and the first 3928 bytes, so that nothing of the rest is ever sent.
\<close>

theorem detach_read_delivered:
  assumes "length ss = SS_SIZE" and "length buf = BUFFER_SIZE" and "length pad = 4" and "Writer_writable (dt_out s)" and "dt_queue s = []"
  shows "(length dat \<le> 3928 \<longrightarrow> (\<exists>f. detach_onRead ss dat uid buf = Inr ([f], uid + 1)
        \<and> (let r = dt_out (detach_next pad (queue_frames [f] s)); msg = fst (snd (Reader_read_some r))
           in Reader_readable r \<and> msg = frame_bytes pad f \<and> take 2 (drop 32 msg) = le_bytes 2 (128 + length dat)
            \<and> take (128 + length dat) (drop 40 msg) = ss @ dat)))
     \<and> (3928 < length dat \<and> length dat \<le> 4184 \<longrightarrow> detach_onRead ss dat uid buf = Inl Out_Of_Range)
     \<and> (4184 < length dat \<longrightarrow> (\<exists>f fs uid'. detach_onRead ss dat uid buf = Inr (f # fs, uid') \<and> fs \<noteq> []
        \<and> (\<forall>g \<in> set (f # fs). ts_buffer g = ss @ take 3928 dat)))"
proof (intro conjI impI)
  assume d: "length dat \<le> 3928"
  let ?f = "new_frame uid 0 (SS_SIZE + length dat) NOTIFY_CLIENT_ON_READ (ss @ dat @ drop (SS_SIZE + length dat) buf)"
  let ?r = "dt_out (detach_next pad (queue_frames [?f] s))"
  have r: "?r = snd (Writer_write_some (frame_bytes pad ?f) (dt_out s))"
    using assms(4,5) by (simp add: detach_next_def queue_frames_def sendToSharedMemory_def)
  have b: "length (ts_buffer ?f) = BUFFER_SIZE" using assms(1,2) d by (simp add: new_frame_def frame_sizes)
  note w = written_read[OF assms(4) length_frame_bytes[OF assms(3) b]]
  have "unat (word_of_nat (SS_SIZE + length dat) :: u16) = 128 + length dat" using d by (subst unat_of_nat) (simp add: SS_SIZE_def)
  then have n: "unat (frame_size (ts_head ?f)) = 128 + length dat" by (simp add: new_frame_def)
  have "drop 40 (frame_bytes pad ?f) = ss @ dat @ drop (SS_SIZE + length dat) buf"
    using frame_bytes_fields(2)[OF assms(3), of ?f] by (simp add: HEAD_SIZE_def new_frame_def)
  then have "take (128 + length dat) (drop 40 (frame_bytes pad ?f)) = ss @ dat" using assms(1) by (simp add: SS_SIZE_def)
  moreover have "detach_onRead ss dat uid buf = Inr ([?f], uid + 1)"
    by (rule detach_onRead_short[OF assms(1,2)]) (use d in \<open>simp add: frame_sizes\<close>)
  ultimately show "\<exists>f. detach_onRead ss dat uid buf = Inr ([f], uid + 1)
        \<and> (let r = dt_out (detach_next pad (queue_frames [f] s)); msg = fst (snd (Reader_read_some r))
           in Reader_readable r \<and> msg = frame_bytes pad f \<and> take 2 (drop 32 msg) = le_bytes 2 (128 + length dat)
            \<and> take (128 + length dat) (drop 40 msg) = ss @ dat)"
    using w frame_bytes_fields(1)[OF assms(3), of ?f] n unfolding Let_def by (intro exI[of _ ?f]) (simp add: r)
next
  assume "3928 < length dat \<and> length dat \<le> 4184"
  then show "detach_onRead ss dat uid buf = Inl Out_Of_Range"
    using assms(1,2) by (simp add: detach_onRead_def memcpy_at_def frame_sizes)
next
  assume d: "4184 < length dat"
  have n: "BUFFER_SIZE + SS_SIZE < length dat" "BUFFER_SIZE - SS_SIZE < length dat - 1" "BUFFER_SIZE - SS_SIZE = 3928" using d by (simp_all add: frame_sizes)
  let ?b = "ss @ take (BUFFER_SIZE - SS_SIZE) dat"
  have "\<forall>g \<in> set (new_frame uid 0 (SS_SIZE + length dat) NOTIFY_CLIENT_ON_READ ?b # fst (detach_loop dat (BUFFER_SIZE - SS_SIZE) 1 (uid + 1) ?b)).
      ts_buffer g = ss @ take 3928 dat"
    using detach_loop_buffers[of dat "BUFFER_SIZE - SS_SIZE" 1 "uid + 1" ?b] n(3) by (simp add: new_frame_def)
  then show "\<exists>f fs uid'. detach_onRead ss dat uid buf = Inr (f # fs, uid') \<and> fs \<noteq> [] \<and> (\<forall>g \<in> set (f # fs). ts_buffer g = ss @ take 3928 dat)"
    using detach_onRead_long[OF assms(1,2) n(1), of uid] detach_loop_some[OF n(2), of 1 "uid + 1" ?b] by blast
qed

theorem detach_read_delivered_witness:
  "\<exists>f. detach_onRead (replicate 128 (CHR ''a'')) ''hello'' 7 (replicate 4056 (CHR ''?'')) = Inr ([f], 8)
     \<and> detach_onRead (replicate 128 (CHR ''a'')) (replicate 4000 (CHR ''b'')) 7 (replicate 4056 (CHR ''?'')) = Inl Out_Of_Range"
proof -
  define z where "z = \<lparr>current_uid = 0, already_uid = 0, sh_size = 0, sh_data = []\<rparr>"
  define s where "s = \<lparr>dt_out = z, dt_in = z, dt_queue = []\<rparr>"
  have a: "length (replicate 128 (CHR ''a'')) = SS_SIZE" "length (replicate 4056 (CHR ''?'')) = BUFFER_SIZE" "length ''....'' = 4"
    "Writer_writable (dt_out s)" "dt_queue s = []"
    by (simp_all add: frame_sizes s_def z_def Writer_writable_def)
  have "\<exists>f. detach_onRead (replicate 128 (CHR ''a'')) ''hello'' 7 (replicate 4056 (CHR ''?'')) = Inr ([f], 7 + 1)"
    using detach_read_delivered[OF a, of "''hello''" 7] by auto
  moreover have "detach_onRead (replicate 128 (CHR ''a'')) (replicate 4000 (CHR ''b'')) 7 (replicate 4056 (CHR ''?'')) = Inl Out_Of_Range"
    using detach_read_delivered[OF a, of "replicate 4000 (CHR ''b'')" 7] by simp
  ultimately show ?thesis by simp
qed

text \<open>
  Frames overtake each other. A closure that finds the channel full queues its frame behind those already there: of two frames
  queued in order, the second is written first when the other process reads between the two closures.
\<close>

theorem detach_frames_overtake:
  assumes "dt_queue s = [Send_Frame f, Send_Frame g]" and "\<not> Writer_writable (dt_out s)" and "length pad = 4" and "length (ts_buffer g) = BUFFER_SIZE"
  shows "\<exists>s1 s2. s1 = detach_next pad s \<and> s2 = detach_next pad (s1\<lparr>dt_out := snd (snd (Reader_read_some (dt_out s1)))\<rparr>)
     \<and> fst (snd (Reader_read_some (dt_out s2))) = frame_bytes pad g \<and> dt_queue s2 = [Send_Frame f]"
proof -
  let ?s1 = "s\<lparr>dt_queue := [Send_Frame g, Send_Frame f]\<rparr>"
  let ?r = "snd (snd (Reader_read_some (dt_out s)))"
  have 1: "detach_next pad s = ?s1" using assms(1,2) by (simp add: detach_next_def sendToSharedMemory_def)
  have w: "Writer_writable ?r" by (simp add: Writer_writable_def Reader_read_some_def read_ack_def)
  then have "detach_next pad (?s1\<lparr>dt_out := ?r\<rparr>) = s\<lparr>dt_queue := [Send_Frame f], dt_out := snd (Writer_write_some (frame_bytes pad g) ?r)\<rparr>"
    by (simp add: detach_next_def sendToSharedMemory_def)
  then show ?thesis using 1 written_read(2)[OF w length_frame_bytes[OF assms(3,4)]] by simp
qed

end
