(* ===== verification/Udp_Service.thy ===== *)
theory Udp_Service
  imports Udp_Echo
begin

text \<open>
  The datagram server of \<open>Udp_Echo\<close> over whole runs. Its closures, tables and socket go through a few stages, an abstract machine that
  every task of the worker is shown to follow. From the stages it follows that the server is safe and answers as \<open>udp_replies\<close> says.
\<close>

unbundle bit_operations_syntax

section \<open>Stages\<close>

text \<open>
  \<open>Starting\<close> says whether the first tick is still ahead of the registration, \<open>Replying\<close> and \<open>Last_Reply\<close> hold the answer that
  is queued, \<open>Posted\<close> has a closed socket whose event was posted by hand, and \<open>Cut_Off\<close> follows an empty datagram.
\<close>

datatype udp_stage = Starting bool | Attentive | Replying bytes bytes | Last_Reply bytes bytes | Closing | Posted | Closed | Cut_Off

abbreviation poll_tick :: udp_task where "poll_tick \<equiv> Poll 3000"

fun stage_queue :: "fd \<Rightarrow> udp_stage \<Rightarrow> udp_task list" where
  "stage_queue f (Starting b) = (if b then [poll_tick, Gram (Listen_Read f)] else [Gram (Listen_Read f), poll_tick])"
| "stage_queue f (Replying a m) = [Gram (Send_To a m), poll_tick]"
| "stage_queue f (Last_Reply a m) = [Gram (Send_To a m), Gram (Close_Sock False), poll_tick]"
| "stage_queue f Closing = [Gram (Close_Sock False), poll_tick]"
| "stage_queue f _ = [poll_tick]"

fun stage_sends :: "udp_stage \<Rightarrow> (bytes \<times> bytes) list" where
  "stage_sends (Replying a m) = [(a, m)]"
| "stage_sends (Last_Reply a m) = [(a, m)]"
| "stage_sends _ = []"

fun stage_serves :: "udp_stage \<Rightarrow> bool" where
  "stage_serves (Starting b) = True"
| "stage_serves Attentive = True"
| "stage_serves (Replying a m) = True"
| "stage_serves _ = False"

definition registered :: "udp_stage \<Rightarrow> bool" where
  "registered st \<longleftrightarrow> (case st of Starting b \<Rightarrow> False | Cut_Off \<Rightarrow> False | _ \<Rightarrow> True)"

definition sock_open :: "udp_stage \<Rightarrow> bool" where
  "sock_open st \<longleftrightarrow> st \<noteq> Posted \<and> st \<noteq> Closed"

definition stage_exit :: "udp_stage \<Rightarrow> bool" where
  "stage_exit st \<longleftrightarrow> st = Closed \<or> st = Cut_Off"

text \<open>The stage after the next task, with the datagrams that wait in the kernel.\<close>

fun next_stage :: "(sockaddr_in \<times> bytes) list \<Rightarrow> udp_stage \<Rightarrow> udp_stage" where
  "next_stage ds (Starting b) = (if b then Starting False else Attentive)"
| "next_stage [] Attentive = Attentive"
| "next_stage ((a, d) # ds) Attentive =
     (if d = [] then Cut_Off
      else if take 2048 d = ''exit'' then Last_Reply (sockaddr_in_bytes a) (take 2048 d)
      else Replying (sockaddr_in_bytes a) (take 2048 d))"
| "next_stage ds (Replying a m) = Attentive"
| "next_stage ds (Last_Reply a m) = Closing"
| "next_stage ds Closing = Posted"
| "next_stage ds Posted = Closed"
| "next_stage ds st = st"

definition next_in :: "udp_stage \<Rightarrow> (sockaddr_in \<times> bytes) list \<Rightarrow> (sockaddr_in \<times> bytes) list" where
  "next_in st ds = (if st = Attentive then tl ds else ds)"

lemmas stage_defs = registered_def sock_open_def stage_exit_def next_in_def

text \<open>What the server's state is in a stage, the answers and the exit apart.\<close>

definition at_stage :: "fd \<Rightarrow> udp \<Rightarrow> udp_stage \<Rightarrow> bool" where
  "at_stage f s st \<longleftrightarrow> \<not> rp_shutdown s \<and> u_fault s = None
     \<and> u_gram s = \<lparr>ss_sock = \<lparr>s_fd = f\<rparr>, ss_onClose = True, ss_onRead = True, ss_onWrite = True\<rparr>
     \<and> RBT.lookup (rp_callbacks s) = (if registered st then [f \<mapsto> ()] else Map.empty)
     \<and> rp_customEvents s = (if st = Posted then RBT.insert f EPOLLIN RBT.empty else RBT.empty)
     \<and> un_open (rp_kernel s) = sock_open st \<and> un_watched (rp_kernel s) = (registered st \<and> sock_open st) \<and> u_exit s = stage_exit st"

text \<open>What a task does to the kernel in a stage.\<close>

definition moved :: "udp \<Rightarrow> udp_stage \<Rightarrow> udp \<Rightarrow> bool" where
  "moved s st s' \<longleftrightarrow> un_came (rp_kernel s') = un_came (rp_kernel s) \<and> un_in (rp_kernel s') = next_in st (un_in (rp_kernel s))
     \<and> un_out (rp_kernel s') = un_out (rp_kernel s) @ stage_sends st"

definition udp_waits :: "udp \<Rightarrow> udp_task list \<Rightarrow> bool" where
  "udp_waits s q \<longleftrightarrow> tasks_wait (u_batch s) (u_td s) q"

lemma udp_submit_waits:
  assumes "udp_waits s q"
  obtains d where "udp_submit t s = (True, s\<lparr>u_td := d\<rparr>)" and "udp_waits (s\<lparr>u_td := d\<rparr>) (q @ [t])"
proof -
  obtain d where "add_io t (u_td s) = (True, Some d)" "tasks_wait (u_batch s) d (q @ [t])"
    using assms by (auto simp: udp_waits_def elim: tasks_wait_add)
  then show thesis using that[of d] by (simp add: udp_submit_def udp_waits_def)
qed

lemma at_stage_td [simp]: "at_stage f (s\<lparr>u_td := d\<rparr>) st = at_stage f s st" "at_stage f (s\<lparr>u_batch := b\<rparr>) st = at_stage f s st"
  by (simp_all add: at_stage_def)

section \<open>The closures\<close>

lemma run_listen:
  assumes "at_stage f s (Starting False)" and "0 < f"
  shows "at_stage f (udp_gram (udp_os f es) (Listen_Read f) s) Attentive" and "moved s (Starting False) (udp_gram (udp_os f es) (Listen_Read f) s)"
    and "u_td (udp_gram (udp_os f es) (Listen_Read f) s) = u_td s" and "u_batch (udp_gram (udp_os f es) (Listen_Read f) s) = u_batch s"
  using assms
  by (auto simp: at_stage_def moved_def stage_defs udp_gram_def DataGram_run_def SockStream_listenReadEvent_def RePoller_append_def control_fd_def
      Epoll_control_def udp_os_def RePoller_setReadyCallback_def)

lemma run_send:
  assumes "at_stage f s st" and "0 < f" and "sock_open st"
  shows "udp_gram os (Send_To a m) s = s\<lparr>rp_kernel := (rp_kernel s)\<lparr>un_out := un_out (rp_kernel s) @ [(a, m)]\<rparr>\<rparr>"
  using assms by (auto simp: at_stage_def udp_gram_def DataGram_run_def Socket_valid_def)

lemma run_close:
  assumes "at_stage f s Closing" and "0 < f"
  shows "at_stage f (udp_gram os (Close_Sock False) s) Posted" and "moved s Closing (udp_gram os (Close_Sock False) s)"
    and "u_td (udp_gram os (Close_Sock False) s) = u_td s" and "u_batch (udp_gram os (Close_Sock False) s) = u_batch s"
  using assms
  by (auto simp: at_stage_def moved_def stage_defs udp_gram_def DataGram_run_def Socket_closeAndNoClear_def Socket_handle_def RePoller_notifyEvents_def)

text \<open>Every closure but the tick, from its stage to the next.\<close>

definition task_done :: "fd \<Rightarrow> udp \<Rightarrow> udp_stage \<Rightarrow> udp \<Rightarrow> bool" where
  "task_done f s st s' \<longleftrightarrow> at_stage f s' (next_stage (un_in (rp_kernel s)) st) \<and> moved s st s'
     \<and> udp_waits s' (stage_queue f (next_stage (un_in (rp_kernel s)) st))"

lemma gram_done:
  assumes st: "at_stage f s st" and f: "0 < f" and q: "stage_queue f st = Gram t # q" and w: "udp_waits s q"
  shows "task_done f s st (udp_gram (udp_os f es) t s)"
proof -
  consider "st = Starting False" "t = Listen_Read f" | a m where "st = Replying a m" "t = Send_To a m"
    | a m where "st = Last_Reply a m" "t = Send_To a m" | "st = Closing" "t = Close_Sock False"
    using q by (cases st) (auto split: if_splits)
  then show ?thesis
  proof cases
    case 1
    then show ?thesis using run_listen[of f s es] st f q w by (auto simp: task_done_def udp_waits_def)
  next
    case 2
    have "at_stage f (udp_gram (udp_os f es) t s) Attentive"
      unfolding 2(2) run_send[OF st[unfolded 2(1)] f, unfolded sock_open_def, simplified] using st 2 by (simp add: at_stage_def stage_defs)
    then show ?thesis using run_send[OF st f] q w 2 by (auto simp: task_done_def udp_waits_def moved_def stage_defs)
  next
    case 3
    have "at_stage f (udp_gram (udp_os f es) t s) Closing"
      unfolding 3(2) run_send[OF st[unfolded 3(1)] f, unfolded sock_open_def, simplified] using st 3 by (simp add: at_stage_def stage_defs)
    then show ?thesis using run_send[OF st f] q w 3 by (auto simp: task_done_def udp_waits_def moved_def stage_defs)
  next
    case 4
    then show ?thesis using run_close[of f s "udp_os f es"] st f q w by (auto simp: task_done_def udp_waits_def)
  qed
qed

section \<open>The tick\<close>

lemma keys_none: "RBT.lookup t = Map.empty \<Longrightarrow> RBT.keys t = []"
  using RBT.lookup_keys[of t] by simp

lemma keys_one: "RBT.lookup t = [f \<mapsto> v] \<Longrightarrow> RBT.keys t = [f]"
  using RBT.lookup_keys[of t] RBT.distinct_keys[of t] by (cases "RBT.keys t"; cases "tl (RBT.keys t)") auto

lemma entries_one: "RBT.entries (RBT.insert f e RBT.empty) = [(f, e)]" for f :: int
  by (simp add: entries_keys keys_one)

lemma custom_same: "rp_customEvents s = RBT.empty \<Longrightarrow> s\<lparr>rp_customEvents := RBT.empty\<rparr> = s" for s :: udp
  by simp

lemma work_quiet:
  assumes st: "at_stage f s st" "st \<noteq> Posted"
  shows "RePoller_work (udp_os f []) call ms s = Some (Inr s)"
proof (cases "registered st")
  case True
  then have "RBT.keys (rp_callbacks s) = [f]" using st by (intro keys_one) (simp add: at_stage_def)
  then show ?thesis using st by (simp add: RePoller_work_def Epoll_wait_def udp_os_def at_stage_def custom_same entries_keys)
next
  case False
  then have "RBT.keys (rp_callbacks s) = []" using st by (intro keys_none) (simp add: at_stage_def)
  then show ?thesis
    using st by (simp add: RePoller_work_def Epoll_wait_def udp_os_def at_stage_def custom_same first_key_def dispatch_callbacks.simps)
qed

lemma work_event:
  assumes st: "at_stage f s Attentive"
  shows "RePoller_work (udp_os f [(f, e)]) call ms s = Some (Inr (call () e s))"
proof -
  have c: "RBT.lookup (rp_callbacks s) = [f \<mapsto> ()]" using st by (simp add: at_stage_def registered_def)
  note k = keys_one[OF c]
  show ?thesis
    using st c k by (simp add: RePoller_work_def Epoll_wait_def udp_os_def at_stage_def custom_same merge_event_def entries_one)
qed

lemma posted_call:
  assumes st: "at_stage f s Posted" and f: "0 < f"
  shows "RePoller_work (udp_os f []) (udp_call os f) ms s = Some (Inr (s\<lparr>rp_customEvents := RBT.empty, u_exit := True\<rparr>))"
proof -
  let ?s = "s\<lparr>rp_customEvents := RBT.empty\<rparr>"
  have c: "RBT.lookup (rp_callbacks s) = [f \<mapsto> ()]" using st by (simp add: at_stage_def registered_def)
  note k = keys_one[OF c]
  have e: "rp_customEvents s = RBT.insert f EPOLLIN RBT.empty" using st by (simp add: at_stage_def)
  have ke: "RBT.keys (RBT.insert f EPOLLIN RBT.empty) = [f]" by (simp add: keys_one)
  have call: "udp_call os f () EPOLLIN ?s = ?s\<lparr>u_exit := True\<rparr>"
    using st by (simp add: at_stage_def udp_call_def udp_recvfrom_def sock_open_def DataGram_on_event_def DataGram_tryRead_def net_defs
        KVPair_ctor_def KVPair_key_def udp_onClose_def EPOLLIN_def)
  show ?thesis
    using c k ke call
    by (simp add: RePoller_work_def Epoll_wait_def udp_os_def e first_key_def dispatch_callbacks.simps[of _ _ "Some f"]
        dispatch_callbacks.simps[of _ _ None] next_key_def Let_def)
qed

text \<open>The callback on a datagram: what it submits, and the state it leaves.\<close>

lemma call_reads:
  assumes "at_stage f s Attentive" and "un_in (rp_kernel s) = (a, d) # ds" and "e AND EPOLLIN \<noteq> 0"
  shows "udp_call os f () e s =
     (if d = [] then snd (RePoller_cancle os f (s\<lparr>rp_kernel := (rp_kernel s)\<lparr>un_in := ds\<rparr>, u_exit := True\<rparr>))
      else udp_onRead a (take 2048 d) (s\<lparr>rp_kernel := (rp_kernel s)\<lparr>un_in := ds\<rparr>\<rparr>))"
proof -
  have "d \<noteq> [] \<Longrightarrow> int (length (take 2048 d)) > 0" by simp
  then show ?thesis
    using assms by (auto simp: at_stage_def udp_call_def udp_recvfrom_def sock_open_def DataGram_on_event_def DataGram_tryRead_def
        KVPair_ctor_def KVPair_key_def KVPair_value_def udp_onClose_def min_def)
qed

lemma call_empty:
  assumes "at_stage f s Attentive" and "un_in (rp_kernel s) = (a, []) # ds" and "e AND EPOLLIN \<noteq> 0" and "udp_waits s q"
  shows "at_stage f (udp_call (udp_os f es) f () e s) Cut_Off" and "moved s Attentive (udp_call (udp_os f es) f () e s)"
    and "udp_waits (udp_call (udp_os f es) f () e s) q"
  using assms unfolding call_reads[OF assms(1-3)]
  by (auto simp: at_stage_def stage_defs moved_def udp_waits_def RePoller_cancle_def control_fd_def Epoll_control_def udp_os_def)

lemma asend_waits:
  assumes "udp_waits s q" and "ss_sock (u_gram s) = \<lparr>s_fd = f\<rparr>" and "0 < f"
  obtains d where "udp_assert (udp_asend (EndPointIPV4_ctor_addr a) m s) = s\<lparr>u_td := d\<rparr>"
    and "udp_waits (s\<lparr>u_td := d\<rparr>) (q @ [Gram (Send_To (sockaddr_in_bytes a) m)])"
proof -
  obtain d where "udp_submit (Gram (Send_To (sockaddr_in_bytes a) m)) s = (True, s\<lparr>u_td := d\<rparr>)"
    "udp_waits (s\<lparr>u_td := d\<rparr>) (q @ [Gram (Send_To (sockaddr_in_bytes a) m)])" by (rule udp_submit_waits[OF assms(1)])
  then show thesis using that[of d] assms(2,3) by (simp add: udp_asend_def EndPointIPV4_ctor_addr_def udp_assert_def Socket_valid_def)
qed

text \<open>What a datagram that is not empty submits.\<close>

definition answer :: "sockaddr_in \<Rightarrow> bytes \<Rightarrow> udp_task list" where
  "answer a m = Gram (Send_To (sockaddr_in_bytes a) m) # (if m = ''exit'' then [Gram (Close_Sock False)] else [])"

lemma onRead_answers:
  assumes w: "udp_waits s q" and f: "ss_sock (u_gram s) = \<lparr>s_fd = f\<rparr>" "0 < f"
  obtains d where "udp_onRead a m s = s\<lparr>u_td := d\<rparr>" and "udp_waits (s\<lparr>u_td := d\<rparr>) (q @ answer a m)"
proof -
  obtain d where d: "udp_assert (udp_asend (EndPointIPV4_ctor_addr a) m s) = s\<lparr>u_td := d\<rparr>"
    "udp_waits (s\<lparr>u_td := d\<rparr>) (q @ [Gram (Send_To (sockaddr_in_bytes a) m)])" by (rule asend_waits[OF w f])
  obtain d' where "udp_submit (Gram (Close_Sock False)) (s\<lparr>u_td := d\<rparr>) = (True, s\<lparr>u_td := d, u_td := d'\<rparr>)"
    "udp_waits (s\<lparr>u_td := d, u_td := d'\<rparr>) ((q @ [Gram (Send_To (sockaddr_in_bytes a) m)]) @ [Gram (Close_Sock False)])"
    by (rule udp_submit_waits[OF d(2)])
  then show thesis
    using that[of d] that[of d'] d by (cases "m = ''exit''") (simp_all add: udp_onRead_def Let_def udp_aclose_def udp_assert_def answer_def)
qed

lemma answer_queue:
  assumes "d \<noteq> []"
  shows "stage_queue f (next_stage ((a, d) # ds) Attentive) = answer a (take 2048 d) @ [poll_tick]"
  using assms by (simp add: answer_def)

lemma call_answers:
  assumes st: "at_stage f s Attentive" and n: "un_in (rp_kernel s) = (a, d) # ds" "d \<noteq> []" and e: "e AND EPOLLIN \<noteq> 0" and w: "udp_waits s q" and f: "0 < f"
  shows "at_stage f (udp_call os f () e s) (next_stage ((a, d) # ds) Attentive)" and "moved s Attentive (udp_call os f () e s)"
    and "udp_waits (udp_call os f () e s) (q @ answer a (take 2048 d))"
proof -
  let ?s = "s\<lparr>rp_kernel := (rp_kernel s)\<lparr>un_in := ds\<rparr>\<rparr>"
  have "udp_waits ?s q" "ss_sock (u_gram ?s) = \<lparr>s_fd = f\<rparr>" using w st by (simp_all add: udp_waits_def at_stage_def)
  then obtain td where td: "udp_onRead a (take 2048 d) ?s = ?s\<lparr>u_td := td\<rparr>" "udp_waits (?s\<lparr>u_td := td\<rparr>) (q @ answer a (take 2048 d))"
    by (rule onRead_answers[OF _ _ f])
  have c: "udp_call os f () e s = ?s\<lparr>u_td := td\<rparr>" using call_reads[OF st n(1) e, of os] n(2) td(1) by simp
  show "udp_waits (udp_call os f () e s) (q @ answer a (take 2048 d))" using td(2) c by simp
  show "moved s Attentive (udp_call os f () e s)" unfolding c using n(1) by (simp add: moved_def next_in_def)
  show "at_stage f (udp_call os f () e s) (next_stage ((a, d) # ds) Attentive)" unfolding c using st n(2) by (simp add: at_stage_def stage_defs)
qed

text \<open>A tick, in any stage that has it next.\<close>

lemma rearm:
  assumes w: "RePoller_work os (udp_call os f) 3000 s = Some (Inr s1)" and st: "at_stage f s1 (next_stage (un_in (rp_kernel s)) st)"
    and m: "moved s st s1" and q: "udp_waits s1 q" "stage_queue f (next_stage (un_in (rp_kernel s)) st) = q @ [poll_tick]"
  shows "\<exists>s'. udp_run os f poll_tick s = Some s' \<and> task_done f s st s'"
proof -
  obtain d where "udp_submit poll_tick s1 = (True, s1\<lparr>u_td := d\<rparr>)" "udp_waits (s1\<lparr>u_td := d\<rparr>) (q @ [poll_tick])" by (rule udp_submit_waits[OF q(1)])
  moreover have "\<not> rp_shutdown s1" using st by (simp add: at_stage_def)
  ultimately show ?thesis using w st m q(2) by (auto simp: udp_run_def task_done_def moved_def)
qed

lemma tick_done:
  assumes st: "at_stage f s st" and f: "0 < f" and q: "stage_queue f st = poll_tick # q" and w: "udp_waits s q" and r: "udp_reports f (rp_kernel s) es"
  shows "\<exists>s'. udp_run (udp_os f es) f poll_tick s = Some s' \<and> task_done f s st s'"
proof (cases "st = Attentive \<and> un_in (rp_kernel s) \<noteq> []")
  case True
  then obtain a d ds where n: "st = Attentive" "un_in (rp_kernel s) = (a, d) # ds" by (cases "un_in (rp_kernel s)") auto
  have "udp_ready (rp_kernel s)" using st n by (simp add: udp_ready_def at_stage_def stage_defs)
  then obtain e where e: "es = [(f, e)]" "e AND EPOLLIN \<noteq> 0" using r by (auto simp: udp_reports_def)
  note st' = st[unfolded n(1)]
  note work = work_event[OF st', of e "udp_call (udp_os f es) f" 3000, folded e(1)]
  have "q = []" using q n(1) by simp
  show ?thesis
  proof (cases "d = []")
    case True
    note c = call_empty[OF st' n(2)[unfolded True] e(2) w, of es]
    show ?thesis by (rule rearm[OF work, where st = st and q = q]) (use c n True \<open>q = []\<close> in simp_all)
  next
    case False
    note c = call_answers[OF st' n(2) False e(2) w f, of "udp_os f es"]
    show ?thesis by (rule rearm[OF work, where st = st and q = "q @ answer a (take 2048 d)"]) (use c n False \<open>q = []\<close> answer_queue[OF False] in simp_all)
  qed
next
  case False
  have "\<not> udp_ready (rp_kernel s)" using False q st by (cases st) (auto simp: udp_ready_def at_stage_def stage_defs split: if_splits)
  then have es: "es = []" using r by (simp add: udp_reports_def)
  show ?thesis
  proof (cases "st = Posted")
    case True
    show ?thesis unfolding es
      by (rule rearm[OF posted_call[OF st[unfolded True] f], where st = st and q = "[]"])
        (use st w q True in \<open>simp_all add: at_stage_def stage_defs moved_def udp_waits_def\<close>)
  next
    case np: False
    then consider "st = Starting True" | "st = Attentive" "un_in (rp_kernel s) = []" | "st = Closed" | "st = Cut_Off"
      using q False by (cases st) (auto split: if_splits)
    then have n: "at_stage f s (next_stage (un_in (rp_kernel s)) st)" "moved s st s"
      "stage_queue f (next_stage (un_in (rp_kernel s)) st) = q @ [poll_tick]"
      using st q by (cases; simp add: at_stage_def stage_defs moved_def)+
    show ?thesis unfolding es by (rule rearm[OF work_quiet[OF st np] n(1,2) w n(3)])
  qed
qed

section \<open>Runs\<close>

text \<open>The datagrams read so far account for the answers, sent and queued, and for the stage.\<close>

definition udp_data :: "udp_stage \<Rightarrow> udp_net \<Rightarrow> bool" where
  "udp_data st k \<longleftrightarrow> (\<exists>rd. un_came k = rd @ un_in k \<and> un_out k @ stage_sends st = udp_replies rd \<and> (udp_stops rd \<longleftrightarrow> \<not> stage_serves st))"

definition udp_at :: "fd \<Rightarrow> udp \<Rightarrow> udp_stage \<Rightarrow> bool" where
  "udp_at f s st \<longleftrightarrow> at_stage f s st \<and> udp_waits s (stage_queue f st) \<and> udp_data st (rp_kernel s)"

lemma udp_data_next:
  assumes d: "udp_data st (rp_kernel s)" and m: "moved s st s'"
  shows "udp_data (next_stage (un_in (rp_kernel s)) st) (rp_kernel s')"
proof -
  obtain rd where rd: "un_came (rp_kernel s) = rd @ un_in (rp_kernel s)" "un_out (rp_kernel s) @ stage_sends st = udp_replies rd"
    "udp_stops rd \<longleftrightarrow> \<not> stage_serves st" using d by (auto simp: udp_data_def)
  show ?thesis
  proof (cases "st = Attentive \<and> un_in (rp_kernel s) \<noteq> []")
    case True
    then obtain a x ds where n: "st = Attentive" "un_in (rp_kernel s) = (a, x) # ds" by (cases "un_in (rp_kernel s)") auto
    then show ?thesis
      unfolding udp_data_def using rd m
      by (intro exI[of _ "rd @ [(a, x)]"]) (auto simp: moved_def next_in_def udp_replies_append udp_stops_def)
  next
    case False
    then have "next_in st (un_in (rp_kernel s)) = un_in (rp_kernel s)" "stage_sends (next_stage (un_in (rp_kernel s)) st) = []"
      "stage_serves (next_stage (un_in (rp_kernel s)) st) = stage_serves st"
      by (cases st; auto simp: next_in_def)+
    then show ?thesis unfolding udp_data_def using rd m by (intro exI[of _ rd]) (simp add: moved_def)
  qed
qed

text \<open>What is left to do while no datagram comes.\<close>

fun stage_left :: "udp_stage \<Rightarrow> nat" where
  "stage_left (Starting b) = (if b then 2 else 1)"
| "stage_left (Replying a m) = 1"
| "stage_left (Last_Reply a m) = 3"
| "stage_left Closing = 2"
| "stage_left Posted = 1"
| "stage_left _ = 0"

definition udp_left :: "udp \<Rightarrow> udp_stage \<Rightarrow> nat" where
  "udp_left s st = stage_left st + (if stage_serves st then 4 * length (un_in (rp_kernel s)) else 0)"

lemma udp_left_next:
  assumes "moved s st s'"
  shows "udp_left s' (next_stage (un_in (rp_kernel s)) st) \<le> udp_left s st"
    and "0 < udp_left s st \<Longrightarrow> udp_left s' (next_stage (un_in (rp_kernel s)) st) < udp_left s st"
  using assms by (cases st; cases "un_in (rp_kernel s)"; auto simp: udp_left_def moved_def next_in_def)+

text \<open>A step of the worker leads to a stage with less to do, or only fetches a batch.\<close>

definition udp_rank :: "udp \<Rightarrow> udp_stage \<Rightarrow> nat \<times> nat" where
  "udp_rank s st = (udp_left s st, if u_batch s = [] then 1 else 0)"

definition udp_moves :: "fd \<Rightarrow> udp \<Rightarrow> udp_stage \<Rightarrow> udp \<Rightarrow> udp_stage \<Rightarrow> bool" where
  "udp_moves f s st s' st' \<longleftrightarrow> udp_at f s' st' \<and> udp_left s' st' \<le> udp_left s st \<and> un_came (rp_kernel s') = un_came (rp_kernel s)
     \<and> (0 < udp_left s st \<longrightarrow> (udp_rank s' st', udp_rank s st) \<in> less_than <*lex*> less_than)"

lemma task_moves:
  assumes "task_done f (s\<lparr>u_batch := ts\<rparr>) st s'" and "udp_at f s st"
  shows "udp_moves f s st s' (next_stage (un_in (rp_kernel s)) st)"
proof -
  have m: "moved s st s'" using assms(1) by (simp add: task_done_def moved_def)
  then have "udp_data (next_stage (un_in (rp_kernel s)) st) (rp_kernel s')" using udp_data_next assms(2) by (simp add: udp_at_def)
  then show ?thesis using assms(1) udp_left_next[OF m] m by (auto simp: udp_moves_def udp_at_def task_done_def moved_def udp_rank_def)
qed

lemma udp_call_moves:
  assumes at: "udp_at f s st" and f: "0 < f" and b: "u_batch s = Some t # ts" and r: "udp_reports f (rp_kernel s) es"
  obtains s' where "udp_run (udp_os f es) f t (s\<lparr>u_batch := ts\<rparr>) = Some s'" and "udp_moves f s st s' (next_stage (un_in (rp_kernel s)) st)"
proof -
  let ?s = "s\<lparr>u_batch := ts\<rparr>"
  obtain q where q: "stage_queue f st = t # q" "udp_waits ?s q"
    using at b tasks_wait_call[of t ts "u_td s" "stage_queue f st"] by (auto simp: udp_at_def udp_waits_def)
  have st: "at_stage f ?s st" "udp_reports f (rp_kernel ?s) es" using at r by (simp_all add: udp_at_def)
  have "\<exists>s'. udp_run (udp_os f es) f t ?s = Some s' \<and> task_done f ?s st s'"
  proof (cases t)
    case (Poll ms)
    then have "t = poll_tick" using q(1) by (cases st) (auto split: if_splits)
    then show ?thesis using tick_done[OF st(1) f _ q(2) st(2)] q(1) by simp
  next
    case (Gram u)
    then show ?thesis using gram_done[OF st(1) f _ q(2), of u es] q(1) by (simp add: udp_run_def)
  qed
  then show thesis using that task_moves[OF _ at] by blast
qed

lemma udp_worker_moves:
  assumes "udp_step f s s'" and at: "udp_at f s st" and f: "0 < f"
  shows "\<exists>st'. udp_moves f s st s' st'"
  using assms(1)
proof cases
  case (udp_fetch b d)
  have w: "tasks_wait [] (u_td s) (stage_queue f st)" using at udp_fetch(3) by (simp add: udp_at_def udp_waits_def)
  have "stage_queue f st \<noteq> []" by (cases st) auto
  then have "tasks_wait b d (stage_queue f st)" "b \<noteq> []" using tasks_wait_fetch[OF w udp_fetch(4)] by simp_all
  then have "udp_moves f s st s' st" using at udp_fetch(1,3) by (simp add: udp_moves_def udp_at_def udp_waits_def udp_left_def udp_rank_def)
  then show ?thesis by blast
next
  case (udp_call_task t ts es)
  then show ?thesis using udp_call_moves[OF at f udp_call_task(1,2)] by fastforce
qed

lemma udp_enabled:
  assumes at: "udp_at f s st" and f: "0 < f"
  shows "\<exists>s'. udp_step f s s'"
proof (cases "u_batch s")
  case Nil
  have "\<not> td_exit (u_td s)" using at tasks_wait_runs by (auto simp: udp_at_def udp_waits_def)
  then show ?thesis using udp_step.udp_fetch[of s] Nil by (metis prod.exhaust)
next
  case (Cons x ts)
  then obtain t where b: "u_batch s = Some t # ts" using at tasks_wait_batch by (fastforce simp: udp_at_def udp_waits_def)
  obtain es where es: "udp_reports f (rp_kernel s) es"
    using that[of "if udp_ready (rp_kernel s) then [(f, EPOLLIN)] else []"] by (simp add: udp_reports_def EPOLLIN_def)
  from udp_call_moves[OF at f b es] show ?thesis using udp_step.udp_call_task[OF b es] by blast
qed

lemma udp_client_at:
  assumes "udp_at f s st"
  shows "udp_at f (s\<lparr>rp_kernel := udp_arrives x (rp_kernel s)\<rparr>) st"
  using assms by (auto simp: udp_at_def at_stage_def udp_waits_def udp_arrives_def udp_data_def)

lemma udp_reachable_at:
  assumes "udp_reachable f s0 s" and "\<exists>st. udp_at f s0 st" and "0 < f"
  shows "\<exists>st. udp_at f s st"
  using assms
proof (induction rule: udp_reachable.induct)
  case (udp_worker t t')
  then show ?case using udp_worker_moves[OF udp_worker(2) _ assms(3)] unfolding udp_moves_def by blast
next
  case (udp_client t x)
  then show ?case using udp_client_at by blast
qed

section \<open>Start\<close>

definition udp_net_start :: udp_net where
  "udp_net_start = \<lparr>un_came = [], un_in = [], un_out = [], un_open = True, un_watched = False\<rparr>"

lemma testUDP_starts:
  assumes "0 < f"
  obtains s where "testUDP ids 0 efd f udp_net_start = Inr s" and "udp_at f s (Starting True)" and "rp_kernel s = udp_net_start"
proof -
  define td where "td = (snd (TaskDistributor_start ids (TaskDistributor_ctor 4)) :: udp_task TaskDistributor)"
  define s0 where "s0 = udp_init efd f td udp_net_start"
  have i: "rp_shutdown s0 = False" "rp_callbacks s0 = RBT.empty" "rp_customEvents s0 = RBT.empty" "rp_kernel s0 = udp_net_start"
    "u_gram s0 = \<lparr>ss_sock = \<lparr>s_fd = f\<rparr>, ss_onClose = True, ss_onRead = True, ss_onWrite = True\<rparr>" "u_td s0 = td" "u_batch s0 = []"
    "u_exit s0 = False" "u_fault s0 = None"
    using assms by (simp_all add: s0_def udp_init_def RePoller.extend_def udp.fields_def RePoller_ctor_def DataGram_setOnRead_def
        DataGram_setOnWrite_def DataGram_setOnClose_def DataGram_ctor_def Socket_ctor_def)
  have "io_queue td []" by (auto simp: td_def io_queue_def TaskDistributor_inv_def loop_defs queue_defs)
  then have w: "udp_waits s0 []" by (simp add: udp_waits_def tasks_wait_def i)
  obtain d1 where d1: "udp_submit poll_tick s0 = (True, s0\<lparr>u_td := d1\<rparr>)" "udp_waits (s0\<lparr>u_td := d1\<rparr>) ([] @ [poll_tick])"
    by (rule udp_submit_waits[OF w])
  obtain d where d: "udp_submit (Gram (Listen_Read f)) (s0\<lparr>u_td := d1\<rparr>) = (True, s0\<lparr>u_td := d1, u_td := d\<rparr>)"
    "udp_waits (s0\<lparr>u_td := d1, u_td := d\<rparr>) (([] @ [poll_tick]) @ [Gram (Listen_Read f)])"
    by (rule udp_submit_waits[OF d1(2)])
  have st: "TaskDistributor_start ids (TaskDistributor_ctor 4) = (True, td)" by (simp add: td_def TaskDistributor_start_def)
  have sh: "s0\<lparr>u_td := d1, rp_shutdown := False\<rparr> = s0\<lparr>u_td := d1\<rparr>" using i(1) by simp
  have bind: "DataGram_bindAddr 0 (DataGram_ctor f)" using assms by (simp add: DataGram_bindAddr_def DataGram_ctor_def Socket_ctor_def Socket_valid_def)
  have t: "testUDP ids 0 efd f udp_net_start = Inr (s0\<lparr>u_td := d\<rparr>)"
    using d1(1) d(1) sh bind i(5) by (simp add: testUDP_def udp_start_events_def st s0_def[symmetric] Let_def Socket_handle_def)
  have "udp_at f (s0\<lparr>u_td := d\<rparr>) (Starting True)"
    using d(2) by (simp add: udp_at_def at_stage_def stage_defs i udp_net_start_def udp_data_def)
  then show thesis by (rule that[OF t]) (simp add: i)
qed

lemma testUDP_at:
  assumes "testUDP ids bind_ret efd f udp_net_start = Inr s" and "0 < f"
  shows "\<exists>st. udp_at f s st"
proof -
  obtain td :: "udp_task TaskDistributor" where st: "TaskDistributor_start ids (TaskDistributor_ctor 4) = (True, td)"
    by (simp add: TaskDistributor_start_def)
  have o: "bind_ret = 0" using assms(1) by (rule contrapos_pp) (simp add: testUDP_def st DataGram_bindAddr_def)
  obtain s' where "testUDP ids 0 efd f udp_net_start = Inr s'" "udp_at f s' (Starting True)" by (rule testUDP_starts[OF assms(2)])
  then show ?thesis using assms(1) o by auto
qed

lemma udp_answered:
  assumes "udp_at f s st"
  shows "\<exists>rest. udp_replies (un_came (rp_kernel s)) = un_out (rp_kernel s) @ rest"
    and "u_exit s \<Longrightarrow> udp_stops (un_came (rp_kernel s)) \<and> un_out (rp_kernel s) = udp_replies (un_came (rp_kernel s))"
    and "udp_left s st = 0 \<Longrightarrow> un_out (rp_kernel s) = udp_replies (un_came (rp_kernel s)) \<and> (u_exit s \<longleftrightarrow> udp_stops (un_came (rp_kernel s)))"
proof -
  let ?k = "rp_kernel s"
  obtain rd where rd: "un_came ?k = rd @ un_in ?k" "un_out ?k @ stage_sends st = udp_replies rd" "udp_stops rd \<longleftrightarrow> \<not> stage_serves st"
    using assms by (auto simp: udp_at_def udp_data_def)
  have e: "u_exit s = stage_exit st" using assms by (simp add: udp_at_def at_stage_def)
  show "\<exists>rest. udp_replies (un_came ?k) = un_out ?k @ rest" unfolding rd(1) by (simp add: udp_replies_append rd(2)[symmetric])
  show "udp_stops (un_came ?k) \<and> un_out ?k = udp_replies (un_came ?k)" if "u_exit s"
    using that rd e by (auto simp: stage_exit_def udp_replies_append)
  show "un_out ?k = udp_replies (un_came ?k) \<and> (u_exit s \<longleftrightarrow> udp_stops (un_came ?k))" if "udp_left s st = 0"
    using that rd e by (cases st) (auto simp: stage_exit_def udp_left_def udp_replies_append split: if_splits)
qed

text \<open>A run of the worker alone ends up with nothing left to do.\<close>

lemma udp_runs_out:
  assumes at: "\<exists>st. udp_at f (\<sigma> 0) st" and f: "0 < f" and run: "\<And>i. udp_step f (\<sigma> i) (\<sigma> (Suc i))"
  obtains n \<tau> where "\<And>i. udp_at f (\<sigma> i) (\<tau> i)" and "\<And>m. n \<le> m \<Longrightarrow> udp_left (\<sigma> m) (\<tau> m) = 0" and "\<And>i. un_came (rp_kernel (\<sigma> i)) = un_came (rp_kernel (\<sigma> 0))"
proof -
  have "\<exists>\<tau>. \<forall>i. udp_at f (\<sigma> i) (\<tau> i) \<and> udp_moves f (\<sigma> i) (\<tau> i) (\<sigma> (Suc i)) (\<tau> (Suc i))"
  proof (rule dependent_nat_choice)
    show "\<exists>y. udp_at f (\<sigma> (Suc i)) y \<and> udp_moves f (\<sigma> i) x (\<sigma> (Suc i)) y" if at': "udp_at f (\<sigma> i) x" for x i
    proof -
      obtain y where "udp_moves f (\<sigma> i) x (\<sigma> (Suc i)) y" using udp_worker_moves[OF run at' f] by blast
      then show ?thesis by (intro exI[of _ y]) (simp add: udp_moves_def)
    qed
  qed (rule at)
  then obtain \<tau> where \<tau>: "\<And>i. udp_at f (\<sigma> i) (\<tau> i)" "\<And>i. udp_moves f (\<sigma> i) (\<tau> i) (\<sigma> (Suc i)) (\<tau> (Suc i))" by blast
  have came: "un_came (rp_kernel (\<sigma> i)) = un_came (rp_kernel (\<sigma> 0))" for i
  proof (induction i)
    case (Suc i)
    then show ?case using \<tau>(2)[of i] by (simp add: udp_moves_def)
  qed simp
  have "wf (less_than <*lex*> less_than)" by (intro wf_lex_prod) simp_all
  then have "\<not> (\<forall>i. (udp_rank (\<sigma> (Suc i)) (\<tau> (Suc i)), udp_rank (\<sigma> i) (\<tau> i)) \<in> less_than <*lex*> less_than)"
    unfolding wf_iff_no_infinite_down_chain by (rule contrapos_nn) (rule exI[of _ "\<lambda>i. udp_rank (\<sigma> i) (\<tau> i)"])
  then obtain n where n: "udp_left (\<sigma> n) (\<tau> n) = 0" using \<tau>(2) unfolding udp_moves_def by blast
  have "udp_left (\<sigma> (n + d)) (\<tau> (n + d)) = 0" for d
  proof (induction d)
    case (Suc d)
    then show ?case using \<tau>(2)[of "n + d"] by (simp add: udp_moves_def)
  qed (simp add: n)
  then show thesis using that[OF \<tau>(1) _ came, of n] by (metis le_add_diff_inverse)
qed

section \<open>Properties\<close>

text \<open>
  Property C4. The datagram server is safe. In every state it reaches from its start, however its worker and the arrival of datagrams
  interleave: no assertion or system call has failed and no read has blocked; the worker can always take a step; the datagrams sent are a first part of the
  answers the specification gives to those that have come; and when the exit flag is set, a datagram that stops the server has come and
  all answers due have been sent.
\<close>

theorem udp_server_safe:
  assumes "testUDP ids bind_ret efd f udp_net_start = Inr s0" and "0 < f" and "udp_reachable f s0 s"
  shows "u_fault s = None \<and> (\<exists>s'. udp_step f s s') \<and> (\<exists>rest. udp_replies (un_came (rp_kernel s)) = un_out (rp_kernel s) @ rest)
     \<and> (u_exit s \<longrightarrow> udp_stops (un_came (rp_kernel s)) \<and> un_out (rp_kernel s) = udp_replies (un_came (rp_kernel s)))"
proof -
  obtain st where at: "udp_at f s st" using udp_reachable_at[OF assms(3) testUDP_at[OF assms(1,2)] assms(2)] by blast
  then have "u_fault s = None" by (simp add: udp_at_def at_stage_def)
  then show ?thesis using udp_enabled[OF at assms(2)] udp_answered(1,2)[OF at] by blast
qed

text \<open>For the concrete instances: a server that has been started, and a datagram that has come.\<close>

lemma greeted_udp:
  obtains s0 s where "testUDP Suc 0 3 5 udp_net_start = Inr s0" and "udp_reachable 5 s0 s" and "udp_at 5 s (Starting True)"
    and "rp_kernel s = udp_arrives (\<lparr>sin_family = 2, sin_port = 80, s_addr = 1\<rparr>, ''exit'') udp_net_start"
proof -
  obtain s0 where s0: "testUDP Suc 0 3 5 udp_net_start = Inr s0" "udp_at 5 s0 (Starting True)" "rp_kernel s0 = udp_net_start"
    by (rule testUDP_starts[of 5 Suc 3]) simp_all
  let ?x = "(\<lparr>sin_family = 2, sin_port = 80, s_addr = 1\<rparr>, ''exit'')"
  let ?s = "s0\<lparr>rp_kernel := udp_arrives ?x (rp_kernel s0)\<rparr>"
  show thesis by (rule that[OF s0(1) udp_reachable.udp_client[OF udp_reachable.udp_start] udp_client_at[OF s0(2)]]) (simp add: s0(3))
qed

theorem udp_server_safe_witness:
  "\<exists>s0 s. testUDP Suc 0 3 5 udp_net_start = Inr s0 \<and> udp_reachable 5 s0 s \<and> length (un_came (rp_kernel s)) = 1 \<and> u_fault s = None
     \<and> (\<exists>s'. udp_step 5 s s')"
proof -
  obtain s0 s where s: "testUDP Suc 0 3 5 udp_net_start = Inr s0" "udp_reachable 5 s0 s"
    "rp_kernel s = udp_arrives (\<lparr>sin_family = 2, sin_port = 80, s_addr = 1\<rparr>, ''exit'') udp_net_start" by (rule greeted_udp)
  have "(0 :: fd) < 5" by simp
  from udp_server_safe[OF s(1) this s(2)] show ?thesis using s by (auto simp: udp_arrives_def udp_net_start_def)
qed

text \<open>
  Property C3. The datagram server answers. Once no more datagrams come, every run of the worker reaches a state from which on exactly the answers of the
  specification have been sent, in order and to the senders, and the exit flag is set exactly if one of the datagrams stops the server: one that reads
  \<open>exit\<close>, or an empty one.
\<close>

theorem udp_server_answers:
  assumes "testUDP ids bind_ret efd f udp_net_start = Inr s0" and "0 < f" and "udp_reachable f s0 (\<sigma> 0)" and "\<And>i. udp_step f (\<sigma> i) (\<sigma> (Suc i))"
  shows "\<exists>n. \<forall>m \<ge> n. un_out (rp_kernel (\<sigma> m)) = udp_replies (un_came (rp_kernel (\<sigma> 0)))
     \<and> (u_exit (\<sigma> m) \<longleftrightarrow> udp_stops (un_came (rp_kernel (\<sigma> 0))))"
proof -
  have at: "\<exists>st. udp_at f (\<sigma> 0) st" by (rule udp_reachable_at[OF assms(3) testUDP_at[OF assms(1,2)] assms(2)])
  obtain n \<tau> where n: "\<And>i. udp_at f (\<sigma> i) (\<tau> i)" "\<And>m. n \<le> m \<Longrightarrow> udp_left (\<sigma> m) (\<tau> m) = 0"
    "\<And>i. un_came (rp_kernel (\<sigma> i)) = un_came (rp_kernel (\<sigma> 0))"
    by (rule udp_runs_out[OF at assms(2,4)]) (rule that; assumption)
  show ?thesis
  proof (intro exI[of _ n] allI impI)
    fix m assume "n \<le> m"
    from udp_answered(3)[OF n(1) n(2)[OF this], unfolded n(3)[of m]]
    show "un_out (rp_kernel (\<sigma> m)) = udp_replies (un_came (rp_kernel (\<sigma> 0))) \<and> (u_exit (\<sigma> m) \<longleftrightarrow> udp_stops (un_came (rp_kernel (\<sigma> 0))))" .
  qed
qed

theorem udp_server_answers_witness:
  "\<exists>s0 \<sigma> n. testUDP Suc 0 3 5 udp_net_start = Inr s0 \<and> udp_reachable 5 s0 (\<sigma> (0 :: nat)) \<and> (\<forall>i. udp_step 5 (\<sigma> i) (\<sigma> (Suc i)))
     \<and> un_out (rp_kernel (\<sigma> 0)) = [] \<and> map snd (un_out (rp_kernel (\<sigma> n))) = [''exit''] \<and> u_exit (\<sigma> n)"
proof -
  obtain s0 s where s: "testUDP Suc 0 3 5 udp_net_start = Inr s0" "udp_reachable 5 s0 s" "udp_at 5 s (Starting True)"
    "rp_kernel s = udp_arrives (\<lparr>sin_family = 2, sin_port = 80, s_addr = 1\<rparr>, ''exit'') udp_net_start" by (rule greeted_udp)
  have f: "(0 :: fd) < 5" by simp
  have "\<exists>\<sigma>. \<forall>i. ((\<exists>st. udp_at 5 (\<sigma> i) st) \<and> (i = 0 \<longrightarrow> \<sigma> i = s)) \<and> udp_step 5 (\<sigma> i) (\<sigma> (Suc i))"
    by (rule dependent_nat_choice) (use s(3) udp_enabled[OF _ f] udp_worker_moves[OF _ _ f] in \<open>unfold udp_moves_def, blast\<close>)+
  then obtain \<sigma> where \<sigma>: "\<sigma> 0 = s" "\<And>i. udp_step 5 (\<sigma> i) (\<sigma> (Suc i))" by blast
  have r: "udp_reachable 5 s0 (\<sigma> 0)" using s(2) \<sigma>(1) by simp
  from udp_server_answers[where \<sigma> = \<sigma>, OF s(1) f r \<sigma>(2)] obtain n where
    "\<forall>m \<ge> n. un_out (rp_kernel (\<sigma> m)) = udp_replies (un_came (rp_kernel (\<sigma> 0))) \<and> (u_exit (\<sigma> m) \<longleftrightarrow> udp_stops (un_came (rp_kernel (\<sigma> 0))))" by blast
  then have "map snd (un_out (rp_kernel (\<sigma> n))) = [''exit''] \<and> u_exit (\<sigma> n)"
    using \<sigma>(1) s(4) by (simp add: udp_arrives_def udp_net_start_def udp_stops_def)
  then show ?thesis using s \<sigma> by (intro exI[of _ s0] exI[of _ \<sigma>] exI[of _ n]) (simp add: udp_arrives_def udp_net_start_def)
qed

end
