(* ===== verification/Spec2Isabelle.thy ===== *)
theory Spec2Isabelle
  imports Timer_Manager Event_Loop Freelock_Smem Re_Poller Http2_Session Ssl_Model Stream_Model
    Thread_Pool Sys_Pipe Uid_Creator A_File IO_File Zlib_Stream Archive_Box Shm_Mutex
    Mysql_Statement Posix_Signal Pgsql_Api Co_Task Net_Ops
    String_Dates Session_Moves Stream_Channel Uring_Loop Sys_Calls Tls_Setup Pgsql_Calls Mutex_Que_Alloc Echo_Service Detach_Server Udp_Service
begin

text \<open>
  \<^bold>\<open>Verification of the andren runtime library.\<close>

  \<^bold>\<open>The program.\<close> andren is a C++20 library for Linux. \<open>include/base\<close> and \<open>source/base\<close> hold containers and wrappers of the
  operating system and of third-party libraries; \<open>include/extention\<close> and \<open>source/extention\<close> build from
  them task distribution, event loops, pollers, streams, HTTP/2 and shared memory channels. The parts meet at
  the task distributor: one thread per queue, worker 0 being the IO worker. The executor and its
  schedule route keyed tasks to the distributor; the event loop keeps one table of services per worker
  and submits itself again round after round; the poller queues its ticks on the IO worker and hands
  events to the callbacks of streams, datagrams and acceptors; asynchronous files queue their
  requests there too; the io_uring service is an event service whose completions call the callbacks of files.

  \<^bold>\<open>Theories.\<close> \<open>Andren_Prelude\<close> has the shared types, the faults (\<open>Inl\<close> of a \<open>fault\<close> is an undefined or throwing
  statement) and generic lemmas. In the order of the sources:

  \<^item> \<open>KV_Pair\<close>, \<open>Heap_Shape\<close>, \<open>Binary_Heap\<close>, \<open>Four_Way_Heap\<close>, \<open>Min_Heap\<close>, \<open>Timer_Manager\<close> (\<open>kvpair.hpp\<close>, \<open>binaryheap.hpp\<close>,
    \<open>fourwayheap.hpp\<close>, \<open>minheap.hpp\<close>, \<open>timermanager.hpp\<close>): the heap order is kept, draining sorts, both heaps are
    interchangeable, timers fire when due and in order.
  \<^item> \<open>Circular_Queue\<close>, \<open>Mutex_Que\<close>, \<open>Mutex_Que_Alloc\<close> (\<open>circleque.hpp\<close>, \<open>mutex_que.hpp\<close>): the growing ring refines a list; the double-buffered
    queues are first-in first-out, also when the consumer's calls are interleaved with producers.
  \<^item> \<open>Task_Sink\<close>, \<open>Task_Distributor\<close>, \<open>Schedule\<close>, \<open>Executor\<close>, \<open>Posix_Thread\<close>, \<open>Thread_Pool\<close> (\<open>task_distributor.cpp\<close>, \<open>schedule.cpp\<close>,
    \<open>executor.cpp\<close>, \<open>thread.cpp\<close>, \<open>threadpool.cpp\<close>): well-formedness, every accepted task called once and in order in
    every interleaving, routing, progress of workers, draining on destruction.
  \<^item> \<open>Events_Service\<close>, \<open>Event_Loop\<close> (\<open>events_service.cpp\<close>, \<open>event_loop.cpp\<close>): services added, found, changed and removed; the
    loop keeps serving all of them.
  \<^item> \<open>Shared_Mem\<close>, \<open>Freelock_Smem\<close>, \<open>Shm_Mutex\<close> (\<open>smem.hh\<close>, \<open>freelock_smem.cpp\<close>, \<open>npsmem.hpp\<close>): the one-slot channel delivers every
    message once through all wraps of its counters; the shared mutex serialises processes, and where it does not.
  \<^item> \<open>IO_Worker\<close>, \<open>Re_Poller\<close>, \<open>Socket_Model\<close>, \<open>Stream_Model\<close>, \<open>Stream_Channel\<close>, \<open>Accept_Loop\<close>, \<open>Ssl_Model\<close>, \<open>Tls_Setup\<close>, \<open>Net_Ops\<close>, \<open>Sys_Calls\<close>, \<open>Http2_Frame\<close>, \<open>Http2_Session\<close>, \<open>Session_Moves\<close> (\<open>epoll.cpp\<close>, \<open>repoller.cpp\<close>, \<open>socket.cpp\<close>,
    \<open>end_point.cpp\<close>, \<open>sockstream.cpp\<close>, \<open>sslstream.cpp\<close>, \<open>datagram.cpp\<close>, \<open>acceptor.cpp\<close>, \<open>ssl.cpp\<close>, \<open>http2frame.hh\<close>, \<open>http2.cpp\<close>): dispatch
    of events, the system calls of sockets, ALPN lists and what the installed callback answers to a client's list, from the setters on, reads and writes of streams, addresses of datagrams, sets of descriptors, what reaches an HTTP/2 stream whatever nghttp2 reports,
    what a move does to a session. \<open>IO_Worker\<close> runs the closures queued on worker 0, \<open>Stream_Channel\<close> connects two socket streams
    and shows that they implement a byte pipe, \<open>Accept_Loop\<close> starts poller and acceptor on one distributor and follows connections from the listening socket to the streams made of them.
  \<^item> \<open>String_Tools\<close>, \<open>String_Dates\<close>, \<open>Uid_Creator\<close>, \<open>Sys_Pipe\<close>, \<open>File_Model\<close>, \<open>A_File\<close>, \<open>IO_Service\<close>, \<open>Uring_Life\<close>, \<open>Uring_Loop\<close>, \<open>IO_File\<close> (\<open>string_tool.cpp\<close>, \<open>uid_creator.cpp\<close>,
    \<open>pipe.cpp\<close>, \<open>ufile.cpp\<close>, \<open>afile.cpp\<close>, \<open>io_service.cpp\<close>, \<open>io_file.cpp\<close>): splitting, dates and times, pieces of writes, directories, requests in
    order, every request of the io_uring service called back once or dropped (\<open>Uring_Life\<close>, with a ring that may be full and callbacks that submit themselves) and the service run by the event loop, a read from request to callback.
  \<^item> \<open>Zlib_Stream\<close>, \<open>Archive_Box\<close>, \<open>Posix_Signal\<close>, \<open>Mysql_Statement\<close>, \<open>Pgsql_Api\<close>, \<open>Pgsql_Calls\<close>, \<open>Co_Task\<close> (\<open>zlibstream.cpp\<close>, \<open>signal.cpp\<close>,
    \<open>mysql_statement.cpp\<close>, \<open>pgsql_api.cpp\<close>, \<open>co_task.hpp\<close>): the compression round trip, unpacking, deadlines, result
    sets, byte order, objects without a connection, coroutines.
  \<^item> \<open>Echo_Server\<close>, \<open>Echo_Invariant\<close>, \<open>Echo_Service\<close>, \<open>Udp_Echo\<close>, \<open>Udp_Service\<close>, \<open>Detach_Server\<close> (\<open>example/example_epoll_tcpserver.cpp\<close>,
    \<open>example/example_detachtcpserver.cpp\<close>): programs on the whole library. The TCP server's acceptor, streams, poller and IO worker run together with
    a kernel and clients; an invariant says for every connection which closures, table entries and descriptors it has, and from it
    follow that nothing faults, that every descriptor is closed once and that silent clients end up served. The datagram server is followed through
    its stages and implements a function from datagrams to answers. Of the detached server the frames and
    the shared memory channel they pass through are modelled, and which reads arrive whole on the other side.

  Interfaces are locales, interpreted on the model's own definitions: \<open>heap_shape\<close> and \<open>min_heap\<close> (both heaps
  and the wrapper), \<open>mpsc_queue\<close> (the three queues), \<open>task_sink\<close> (distributor, executor, thread pool) and
  \<open>unique_owner\<close> (nothing is released that is not open, what is open is what the objects refer to: sockets, epoll, TLS handles and contexts, database connections and results, coroutine tasks). This
  theory holds what spans components: the owners together, and the poller run on the distributor's worker.

  \<^bold>\<open>State and operations.\<close> A class is a record with the members of the source, an operation a function from
  the object to its result and the object afterwards, named after the class and the operation. Shared
  pointers to objects that are mutated from several places are addresses in a store where a property
  depends on it (services of the event loop, contexts of the io_uring service, mapped regions). Closures handed to
  the distributor are constructors of a datatype with a function that runs them. What is closed,
  freed or called is returned as a list in order. Machine integers whose width matters are words.

  \<^bold>\<open>Concurrency.\<close> Steps of different threads and processes interleave in one total order (sequential consistency);
  where the code holds a mutex the step is the critical section. The step relations are \<open>td_step\<close>, \<open>mq_step\<close>,
  \<open>fl_step\<close> (a test, the copy and the change of the counter are the steps of each end; the two loads of a test are one step), \<open>tp_step\<close>, \<open>scope_step\<close>, \<open>handle_step\<close>,
  \<open>ch_step\<close> (two streams, the IO worker and the wire), \<open>us_step\<close> (clients, callbacks, io_uring service and kernel), \<open>serve_step\<close> and \<open>client_step\<close> (the
  worker of the TCP server and its clients) and \<open>udp_step\<close> (the worker of the datagram server).

  \<^bold>\<open>Loops.\<close> A loop that may not end is a \<open>partial_function\<close> into options, \<open>None\<close> meaning that it never returns:
  \<open>split_sub_loop\<close>, \<open>aread_loop\<close>, \<open>shutdown_loop\<close>, \<open>dispatch_callbacks\<close>, \<open>check_loop\<close>, \<open>compress_loop\<close>, \<open>finish_loop\<close>,
  \<open>decompress_loop\<close>, \<open>pack_loop\<close>, \<open>unpack_loop\<close>; that they return, or that they do not, is proved. The loops of worker threads have
  no end of their own: \<open>TaskDistributor_startNextLoop\<close>, \<open>io_rounds\<close> and \<open>worker_run\<close> take the number of rounds, and the
  properties hold for every number, or say how many are enough (two for everything queued on a worker).

  \<^bold>\<open>Parameters.\<close> The answers of system calls, of OpenSSL, nghttp2, io_uring, zlib, libarchive, libpq and the MySQL
  client are arguments; where a property relies on more, a named predicate states it after the
  documentation (\<open>deflater\<close>, \<open>inflater\<close>, \<open>allocator\<close>, \<open>stable\<close>,
  \<open>fair_env\<close>, \<open>kernel_ok\<close>, \<open>takes_all\<close>, \<open>refuses_bad\<close>, \<open>null_safe\<close>, \<open>listening\<close>) and a witness satisfies it. What users must leave alone is named too: \<open>keeps_id\<close> and \<open>orderly\<close> (ids of io_uring requests), \<open>observing\<close> (the table of HTTP/2 streams). For the
  servers the kernel is a state of its own, with what it may report and answer as the predicates \<open>net_reports\<close>, \<open>chops\<close> and \<open>udp_reports\<close>. User callbacks
  are functions of the state they may change.

  \<^bold>\<open>Not modelled.\<close> The placeholder classes (\<open>http1.1\<close>, \<open>http3\<close>, \<open>io_tcp\<close>, \<open>io_datagram\<close>, \<open>database_pgsql\<close>, \<open>database_service\<close>,
  \<open>user_event_service\<close>) have nothing in them; \<open>memclear.hpp\<close>, \<open>noncopyable.hpp\<close>, \<open>base_types.hh\<close> and \<open>exception.hh\<close> are
  macros and traits; error strings, process-wide library initialisation and the calls
  that read the processor count or the calling thread have no state of the program in them; of \<open>example\<close> the two servers above are modelled, as far as their
  sockets, callbacks and closures go, without what they print, their signal handlers and the loops that wait for the exit flag (in the servers' kernels every send succeeds); the other
  examples are demonstrations of single classes that read from the terminal. Weak memory effects below sequential consistency, allocation
  failure and the real time a wait takes are outside the model.

  \<^bold>\<open>Next.\<close> Every component with code of its own is modelled. What could be added are further compositions: a TLS
  server on \<open>SSLStream\<close>, as \<open>Echo_Service\<close> does it for socket streams, and clients of the servers.
\<close>

section \<open>Owners of system resources\<close>

text \<open>
  Property C25. Every resource is released once. For the classes that own a descriptor, a TLS context or
  handle, a database connection or result, or a coroutine frame, take any sequence of constructions around resources just
  opened, move constructions, move assignments (of an object to itself too) and destructions, on any number of objects.
  No \<open>close\<close> or free is ever given a resource that is not open, and afterwards the resources that are open are exactly those
  the members of the objects refer to, each by one object: nothing is released twice, shared or lost, and when all objects are destroyed nothing is open.
\<close>

theorem owners_release_once:
  "owns_exactly (\<lambda>s. descriptor (s_fd s)) (\<lambda>f. 0 < f) Socket_ctor Socket_dtor Socket_move_ctor Socket_move_assign
   \<and> owns_exactly (\<lambda>e. descriptor (m_efd e)) (\<lambda>f. 0 < f) Epoll_ctor Epoll_dtor Epoll_move_ctor Epoll_move_assign
   \<and> owns_exactly (\<lambda>c. pointee (m_ctx c)) (\<lambda>_. True) (\<lambda>h. aSSLContext_ctor_ptr (Some h)) (\<lambda>c. freed_ctx (aSSLContext_dtor c))
       aSSLContext_move_ctor (\<lambda>s c. case aSSLContext_move_assign s c of (eff, s', c') \<Rightarrow> (freed_ctx eff, s', c'))
   \<and> owns_exactly (\<lambda>s. pointee (m_ssl s)) (\<lambda>_. True) (\<lambda>h. aSSL_ctor_ctx (Some h)) (\<lambda>s. freed_ssl (aSSL_dtor s))
       aSSL_move_ctor (\<lambda>s a. case aSSL_move_assign s a of (eff, s', a') \<Rightarrow> (freed_ssl eff, s', a'))
   \<and> owns_exactly (\<lambda>c. pointee (my_handle c)) (\<lambda>_. True) (\<lambda>h. MySQLConn_ctor (Some h)) MySQLConn_dtor MySQLConn_move_ctor MySQLConn_move_assign
   \<and> owns_exactly (\<lambda>c. pointee (pq_handle c)) (\<lambda>_. True) (\<lambda>h. PostgresQLConn_ctor_ptr (Some h)) PostgresQLConn_dtor
       PostgresQLConn_move_ctor PostgresQLConn_move_assign
   \<and> owns_exactly (\<lambda>r. pointee (pq_res r)) (\<lambda>_. True) (\<lambda>h. PostgresQLResult_ctor (Some h)) PostgresQLResult_dtor
       PostgresQLResult_move_ctor PostgresQLResult_move_assign
   \<and> owns_exactly (\<lambda>t. pointee (co_handle t)) (\<lambda>_. True) co_task_ctor_handle co_task_dtor co_task_move_ctor co_task_move_assign"
  by (intro conjI sock_owner.owner_owns epoll_owner.owner_owns ctx_owner.owner_owns
      ssl_owner.owner_owns my_conn.owner_owns pq_conn.owner_owns
      pq_result.owner_owns co_owner.owner_owns)

section \<open>The poller on its worker\<close>

text \<open>
  Property C10. The poller runs for ever on the distributor's IO worker. When the kernel answers
  every wait with at most as many events as the buffer holds and the callbacks neither change the
  callback table nor stop the poller, then after \<open>start\<close> on a running distributor with an empty
  IO queue the worker can be run for any number of rounds without a fault: each round is exactly
  one tick of \<open>work\<close>, in sequence, and leaves exactly the next tick in the queue.
\<close>

theorem RePoller_polls_forever:
  assumes "stable call" and "\<And>c e rp. rp_shutdown (call c e rp) = rp_shutdown rp"
    and "\<And>ep tmo k. \<exists>es k'. Epoll_wait os ep 300 tmo k = (Wait_Ready es, k') \<and> length es \<le> 300"
    and "io_queue ev []"
  shows "\<exists>wev rps ev'. RePoller_start ms rp (Some ev) = Inr (True, rps 0, wev)
     \<and> (\<forall>i < n. RePoller_work os call ms (rps i) = Some (Inr (rps (Suc i))))
     \<and> io_rounds n (RePoller_run_task os call cbo) (rps 0, wev) = Some (Inr (rps n, Some ev'))
     \<and> io_queue ev' [Tick ms]"
proof -
  obtain ev1 where e: "add_io (Tick ms) ev = (True, Some ev1)" "io_queue ev1 [Tick ms]"
    using io_queue_add[OF assms(4), of "Tick ms"] by auto
  let ?rp = "rp\<lparr>rp_shutdown := False\<rparr>"
  have tick: "\<exists>rp'. RePoller_work os call ms rp = Some (Inr rp') \<and> \<not> rp_shutdown rp'" if "\<not> rp_shutdown rp" for rp
  proof -
    obtain es k where "Epoll_wait os (rp_ep rp) 300 (if RBT.keys (rp_customEvents rp) \<noteq> [] then 1 else ms)
        (rp_kernel rp) = (Wait_Ready es, k)" "length es \<le> 300"
      using assms(3) by blast
    from RePoller_work_ready[OF assms(1) this] show ?thesis
      using that call_all_invariant[of rp_shutdown call, OF assms(2)] by simp
  qed
  have s: "RePoller_start ms rp (Some ev) = Inr (True, ?rp, Some ev1)"
    using e(1) by (simp add: RePoller_start_def RePoller_workNextTick_def)
  obtain rps ev' where "rps 0 = ?rp" "\<forall>i < n. RePoller_work os call ms (rps i) = Some (Inr (rps (Suc i)))"
    "io_rounds n (RePoller_run_task os call cbo) (?rp, Some ev1) = Some (Inr (rps n, Some ev'))"
    "io_queue ev' [Tick ms]"
    using tick_sequence[of "\<lambda>rp. \<not> rp_shutdown rp" os call ms ?rp ev1 n cbo] tick e(2) by auto
  with s show ?thesis by (intro exI[of _ "Some ev1"] exI[of _ rps] exI[of _ ev']) simp
qed

theorem RePoller_polls_forever_witness:
  "\<exists>wev (rps :: nat \<Rightarrow> _) ev'.
     RePoller_start 10 demo_poller (Some (snd (TaskDistributor_start Suc (TaskDistributor_ctor 2))))
       = Inr (True, rps 0, wev)
     \<and> io_rounds 1000 (RePoller_run_task (demo_os (Wait_Ready [(5, 1)])) note_call (\<lambda>_ _ _ rp. (0, rp)))
         (rps 0, wev) = Some (Inr (rps 1000, Some ev'))
     \<and> io_queue ev' [Tick 10 :: (u32, nat) rp_task]"
proof -
  have s: "stable note_call" "\<And>c e rp. rp_shutdown (note_call c e rp) = rp_shutdown rp"
    by (simp_all add: stable_def note_call_def)
  have w: "\<exists>es k'. Epoll_wait (demo_os (Wait_Ready [(5, 1)])) ep 300 tmo k = (Wait_Ready es, k') \<and> length es \<le> 300"
    for ep tmo k
    by (simp add: Epoll_wait_def demo_os_def)
  have q: "io_queue (snd (TaskDistributor_start Suc (TaskDistributor_ctor 2)) :: (u32, nat) rp_task TaskDistributor) []"
    by (auto simp: io_queue_def TaskDistributor_inv_def loop_defs queue_defs)
  show ?thesis
    using RePoller_polls_forever[OF s w q, of 10 demo_poller 1000 "\<lambda>_ _ _ rp. (0, rp)"] by blast
qed

end
